(* ===== verification/JS_Prelude.thy ===== *)
theory JS_Prelude
  imports Main "HOL-Library.List_Lexorder" "HOL-Library.Multiset" "HOL-Library.Code_Target_Numeral"
begin

text \<open>
  The part of the JavaScript standard library that the modelled front-end modules use on
  strings, arrays and sets, with the generic lemmas the component theories share.

  A JavaScript string is a sequence of UTF-16 code units; it is modelled as a list of naturals
  (\<open>jstring\<close>), one per code unit, so that \<open>length\<close>, \<open>slice\<close> and indexing count what the
  language counts and characters beyond Latin-1 (the full-width comma, for instance) can be
  written. \<open>js ''abc''\<close> is the string literal. A string is truthy when it is not empty, so
  \<open>filter(Boolean)\<close> on an array of strings is \<open>filter_truthy\<close>.
\<close>

named_theorems js_eval \<open>equations that evaluate literals and library calls on concrete strings\<close>
named_theorems js_str \<open>rewrite rules on the string library\<close>

type_synonym jchar = nat
type_synonym jstring = "jchar list"

section \<open>Literals and white space\<close>

definition js :: "string \<Rightarrow> jstring" where
  "js s = map of_char s"

lemmas js_literal [js_eval] = js_def

lemma js_Nil [simp]: "js [] = []"
  by (simp add: js_def)

lemma js_eq_Nil [simp]: "js s = [] \<longleftrightarrow> s = []"
  by (simp add: js_def)

lemma js_inject [simp]: "js s = js t \<longleftrightarrow> s = t"
  unfolding js_def by (rule inj_map_eq_map) (auto intro: injI)

lemma js_append [simp]: "js (s @ t) = js s @ js t"
  by (simp add: js_def)

text \<open>WhiteSpace and LineTerminator of ECMA-262: what \<open>trim\<close> removes and \<open>\s\<close> matches.\<close>

definition is_ws :: "jchar \<Rightarrow> bool" where
  "is_ws c \<longleftrightarrow> (9 \<le> c \<and> c \<le> 13) \<or> c = 32 \<or> c = 160 \<or> c = 5760 \<or>
     (8192 \<le> c \<and> c \<le> 8202) \<or> c = 8232 \<or> c = 8233 \<or> c = 8239 \<or> c = 8287 \<or>
     c = 12288 \<or> c = 65279"

definition is_digit :: "jchar \<Rightarrow> bool" where
  "is_digit c \<longleftrightarrow> 48 \<le> c \<and> c \<le> 57"

lemma digit_not_ws: "is_digit c \<Longrightarrow> \<not> is_ws c"
  by (auto simp: is_digit_def is_ws_def)

lemma not_ws_printable [simp]: "33 \<le> c \<Longrightarrow> c \<le> 126 \<Longrightarrow> \<not> is_ws c"
  by (simp add: is_ws_def)

lemma ws_space [simp]: "is_ws 32" "is_ws 9" "is_ws 10" "is_ws 13"
  by (simp_all add: is_ws_def)

section \<open>trim\<close>

definition trim_start :: "jstring \<Rightarrow> jstring" where
  "trim_start s = dropWhile is_ws s"

definition trim_end :: "jstring \<Rightarrow> jstring" where
  "trim_end s = rev (dropWhile is_ws (rev s))"

definition trim :: "jstring \<Rightarrow> jstring" where
  "trim s = trim_end (trim_start s)"

text \<open>A string that \<open>trim\<close> leaves alone: empty, or with both ends visible.\<close>

definition trimmed :: "jstring \<Rightarrow> bool" where
  "trimmed s \<longleftrightarrow> s = [] \<or> (\<not> is_ws (hd s) \<and> \<not> is_ws (last s))"

lemma dropWhile_hd: "dropWhile P xs = [] \<or> \<not> P (hd (dropWhile P xs))"
  using hd_dropWhile by blast

lemma trim_Nil [simp]: "trim [] = []"
  by (simp add: trim_def trim_start_def trim_end_def)

lemma trim_end_eq_takeWhile:
  "trim_end s = take (length s - length (takeWhile is_ws (rev s))) s"
  by (simp add: trim_end_def dropWhile_eq_drop drop_rev)

lemma trim_end_prefix: "\<exists>t. s = trim_end s @ t \<and> (\<forall>c \<in> set t. is_ws c)"
proof -
  have "rev s = takeWhile is_ws (rev s) @ dropWhile is_ws (rev s)" by simp
  then have "s = rev (dropWhile is_ws (rev s)) @ rev (takeWhile is_ws (rev s))"
    by (metis rev_append rev_rev_ident)
  then show ?thesis
    unfolding trim_end_def by (metis set_rev set_takeWhileD)
qed

lemma trim_decomp:
  "\<exists>a b. s = a @ trim s @ b \<and> (\<forall>c \<in> set a. is_ws c) \<and> (\<forall>c \<in> set b. is_ws c)"
proof -
  have a: "s = takeWhile is_ws s @ trim_start s" by (simp add: trim_start_def)
  obtain t where t: "trim_start s = trim_end (trim_start s) @ t" "\<forall>c \<in> set t. is_ws c"
    using trim_end_prefix by blast
  from a t(1) have "s = takeWhile is_ws s @ trim s @ t" by (simp add: trim_def)
  moreover have "\<forall>c \<in> set (takeWhile is_ws s). is_ws c" by (meson set_takeWhileD)
  ultimately show ?thesis using t(2) by blast
qed

lemma trim_trimmed [simp]: "trimmed (trim s)"
proof (cases "trim s = []")
  case True
  then show ?thesis by (simp add: trimmed_def)
next
  case False
  let ?d = "dropWhile is_ws (rev (trim_start s))"
  have d: "?d \<noteq> []" using False by (simp add: trim_def trim_end_def)
  then have l: "\<not> is_ws (last (trim s))"
    using dropWhile_hd [of is_ws "rev (trim_start s)"]
    unfolding trim_def trim_end_def last_rev by blast
  have ne: "trim_start s \<noteq> []" using d by auto
  obtain t where t: "trim_start s = trim s @ t"
    using trim_end_prefix [of "trim_start s"] unfolding trim_def by blast
  then have "hd (trim s) = hd (trim_start s)" using False by simp
  moreover have "\<not> is_ws (hd (trim_start s))"
    using ne dropWhile_hd [of is_ws s] by (auto simp: trim_start_def)
  ultimately show ?thesis using l by (simp add: trimmed_def)
qed

lemma trim_id: "trimmed s \<Longrightarrow> trim s = s"
proof -
  assume t: "trimmed s"
  show "trim s = s"
  proof (cases "s = []")
    case False
    with t have h: "\<not> is_ws (hd s)" and l: "\<not> is_ws (last s)" by (auto simp: trimmed_def)
    have "dropWhile is_ws s = s" using False h by (cases s) auto
    moreover have "dropWhile is_ws (rev s) = rev s"
      using False l by (cases s rule: rev_cases) auto
    ultimately show ?thesis by (simp add: trim_def trim_start_def trim_end_def)
  qed simp
qed

lemma trim_eq_iff: "trim s = s \<longleftrightarrow> trimmed s"
  using trim_id trim_trimmed by metis

lemma trim_trim [simp]: "trim (trim s) = trim s"
  by (simp add: trim_id)

lemma trim_eq_Nil: "trim s = [] \<longleftrightarrow> (\<forall>c \<in> set s. is_ws c)"
proof
  assume "trim s = []"
  then show "\<forall>c \<in> set s. is_ws c"
    using trim_decomp [of s] by (metis Un_iff append_Nil set_append)
next
  assume "\<forall>c \<in> set s. is_ws c"
  then have "trim_start s = []" by (simp add: trim_start_def)
  then show "trim s = []" by (simp add: trim_def trim_end_def)
qed

lemma set_trim: "set (trim s) \<subseteq> set s"
  using trim_decomp [of s] by (metis (no_types, lifting) Un_iff set_append subsetI)

lemma trimmed_no_ws: "\<forall>c \<in> set s. \<not> is_ws c \<Longrightarrow> trimmed s"
  by (cases s) (auto simp: trimmed_def)

lemma trim_no_ws: "\<forall>c \<in> set s. \<not> is_ws c \<Longrightarrow> trim s = s"
  by (simp add: trim_id trimmed_no_ws)

lemma length_trim: "length (trim s) \<le> length s"
proof -
  obtain a b where "s = a @ trim s @ b" using trim_decomp by blast
  then have "length s = length a + length (trim s) + length b"
    by (metis add.assoc length_append)
  then show ?thesis by simp
qed

lemma trimmed_append:
  "s \<noteq> [] \<Longrightarrow> t \<noteq> [] \<Longrightarrow> trimmed (s @ u @ t) \<longleftrightarrow> \<not> is_ws (hd s) \<and> \<not> is_ws (last t)"
  by (auto simp: trimmed_def)

section \<open>split, join, Boolean filter\<close>

fun split_on :: "jchar \<Rightarrow> jstring \<Rightarrow> jstring list" where
  "split_on c [] = [[]]"
| "split_on c (x # xs) =
     (if x = c then [] # split_on c xs
      else (case split_on c xs of [] \<Rightarrow> [[x]] | y # ys \<Rightarrow> (x # y) # ys))"

fun join_with :: "jstring \<Rightarrow> jstring list \<Rightarrow> jstring" where
  "join_with sep [] = []"
| "join_with sep [x] = x"
| "join_with sep (x # y # ys) = x @ sep @ join_with sep (y # ys)"

definition filter_truthy :: "jstring list \<Rightarrow> jstring list" where
  "filter_truthy xs = filter (\<lambda>s. s \<noteq> []) xs"

lemma split_on_ne [simp]: "split_on c s \<noteq> []"
  by (cases s) (auto split: list.splits)

lemma split_on_notin: "c \<notin> set s \<Longrightarrow> split_on c s = [s]"
  by (induction s) auto

lemma split_on_append: "c \<notin> set s \<Longrightarrow> split_on c (s @ c # t) = s # split_on c t"
  by (induction s) auto

lemma split_on_parts: "p \<in> set (split_on c s) \<Longrightarrow> c \<notin> set p"
proof (induction s arbitrary: p)
  case (Cons x xs)
  then show ?case by (cases "split_on c xs") (auto split: if_splits)
qed simp

lemma join_with_Cons: "ys \<noteq> [] \<Longrightarrow> join_with sep (x # ys) = x @ sep @ join_with sep ys"
  by (cases ys) auto

lemma join_split: "join_with [c] (split_on c s) = s"
proof (induction s)
  case (Cons x xs)
  show ?case
  proof (cases "x = c")
    case True
    then show ?thesis using Cons by (simp add: join_with_Cons)
  next
    case False
    obtain y ys where y: "split_on c xs = y # ys" by (meson neq_Nil_conv split_on_ne)
    then show ?thesis using Cons False by (cases ys) auto
  qed
qed simp

lemma split_join:
  "xs \<noteq> [] \<Longrightarrow> \<forall>x \<in> set xs. c \<notin> set x \<Longrightarrow> split_on c (join_with [c] xs) = xs"
proof (induction xs)
  case (Cons x xs)
  then show ?case
    by (cases "xs = []") (auto simp: join_with_Cons split_on_append split_on_notin)
qed simp

lemma filter_truthy_set [simp]: "set (filter_truthy xs) = set xs - {[]}"
  by (auto simp: filter_truthy_def)

lemma filter_truthy_id: "[] \<notin> set xs \<Longrightarrow> filter_truthy xs = xs"
  by (auto simp: filter_truthy_def filter_id_conv)

lemma filter_truthy_append [simp]:
  "filter_truthy (xs @ ys) = filter_truthy xs @ filter_truthy ys"
  by (simp add: filter_truthy_def)

lemma filter_truthy_Nil [simp]: "filter_truthy [] = []"
  by (simp add: filter_truthy_def)

lemma filter_truthy_Cons:
  "filter_truthy (x # xs) = (if x = [] then filter_truthy xs else x # filter_truthy xs)"
  by (simp add: filter_truthy_def)

text \<open>\<open>s.split(c).map(trim).filter(Boolean)\<close>, the idiom of every comma-separated list.\<close>

definition split_trim :: "jchar \<Rightarrow> jstring \<Rightarrow> jstring list" where
  "split_trim c s = filter_truthy (map trim (split_on c s))"

text \<open>A list of items that survives being joined with \<open>c\<close> and split again.\<close>

definition clean_items :: "jchar \<Rightarrow> jstring list \<Rightarrow> bool" where
  "clean_items c xs \<longleftrightarrow> (\<forall>x \<in> set xs. x \<noteq> [] \<and> trimmed x \<and> c \<notin> set x)"

lemma split_trim_clean: "clean_items c (split_trim c s)"
proof -
  have "trimmed x \<and> c \<notin> set x" if "x \<in> set (map trim (split_on c s))" for x
    using that split_on_parts [of _ c s] set_trim by fastforce
  then show ?thesis by (auto simp: clean_items_def split_trim_def)
qed

lemma split_trim_join: "clean_items c xs \<Longrightarrow> split_trim c (join_with [c] xs) = xs"
proof (cases "xs = []")
  case True
  then show ?thesis by (simp add: split_trim_def filter_truthy_def)
next
  case False
  assume c: "clean_items c xs"
  then have "map trim xs = xs" by (auto simp: clean_items_def trim_id map_idI)
  moreover have "[] \<notin> set xs" using c by (auto simp: clean_items_def)
  ultimately show ?thesis
    using False c by (simp add: split_trim_def split_join clean_items_def filter_truthy_id)
qed

section \<open>Sub-strings\<close>

definition starts_with :: "jstring \<Rightarrow> jstring \<Rightarrow> bool" where
  "starts_with p s \<longleftrightarrow> take (length p) s = p"

definition ends_with :: "jstring \<Rightarrow> jstring \<Rightarrow> bool" where
  "ends_with p s \<longleftrightarrow> length p \<le> length s \<and> drop (length s - length p) s = p"

text \<open>\<open>s.slice(0, n)\<close> and \<open>s.slice(-n)\<close> for a non-negative literal \<open>n\<close>.\<close>

definition slice_to :: "nat \<Rightarrow> jstring \<Rightarrow> jstring" where
  "slice_to n s = take n s"

definition slice_last :: "nat \<Rightarrow> jstring \<Rightarrow> jstring" where
  "slice_last n s = drop (length s - n) s"

text \<open>\<open>s.indexOf(p)\<close>, with \<open>None\<close> for -1, and \<open>s.includes(p)\<close>.\<close>

fun index_of :: "jstring \<Rightarrow> jstring \<Rightarrow> nat option" where
  "index_of p [] = (if p = [] then Some 0 else None)"
| "index_of p (x # xs) =
     (if starts_with p (x # xs) then Some 0 else map_option Suc (index_of p xs))"

definition str_includes :: "jstring \<Rightarrow> jstring \<Rightarrow> bool" where
  "str_includes p s \<longleftrightarrow> index_of p s \<noteq> None"

lemma starts_with_iff: "starts_with p s \<longleftrightarrow> (\<exists>t. s = p @ t)"
  by (metis append_eq_conv_conj append_take_drop_id starts_with_def)

lemma starts_with_append [simp]: "starts_with p (p @ t)"
  by (simp add: starts_with_def)

lemma starts_with_Nil [simp]: "starts_with [] s"
  by (simp add: starts_with_def)

lemma starts_with_code:
  "starts_with (p # ps) [] = False"
  "starts_with (p # ps) (x # xs) = (p = x \<and> starts_with ps xs)"
  by (auto simp: starts_with_def)

lemma index_of_Some:
  "index_of p s = Some i \<Longrightarrow> i + length p \<le> length s \<and> s = take i s @ p @ drop (i + length p) s"
proof (induction s arbitrary: i)
  case (Cons x xs)
  show ?case
  proof (cases "starts_with p (x # xs)")
    case True
    then obtain t where t: "x # xs = p @ t" by (auto simp: starts_with_iff)
    have "length p \<le> length (x # xs)" unfolding t by simp
    moreover have "x # xs = p @ drop (length p) (x # xs)" unfolding t by simp
    ultimately show ?thesis using True Cons.prems by simp
  next
    case False
    with Cons.prems obtain j where j: "index_of p xs = Some j" "i = Suc j" by auto
    with Cons.IH [OF j(1)] show ?thesis by simp
  qed
qed (auto split: if_splits)

lemma index_of_append: "\<exists>i. index_of p (a @ p @ b) = Some i \<and> i \<le> length a"
proof (induction a)
  case Nil
  have "starts_with p (p @ b)" by simp
  then show ?case by (cases "p @ b") auto
qed auto

lemma includes_iff: "str_includes p s \<longleftrightarrow> (\<exists>a b. s = a @ p @ b)"
  by (metis str_includes_def index_of_Some index_of_append option.distinct(1) option.exhaust)

lemma index_of_least: "index_of p s = Some i \<Longrightarrow> j < i \<Longrightarrow> \<not> starts_with p (drop j s)"
proof (induction s arbitrary: i j)
  case (Cons x xs)
  then show ?case by (cases j) (auto split: if_splits)
qed (auto split: if_splits)

section \<open>Sets with insertion order\<close>

text \<open>\<open>Array.from(new Set(xs))\<close>: the distinct elements in the order of their first occurrence.\<close>

fun uniq :: "'a list \<Rightarrow> 'a list" where
  "uniq [] = []"
| "uniq (x # xs) = x # filter (\<lambda>y. y \<noteq> x) (uniq xs)"

lemma set_uniq [simp]: "set (uniq xs) = set xs"
  by (induction xs) auto

lemma distinct_uniq [simp]: "distinct (uniq xs)"
  by (induction xs) auto

lemma uniq_distinct: "distinct xs \<Longrightarrow> uniq xs = xs"
  by (induction xs) (auto simp: filter_id_conv)

lemma uniq_uniq [simp]: "uniq (uniq xs) = uniq xs"
  by (simp add: uniq_distinct)

lemma length_uniq_le: "length (uniq xs) \<le> length xs"
  by (induction xs) (auto intro: le_trans [OF length_filter_le])

lemma uniq_filter: "uniq (filter P xs) = filter P (uniq xs)"
  by (induction xs) (auto simp: conj_commute filter_id_conv intro: filter_cong)

lemma no_member_Nil: "(\<And>x. x \<notin> set xs) \<Longrightarrow> xs = []"
  by (metis list.set_intros(1) neq_Nil_conv)

lemma set_map_filter: "set (List.map_filter f xs) = {y. \<exists>x \<in> set xs. f x = Some y}"
  by (force simp: List.map_filter_def)

section \<open>Decimal numerals\<close>

text \<open>\<open>String(n)\<close> for a natural number below $10^{21}$, and \<open>parseInt(s, 10)\<close> on a string of digits.\<close>

fun nat_to_js :: "nat \<Rightarrow> jstring" where
  "nat_to_js n = (if n < 10 then [48 + n] else nat_to_js (n div 10) @ [48 + n mod 10])"

declare nat_to_js.simps [simp del]

definition digits_val :: "jstring \<Rightarrow> nat" where
  "digits_val s = foldl (\<lambda>a d. 10 * a + (d - 48)) 0 s"

lemma digits_val_snoc [simp]: "digits_val (s @ [d]) = 10 * digits_val s + (d - 48)"
  by (simp add: digits_val_def)

lemma nat_to_js_ne [simp]: "nat_to_js n \<noteq> []"
  by (subst nat_to_js.simps) simp

lemma nat_to_js_digits: "\<forall>c \<in> set (nat_to_js n). is_digit c"
proof (induction n rule: nat_to_js.induct)
  case (1 n)
  then show ?case
    by (cases "n < 10") (auto simp: nat_to_js.simps [of n] is_digit_def)
qed

lemma digits_val_nat_to_js [simp]: "digits_val (nat_to_js n) = n"
proof (induction n rule: nat_to_js.induct)
  case (1 n)
  show ?case
  proof (cases "n < 10")
    case True
    then show ?thesis by (simp add: nat_to_js.simps [of n] digits_val_def)
  next
    case False
    with 1 show ?thesis by (simp add: nat_to_js.simps [of n])
  qed
qed

lemma nat_to_js_inject [simp]: "nat_to_js m = nat_to_js n \<longleftrightarrow> m = n"
  by (metis digits_val_nat_to_js)

lemma nat_to_js_no_ws: "c \<in> set (nat_to_js n) \<Longrightarrow> \<not> is_ws c"
  using nat_to_js_digits digit_not_ws by blast

lemma trim_nat_to_js [simp]: "trim (nat_to_js n) = nat_to_js n"
  using nat_to_js_no_ws trim_no_ws by blast

section \<open>Letter case\<close>

text \<open>
  \<open>toLowerCase\<close> and \<open>toUpperCase\<close> on the ASCII letters. The modules compare the result with ASCII
  words only.
\<close>

definition to_lower :: "jstring \<Rightarrow> jstring" where
  "to_lower s = map (\<lambda>c. if 65 \<le> c \<and> c \<le> 90 then c + 32 else c) s"

definition to_upper :: "jstring \<Rightarrow> jstring" where
  "to_upper s = map (\<lambda>c. if 97 \<le> c \<and> c \<le> 122 then c - 32 else c) s"

lemma to_lower_idem [simp]: "to_lower (to_lower s) = to_lower s"
  by (auto simp: to_lower_def)

section \<open>findIndex\<close>

fun find_index :: "('a \<Rightarrow> bool) \<Rightarrow> 'a list \<Rightarrow> nat option" where
  "find_index P [] = None"
| "find_index P (x # xs) = (if P x then Some 0 else map_option Suc (find_index P xs))"

lemma find_index_append:
  "\<forall>y \<in> set a. \<not> P y \<Longrightarrow> P x \<Longrightarrow> find_index P (a @ x # b) = Some (length a)"
  by (induction a) auto

lemma find_index_Some: "find_index P xs = Some i \<Longrightarrow> i < length xs \<and> P (xs ! i)"
  by (induction xs arbitrary: i) (auto split: if_splits)

section \<open>Invariants of machines\<close>

text \<open>
  The contract of a machine with an invariant: its start states have it and every step keeps it.
  Then every state reached has it.
\<close>

locale machine_invariant =
  fixes start :: "'s \<Rightarrow> bool" and step :: "'s \<Rightarrow> 's \<Rightarrow> bool" and inv :: "'s \<Rightarrow> bool"
  assumes start_inv: "start s \<Longrightarrow> inv s"
    and step_inv: "inv s \<Longrightarrow> step s s' \<Longrightarrow> inv s'"
begin

lemma steps_inv: "step\<^sup>*\<^sup>* s s' \<Longrightarrow> inv s \<Longrightarrow> inv s'"
  by (induction rule: rtranclp_induct) (auto intro: step_inv)

lemma reachable_inv: "start s \<Longrightarrow> step\<^sup>*\<^sup>* s s' \<Longrightarrow> inv s'"
  using start_inv steps_inv by blast

end

end
