(* ===== verification/Status_Codes.thy ===== *)
theory Status_Codes
  imports JS_Prelude "HOL-Library.Product_Lexorder"
begin

text \<open>
  HTTP status-code rules (\<open>src/web/default/src/lib/http-status-code-rules.ts\<close>): the parser of
  lists such as \<open>401,500-503\<close>, its token parser and the merging of overlapping or adjacent ranges.
  The specification is the set of status codes a rule list selects (\<open>codes\<close>); the normal form is a
  list of ranges that are in order and separated by gaps (\<open>separated\<close>). The locale
  \<open>range_normaliser\<close> states what a caller may rely on and derives canonicity and idempotence from it;
  \<open>mergeRanges\<close> is interpreted as its instance.
\<close>

section \<open>Data\<close>

record StatusCodeRange =
  sc_start :: nat
  sc_end :: nat

record ParsedHttpStatusCodeRules =
  ok :: bool
  ranges :: "StatusCodeRange list"
  tokens :: "jstring list"
  normalized :: jstring
  invalidTokens :: "jstring list"

section \<open>Operations\<close>

definition isNumber :: "jstring \<Rightarrow> bool" where
  "isNumber s \<longleftrightarrow> s \<noteq> [] \<and> list_all is_digit s"

text \<open>
  \<open>parseInt\<close> on a string of digits is its value; a value beyond the exact integers of a double is
  above 599 with and without rounding, so the exact natural number decides \<open>isValidCode\<close> alike.
\<close>

definition isValidCode :: "nat \<Rightarrow> bool" where
  "isValidCode code \<longleftrightarrow> 100 \<le> code \<and> code \<le> 599"

definition parseToken :: "jstring \<Rightarrow> StatusCodeRange option" where
  "parseToken token =
     (let cleaned = filter (\<lambda>c. \<not> is_ws c) (trim token) in
      if cleaned = [] then None
      else if str_includes (js ''-'') cleaned then
        (case split_on 45 cleaned of
           a # b # _ \<Rightarrow>
             if \<not> isNumber a \<or> \<not> isNumber b then None
             else (let s = digits_val a; e = digits_val b in
                   if \<not> isValidCode s \<or> \<not> isValidCode e \<or> s > e then None
                   else Some \<lparr>sc_start = s, sc_end = e\<rparr>)
         | _ \<Rightarrow> None)
      else if \<not> isNumber cleaned then None
      else (let code = digits_val cleaned in
            if \<not> isValidCode code then None else Some \<lparr>sc_start = code, sc_end = code\<rparr>))"

definition range_key :: "StatusCodeRange \<Rightarrow> nat \<times> nat" where
  "range_key r = (sc_start r, sc_end r)"

definition merge_step :: "StatusCodeRange list \<Rightarrow> StatusCodeRange \<Rightarrow> StatusCodeRange list" where
  "merge_step merged current =
     (if merged = [] \<or> sc_start current > sc_end (last merged) + 1 then merged @ [current]
      else butlast merged @ [(last merged)\<lparr>sc_end := max (sc_end (last merged)) (sc_end current)\<rparr>])"

definition mergeRanges :: "StatusCodeRange list \<Rightarrow> StatusCodeRange list" where
  "mergeRanges rs = (if rs = [] then [] else foldl merge_step [] (sort_key range_key rs))"

definition range_token :: "StatusCodeRange \<Rightarrow> jstring" where
  "range_token r =
     (if sc_start r = sc_end r then nat_to_js (sc_start r)
      else nat_to_js (sc_start r) @ js ''-'' @ nat_to_js (sc_end r))"

text \<open>The code point U+FF0C (65292) is the full-width comma.\<close>

definition status_segments :: "jstring \<Rightarrow> jstring list" where
  "status_segments raw = split_trim 44 (map (\<lambda>c. if c = 65292 then 44 else c) raw)"

text \<open>The argument is \<open>None\<close> for null or undefined, else what its \<open>toString\<close> gives.\<close>

definition parseHttpStatusCodeRules :: "jstring option \<Rightarrow> ParsedHttpStatusCodeRules" where
  "parseHttpStatusCodeRules input =
     (let raw = trim (case input of None \<Rightarrow> [] | Some s \<Rightarrow> s) in
      if length raw = 0 then
        \<lparr>ok = True, ranges = [], tokens = [], normalized = [], invalidTokens = []\<rparr>
      else
        let segments = status_segments raw;
            invalid = filter (\<lambda>s. parseToken s = None) segments;
            rs = List.map_filter parseToken segments in
        if length invalid > 0 then
          \<lparr>ok = False, ranges = [], tokens = [], normalized = raw, invalidTokens = invalid\<rparr>
        else
          let merged = mergeRanges rs; toks = map range_token merged in
          \<lparr>ok = True, ranges = merged, tokens = toks, normalized = join_with (js '','') toks,
           invalidTokens = []\<rparr>)"

section \<open>Specification: sets of codes, separated ranges\<close>

definition range_codes :: "StatusCodeRange \<Rightarrow> nat set" where
  "range_codes r = {sc_start r .. sc_end r}"

definition codes :: "StatusCodeRange list \<Rightarrow> nat set" where
  "codes rs = (\<Union>r \<in> set rs. range_codes r)"

definition proper :: "StatusCodeRange \<Rightarrow> bool" where
  "proper r \<longleftrightarrow> sc_start r \<le> sc_end r"

fun separated :: "StatusCodeRange list \<Rightarrow> bool" where
  "separated [] = True"
| "separated [r] = proper r"
| "separated (r # q # rs) = (proper r \<and> sc_end r + 1 < sc_start q \<and> separated (q # rs))"

definition valid_range :: "StatusCodeRange \<Rightarrow> bool" where
  "valid_range r \<longleftrightarrow> 100 \<le> sc_start r \<and> sc_start r \<le> sc_end r \<and> sc_end r \<le> 599"

lemma codes_simps [simp]:
  "codes [] = {}" "codes (r # rs) = range_codes r \<union> codes rs" "codes (xs @ ys) = codes xs \<union> codes ys"
  by (auto simp: codes_def)

lemma separated_Cons: "separated (r # rs) \<Longrightarrow> separated rs"
  by (cases rs) auto

lemma separated_proper: "separated rs \<Longrightarrow> r \<in> set rs \<Longrightarrow> proper r"
  by (induction rs rule: separated.induct) auto

lemma separated_above: "separated (r # rs) \<Longrightarrow> q \<in> set rs \<Longrightarrow> sc_end r + 1 < sc_start q"
proof (induction rs arbitrary: r)
  case (Cons p rs)
  have rp: "sc_end r + 1 < sc_start p" and pp: "proper p" and sp: "separated (p # rs)"
    using Cons.prems(1) separated_proper [of "p # rs" p] by auto
  show ?case
  proof (cases "q = p")
    case False
    then have "sc_end p + 1 < sc_start q" using Cons.IH [OF sp] Cons.prems(2) by simp
    then show ?thesis using rp pp by (simp add: proper_def)
  qed (use rp in simp)
qed simp

lemma codes_above: "separated (r # rs) \<Longrightarrow> c \<in> codes rs \<Longrightarrow> sc_end r + 1 < c"
  unfolding codes_def range_codes_def by (auto dest!: separated_above)

lemma separated_snoc:
  "separated (rs @ [r]) \<longleftrightarrow>
     separated rs \<and> proper r \<and> (rs \<noteq> [] \<longrightarrow> sc_end (last rs) + 1 < sc_start r)"
  by (induction rs rule: separated.induct) auto

lemma separated_first:
  assumes "separated (r # rs)"
  shows "(LEAST c. c \<in> codes (r # rs)) = sc_start r"
    and "(LEAST c. sc_start r \<le> c \<and> c \<notin> codes (r # rs)) = sc_end r + 1"
proof -
  have p: "proper r" using assms separated_proper by fastforce
  have ab: "c \<in> codes rs \<Longrightarrow> sc_end r + 1 < c" for c using assms codes_above by blast
  show "(LEAST c. c \<in> codes (r # rs)) = sc_start r"
    using p ab by (intro Least_equality) (force simp: range_codes_def proper_def)+
  show "(LEAST c. sc_start r \<le> c \<and> c \<notin> codes (r # rs)) = sc_end r + 1"
    using p ab by (intro Least_equality) (force simp: range_codes_def proper_def)+
qed

lemma codes_ne: "separated (r # rs) \<Longrightarrow> codes (r # rs) \<noteq> {}"
  using separated_proper [of "r # rs" r] by (auto simp: range_codes_def proper_def)

lemma codes_tail: "separated (r # rs) \<Longrightarrow> codes rs = {c \<in> codes (r # rs). sc_end r + 1 < c}"
  by (auto simp: range_codes_def dest: codes_above)

text \<open>A set of codes has one separated representation.\<close>

lemma separated_unique: "separated xs \<Longrightarrow> separated ys \<Longrightarrow> codes xs = codes ys \<Longrightarrow> xs = ys"
proof (induction xs arbitrary: ys)
  case Nil
  then show ?case using codes_ne by (cases ys) auto
next
  case (Cons x xs)
  then obtain y zs where ys: "ys = y # zs" using codes_ne by (cases ys) auto
  have sy: "separated (y # zs)" and cy: "codes (x # xs) = codes (y # zs)"
    using Cons.prems(2,3) ys by auto
  note x1 = separated_first [OF Cons.prems(1)] and y1 = separated_first [OF sy]
  have s: "sc_start x = sc_start y" using x1(1) y1(1) unfolding cy by (rule subst)
  have "sc_end x + 1 = sc_end y + 1" using x1(2) y1(2) unfolding cy s by (rule subst)
  then have e: "sc_end x = sc_end y" by simp
  have "codes xs = codes zs"
    using codes_tail [OF Cons.prems(1)] codes_tail [OF sy] unfolding cy e by (rule trans [OF _ sym])
  then have "xs = zs"
    using Cons.IH separated_Cons [OF Cons.prems(1)] separated_Cons [OF sy] by simp
  with s e ys show ?case by (cases x; cases y) simp
qed

section \<open>The interface of range normalisation\<close>

locale range_normaliser =
  fixes norm :: "StatusCodeRange list \<Rightarrow> StatusCodeRange list"
  assumes norm_separated: "\<forall>r \<in> set rs. proper r \<Longrightarrow> separated (norm rs)"
    and norm_codes: "\<forall>r \<in> set rs. proper r \<Longrightarrow> codes (norm rs) = codes rs"
begin

lemma norm_canonical:
  assumes "\<forall>r \<in> set rs. proper r" and "\<forall>r \<in> set qs. proper r" and "codes rs = codes qs"
  shows "norm rs = norm qs"
proof (rule separated_unique)
  show "codes (norm rs) = codes (norm qs)"
    using assms(3) by (simp only: norm_codes [OF assms(1)] norm_codes [OF assms(2)])
qed (fact norm_separated [OF assms(1)] norm_separated [OF assms(2)])+

lemma norm_id: "separated rs \<Longrightarrow> norm rs = rs"
proof -
  assume s: "separated rs"
  then have p: "\<forall>r \<in> set rs. proper r" using separated_proper by blast
  show ?thesis by (rule separated_unique [OF norm_separated [OF p] s norm_codes [OF p]])
qed

lemma norm_ends: "\<forall>r \<in> set rs. valid_range r \<Longrightarrow> q \<in> set (norm rs) \<Longrightarrow> valid_range q"
proof -
  assume v: "\<forall>r \<in> set rs. valid_range r" and q: "q \<in> set (norm rs)"
  then have p: "\<forall>r \<in> set rs. proper r" by (auto simp: valid_range_def proper_def)
  then have pq: "proper q" using q norm_separated separated_proper by blast
  have c: "\<forall>c \<in> codes rs. 100 \<le> c \<and> c \<le> 599"
    using v by (auto simp: codes_def range_codes_def valid_range_def)
  have "sc_start q \<in> codes (norm rs)" "sc_end q \<in> codes (norm rs)"
    using q pq by (auto simp: codes_def range_codes_def proper_def)
  then show "valid_range q"
    using norm_codes [OF p] c pq by (auto simp: valid_range_def proper_def)
qed

end

section \<open>mergeRanges implements it\<close>

definition merge_inv :: "StatusCodeRange list \<Rightarrow> StatusCodeRange list \<Rightarrow> bool" where
  "merge_inv merged rest \<longleftrightarrow>
     separated merged \<and> (\<forall>r \<in> set rest. proper r) \<and> sorted (map sc_start rest) \<and>
     (merged \<noteq> [] \<longrightarrow> (\<forall>r \<in> set rest. sc_start (last merged) \<le> sc_start r))"

lemma merge_step_inv:
  assumes "merge_inv merged (c # rest)"
  shows "merge_inv (merge_step merged c) rest"
    and "codes (merge_step merged c) = codes merged \<union> range_codes c"
proof -
  have sep: "separated merged" and pc: "proper c"
    using assms by (auto simp: merge_inv_def)
  have "merge_inv (merge_step merged c) rest \<and>
        codes (merge_step merged c) = codes merged \<union> range_codes c"
  proof (cases "merged = [] \<or> sc_start c > sc_end (last merged) + 1")
    case True
    then show ?thesis using assms by (auto simp: merge_step_def merge_inv_def separated_snoc)
  next
    case False
    define l where "l = last merged"
    define b where "b = butlast merged"
    have m: "merged = b @ [l]" using False by (simp add: l_def b_def)
    have ord: "sc_start l \<le> sc_start c" using assms False by (auto simp: merge_inv_def l_def)
    have close: "sc_start c \<le> sc_end l + 1" using False by (simp add: l_def)
    have pl: "proper l" using sep m separated_snoc by blast
    have st: "merge_step merged c = b @ [l\<lparr>sc_end := max (sc_end l) (sc_end c)\<rparr>]"
      using False by (simp add: merge_step_def l_def b_def)
    have rc: "range_codes (l\<lparr>sc_end := max (sc_end l) (sc_end c)\<rparr>) = range_codes l \<union> range_codes c"
      using ord close pl pc by (auto simp: range_codes_def proper_def)
    have "separated (merge_step merged c)"
      using sep [unfolded m] pl unfolding st by (auto simp: separated_snoc proper_def)
    moreover have "codes (merge_step merged c) = codes merged \<union> range_codes c"
      unfolding st unfolding m by (auto simp: rc)
    moreover have "last (merge_step merged c) = l\<lparr>sc_end := max (sc_end l) (sc_end c)\<rparr>"
      unfolding st by simp
    ultimately show ?thesis
      using assms ord unfolding merge_inv_def by auto
  qed
  then show "merge_inv (merge_step merged c) rest"
    and "codes (merge_step merged c) = codes merged \<union> range_codes c" by auto
qed

lemma foldl_merge_inv:
  "merge_inv merged rest \<Longrightarrow>
     separated (foldl merge_step merged rest) \<and> codes (foldl merge_step merged rest) = codes merged \<union> codes rest"
proof (induction rest arbitrary: merged)
  case (Cons c rest)
  from Cons.IH [OF merge_step_inv(1) [OF Cons.prems]] merge_step_inv(2) [OF Cons.prems]
  show ?case by auto
qed (simp add: merge_inv_def)

lemma sorted_range_key: "sorted (map sc_start (sort_key range_key rs))"
proof -
  have "sorted (map range_key (sort_key range_key rs))" by simp
  then show ?thesis
    by (auto simp: sorted_wrt_map range_key_def elim!: sorted_wrt_mono_rel [rotated])
qed

lemma mergeRanges_spec:
  assumes "\<forall>r \<in> set rs. proper r"
  shows "separated (mergeRanges rs)" and "codes (mergeRanges rs) = codes rs"
proof -
  have "merge_inv [] (sort_key range_key rs)"
    using assms sorted_range_key by (simp add: merge_inv_def)
  from foldl_merge_inv [OF this]
  show "separated (mergeRanges rs)" and "codes (mergeRanges rs) = codes rs"
    by (auto simp: mergeRanges_def codes_def)
qed

interpretation mr: range_normaliser mergeRanges
  by unfold_locales (fact mergeRanges_spec)+

section \<open>Tokens\<close>

lemma isNumber_nat_to_js [simp]: "isNumber (nat_to_js n)"
  using nat_to_js_digits by (auto simp: isNumber_def list_all_iff)

lemma nat_to_js_notin: "\<not> is_digit c \<Longrightarrow> c \<notin> set (nat_to_js n)"
  using nat_to_js_digits by blast

lemma dash_includes: "str_includes (js ''-'') s \<longleftrightarrow> 45 \<in> set s"
  by (auto simp: includes_iff js_def in_set_conv_decomp)

lemma parseToken_valid: "parseToken t = Some r \<Longrightarrow> valid_range r"
  by (auto simp: parseToken_def Let_def isValidCode_def valid_range_def split: if_splits list.splits)

lemma range_token_chars: "c \<in> set (range_token r) \<Longrightarrow> is_digit c \<or> c = 45"
  using nat_to_js_digits by (auto simp: range_token_def js_def split: if_splits)

lemma range_token_no_ws: "\<forall>c \<in> set (range_token r). \<not> is_ws c"
  using range_token_chars [of _ r] digit_not_ws by fastforce

lemma range_token_clean: "clean_items 44 (map range_token rs)"
proof -
  have "range_token r \<noteq> [] \<and> trimmed (range_token r) \<and> 44 \<notin> set (range_token r)" for r
  proof (intro conjI)
    show "range_token r \<noteq> []" by (simp add: range_token_def)
    show "trimmed (range_token r)"
      by (rule trimmed_no_ws [OF range_token_no_ws])
    show "44 \<notin> set (range_token r)"
      using range_token_chars [of 44 r] by (auto simp: is_digit_def)
  qed
  then show ?thesis by (auto simp: clean_items_def)
qed

lemma cleaned_id: "\<forall>c \<in> set s. \<not> is_ws c \<Longrightarrow> filter (\<lambda>c. \<not> is_ws c) (trim s) = s"
  by (simp add: trim_no_ws filter_id_conv)

lemma parseToken_range_token: "valid_range r \<Longrightarrow> parseToken (range_token r) = Some r"
proof -
  assume v: "valid_range r"
  note ws = range_token_no_ws [of r]
  have d: "45 \<notin> set (nat_to_js n)" for n by (rule nat_to_js_notin) (simp add: is_digit_def)
  show ?thesis
  proof (cases "sc_start r = sc_end r")
    case True
    then have t: "range_token r = nat_to_js (sc_start r)" by (simp add: range_token_def)
    show ?thesis
      using v d True unfolding parseToken_def cleaned_id [OF ws] dash_includes unfolding t
      by (cases r) (simp add: Let_def isValidCode_def valid_range_def)
  next
    case False
    then have t: "range_token r = nat_to_js (sc_start r) @ 45 # nat_to_js (sc_end r)"
      by (simp add: range_token_def js_def)
    show ?thesis
      using v d False unfolding parseToken_def cleaned_id [OF ws] dash_includes unfolding t
      by (cases r) (simp add: Let_def split_on_append split_on_notin isValidCode_def valid_range_def)
  qed
qed

text \<open>
  Only the first two parts of a token with several hyphens are read; whatever follows the second
  hyphen is dropped without an error.
\<close>

lemma parseToken_ignores_third_part:
  assumes "valid_range r" and "\<forall>c \<in> set rest. \<not> is_ws c"
  shows "parseToken (nat_to_js (sc_start r) @ js ''-'' @ nat_to_js (sc_end r) @ js ''-'' @ rest) = Some r"
proof -
  let ?t = "nat_to_js (sc_start r) @ 45 # nat_to_js (sc_end r) @ 45 # rest"
  have ws: "\<forall>c \<in> set ?t. \<not> is_ws c"
    using assms(2) nat_to_js_no_ws by auto
  have d: "45 \<notin> set (nat_to_js n)" for n by (rule nat_to_js_notin) (simp add: is_digit_def)
  have "parseToken ?t = Some r"
    using assms d unfolding parseToken_def cleaned_id [OF ws] dash_includes
    by (cases r) (simp add: Let_def split_on_append isValidCode_def valid_range_def)
  then show ?thesis by (simp add: js_def)
qed

section \<open>The parser\<close>

lemma map_filter_all: "\<forall>x \<in> set xs. f x = Some (g x) \<Longrightarrow> List.map_filter f xs = map g xs"
  by (induction xs) (auto simp: List.map_filter_def)

lemma parsed_valid: "r \<in> set (List.map_filter parseToken segs) \<Longrightarrow> valid_range r"
  using parseToken_valid by (auto simp: set_map_filter)

lemma parsed_proper: "\<forall>r \<in> set (List.map_filter parseToken segs). proper r"
  using parsed_valid by (auto simp: valid_range_def proper_def)

lemma status_segments_Nil [simp]: "status_segments [] = []"
  by (simp add: status_segments_def split_trim_def filter_truthy_def)

lemma mergeRanges_Nil [simp]: "mergeRanges [] = []"
  by (simp add: mergeRanges_def)

text \<open>The two results the parser can have, with the empty input as a case of the first.\<close>

definition accepted :: "StatusCodeRange list \<Rightarrow> ParsedHttpStatusCodeRules" where
  "accepted rs =
     \<lparr>ok = True, ranges = rs, tokens = map range_token rs,
      normalized = join_with (js '','') (map range_token rs), invalidTokens = []\<rparr>"

lemma parse_cases:
  "parseHttpStatusCodeRules (Some s) =
     (let segs = status_segments (trim s); bad = filter (\<lambda>t. parseToken t = None) segs in
      if bad = [] then accepted (mergeRanges (List.map_filter parseToken segs))
      else \<lparr>ok = False, ranges = [], tokens = [], normalized = trim s, invalidTokens = bad\<rparr>)"
  by (auto simp: parseHttpStatusCodeRules_def Let_def accepted_def List.map_filter_def)

lemma parse_None: "parseHttpStatusCodeRules None = parseHttpStatusCodeRules (Some [])"
  by (simp add: parseHttpStatusCodeRules_def)

lemma parse_ok_accepted:
  assumes "ok (parseHttpStatusCodeRules i)"
  obtains rs where "parseHttpStatusCodeRules i = accepted rs" "separated rs"
    "\<forall>r \<in> set rs. valid_range r"
proof -
  obtain s where s: "parseHttpStatusCodeRules i = parseHttpStatusCodeRules (Some s)"
    using parse_None by (cases i) auto
  let ?rs = "List.map_filter parseToken (status_segments (trim s))"
  have "parseHttpStatusCodeRules i = accepted (mergeRanges ?rs)"
    using assms unfolding s parse_cases by (auto simp: Let_def split: if_splits)
  moreover have "separated (mergeRanges ?rs)" by (rule mr.norm_separated [OF parsed_proper])
  moreover have "\<forall>r \<in> set (mergeRanges ?rs). valid_range r"
    using mr.norm_ends parsed_valid by blast
  ultimately show ?thesis using that by blast
qed

lemma segments_of_tokens:
  "status_segments (trim (join_with (js '','') (map range_token rs))) = map range_token rs"
proof -
  let ?j = "join_with [44] (map range_token rs)"
  have ch: "c \<in> set ?j \<Longrightarrow> is_digit c \<or> c = 45 \<or> c = 44" for c
  proof (induction rs)
    case (Cons r rs)
    then show ?case
      using range_token_chars [of c r] by (cases "rs = []") (auto simp: join_with_Cons)
  qed simp
  then have "\<forall>c \<in> set ?j. \<not> is_ws c" using digit_not_ws by fastforce
  then have t: "trim ?j = ?j" by (rule trim_no_ws)
  have m: "map (\<lambda>c. if c = 65292 then 44 else c) ?j = ?j"
    using ch by (intro map_idI) (fastforce simp: is_digit_def)
  show ?thesis
    unfolding status_segments_def js_def by (simp add: t m split_trim_join range_token_clean)
qed

lemma parse_tokens:
  assumes "separated rs" and "\<forall>r \<in> set rs. valid_range r"
  shows "parseHttpStatusCodeRules (Some (normalized (accepted rs))) = accepted rs"
proof -
  have p: "parseToken (range_token r) = Some r" if "r \<in> set rs" for r
    using that assms(2) parseToken_range_token by blast
  have "List.map_filter parseToken (map range_token rs) = rs"
    using p by (induction rs) (auto simp: List.map_filter_def)
  moreover have "filter (\<lambda>t. parseToken t = None) (map range_token rs) = []"
    using p by (auto simp: filter_empty_conv)
  ultimately show ?thesis
    using mr.norm_id [OF assms(1)]
    unfolding parse_cases by (simp add: accepted_def segments_of_tokens Let_def)
qed

section \<open>Properties\<close>

text \<open>
  Whatever the input, the ranges the parser returns are in ascending order, separated by gaps,
  and lie within 100..599.
\<close>

theorem status_rules_normal_form:
  "separated (ranges (parseHttpStatusCodeRules i)) \<and>
   list_all valid_range (ranges (parseHttpStatusCodeRules i))"
proof (cases "ok (parseHttpStatusCodeRules i)")
  case True
  then show ?thesis by (rule parse_ok_accepted) (simp add: accepted_def list_all_iff)
next
  case False
  then show ?thesis
    by (cases i) (auto simp: parseHttpStatusCodeRules_def Let_def split: if_splits)
qed

text \<open>
  C25. An accepted rule list selects exactly the status codes that its comma-separated tokens
  select: merging loses no code and adds none.
\<close>

theorem status_rules_codes:
  assumes "ok (parseHttpStatusCodeRules (Some s))"
  shows "codes (ranges (parseHttpStatusCodeRules (Some s))) =
    {c. \<exists>t r. t \<in> set (status_segments (trim s)) \<and> parseToken t = Some r \<and> sc_start r \<le> c \<and> c \<le> sc_end r}"
proof -
  let ?rs = "List.map_filter parseToken (status_segments (trim s))"
  have "ranges (parseHttpStatusCodeRules (Some s)) = mergeRanges ?rs"
    using assms unfolding parse_cases by (auto simp: Let_def accepted_def split: if_splits)
  then have "codes (ranges (parseHttpStatusCodeRules (Some s))) = codes ?rs"
    using mr.norm_codes [OF parsed_proper] by simp
  then show ?thesis by (auto simp: codes_def range_codes_def set_map_filter)
qed

theorem status_rules_codes_witness:
  "codes (ranges (parseHttpStatusCodeRules (Some (js ''500-502, 501-503,401'')))) =
    {c. \<exists>t r. t \<in> set (status_segments (trim (js ''500-502, 501-503,401''))) \<and> parseToken t = Some r \<and>
       sc_start r \<le> c \<and> c \<le> sc_end r} \<and>
   normalized (parseHttpStatusCodeRules (Some (js ''500-502, 501-503,401''))) = js ''401,500-503''"
proof
  have "ok (parseHttpStatusCodeRules (Some (js ''500-502, 501-503,401'')))" by code_simp
  then show "codes (ranges (parseHttpStatusCodeRules (Some (js ''500-502, 501-503,401'')))) =
    {c. \<exists>t r. t \<in> set (status_segments (trim (js ''500-502, 501-503,401''))) \<and> parseToken t = Some r \<and>
       sc_start r \<le> c \<and> c \<le> sc_end r}"
    by (rule status_rules_codes)
qed code_simp

text \<open>
  C26. The result is canonical: two accepted inputs that select the same status codes give the same
  ranges, tokens and normalised text.
\<close>

theorem status_rules_canonical:
  assumes "ok (parseHttpStatusCodeRules i)" and "ok (parseHttpStatusCodeRules j)"
    and "codes (ranges (parseHttpStatusCodeRules i)) = codes (ranges (parseHttpStatusCodeRules j))"
  shows "parseHttpStatusCodeRules i = parseHttpStatusCodeRules j"
proof -
  obtain rs where r: "parseHttpStatusCodeRules i = accepted rs" "separated rs"
    using parse_ok_accepted [OF assms(1)] by blast
  obtain qs where q: "parseHttpStatusCodeRules j = accepted qs" "separated qs"
    using parse_ok_accepted [OF assms(2)] by blast
  have "codes rs = codes qs" using assms(3) r(1) q(1) by (simp add: accepted_def)
  then have "rs = qs" by (rule separated_unique [OF r(2) q(2)])
  then show ?thesis using r(1) q(1) by simp
qed

theorem status_rules_canonical_witness:
  "parseHttpStatusCodeRules (Some (js ''500, 501-503'')) = parseHttpStatusCodeRules (Some (js ''502-503,500-501''))"
proof (rule status_rules_canonical)
  show "ok (parseHttpStatusCodeRules (Some (js ''500, 501-503'')))" by code_simp
  show "ok (parseHttpStatusCodeRules (Some (js ''502-503,500-501'')))" by code_simp
  have "ranges (parseHttpStatusCodeRules (Some (js ''500, 501-503''))) =
        ranges (parseHttpStatusCodeRules (Some (js ''502-503,500-501'')))" by code_simp
  then show "codes (ranges (parseHttpStatusCodeRules (Some (js ''500, 501-503'')))) =
        codes (ranges (parseHttpStatusCodeRules (Some (js ''502-503,500-501''))))" by simp
qed

text \<open>
  Normalisation is a fixed point: parsing the normalised text of an accepted input gives the
  very same result, so that saving and reloading the setting does not change it.
\<close>

theorem status_rules_roundtrip:
  assumes "ok (parseHttpStatusCodeRules i)"
  shows "parseHttpStatusCodeRules (Some (normalized (parseHttpStatusCodeRules i))) = parseHttpStatusCodeRules i"
  using assms by (rule parse_ok_accepted) (simp add: parse_tokens)

theorem status_rules_roundtrip_witness:
  "parseHttpStatusCodeRules (Some (normalized (parseHttpStatusCodeRules (Some (js '' 429 ,500-503''))))) =
     parseHttpStatusCodeRules (Some (js '' 429 ,500-503''))"
proof (rule status_rules_roundtrip)
  show "ok (parseHttpStatusCodeRules (Some (js '' 429 ,500-503'')))" by code_simp
qed

text \<open>
  The input is rejected exactly when some token is not a code or range within 100..599; the
  offending tokens are reported in order, no range is returned and the trimmed text is kept.
\<close>

theorem status_rules_rejected:
  "(\<not> ok (parseHttpStatusCodeRules (Some s)) \<longleftrightarrow>
      (\<exists>t \<in> set (status_segments (trim s)). parseToken t = None)) \<and>
   invalidTokens (parseHttpStatusCodeRules (Some s)) =
      filter (\<lambda>t. parseToken t = None) (status_segments (trim s)) \<and>
   (ok (parseHttpStatusCodeRules (Some s)) \<or>
      ranges (parseHttpStatusCodeRules (Some s)) = [] \<and>
      normalized (parseHttpStatusCodeRules (Some s)) = trim s)"
  unfolding parse_cases by (auto simp: Let_def accepted_def filter_empty_conv)

end
