(* ===== verification/Go_Prelude.thy ===== *)
theory Go_Prelude
  imports JS_Prelude
begin

text \<open>
  What the server uses of the Go language and its standard library. A string is the list of its code
  points, in the same type as the strings of the front end. \<open>int\<close> and \<open>int64\<close> are integers of 64 bits;
  \<open>int64\<close> is the wrap-around of their arithmetic. A function that returns an error has a sum as its
  result, with the message on the left.
\<close>

section \<open>Integers\<close>

definition int64 :: "int \<Rightarrow> int" where
  "int64 x = (x + 9223372036854775808) mod 18446744073709551616 - 9223372036854775808"

definition is_int64 :: "int \<Rightarrow> bool" where
  "is_int64 x \<longleftrightarrow> - 9223372036854775808 \<le> x \<and> x \<le> 9223372036854775807"

lemma int64_id: "is_int64 x \<Longrightarrow> int64 x = x"
  by (simp add: int64_def is_int64_def)

lemma int64_range: "is_int64 (int64 x)"
  using pos_mod_bound [of 18446744073709551616 "x + 9223372036854775808"]
    pos_mod_sign [of 18446744073709551616 "x + 9223372036854775808"]
  by (simp add: int64_def is_int64_def)

text \<open>Division truncates toward zero.\<close>

definition go_div :: "int \<Rightarrow> int \<Rightarrow> int" where
  "go_div a b = sgn a * sgn b * (\<bar>a\<bar> div \<bar>b\<bar>)"

section \<open>Strings\<close>

text \<open>\<open>unicode.IsSpace\<close>, and \<open>strings.TrimSpace\<close>, which removes such characters at both ends.\<close>

definition is_space :: "jchar \<Rightarrow> bool" where
  "is_space c \<longleftrightarrow> (9 \<le> c \<and> c \<le> 13) \<or> c = 32 \<or> c = 133 \<or> c = 160 \<or> c = 5760 \<or>
     (8192 \<le> c \<and> c \<le> 8202) \<or> c = 8232 \<or> c = 8233 \<or> c = 8239 \<or> c = 8287 \<or> c = 12288"

definition TrimSpace :: "jstring \<Rightarrow> jstring" where
  "TrimSpace s = rev (dropWhile is_space (rev (dropWhile is_space s)))"

lemma dropWhile_none: "\<forall>c \<in> set s. \<not> P c \<Longrightarrow> dropWhile P s = s"
  by (cases s) auto

lemma TrimSpace_id: "\<forall>c \<in> set s. \<not> is_space c \<Longrightarrow> TrimSpace s = s"
  by (simp add: TrimSpace_def dropWhile_none)

lemma digit_not_space: "is_digit c \<Longrightarrow> \<not> is_space c"
  by (auto simp: is_digit_def is_space_def)

lemma set_TrimSpace: "set (TrimSpace s) \<subseteq> set s"
  unfolding TrimSpace_def by (metis set_dropWhileD set_rev subsetI)

text \<open>\<open>strconv.Atoi\<close>: an optional sign and decimal digits, with an error outside the range of \<open>int\<close>.\<close>

definition atoi_digits :: "jstring \<Rightarrow> int option" where
  "atoi_digits s = (if s \<noteq> [] \<and> list_all is_digit s then Some (int (digits_val s)) else None)"

definition Atoi :: "jstring \<Rightarrow> int option" where
  "Atoi s =
     (let v = (case s of [] \<Rightarrow> None
               | c # r \<Rightarrow> if c = 43 then atoi_digits r
                          else if c = 45 then map_option uminus (atoi_digits r)
                          else atoi_digits s) in
      case v of None \<Rightarrow> None | Some n \<Rightarrow> if is_int64 n then Some n else None)"

lemma Atoi_digits:
  "s \<noteq> [] \<Longrightarrow> list_all is_digit s \<Longrightarrow> is_int64 (int (digits_val s)) \<Longrightarrow> Atoi s = Some (int (digits_val s))"
  by (cases s) (auto simp: Atoi_def atoi_digits_def is_digit_def)

lemma Atoi_int64: "Atoi s = Some n \<Longrightarrow> is_int64 n"
  by (auto simp: Atoi_def Let_def split: option.splits if_splits)

text \<open>\<open>strconv.Itoa\<close> and the verb \<open>%d\<close>.\<close>

definition Itoa :: "int \<Rightarrow> jstring" where
  "Itoa n = (if n < 0 then 45 # nat_to_js (nat (- n)) else nat_to_js (nat n))"

lemma Itoa_nat [simp]: "Itoa (int n) = nat_to_js n"
  by (simp add: Itoa_def)

lemma Atoi_Itoa: "is_int64 n \<Longrightarrow> Atoi (Itoa n) = Some n"
proof -
  assume a: "is_int64 n"
  have d: "list_all is_digit (nat_to_js k)" for k using nat_to_js_digits by (simp add: list_all_iff)
  show ?thesis
  proof (cases "n < 0")
    case True
    then show ?thesis using a d by (simp add: Itoa_def Atoi_def atoi_digits_def)
  next
    case False
    then obtain k where k: "n = int k" by (metis nonneg_int_cases not_less)
    then show ?thesis using a d [of k] Atoi_digits [of "nat_to_js k"] by simp
  qed
qed

end
