(* ===== verification/Go_Status_Ranges.thy ===== *)
theory Go_Status_Ranges
  imports Status_Codes Go_Prelude
begin

text \<open>
  The status codes on which the server retries a request or disables a channel:
  \<open>src/setting/operation_setting/status_code_ranges.go\<close>, and the decisions \<open>shouldRetry\<close>,
  \<open>shouldRetryTaskRelay\<close> (\<open>src/controller/relay.go\<close>), \<open>ShouldDisableChannel\<close> and \<open>ShouldEnableChannel\<close>
  (\<open>src/service/channel.go\<close>). The setting is the text that the page in theory \<open>Status_Codes\<close> writes; it is
  shown that the server reads the ranges which the page has shown. The ranges have the type of the
  front end; every parsed range lies within 100..599, so their ends are natural numbers.
\<close>

section \<open>The parser\<close>

definition go_token :: "jstring \<Rightarrow> jstring" where
  "go_token token = filter (\<lambda>c. c \<noteq> 32) (TrimSpace token)"

definition parseHTTPStatusCodeToken :: "jstring \<Rightarrow> jstring + StatusCodeRange" where
  "parseHTTPStatusCodeToken tok =
     (let token = go_token tok in
      if token = [] then Inl (js ''empty token'')
      else if 45 \<in> set token then
        (case split_on 45 token of
           [a, b] \<Rightarrow>
             if a = [] \<or> b = [] then Inl (js ''invalid range token: '' @ token)
             else (case Atoi a of None \<Rightarrow> Inl (js ''invalid range start: '' @ token)
                   | Some s \<Rightarrow>
                     (case Atoi b of None \<Rightarrow> Inl (js ''invalid range end: '' @ token)
                      | Some e \<Rightarrow>
                        if s > e then Inl (js ''range start > end: '' @ token)
                        else if s < 100 \<or> e > 599 then Inl (js ''range out of bounds: '' @ token)
                        else Inr \<lparr>sc_start = nat s, sc_end = nat e\<rparr>))
         | _ \<Rightarrow> Inl (js ''invalid range token: '' @ token))
      else
        (case Atoi token of None \<Rightarrow> Inl (js ''invalid status code: '' @ token)
         | Some code \<Rightarrow>
           if code < 100 \<or> code > 599 then Inl (js ''status code out of bounds: '' @ token)
           else Inr \<lparr>sc_start = nat code, sc_end = nat code\<rparr>))"

text \<open>\<open>sort.Slice\<close> orders by start and end, which leaves no freedom; then the loop that merges.\<close>

definition go_merge_step :: "StatusCodeRange list \<Rightarrow> StatusCodeRange \<Rightarrow> StatusCodeRange list" where
  "go_merge_step merged r =
     (let l = last merged in
      if sc_start r \<le> sc_end l + 1 then
        (if sc_end r > sc_end l then butlast merged @ [l\<lparr>sc_end := sc_end r\<rparr>] else merged)
      else merged @ [r])"

fun go_merge :: "StatusCodeRange list \<Rightarrow> StatusCodeRange list" where
  "go_merge [] = []"
| "go_merge (r # rs) = foldl go_merge_step [r] rs"

definition go_segments :: "jstring \<Rightarrow> jstring list" where
  "go_segments input =
     filter (\<lambda>s. s \<noteq> []) (map TrimSpace (split_on 44 (map (\<lambda>c. if c = 65292 then 44 else c) input)))"

definition ParseHTTPStatusCodeRanges :: "jstring \<Rightarrow> jstring + StatusCodeRange list" where
  "ParseHTTPStatusCodeRanges inp =
     (let input = TrimSpace inp in
      if input = [] then Inr []
      else
        let parsed = map (\<lambda>seg. (seg, parseHTTPStatusCodeToken seg)) (go_segments input);
            invalid = map fst (filter (\<lambda>(seg, p). isl p) parsed);
            rs = map (\<lambda>(seg, p). projr p) (filter (\<lambda>(seg, p). \<not> isl p) parsed) in
        if invalid \<noteq> [] then Inl (js ''invalid http status code rules: '' @ join_with (js '', '') invalid)
        else Inr (go_merge (sort_key range_key rs)))"

definition statusCodeRangesToString :: "StatusCodeRange list \<Rightarrow> jstring" where
  "statusCodeRangesToString rs =
     (if rs = [] then []
      else join_with (js '','')
        (map (\<lambda>r. if sc_start r = sc_end r then Itoa (int (sc_start r))
                  else Itoa (int (sc_start r)) @ js ''-'' @ Itoa (int (sc_end r))) rs))"

fun match_ranges :: "StatusCodeRange list \<Rightarrow> int \<Rightarrow> bool" where
  "match_ranges [] code = False"
| "match_ranges (r # rs) code =
     (if code < int (sc_start r) then False else if code \<le> int (sc_end r) then True else match_ranges rs code)"

definition shouldMatchStatusCodeRanges :: "StatusCodeRange list \<Rightarrow> int \<Rightarrow> bool" where
  "shouldMatchStatusCodeRanges rs code = (if code < 100 \<or> code > 599 then False else match_ranges rs code)"

section \<open>The settings\<close>

record status_settings =
  AutomaticDisableStatusCodeRanges :: "StatusCodeRange list"
  AutomaticRetryStatusCodeRanges :: "StatusCodeRange list"

definition default_settings :: status_settings where
  "default_settings =
     \<lparr>AutomaticDisableStatusCodeRanges = [\<lparr>sc_start = 401, sc_end = 401\<rparr>],
      AutomaticRetryStatusCodeRanges =
        [\<lparr>sc_start = 100, sc_end = 199\<rparr>, \<lparr>sc_start = 300, sc_end = 399\<rparr>, \<lparr>sc_start = 401, sc_end = 407\<rparr>,
         \<lparr>sc_start = 409, sc_end = 499\<rparr>, \<lparr>sc_start = 500, sc_end = 599\<rparr>]\<rparr>"

definition AutomaticDisableStatusCodesToString :: "status_settings \<Rightarrow> jstring" where
  "AutomaticDisableStatusCodesToString g = statusCodeRangesToString (AutomaticDisableStatusCodeRanges g)"

definition AutomaticDisableStatusCodesFromString :: "jstring \<Rightarrow> status_settings \<Rightarrow> jstring option \<times> status_settings" where
  "AutomaticDisableStatusCodesFromString s g =
     (case ParseHTTPStatusCodeRanges s of Inl err \<Rightarrow> (Some err, g)
      | Inr rs \<Rightarrow> (None, g\<lparr>AutomaticDisableStatusCodeRanges := rs\<rparr>))"

definition AutomaticRetryStatusCodesToString :: "status_settings \<Rightarrow> jstring" where
  "AutomaticRetryStatusCodesToString g = statusCodeRangesToString (AutomaticRetryStatusCodeRanges g)"

definition AutomaticRetryStatusCodesFromString :: "jstring \<Rightarrow> status_settings \<Rightarrow> jstring option \<times> status_settings" where
  "AutomaticRetryStatusCodesFromString s g =
     (case ParseHTTPStatusCodeRanges s of Inl err \<Rightarrow> (Some err, g)
      | Inr rs \<Rightarrow> (None, g\<lparr>AutomaticRetryStatusCodeRanges := rs\<rparr>))"

definition ShouldDisableByStatusCode :: "status_settings \<Rightarrow> int \<Rightarrow> bool" where
  "ShouldDisableByStatusCode g code = shouldMatchStatusCodeRanges (AutomaticDisableStatusCodeRanges g) code"

definition alwaysSkipRetryStatusCodes :: "int list" where
  "alwaysSkipRetryStatusCodes = []"

definition alwaysSkipRetryCodes :: "jstring list" where
  "alwaysSkipRetryCodes = [js ''bad_response_body'']"

definition IsAlwaysSkipRetryStatusCode :: "int \<Rightarrow> bool" where
  "IsAlwaysSkipRetryStatusCode code \<longleftrightarrow> code \<in> set alwaysSkipRetryStatusCodes"

definition IsAlwaysSkipRetryCode :: "jstring \<Rightarrow> bool" where
  "IsAlwaysSkipRetryCode errorCode \<longleftrightarrow> errorCode \<in> set alwaysSkipRetryCodes"

definition ShouldRetryByStatusCode :: "status_settings \<Rightarrow> int \<Rightarrow> bool" where
  "ShouldRetryByStatusCode g code =
     (if IsAlwaysSkipRetryStatusCode code then False
      else shouldMatchStatusCodeRanges (AutomaticRetryStatusCodeRanges g) code)"

section \<open>Decisions on an error\<close>

text \<open>The fields of \<open>NewAPIError\<close> (\<open>src/types/error.go\<close>) that the decisions read.\<close>

record NewAPIError =
  e_err :: "jstring option"
  skipRetry :: bool
  recordErrorLog :: "bool option"
  errorCode :: jstring
  StatusCode :: int

definition error_text :: "NewAPIError \<Rightarrow> jstring" where
  "error_text e = (case e_err e of None \<Rightarrow> errorCode e | Some m \<Rightarrow> m)"

definition IsChannelError :: "NewAPIError option \<Rightarrow> bool" where
  "IsChannelError err = (case err of None \<Rightarrow> False | Some e \<Rightarrow> starts_with (js ''channel:'') (errorCode e))"

definition IsSkipRetryError :: "NewAPIError option \<Rightarrow> bool" where
  "IsSkipRetryError err = (case err of None \<Rightarrow> False | Some e \<Rightarrow> skipRetry e)"

definition IsRecordErrorLog :: "NewAPIError option \<Rightarrow> bool" where
  "IsRecordErrorLog err =
     (case err of None \<Rightarrow> False | Some e \<Rightarrow> (case recordErrorLog e of None \<Rightarrow> True | Some b \<Rightarrow> b))"

text \<open>
  \<open>affinity\<close> is the answer of \<open>ShouldSkipRetryAfterChannelAffinityFailure\<close> and \<open>specific\<close> says whether the
  request names its channel; both are facts of the request's context.
\<close>

definition shouldRetry :: "status_settings \<Rightarrow> bool \<Rightarrow> bool \<Rightarrow> NewAPIError option \<Rightarrow> int \<Rightarrow> bool" where
  "shouldRetry g affinity specific openaiErr retryTimes =
     (case openaiErr of None \<Rightarrow> False
      | Some e \<Rightarrow>
        if affinity then False
        else if IsChannelError openaiErr then True
        else if IsSkipRetryError openaiErr then False
        else if retryTimes \<le> 0 then False
        else if specific then False
        else let code = StatusCode e in
          if code \<ge> 200 \<and> code < 300 then False
          else if code < 100 \<or> code > 599 then True
          else if IsAlwaysSkipRetryCode (errorCode e) then False
          else ShouldRetryByStatusCode g code)"

record TaskError =
  te_StatusCode :: int
  LocalError :: bool

definition shouldRetryTaskRelay :: "bool \<Rightarrow> bool \<Rightarrow> TaskError option \<Rightarrow> int \<Rightarrow> bool" where
  "shouldRetryTaskRelay affinity specific taskErr retryTimes =
     (case taskErr of None \<Rightarrow> False
      | Some e \<Rightarrow>
        let code = te_StatusCode e in
        if affinity then False
        else if retryTimes \<le> 0 then False
        else if specific then False
        else if code = 429 then True
        else if code = 307 then True
        else if go_div code 100 = 5 then \<not> IsAlwaysSkipRetryStatusCode code
        else if code = 400 then False
        else if code = 408 then False
        else if LocalError e then False
        else if go_div code 100 = 2 then False
        else True)"

text \<open>\<open>keyword\<close> is the search for one of the configured keywords in the message, by an external automaton.\<close>

definition ShouldDisableChannel :: "status_settings \<Rightarrow> bool \<Rightarrow> (jstring \<Rightarrow> bool) \<Rightarrow> NewAPIError option \<Rightarrow> bool" where
  "ShouldDisableChannel g enabled keyword err =
     (if \<not> enabled then False
      else case err of None \<Rightarrow> False
      | Some e \<Rightarrow>
        if IsChannelError err then True
        else if IsSkipRetryError err then False
        else if ShouldDisableByStatusCode g (StatusCode e) then True
        else keyword (to_lower (error_text e)))"

definition ShouldEnableChannel :: "bool \<Rightarrow> NewAPIError option \<Rightarrow> int \<Rightarrow> bool" where
  "ShouldEnableChannel enabled newAPIError status =
     (if \<not> enabled then False
      else if newAPIError \<noteq> None then False
      else if status \<noteq> 3 then False
      else True)"

section \<open>Merging\<close>

lemma go_merge_step_eq: "merged \<noteq> [] \<Longrightarrow> go_merge_step merged r = merge_step merged r"
proof -
  assume m: "merged \<noteq> []"
  then have "butlast merged @ [last merged] = merged" by simp
  moreover have "l\<lparr>sc_end := max (sc_end l) (sc_end r)\<rparr> = (if sc_end r > sc_end l then l\<lparr>sc_end := sc_end r\<rparr> else l)"
    for l :: StatusCodeRange by (simp add: max_def)
  ultimately show ?thesis using m by (auto simp: go_merge_step_def merge_step_def Let_def)
qed

lemma foldl_go_merge_step:
  "merged \<noteq> [] \<Longrightarrow> foldl go_merge_step merged rs = foldl merge_step merged rs"
proof (induction rs arbitrary: merged)
  case (Cons r rs)
  have "merge_step merged r \<noteq> []" using Cons.prems by (simp add: merge_step_def)
  then show ?case using Cons by (simp add: go_merge_step_eq)
qed simp

lemma go_merge_eq: "go_merge (sort_key range_key rs) = mergeRanges rs"
proof (cases "sort_key range_key rs")
  case Nil
  then have "rs = []" by (metis length_0_conv length_sort)
  then show ?thesis by simp
next
  case (Cons q qs)
  then have "rs \<noteq> []" by auto
  then show ?thesis using Cons by (simp add: mergeRanges_def foldl_go_merge_step merge_step_def)
qed

interpretation gm: range_normaliser "\<lambda>rs. go_merge (sort_key range_key rs)"
  by unfold_locales (simp_all add: go_merge_eq mergeRanges_spec)

section \<open>Tokens\<close>

lemma range_token_no_space: "\<forall>c \<in> set (range_token r). \<not> is_space c \<and> c \<noteq> 32"
proof
  fix c assume "c \<in> set (range_token r)"
  then have "is_digit c \<or> c = 45" by (rule range_token_chars)
  then show "\<not> is_space c \<and> c \<noteq> 32" by (auto simp: is_digit_def is_space_def)
qed

lemma go_token_id: "go_token (range_token r) = range_token r"
  using range_token_no_space [of r] by (simp add: go_token_def TrimSpace_id filter_id_conv)

lemma Atoi_nat_to_js: "n \<le> 599 \<Longrightarrow> Atoi (nat_to_js n) = Some (int n)"
  using Atoi_Itoa [of "int n"] by (simp add: is_int64_def)

lemma go_parse_range_token: "valid_range r \<Longrightarrow> parseHTTPStatusCodeToken (range_token r) = Inr r"
proof -
  assume v: "valid_range r"
  have d: "45 \<notin> set (nat_to_js n)" for n by (rule nat_to_js_notin) (simp add: is_digit_def)
  show ?thesis
  proof (cases "sc_start r = sc_end r")
    case True
    then have t: "range_token r = nat_to_js (sc_start r)" by (simp add: range_token_def)
    show ?thesis
      using v d True unfolding parseHTTPStatusCodeToken_def go_token_id unfolding t
      by (cases r) (simp add: Let_def valid_range_def Atoi_nat_to_js)
  next
    case False
    then have t: "range_token r = nat_to_js (sc_start r) @ 45 # nat_to_js (sc_end r)"
      by (simp add: range_token_def js_def)
    show ?thesis
      using v d False unfolding parseHTTPStatusCodeToken_def go_token_id unfolding t
      by (cases r) (simp add: Let_def split_on_append split_on_notin valid_range_def Atoi_nat_to_js)
  qed
qed

lemma go_token_valid: "parseHTTPStatusCodeToken t = Inr r \<Longrightarrow> valid_range r"
  by (auto simp: parseHTTPStatusCodeToken_def Let_def valid_range_def split: if_splits list.splits option.splits)

lemma toString_tokens: "statusCodeRangesToString rs = join_with (js '','') (map range_token rs)"
proof -
  have "(\<lambda>r. if sc_start r = sc_end r then Itoa (int (sc_start r))
     else Itoa (int (sc_start r)) @ js ''-'' @ Itoa (int (sc_end r))) = range_token"
    by (auto simp: range_token_def)
  then show ?thesis by (simp add: statusCodeRangesToString_def)
qed

lemma tokens_text_chars: "c \<in> set (join_with [44] (map range_token rs)) \<Longrightarrow> is_digit c \<or> c = 45 \<or> c = 44"
proof (induction rs)
  case (Cons r rs)
  then show ?case using range_token_chars [of c r] by (cases "rs = []") (auto simp: join_with_Cons)
qed simp

lemma go_segments_of_tokens:
  assumes "rs \<noteq> []"
  shows "go_segments (join_with (js '','') (map range_token rs)) = map range_token rs"
proof -
  let ?j = "join_with [44] (map range_token rs)"
  have m: "map (\<lambda>c. if c = 65292 then 44 else c) ?j = ?j"
    using tokens_text_chars [of _ rs] by (intro map_idI) (fastforce simp: is_digit_def)
  have n: "44 \<notin> set (range_token r)" for r using range_token_chars [of 44 r] by (auto simp: is_digit_def)
  have t: "TrimSpace (range_token r) = range_token r" for r
    using range_token_no_space [of r] by (intro TrimSpace_id) auto
  have "split_on 44 ?j = map range_token rs" using assms n by (intro split_join) auto
  moreover have "range_token r \<noteq> []" for r by (simp add: range_token_def)
  ultimately show ?thesis
    by (simp add: go_segments_def js_def m t comp_def filter_id_conv)
qed

lemma go_parse_tokens:
  assumes "separated rs" and "\<forall>r \<in> set rs. valid_range r"
  shows "ParseHTTPStatusCodeRanges (join_with (js '','') (map range_token rs)) = Inr rs"
proof (cases "rs = []")
  case True
  then show ?thesis by (simp add: ParseHTTPStatusCodeRanges_def TrimSpace_def)
next
  case False
  let ?t = "join_with (js '','') (map range_token rs)"
  have "\<forall>c \<in> set ?t. \<not> is_space c"
    using tokens_text_chars [of _ rs] by (fastforce simp: js_def is_digit_def is_space_def)
  then have t: "TrimSpace ?t = ?t" by (rule TrimSpace_id)
  have ne: "?t \<noteq> []" using False by (cases rs; cases "tl rs") (auto simp: range_token_def)
  have p: "parseHTTPStatusCodeToken (range_token r) = Inr r" if "r \<in> set rs" for r
    using that assms(2) go_parse_range_token by blast
  have "map (\<lambda>r. projr (parseHTTPStatusCodeToken (range_token r))) rs = rs" using p by (simp add: map_idI)
  then show ?thesis
    using gm.norm_id [OF assms(1)] ne p
    by (simp add: ParseHTTPStatusCodeRanges_def t Let_def go_segments_of_tokens [OF False] filter_map comp_def)
qed

lemma go_parse_result:
  assumes "ParseHTTPStatusCodeRanges s = Inr rs"
  shows "separated rs" and "\<forall>r \<in> set rs. valid_range r"
proof -
  have "\<exists>qs. rs = go_merge (sort_key range_key qs) \<and> (\<forall>q \<in> set qs. valid_range q)"
  proof (cases "TrimSpace s = []")
    case True
    then show ?thesis using assms by (intro exI [of _ "[]"]) (simp add: ParseHTTPStatusCodeRanges_def)
  next
    case False
    let ?p = "map (\<lambda>seg. (seg, parseHTTPStatusCodeToken seg)) (go_segments (TrimSpace s))"
    let ?qs = "map (\<lambda>(seg, p). projr p) (filter (\<lambda>(seg, p). \<not> isl p) ?p)"
    have "rs = go_merge (sort_key range_key ?qs)"
      using assms False by (auto simp: ParseHTTPStatusCodeRanges_def Let_def split: if_splits)
    moreover have "\<forall>q \<in> set ?qs. valid_range q"
      using go_token_valid by (auto simp: isl_def)
    ultimately show ?thesis by blast
  qed
  then obtain qs where q: "rs = go_merge (sort_key range_key qs)" "\<forall>q \<in> set qs. valid_range q" by blast
  then have "\<forall>q \<in> set qs. proper q" by (auto simp: valid_range_def proper_def)
  then show "separated rs" unfolding q(1) by (rule gm.norm_separated)
  show "\<forall>r \<in> set rs. valid_range r" unfolding q(1) using gm.norm_ends [OF q(2)] by blast
qed

section \<open>Matching\<close>

lemma ex_int_iff: "(\<exists>c \<in> S. code = int c) \<longleftrightarrow> 0 \<le> code \<and> nat code \<in> S"
  by force

lemma match_ranges_nat: "separated rs \<Longrightarrow> match_ranges rs code \<longleftrightarrow> 0 \<le> code \<and> nat code \<in> codes rs"
proof (induction rs)
  case (Cons r rs)
  have s: "separated rs" and p: "sc_start r \<le> sc_end r"
    using Cons.prems separated_proper [OF Cons.prems, of r] by (auto simp: separated_Cons proper_def)
  have b: "nat code \<notin> codes rs" if "code \<le> int (sc_end r)"
    using codes_above [OF Cons.prems] that by force
  consider "code < int (sc_start r)" | "int (sc_start r) \<le> code" "code \<le> int (sc_end r)" | "int (sc_end r) < code"
    by linarith
  then show ?case
  proof cases
    case 1
    then show ?thesis using b p by (auto simp: range_codes_def)
  next
    case 2
    then show ?thesis by (auto simp: range_codes_def)
  next
    case 3
    then show ?thesis using Cons.IH [OF s] p by (auto simp: range_codes_def)
  qed
qed simp

lemmas match_ranges_codes = match_ranges_nat [folded ex_int_iff]

lemma should_match_codes:
  assumes "separated rs" and "\<forall>r \<in> set rs. valid_range r"
  shows "shouldMatchStatusCodeRanges rs code \<longleftrightarrow> (\<exists>c \<in> codes rs. code = int c)"
proof -
  have "\<forall>c \<in> codes rs. \<not> (int c < 100 \<or> int c > 599)"
    using assms(2) by (auto simp: codes_def range_codes_def valid_range_def)
  then show ?thesis
    unfolding shouldMatchStatusCodeRanges_def match_ranges_codes [OF assms(1)] by auto
qed

section \<open>Properties\<close>

text \<open>
  C10. What the settings page saves, the server reads: the normalised text of an input that the page accepts
  sets the ranges of the server to those the page has shown. The server then disables a channel on exactly
  the codes they contain, and retries on exactly those of them that are not in its list of codes that are
  never retried.
\<close>

theorem page_and_server_agree:
  assumes "ok (parseHttpStatusCodeRules i)"
  shows "ParseHTTPStatusCodeRanges (normalized (parseHttpStatusCodeRules i)) = Inr (ranges (parseHttpStatusCodeRules i)) \<and>
    (\<forall>code. ShouldDisableByStatusCode (snd (AutomaticDisableStatusCodesFromString (normalized (parseHttpStatusCodeRules i)) g)) code
       \<longleftrightarrow> (\<exists>c \<in> codes (ranges (parseHttpStatusCodeRules i)). code = int c)) \<and>
    (\<forall>code. ShouldRetryByStatusCode (snd (AutomaticRetryStatusCodesFromString (normalized (parseHttpStatusCodeRules i)) g)) code
       \<longleftrightarrow> (\<exists>c \<in> codes (ranges (parseHttpStatusCodeRules i)). code = int c) \<and> \<not> IsAlwaysSkipRetryStatusCode code)"
proof -
  obtain rs where r: "parseHttpStatusCodeRules i = accepted rs" "separated rs" "\<forall>r \<in> set rs. valid_range r"
    using parse_ok_accepted [OF assms] by blast
  have "ParseHTTPStatusCodeRanges (normalized (parseHttpStatusCodeRules i)) = Inr rs"
    using go_parse_tokens [OF r(2,3)] by (simp add: r(1) accepted_def)
  then show ?thesis
    using should_match_codes [OF r(2,3)]
    by (auto simp: r(1) accepted_def AutomaticRetryStatusCodesFromString_def AutomaticDisableStatusCodesFromString_def
        ShouldRetryByStatusCode_def ShouldDisableByStatusCode_def)
qed

theorem page_and_server_agree_witness:
  "ShouldDisableByStatusCode (snd (AutomaticDisableStatusCodesFromString
     (normalized (parseHttpStatusCodeRules (Some (js ''500-502, 501-503,401'')))) default_settings)) 503"
proof -
  have a: "ok (parseHttpStatusCodeRules (Some (js ''500-502, 501-503,401'')))" by code_simp
  have "ranges (parseHttpStatusCodeRules (Some (js ''500-502, 501-503,401''))) =
      [\<lparr>sc_start = 401, sc_end = 401\<rparr>, \<lparr>sc_start = 500, sc_end = 503\<rparr>]" by code_simp
  then have "503 \<in> codes (ranges (parseHttpStatusCodeRules (Some (js ''500-502, 501-503,401''))))"
    by (simp add: range_codes_def)
  then have "\<exists>c \<in> codes (ranges (parseHttpStatusCodeRules (Some (js ''500-502, 501-503,401'')))). (503::int) = int c"
    by (rule rev_bexI) simp
  then show ?thesis by (rule iffD2 [OF spec [OF conjunct1 [OF conjunct2 [OF page_and_server_agree [OF a]]]]])
qed

text \<open>
  The list of codes that are never retried is empty: the timeouts of gateways, which the tests of the server
  expect in it, are retried by default.
\<close>

lemma gateway_timeouts_retried:
  "ShouldRetryByStatusCode default_settings 504" "ShouldRetryByStatusCode default_settings 524"
  "\<not> IsAlwaysSkipRetryStatusCode 504" "\<not> IsAlwaysSkipRetryStatusCode 524"
  by code_simp+

text \<open>
  The text the server stores for its ranges is read back as the same ranges.
\<close>

theorem server_ranges_roundtrip:
  assumes "ParseHTTPStatusCodeRanges s = Inr rs"
  shows "ParseHTTPStatusCodeRanges (statusCodeRangesToString rs) = Inr rs"
  unfolding toString_tokens by (rule go_parse_tokens [OF go_parse_result [OF assms]])

theorem server_ranges_roundtrip_witness:
  "ParseHTTPStatusCodeRanges (statusCodeRangesToString [\<lparr>sc_start = 404, sc_end = 405\<rparr>]) =
     Inr [\<lparr>sc_start = 404, sc_end = 405\<rparr>]"
proof (rule server_ranges_roundtrip)
  show "ParseHTTPStatusCodeRanges (js '' +404, 405 - 405'') = Inr [\<lparr>sc_start = 404, sc_end = 405\<rparr>]" by code_simp
qed

text \<open>The default: every code but those of success, 400 and 408.\<close>

lemma default_retry:
  "ShouldRetryByStatusCode default_settings code \<longleftrightarrow>
     100 \<le> code \<and> code \<le> 599 \<and> \<not> (200 \<le> code \<and> code < 300) \<and> code \<noteq> 400 \<and> code \<noteq> 408"
  by (auto simp: ShouldRetryByStatusCode_def IsAlwaysSkipRetryStatusCode_def alwaysSkipRetryStatusCodes_def
      shouldMatchStatusCodeRanges_def default_settings_def)

text \<open>The page refuses a sign that the server accepts, and reads a token with two hyphens that it refuses.\<close>

lemma parsers_differ:
  "ParseHTTPStatusCodeRanges (js ''+404'') = Inr [\<lparr>sc_start = 404, sc_end = 404\<rparr>]"
  "\<not> ok (parseHttpStatusCodeRules (Some (js ''+404'')))"
  "ok (parseHttpStatusCodeRules (Some (js ''500-503-x'')))"
  "isl (ParseHTTPStatusCodeRanges (js ''500-503-x''))"
  by code_simp+

end
