(* ===== verification/Go_Store.thy ===== *)
theory Go_Store
  imports Go_Prelude
begin

text \<open>
  The tables that hold quota, and the functions of \<open>src/model/user.go\<close>, \<open>src/model/token.go\<close> and
  \<open>src/model/utils.go\<close> that change it. A table is the list of its rows with their primary keys. Every
  statement may fail, and then has no effect: \<open>fault env n\<close> is the error of the n-th statement since the
  start, and the store counts the statements. The caches (Redis, and the caches of plans) are environment:
  what a read of a cache returns is given by \<open>env\<close>, and a write to one changes nothing here. Updates that
  the server collects and writes later are the two batch stores; those of the usage statistics are left
  out. The quotas of users and tokens and the sums of collected updates are exact integers here; the sums that
  Go computes for a subscription wrap around.
\<close>

section \<open>Tables\<close>

record Token =
  t_key :: jstring
  RemainQuota :: int
  UsedQuota :: int

record UserSubscription =
  us_UserId :: int
  us_PlanId :: int
  us_AmountTotal :: int
  us_AmountUsed :: int
  us_StartTime :: int
  us_EndTime :: int
  us_Status :: jstring
  us_Source :: jstring
  LastResetTime :: "int option"
  NextResetTime :: "int option"
  us_UpgradeGroup :: jstring
  us_PrevUserGroup :: jstring

record SubscriptionPlan =
  p_Title :: jstring
  DurationUnit :: jstring
  DurationValue :: int
  CustomSeconds :: int
  MaxPurchasePerUser :: int
  p_UpgradeGroup :: jstring
  TotalAmount :: int
  QuotaResetPeriod :: jstring
  QuotaResetCustomSeconds :: int

record SubscriptionPreConsumeRecord =
  r_UserId :: int
  r_UserSubscriptionId :: int
  r_PreConsumed :: int
  r_Status :: jstring

text \<open>
  Orders of subscriptions and the payments they are listed with. The amount of money is a \<open>float64\<close> that is
  only copied; it is represented by its bits.
\<close>

record SubscriptionOrder =
  o_UserId :: int
  o_PlanId :: int
  o_Money :: int
  o_PaymentMethod :: jstring
  o_PaymentProvider :: jstring
  o_Status :: jstring
  o_CreateTime :: int
  o_CompleteTime :: "int option"
  o_ProviderPayload :: jstring

record TopUp =
  tu_UserId :: int
  tu_Amount :: int
  tu_Money :: int
  tu_PaymentMethod :: jstring
  tu_PaymentProvider :: jstring
  tu_CreateTime :: int
  tu_CompleteTime :: "int option"
  tu_Status :: jstring

text \<open>
  The quota and the group of a user are columns of one table; they are kept apart here, since no statement
  touches both. The database numbers new subscriptions after \<open>last_sub_id\<close>.
\<close>

type_synonym 'r table = "(int \<times> 'r) list"

record store =
  users :: "int table"
  groups :: "jstring table"
  tokens_tab :: "Token table"
  subs :: "UserSubscription table"
  plans :: "SubscriptionPlan table"
  records :: "(jstring \<times> SubscriptionPreConsumeRecord) list"
  orders :: "(jstring \<times> SubscriptionOrder) list"
  topups :: "(jstring \<times> TopUp) list"
  last_sub_id :: int
  batch_user :: "int table"
  batch_token :: "int table"
  statements :: nat

record env =
  fault :: "nat \<Rightarrow> jstring option"
  BatchUpdateEnabled :: bool
  cached_token :: "nat \<Rightarrow> jstring \<Rightarrow> Token option"
  cached_plan :: "nat \<Rightarrow> int \<Rightarrow> SubscriptionPlan option"
  cached_info :: "nat \<Rightarrow> int \<Rightarrow> (int \<times> jstring) option"
  now :: "nat \<Rightarrow> int"
  zone :: int
  FormatQuota :: "int \<Rightarrow> jstring"
  trustQuota :: int

definition statement :: "env \<Rightarrow> store \<Rightarrow> jstring option \<times> store" where
  "statement env st = (fault env (statements st), st\<lparr>statements := Suc (statements st)\<rparr>)"

definition update_row :: "'k \<Rightarrow> ('r \<Rightarrow> 'r) \<Rightarrow> ('k \<times> 'r) list \<Rightarrow> ('k \<times> 'r) list" where
  "update_row uid f tab = map (\<lambda>(i, r). (i, if i = uid then f r else r)) tab"

definition record_not_found :: jstring where
  "record_not_found = js ''record not found''"

section \<open>Quota of users\<close>

definition negative_quota :: jstring where
  "negative_quota = js ''quota '' @ [19981, 33021, 20026, 36127, 25968, 65281]"

definition insufficient_quota :: jstring where
  "insufficient_quota = [29992, 25143, 39069, 24230, 19981, 36275]"

definition GetUserQuota :: "env \<Rightarrow> int \<Rightarrow> store \<Rightarrow> (jstring + int) \<times> store" where
  "GetUserQuota env uid st =
     (case statement env st of
        (Some err, st) \<Rightarrow> (Inl err, st)
      | (None, st) \<Rightarrow> (Inr (case map_of (users st) uid of None \<Rightarrow> 0 | Some q \<Rightarrow> q), st))"

definition increaseUserQuota :: "env \<Rightarrow> int \<Rightarrow> int \<Rightarrow> store \<Rightarrow> jstring option \<times> store" where
  "increaseUserQuota env uid quota st =
     (case statement env st of
        (Some err, st) \<Rightarrow> (Some err, st)
      | (None, st) \<Rightarrow> (None, st\<lparr>users := update_row uid (\<lambda>q. q + quota) (users st)\<rparr>))"

definition decreaseUserQuota :: "env \<Rightarrow> int \<Rightarrow> int \<Rightarrow> store \<Rightarrow> jstring option \<times> store" where
  "decreaseUserQuota env uid quota st =
     (case statement env st of
        (Some err, st) \<Rightarrow> (Some err, st)
      | (None, st) \<Rightarrow>
          (case map_of (users st) uid of
             None \<Rightarrow> (Some insufficient_quota, st)
           | Some q \<Rightarrow>
               if q \<ge> quota then (None, st\<lparr>users := update_row uid (\<lambda>q. q - quota) (users st)\<rparr>)
               else (Some insufficient_quota, st)))"

fun addNewRecord :: "int \<Rightarrow> int \<Rightarrow> int table \<Rightarrow> int table" where
  "addNewRecord uid val [] = [(uid, val)]"
| "addNewRecord uid val ((i, v) # bs) = (if i = uid then (i, v + val) # bs else (i, v) # addNewRecord uid val bs)"

definition IncreaseUserQuota :: "env \<Rightarrow> int \<Rightarrow> int \<Rightarrow> bool \<Rightarrow> store \<Rightarrow> jstring option \<times> store" where
  "IncreaseUserQuota env uid quota db st =
     (if quota < 0 then (Some negative_quota, st)
      else if \<not> db \<and> BatchUpdateEnabled env then (None, st\<lparr>batch_user := addNewRecord uid quota (batch_user st)\<rparr>)
      else increaseUserQuota env uid quota st)"

definition DecreaseUserQuota :: "env \<Rightarrow> int \<Rightarrow> int \<Rightarrow> bool \<Rightarrow> store \<Rightarrow> jstring option \<times> store" where
  "DecreaseUserQuota env uid quota db st =
     (if quota < 0 then (Some negative_quota, st)
      else if \<not> db \<and> BatchUpdateEnabled env then (None, st\<lparr>batch_user := addNewRecord uid (- quota) (batch_user st)\<rparr>)
      else decreaseUserQuota env uid quota st)"

section \<open>Quota of tokens\<close>

definition GetTokenByKey :: "env \<Rightarrow> jstring \<Rightarrow> store \<Rightarrow> (jstring + Token) \<times> store" where
  "GetTokenByKey env key st =
     (case cached_token env (statements st) key of
        Some token \<Rightarrow> (Inr token, st)
      | None \<Rightarrow>
          (case statement env st of
             (Some err, st) \<Rightarrow> (Inl err, st)
           | (None, st) \<Rightarrow>
               (case find (\<lambda>(i, t). t_key t = key) (tokens_tab st) of
                  None \<Rightarrow> (Inl record_not_found, st)
                | Some (i, t) \<Rightarrow> (Inr t, st))))"

definition increaseTokenQuota :: "env \<Rightarrow> int \<Rightarrow> int \<Rightarrow> store \<Rightarrow> jstring option \<times> store" where
  "increaseTokenQuota env uid quota st =
     (case statement env st of
        (Some err, st) \<Rightarrow> (Some err, st)
      | (None, st) \<Rightarrow>
          (None, st\<lparr>tokens_tab := update_row uid
             (\<lambda>t. t\<lparr>RemainQuota := RemainQuota t + quota, UsedQuota := UsedQuota t - quota\<rparr>) (tokens_tab st)\<rparr>))"

definition decreaseTokenQuota :: "env \<Rightarrow> int \<Rightarrow> int \<Rightarrow> store \<Rightarrow> jstring option \<times> store" where
  "decreaseTokenQuota env uid quota st =
     (case statement env st of
        (Some err, st) \<Rightarrow> (Some err, st)
      | (None, st) \<Rightarrow>
          (None, st\<lparr>tokens_tab := update_row uid
             (\<lambda>t. t\<lparr>RemainQuota := RemainQuota t - quota, UsedQuota := UsedQuota t + quota\<rparr>) (tokens_tab st)\<rparr>))"

definition IncreaseTokenQuota :: "env \<Rightarrow> int \<Rightarrow> jstring \<Rightarrow> int \<Rightarrow> store \<Rightarrow> jstring option \<times> store" where
  "IncreaseTokenQuota env tokenId key quota st =
     (if quota < 0 then (Some negative_quota, st)
      else if BatchUpdateEnabled env then (None, st\<lparr>batch_token := addNewRecord tokenId quota (batch_token st)\<rparr>)
      else increaseTokenQuota env tokenId quota st)"

definition DecreaseTokenQuota :: "env \<Rightarrow> int \<Rightarrow> jstring \<Rightarrow> int \<Rightarrow> store \<Rightarrow> jstring option \<times> store" where
  "DecreaseTokenQuota env uid key quota st =
     (if quota < 0 then (Some negative_quota, st)
      else if BatchUpdateEnabled env then (None, st\<lparr>batch_token := addNewRecord uid (- quota) (batch_token st)\<rparr>)
      else decreaseTokenQuota env uid quota st)"

section \<open>Collected updates\<close>

text \<open>
  \<open>batchUpdate\<close> takes each store as a whole and writes its entries one by one; a failure is logged. The
  order of the entries is that of a Go map; entries have different keys, so they change different rows.
\<close>

fun write_batch :: "(int \<Rightarrow> int \<Rightarrow> store \<Rightarrow> jstring option \<times> store) \<Rightarrow> int table \<Rightarrow> store \<Rightarrow> store" where
  "write_batch upd [] st = st"
| "write_batch upd ((k, v) # bs) st = write_batch upd bs (snd (upd k v st))"

definition batchUpdate :: "env \<Rightarrow> store \<Rightarrow> store" where
  "batchUpdate env st =
     (if batch_user st = [] \<and> batch_token st = [] then st
      else
        let st1 = write_batch (increaseUserQuota env) (batch_user st) (st\<lparr>batch_user := []\<rparr>) in
        write_batch (increaseTokenQuota env) (batch_token st1) (st1\<lparr>batch_token := []\<rparr>))"

section \<open>Accounts\<close>

text \<open>
  What the callers rely on: a credit or a debit that succeeds moves the amount, one that fails moves
  nothing. A change by a difference (debit when positive, credit otherwise) then moves the difference;
  this is how prepayments are settled.
\<close>

locale account =
  fixes balance :: "store \<Rightarrow> int option"
    and credit :: "int \<Rightarrow> store \<Rightarrow> jstring option \<times> store"
    and debit :: "int \<Rightarrow> store \<Rightarrow> jstring option \<times> store"
  assumes credit_moves: "credit n st = (None, st') \<Longrightarrow> balance st' = map_option (\<lambda>q. q + n) (balance st)"
    and credit_fails: "credit n st = (Some e, st') \<Longrightarrow> balance st' = balance st"
    and debit_moves: "debit n st = (None, st') \<Longrightarrow> balance st' = map_option (\<lambda>q. q - n) (balance st)"
    and debit_fails: "debit n st = (Some e, st') \<Longrightarrow> balance st' = balance st"
begin

lemma change_moves:
  "(if d > 0 then debit d st else credit (- d) st) = (None, st') \<Longrightarrow> balance st' = map_option (\<lambda>q. q - d) (balance st)"
  using credit_moves [of "- d"] debit_moves by (auto split: if_splits)

lemma change_fails:
  "(if d > 0 then debit d st else credit (- d) st) = (Some e, st') \<Longrightarrow> balance st' = balance st"
  using credit_fails [of "- d"] debit_fails by (auto split: if_splits)

lemma debit_credit:
  assumes "debit n st = (None, st1)" and "credit n st1 = (None, st2)"
  shows "balance st2 = balance st"
  using debit_moves [OF assms(1)] credit_moves [OF assms(2)] by (cases "balance st") auto

end

definition wallet :: "int \<Rightarrow> store \<Rightarrow> int option" where
  "wallet u st = map_of (users st) u"

text \<open>The quota of a token is what its row says, corrected by the update that is still to be written.\<close>

definition collected :: "int \<Rightarrow> int table \<Rightarrow> int" where
  "collected uid bs = (case map_of bs uid of None \<Rightarrow> 0 | Some v \<Rightarrow> v)"

definition token_left :: "int \<Rightarrow> store \<Rightarrow> int option" where
  "token_left i st = map_option (\<lambda>t. RemainQuota t + collected i (batch_token st)) (map_of (tokens_tab st) i)"

lemma map_of_update_row:
  "map_of (update_row k f tab) i = (if i = k then map_option f (map_of tab i) else map_of tab i)"
  by (induction tab) (auto simp: update_row_def)

lemma update_row_keys [simp]: "map fst (update_row k f tab) = map fst tab"
  by (induction tab) (auto simp: update_row_def)

lemma collected_add: "collected i (addNewRecord k v bs) = collected i bs + (if i = k then v else 0)"
  by (induction k v bs rule: addNewRecord.induct) (auto simp: collected_def)

lemmas user_ops = IncreaseUserQuota_def DecreaseUserQuota_def increaseUserQuota_def decreaseUserQuota_def
  statement_def
lemmas token_ops = IncreaseTokenQuota_def DecreaseTokenQuota_def increaseTokenQuota_def decreaseTokenQuota_def
  statement_def

interpretation wal: account "wallet u" "\<lambda>n. IncreaseUserQuota env u n True" "\<lambda>n. DecreaseUserQuota env u n True"
  for env u
  by unfold_locales
    (auto simp: user_ops wallet_def map_of_update_row split: if_splits option.splits)

interpretation tok: account "token_left i" "IncreaseTokenQuota env i key" "DecreaseTokenQuota env i key"
  for env i key
  by unfold_locales
    (auto simp: token_ops token_left_def map_of_update_row collected_add map_option_case split: if_splits option.splits)

text \<open>What an operation leaves alone.\<close>

lemma user_credit_frame:
  "IncreaseUserQuota env u n True st = (e, st') \<Longrightarrow>
     token_left i st' = token_left i st \<and> subs st' = subs st \<and> records st' = records st \<and> plans st' = plans st"
  by (auto simp: user_ops token_left_def split: if_splits option.splits)

lemma user_debit_frame:
  "DecreaseUserQuota env u n True st = (e, st') \<Longrightarrow>
     token_left i st' = token_left i st \<and> subs st' = subs st \<and> records st' = records st \<and> plans st' = plans st"
  by (auto simp: user_ops token_left_def split: if_splits option.splits)

lemma token_credit_frame:
  "IncreaseTokenQuota env i key n st = (e, st') \<Longrightarrow>
     wallet u st' = wallet u st \<and> subs st' = subs st \<and> records st' = records st \<and> plans st' = plans st"
  by (auto simp: token_ops wallet_def split: if_splits option.splits)

lemma token_debit_frame:
  "DecreaseTokenQuota env i key n st = (e, st') \<Longrightarrow>
     wallet u st' = wallet u st \<and> subs st' = subs st \<and> records st' = records st \<and> plans st' = plans st"
  by (auto simp: token_ops wallet_def split: if_splits option.splits)

lemmas store_frames = user_credit_frame user_debit_frame token_credit_frame token_debit_frame

section \<open>Writing the collected updates\<close>

lemma addNewRecord_keys: "fst ` set (addNewRecord k v bs) = insert k (fst ` set bs)"
  by (induction k v bs rule: addNewRecord.induct) auto

lemma addNewRecord_distinct: "distinct (map fst bs) \<Longrightarrow> distinct (map fst (addNewRecord k v bs))"
  by (induction k v bs rule: addNewRecord.induct) (auto simp: addNewRecord_keys image_iff)

text \<open>The update of a row is lost when the statement that writes it fails; the first has the number \<open>n\<close>.\<close>

definition lost :: "env \<Rightarrow> nat \<Rightarrow> int table \<Rightarrow> int \<Rightarrow> bool" where
  "lost env n bs i \<longleftrightarrow> (\<exists>k < length bs. fst (bs ! k) = i \<and> fault env (n + k) \<noteq> None)"

lemma lost_Nil [simp]: "\<not> lost env n [] i"
  by (simp add: lost_def)

lemma lost_Cons [simp]: "lost env n (b # bs) i \<longleftrightarrow> fst b = i \<and> fault env n \<noteq> None \<or> lost env (Suc n) bs i"
  by (auto simp: lost_def Ex_less_Suc2)

lemma lost_key: "lost env n bs i \<Longrightarrow> i \<in> fst ` set bs"
  by (auto simp: lost_def intro!: image_eqI)

definition arrived :: "env \<Rightarrow> nat \<Rightarrow> int table \<Rightarrow> int \<Rightarrow> int" where
  "arrived env n bs i = (if lost env n bs i then 0 else collected i bs)"

lemma arrived_Cons:
  assumes "distinct (map fst ((k, v) # bs))"
  shows "arrived env n ((k, v) # bs) i = (if i = k then (if fault env n = None then v else 0) else arrived env (Suc n) bs i)"
  using assms lost_key [of env "Suc n" bs k] by (auto simp: arrived_def collected_def)

lemma arrived_absent: "i \<notin> fst ` set bs \<Longrightarrow> arrived env n bs i = 0"
  using map_of_eq_None_iff [of bs i] lost_key by (auto simp: arrived_def collected_def)

lemma increaseUserQuota_wallet:
  "wallet i (snd (increaseUserQuota env k v st)) =
     (if i = k \<and> fault env (statements st) = None then map_option (\<lambda>q. q + v) (wallet i st) else wallet i st)"
  by (auto simp: increaseUserQuota_def statement_def wallet_def map_of_update_row split: option.splits)

lemma increaseTokenQuota_row:
  "map_option RemainQuota (map_of (tokens_tab (snd (increaseTokenQuota env k v st))) i) =
     map_option (\<lambda>t. RemainQuota t + (if i = k \<and> fault env (statements st) = None then v else 0)) (map_of (tokens_tab st) i)"
  by (auto simp: increaseTokenQuota_def statement_def map_of_update_row map_option_case split: option.splits)

lemma increase_frame [simp]:
  "tokens_tab (snd (increaseUserQuota env k v st)) = tokens_tab st" "batch_token (snd (increaseUserQuota env k v st)) = batch_token st"
  "batch_user (snd (increaseUserQuota env k v st)) = batch_user st" "statements (snd (increaseUserQuota env k v st)) = Suc (statements st)"
  "users (snd (increaseTokenQuota env k v st)) = users st" "batch_token (snd (increaseTokenQuota env k v st)) = batch_token st"
  "batch_user (snd (increaseTokenQuota env k v st)) = batch_user st" "statements (snd (increaseTokenQuota env k v st)) = Suc (statements st)"
  by (simp_all add: increaseUserQuota_def increaseTokenQuota_def statement_def split: option.split)

lemma write_batch_users:
  assumes "distinct (map fst bs)"
  shows "wallet i (write_batch (increaseUserQuota env) bs st) =
      map_option (\<lambda>q. q + arrived env (statements st) bs i) (wallet i st)"
    and "tokens_tab (write_batch (increaseUserQuota env) bs st) = tokens_tab st"
    and "batch_token (write_batch (increaseUserQuota env) bs st) = batch_token st"
    and "batch_user (write_batch (increaseUserQuota env) bs st) = batch_user st"
    and "statements (write_batch (increaseUserQuota env) bs st) = statements st + length bs"
  using assms
proof (induction bs arbitrary: st)
  case (Cons b bs)
  obtain k v where b: "b = (k, v)" by force
  { case 1
    then show ?case
      using Cons.IH(1) [of "snd (increaseUserQuota env k v st)"] arrived_absent [of k bs]
      by (auto simp: b increaseUserQuota_wallet arrived_Cons option.map_comp o_def option.map_ident) }
qed (auto simp: arrived_def collected_def option.map_ident split: prod.splits)

lemma write_batch_tokens:
  assumes "distinct (map fst bs)"
  shows "map_option RemainQuota (map_of (tokens_tab (write_batch (increaseTokenQuota env) bs st)) i) =
      map_option (\<lambda>t. RemainQuota t + arrived env (statements st) bs i) (map_of (tokens_tab st) i)"
    and "users (write_batch (increaseTokenQuota env) bs st) = users st"
    and "batch_token (write_batch (increaseTokenQuota env) bs st) = batch_token st"
    and "batch_user (write_batch (increaseTokenQuota env) bs st) = batch_user st"
  using assms
proof (induction bs arbitrary: st)
  case (Cons b bs)
  obtain k v where b: "b = (k, v)" by force
  { case 1
    let ?st = "snd (increaseTokenQuota env k v st)"
    have "map_option (\<lambda>t. RemainQuota t + x) (map_of (tokens_tab ?st) i) =
        map_option (\<lambda>q. q + x) (map_option RemainQuota (map_of (tokens_tab ?st) i))" for x
      by (simp add: option.map_comp o_def)
    then show ?case
      using 1 Cons.IH(1) [of ?st] arrived_absent [of k bs]
      by (auto simp: b increaseTokenQuota_row arrived_Cons option.map_comp o_def) }
qed (auto simp: arrived_def collected_def split: prod.splits)

text \<open>
  C21. Writing the collected updates moves each of them into its row or loses it, and leaves none to be
  written. What a user or a token has, counted with the updates that were to be written, is kept exactly,
  unless the one statement that writes its update fails; then exactly that update is missing.
\<close>

theorem batch_update_keeps:
  assumes "distinct (map fst (batch_user st))" and "distinct (map fst (batch_token st))"
  shows "token_left i (batchUpdate env st) =
      map_option (\<lambda>q. q - (if lost env (statements st + length (batch_user st)) (batch_token st) i
        then collected i (batch_token st) else 0)) (token_left i st) \<and>
    wallet u (batchUpdate env st) =
      map_option (\<lambda>q. q + (if lost env (statements st) (batch_user st) u then 0 else collected u (batch_user st))) (wallet u st) \<and>
    batch_user (batchUpdate env st) = [] \<and> batch_token (batchUpdate env st) = []"
proof (cases "batch_user st = [] \<and> batch_token st = []")
  case True
  then show ?thesis by (simp add: batchUpdate_def collected_def option.map_ident)
next
  case False
  let ?st1 = "write_batch (increaseUserQuota env) (batch_user st) (st\<lparr>batch_user := []\<rparr>)"
  have b: "batchUpdate env st = write_batch (increaseTokenQuota env) (batch_token st) (?st1\<lparr>batch_token := []\<rparr>)"
    using False write_batch_users(3) [OF assms(1)] by (simp add: batchUpdate_def Let_def)
  have row: "map_option (\<lambda>t. RemainQuota t + x) r = map_option (\<lambda>q. q + x) (map_option RemainQuota r)" for x r
    by (simp add: option.map_comp o_def)
  have "token_left i (batchUpdate env st) =
      map_option (\<lambda>t. RemainQuota t + arrived env (statements st + length (batch_user st)) (batch_token st) i) (map_of (tokens_tab st) i)"
    using write_batch_tokens(1,3) [OF assms(2)] write_batch_users(2,5) [OF assms(1)]
    by (simp add: b token_left_def collected_def)
  moreover have "wallet u (batchUpdate env st) = map_option (\<lambda>q. q + arrived env (statements st) (batch_user st) u) (wallet u st)"
    using write_batch_tokens(2) [OF assms(2)] write_batch_users(1) [OF assms(1), of u]
    by (simp add: b wallet_def)
  ultimately show ?thesis
    using write_batch_tokens(3,4) [OF assms(2)] write_batch_users(4) [OF assms(1)]
    by (simp add: b arrived_def token_left_def option.map_comp o_def)
qed

definition quiet :: env where
  "quiet = \<lparr>fault = (\<lambda>n. None), BatchUpdateEnabled = False, cached_token = (\<lambda>n k. None), cached_plan = (\<lambda>n i. None),
     cached_info = (\<lambda>n i. None), now = (\<lambda>n. 1000), zone = 0, FormatQuota = Itoa, trustQuota = 5000000\<rparr>"

definition example_store :: store where
  "example_store =
     \<lparr>users = [(1, 1000)], groups = [(1, js ''default'')], tokens_tab = [(7, \<lparr>t_key = js ''sk'', RemainQuota = 500, UsedQuota = 0\<rparr>)],
      subs = [], plans = [], records = [], orders = [], topups = [], last_sub_id = 5, batch_user = [], batch_token = [(7, - 20)], statements = 0\<rparr>"

theorem batch_update_keeps_witness:
  "token_left 7 (batchUpdate quiet example_store) = Some 480 \<and>
   token_left 7 (batchUpdate (quiet\<lparr>fault := (\<lambda>n. Some (js ''timeout''))\<rparr>) example_store) = Some 500"
proof -
  have "distinct (map fst (batch_user example_store))" "distinct (map fst (batch_token example_store))"
    by (simp_all add: example_store_def)
  note b = batch_update_keeps [OF this]
  have "token_left 7 example_store = Some 480" by (simp add: example_store_def token_left_def collected_def)
  moreover have "\<not> lost quiet n bs i" for n bs i by (simp add: quiet_def lost_def)
  moreover have "lost (quiet\<lparr>fault := (\<lambda>n. Some (js ''timeout''))\<rparr>) n (batch_token example_store) 7" for n
    by (simp add: example_store_def)
  moreover have "collected 7 (batch_token example_store) = - 20" by (simp add: example_store_def collected_def)
  ultimately show ?thesis
    using b [of 7 quiet 1] b [of 7 "quiet\<lparr>fault := (\<lambda>n. Some (js ''timeout''))\<rparr>" 1] by simp
qed

text \<open>An update whose statement fails is lost: it has been taken from the store and is not put back.\<close>

lemma failed_batch_lost:
  "token_left 7 (batchUpdate (quiet\<lparr>fault := (\<lambda>n. Some (js ''timeout''))\<rparr>) example_store) = Some 500"
  by (simp add: batchUpdate_def example_store_def increaseTokenQuota_def statement_def token_left_def collected_def)

end
