(* ===== verification/Go_Subscription.thy ===== *)
theory Go_Subscription
  imports Go_Store "HOL-Library.Product_Lexorder"
begin

text \<open>
  The quota of subscriptions, \<open>src/model/subscription.go\<close>: the next reset of the quota, and the
  functions that take quota from a subscription in advance, correct it and give it back.

  A time is a number of nanoseconds since 1970 in a location with a fixed offset from UTC (\<open>zone\<close>, in
  seconds); Go's zero time is the first of January of the year 1. \<open>time.Duration\<close> is an \<open>int64\<close> of
  nanoseconds, whose wrap-around is written out. The loop of \<open>maybeResetUserSubscriptionWithPlanTx\<close>
  need not end; \<open>None\<close> stands for a call that does not return. Times lie after 1970.
\<close>

section \<open>Times\<close>

definition second :: int where "second = 1000000000"
definition day_ns :: int where "day_ns = 86400 * second"

definition zero_time :: int where "zero_time = - 62135596800 * second"

definition IsZero :: "int \<Rightarrow> bool" where "IsZero t \<longleftrightarrow> t = zero_time"

text \<open>The number of the day of a time since 1970, and the midnight at which a day begins.\<close>

definition day_of :: "int \<Rightarrow> int \<Rightarrow> int" where
  "day_of off t = (t + off * second) div day_ns"

definition midnight :: "int \<Rightarrow> int \<Rightarrow> int" where
  "midnight off d = d * day_ns - off * second"

text \<open>Sunday is 0; the first of January 1970 was a Thursday.\<close>

definition Weekday :: "int \<Rightarrow> int \<Rightarrow> int" where
  "Weekday off t = (day_of off t + 4) mod 7"

definition leap_year :: "int \<Rightarrow> bool" where
  "leap_year y \<longleftrightarrow> y mod 4 = 0 \<and> (y mod 100 \<noteq> 0 \<or> y mod 400 = 0)"

definition month_days :: "int \<Rightarrow> int \<Rightarrow> int" where
  "month_days y m = (if m = 2 then (if leap_year y then 29 else 28) else if m \<in> {4, 6, 9, 11} then 30 else 31)"

lemma month_days_pos: "28 \<le> month_days y m"
  by (simp add: month_days_def)

text \<open>
  The first day of the month after that of day \<open>d\<close>, from the month \<open>m\<close> of year \<open>y\<close> that begins at day \<open>f\<close>.
\<close>

function next_month :: "int \<Rightarrow> int \<Rightarrow> int \<Rightarrow> int \<Rightarrow> int" where
  "next_month y m f d =
     (if d < f + month_days y m then f + month_days y m
      else if m = 12 then next_month (y + 1) 1 (f + month_days y m) d
      else next_month y (m + 1) (f + month_days y m) d)"
  by auto
termination
  by (relation "measure (\<lambda>(y, m, f, d). nat (d - f))")
    (use month_days_pos in \<open>auto simp: not_less\<close>, (smt (verit) month_days_pos)+)


section \<open>Plans\<close>

definition NormalizeResetPeriod :: "jstring \<Rightarrow> jstring" where
  "NormalizeResetPeriod period =
     (if TrimSpace period \<in> {js ''daily'', js ''weekly'', js ''monthly'', js ''custom''} then TrimSpace period
      else js ''never'')"

definition reset_after :: "int \<Rightarrow> SubscriptionPlan \<Rightarrow> int \<Rightarrow> int" where
  "reset_after off plan base =
     (let period = NormalizeResetPeriod (QuotaResetPeriod plan); d = day_of off base in
      if period = js ''daily'' then midnight off (d + 1)
      else if period = js ''weekly'' then
        (let weekday = (if Weekday off base = 0 then 7 else Weekday off base) in midnight off (d + (8 - weekday)))
      else if period = js ''monthly'' then midnight off (next_month 1970 1 0 d)
      else if period = js ''custom'' then
        (if QuotaResetCustomSeconds plan \<le> 0 then zero_time
         else base + int64 (QuotaResetCustomSeconds plan * second))
      else zero_time)"

definition calcNextResetTime :: "int \<Rightarrow> int \<Rightarrow> SubscriptionPlan \<Rightarrow> int \<Rightarrow> int" where
  "calcNextResetTime off base plan end_time =
     (let nxt = reset_after off plan base in
      if \<not> IsZero end_time \<and> nxt > end_time then zero_time else nxt)"

section \<open>Reset of the quota\<close>

partial_function (option) reset_loop ::
  "int \<Rightarrow> SubscriptionPlan \<Rightarrow> int \<Rightarrow> int \<Rightarrow> int \<Rightarrow> int \<Rightarrow> bool \<Rightarrow> (int \<times> int \<times> bool) option" where
  "reset_loop off plan end_time tnow base nxt advanced =
     (if \<not> IsZero nxt \<and> \<not> nxt > tnow
      then reset_loop off plan end_time tnow nxt (calcNextResetTime off nxt plan end_time) True
      else Some (base, nxt, advanced))"

declare reset_loop.simps [code]

definition save_sub :: "env \<Rightarrow> int \<Rightarrow> UserSubscription \<Rightarrow> store \<Rightarrow> jstring option \<times> store" where
  "save_sub env sid sub st =
     (case statement env st of
        (Some err, st) \<Rightarrow> (Some err, st)
      | (None, st) \<Rightarrow> (None, st\<lparr>subs := update_row sid (\<lambda>_. sub) (subs st)\<rparr>))"

definition maybeResetUserSubscriptionWithPlanTx ::
  "env \<Rightarrow> int \<Rightarrow> UserSubscription \<Rightarrow> SubscriptionPlan \<Rightarrow> int \<Rightarrow> store \<Rightarrow>
     ((jstring option \<times> UserSubscription) \<times> store) option" where
  "maybeResetUserSubscriptionWithPlanTx env sid sub plan tnow st =
     (if (case NextResetTime sub of None \<Rightarrow> False | Some t \<Rightarrow> t > tnow) then Some ((None, sub), st)
      else if NormalizeResetPeriod (QuotaResetPeriod plan) = js ''never'' then Some ((None, sub), st)
      else
        let base = (case LastResetTime sub of None \<Rightarrow> us_StartTime sub | Some b \<Rightarrow> b);
            nxt = calcNextResetTime (zone env) base plan (us_EndTime sub) in
        case reset_loop (zone env) plan (us_EndTime sub) tnow base nxt False of
          None \<Rightarrow> None
        | Some (base, nxt, advanced) \<Rightarrow>
            if \<not> advanced then
              (if NextResetTime sub = None \<and> \<not> IsZero nxt then
                 let sub' = sub\<lparr>NextResetTime := Some nxt, LastResetTime := Some base\<rparr>;
                     (err, st) = save_sub env sid sub' st in Some ((err, sub'), st)
               else Some ((None, sub), st))
            else
              let sub' = sub\<lparr>us_AmountUsed := 0, LastResetTime := Some base, NextResetTime := Some nxt\<rparr>;
                  (err, st) = save_sub env sid sub' st in Some ((err, sub'), st))"

section \<open>Transactions\<close>

text \<open>
  \<open>DB.Transaction\<close>: an error of the function or of the commit undoes what the function has written.
\<close>

definition end_tx :: "env \<Rightarrow> store \<Rightarrow> (jstring + 'a) \<times> store \<Rightarrow> (jstring + 'a) \<times> store" where
  "end_tx env st0 res =
     (case res of
        (Inl err, st) \<Rightarrow> (Inl err, st0\<lparr>statements := statements st\<rparr>)
      | (Inr x, st) \<Rightarrow>
          (case statement env st of
             (Some err, st) \<Rightarrow> (Inl err, st0\<lparr>statements := statements st\<rparr>)
           | (None, st) \<Rightarrow> (Inr x, st)))"

definition transaction :: "env \<Rightarrow> (store \<Rightarrow> (jstring + 'a) \<times> store) \<Rightarrow> store \<Rightarrow> (jstring + 'a) \<times> store" where
  "transaction env body st =
     (case statement env st of (Some err, st) \<Rightarrow> (Inl err, st) | (None, st) \<Rightarrow> end_tx env st (body st))"

definition post_consume_tx :: "env \<Rightarrow> int \<Rightarrow> int \<Rightarrow> store \<Rightarrow> (jstring + unit) \<times> store" where
  "post_consume_tx env sid delta st =
     (case statement env st of
        (Some err, st) \<Rightarrow> (Inl err, st)
      | (None, st) \<Rightarrow>
          (case map_of (subs st) sid of
             None \<Rightarrow> (Inl record_not_found, st)
           | Some sub \<Rightarrow>
               let used = int64 (us_AmountUsed sub + delta);
                   newUsed = (if used < 0 then 0 else used) in
               if us_AmountTotal sub > 0 \<and> newUsed > us_AmountTotal sub
               then (Inl (js ''subscription used exceeds total, used='' @ Itoa newUsed @
                          js '' total='' @ Itoa (us_AmountTotal sub)), st)
               else (case save_sub env sid (sub\<lparr>us_AmountUsed := newUsed\<rparr>) st of
                       (Some err, st) \<Rightarrow> (Inl err, st) | (None, st) \<Rightarrow> (Inr (), st))))"

definition PostConsumeUserSubscriptionDelta :: "env \<Rightarrow> int \<Rightarrow> int \<Rightarrow> store \<Rightarrow> jstring option \<times> store" where
  "PostConsumeUserSubscriptionDelta env sid delta st =
     (if sid \<le> 0 then (Some (js ''invalid userSubscriptionId''), st)
      else if delta = 0 then (None, st)
      else (case transaction env (post_consume_tx env sid delta) st of
              (Inl err, st) \<Rightarrow> (Some err, st) | (Inr _, st) \<Rightarrow> (None, st)))"

section \<open>Taking quota in advance\<close>

definition getSubscriptionPlanByIdTx :: "env \<Rightarrow> int \<Rightarrow> store \<Rightarrow> (jstring + SubscriptionPlan) \<times> store" where
  "getSubscriptionPlanByIdTx env pid st =
     (if pid \<le> 0 then (Inl (js ''invalid plan id''), st)
      else case cached_plan env (statements st) pid of
        Some plan \<Rightarrow> (Inr plan, st)
      | None \<Rightarrow>
          (case statement env st of
             (Some err, st) \<Rightarrow> (Inl err, st)
           | (None, st) \<Rightarrow>
               (case map_of (plans st) pid of None \<Rightarrow> (Inl record_not_found, st) | Some plan \<Rightarrow> (Inr plan, st))))"

definition GetSubscriptionPlanInfoByUserSubscriptionId ::
  "env \<Rightarrow> int \<Rightarrow> store \<Rightarrow> (jstring + int \<times> jstring) \<times> store" where
  "GetSubscriptionPlanInfoByUserSubscriptionId env sid st =
     (if sid \<le> 0 then (Inl (js ''invalid userSubscriptionId''), st)
      else case cached_info env (statements st) sid of
        Some info \<Rightarrow> (Inr info, st)
      | None \<Rightarrow>
          (case statement env st of
             (Some err, st) \<Rightarrow> (Inl err, st)
           | (None, st) \<Rightarrow>
               (case map_of (subs st) sid of
                  None \<Rightarrow> (Inl record_not_found, st)
                | Some sub \<Rightarrow>
                    (case getSubscriptionPlanByIdTx env (us_PlanId sub) st of
                       (Inl err, st) \<Rightarrow> (Inl err, st)
                     | (Inr plan, st) \<Rightarrow> (Inr (us_PlanId sub, p_Title plan), st)))))"

definition active_sub :: "int \<Rightarrow> int \<Rightarrow> UserSubscription \<Rightarrow> bool" where
  "active_sub userId tnow sub \<longleftrightarrow> us_UserId sub = userId \<and> us_Status sub = js ''active'' \<and> us_EndTime sub > tnow"

definition HasActiveUserSubscription :: "env \<Rightarrow> int \<Rightarrow> store \<Rightarrow> (jstring + bool) \<times> store" where
  "HasActiveUserSubscription env userId st =
     (if userId \<le> 0 then (Inl (js ''invalid userId''), st)
      else let tnow = now env (statements st) in
        case statement env st of
          (Some err, st) \<Rightarrow> (Inl err, st)
        | (None, st) \<Rightarrow> (Inr (list_ex (\<lambda>(i, sub). active_sub userId tnow sub) (subs st)), st))"

record SubscriptionPreConsumeResult =
  res_UserSubscriptionId :: int
  res_PreConsumed :: int
  res_AmountTotal :: int
  res_AmountUsedBefore :: int
  res_AmountUsedAfter :: int

definition already_refunded :: jstring where
  "already_refunded = js ''subscription pre-consume already refunded''"

text \<open>
  Creating the record fails when the statement does or when the request has one; the code then looks for
  the record of another call.
\<close>

definition charge_candidate ::
  "env \<Rightarrow> jstring \<Rightarrow> int \<Rightarrow> int \<Rightarrow> int \<Rightarrow> UserSubscription \<Rightarrow> store \<Rightarrow>
     (jstring + SubscriptionPreConsumeResult) \<times> store" where
  "charge_candidate env requestId userId amount sid sub st =
     (let (created, st) = statement env st;
          create_error = (case created of Some err \<Rightarrow> Some err
            | None \<Rightarrow> (case map_of (records st) requestId of None \<Rightarrow> None | Some _ \<Rightarrow> Some (js ''duplicate key''))) in
      case create_error of
        Some err \<Rightarrow>
          (case statement env st of
             (Some err2, st) \<Rightarrow> (Inl err, st)
           | (None, st) \<Rightarrow>
               (case map_of (records st) requestId of
                  None \<Rightarrow> (Inl err, st)
                | Some dup \<Rightarrow>
                    if r_Status dup = js ''refunded'' then (Inl already_refunded, st)
                    else (Inr \<lparr>res_UserSubscriptionId = sid, res_PreConsumed = r_PreConsumed dup,
                               res_AmountTotal = us_AmountTotal sub, res_AmountUsedBefore = us_AmountUsed sub,
                               res_AmountUsedAfter = us_AmountUsed sub\<rparr>, st)))
      | None \<Rightarrow>
          let record = \<lparr>r_UserId = userId, r_UserSubscriptionId = sid, r_PreConsumed = amount,
                        r_Status = js ''consumed''\<rparr>;
              st = st\<lparr>records := records st @ [(requestId, record)]\<rparr>;
              sub' = sub\<lparr>us_AmountUsed := int64 (us_AmountUsed sub + amount)\<rparr> in
          case save_sub env sid sub' st of
            (Some err, st) \<Rightarrow> (Inl err, st)
          | (None, st) \<Rightarrow>
              (Inr \<lparr>res_UserSubscriptionId = sid, res_PreConsumed = amount, res_AmountTotal = us_AmountTotal sub,
                    res_AmountUsedBefore = us_AmountUsed sub, res_AmountUsedAfter = us_AmountUsed sub'\<rparr>, st))"

fun try_candidates ::
  "env \<Rightarrow> jstring \<Rightarrow> int \<Rightarrow> int \<Rightarrow> int \<Rightarrow> UserSubscription table \<Rightarrow> store \<Rightarrow>
     ((jstring + SubscriptionPreConsumeResult) \<times> store) option" where
  "try_candidates env requestId userId amount tnow [] st =
     Some (Inl (js ''subscription quota insufficient, need='' @ Itoa amount), st)"
| "try_candidates env requestId userId amount tnow ((sid, sub) # cs) st =
     (case getSubscriptionPlanByIdTx env (us_PlanId sub) st of
        (Inl err, st) \<Rightarrow> Some (Inl err, st)
      | (Inr plan, st) \<Rightarrow>
          (case maybeResetUserSubscriptionWithPlanTx env sid sub plan tnow st of
             None \<Rightarrow> None
           | Some ((Some err, sub), st) \<Rightarrow> Some (Inl err, st)
           | Some ((None, sub), st) \<Rightarrow>
               if us_AmountTotal sub > 0 \<and> int64 (us_AmountTotal sub - us_AmountUsed sub) < amount
               then try_candidates env requestId userId amount tnow cs st
               else Some (charge_candidate env requestId userId amount sid sub st)))"

definition pre_consume_tx ::
  "env \<Rightarrow> jstring \<Rightarrow> int \<Rightarrow> int \<Rightarrow> int \<Rightarrow> store \<Rightarrow> ((jstring + SubscriptionPreConsumeResult) \<times> store) option" where
  "pre_consume_tx env requestId userId amount tnow st =
     (case statement env st of
        (Some err, st) \<Rightarrow> Some (Inl err, st)
      | (None, st) \<Rightarrow>
          (case map_of (records st) requestId of
             Some existing \<Rightarrow>
               if r_Status existing = js ''refunded'' then Some (Inl already_refunded, st)
               else (case statement env st of
                       (Some err, st) \<Rightarrow> Some (Inl err, st)
                     | (None, st) \<Rightarrow>
                         (case map_of (subs st) (r_UserSubscriptionId existing) of
                            None \<Rightarrow> Some (Inl record_not_found, st)
                          | Some sub \<Rightarrow>
                              Some (Inr \<lparr>res_UserSubscriptionId = r_UserSubscriptionId existing,
                                res_PreConsumed = r_PreConsumed existing, res_AmountTotal = us_AmountTotal sub,
                                res_AmountUsedBefore = us_AmountUsed sub, res_AmountUsedAfter = us_AmountUsed sub\<rparr>, st)))
           | None \<Rightarrow>
               (case statement env st of
                  (Some err, st) \<Rightarrow> Some (Inl (js ''no active subscription''), st)
                | (None, st) \<Rightarrow>
                    let found = sort_key (\<lambda>(i, sub). (us_EndTime sub, i))
                                  (filter (\<lambda>(i, sub). active_sub userId tnow sub) (subs st)) in
                    if found = [] then Some (Inl (js ''no active subscription''), st)
                    else try_candidates env requestId userId amount tnow found st)))"

definition PreConsumeUserSubscription ::
  "env \<Rightarrow> jstring \<Rightarrow> int \<Rightarrow> jstring \<Rightarrow> int \<Rightarrow> int \<Rightarrow> store \<Rightarrow>
     ((jstring + SubscriptionPreConsumeResult) \<times> store) option" where
  "PreConsumeUserSubscription env requestId userId modelName quotaType amount st =
     (if userId \<le> 0 then Some (Inl (js ''invalid userId''), st)
      else if TrimSpace requestId = [] then Some (Inl (js ''requestId is empty''), st)
      else if amount \<le> 0 then Some (Inl (js ''amount must be > 0''), st)
      else
        let tnow = now env (statements st) in
        case statement env st of
          (Some err, st) \<Rightarrow> Some (Inl err, st)
        | (None, st) \<Rightarrow> map_option (end_tx env st) (pre_consume_tx env requestId userId amount tnow st))"

section \<open>Giving it back\<close>

definition save_record ::
  "env \<Rightarrow> jstring \<Rightarrow> SubscriptionPreConsumeRecord \<Rightarrow> store \<Rightarrow> jstring option \<times> store" where
  "save_record env requestId record st =
     (case statement env st of
        (Some err, st) \<Rightarrow> (Some err, st)
      | (None, st) \<Rightarrow> (None, st\<lparr>records := update_row requestId (\<lambda>_. record) (records st)\<rparr>))"

text \<open>
  The transaction of the refund writes the record; the correction of the subscription inside it uses the
  connection \<open>DB\<close> and is a transaction of its own, which an undo of the outer one does not undo.
\<close>

definition refund_tx :: "env \<Rightarrow> jstring \<Rightarrow> store \<Rightarrow> jstring option \<times> store" where
  "refund_tx env requestId st =
     (case statement env st of
        (Some err, st) \<Rightarrow> (Some err, st)
      | (None, st) \<Rightarrow>
          (case map_of (records st) requestId of
             None \<Rightarrow> (Some record_not_found, st)
           | Some record \<Rightarrow>
               if r_Status record = js ''refunded'' then (None, st)
               else if r_PreConsumed record \<le> 0
               then save_record env requestId (record\<lparr>r_Status := js ''refunded''\<rparr>) st
               else (case PostConsumeUserSubscriptionDelta env (r_UserSubscriptionId record) (- r_PreConsumed record) st of
                       (Some err, st) \<Rightarrow> (Some err, st)
                     | (None, st) \<Rightarrow> save_record env requestId (record\<lparr>r_Status := js ''refunded''\<rparr>) st)))"

definition RefundSubscriptionPreConsume :: "env \<Rightarrow> jstring \<Rightarrow> store \<Rightarrow> jstring option \<times> store" where
  "RefundSubscriptionPreConsume env requestId st =
     (if TrimSpace requestId = [] then (Some (js ''requestId is empty''), st)
      else case statement env st of
        (Some err, st) \<Rightarrow> (Some err, st)
      | (None, st0) \<Rightarrow>
          (case refund_tx env requestId st0 of
             (Some err, st) \<Rightarrow> (Some err, st\<lparr>records := records st0\<rparr>)
           | (None, st) \<Rightarrow>
               (case statement env st of
                  (Some err, st) \<Rightarrow> (Some err, st\<lparr>records := records st0\<rparr>)
                | (None, st) \<Rightarrow> (None, st))))"

section \<open>The reset returns\<close>







definition daily_plan :: SubscriptionPlan where
  "daily_plan = \<lparr>p_Title = js ''basic'', DurationUnit = js ''day'', DurationValue = 30, CustomSeconds = 0, MaxPurchasePerUser = 2,
     p_UpgradeGroup = js ''vip'', TotalAmount = 1000, QuotaResetPeriod = js ''daily'', QuotaResetCustomSeconds = 0\<rparr>"

definition example_sub :: UserSubscription where
  "example_sub = \<lparr>us_UserId = 1, us_PlanId = 3, us_AmountTotal = 1000, us_AmountUsed = 400, us_StartTime = 0,
     us_EndTime = 30 * day_ns, us_Status = js ''active'', us_Source = js ''order'', LastResetTime = None,
     NextResetTime = None, us_UpgradeGroup = js ''vip'', us_PrevUserGroup = js ''default''\<rparr>"


text \<open>
  A period of 9223372037 seconds is accepted for a plan, but as a duration it is negative: the next reset
  moves into the past, and the loop does not end.
\<close>

definition long_plan :: SubscriptionPlan where
  "long_plan = \<lparr>p_Title = [], DurationUnit = js ''day'', DurationValue = 30, CustomSeconds = 0, MaxPurchasePerUser = 0,
     p_UpgradeGroup = [], TotalAmount = 1000, QuotaResetPeriod = js ''custom'', QuotaResetCustomSeconds = 9223372037\<rparr>"

lemma long_plan_next: "e > 0 \<Longrightarrow> t \<le> 1000 \<Longrightarrow> calcNextResetTime 0 t long_plan e = t - 9223372036709551616"
proof -
  assume e: "e > 0" "t \<le> 1000"
  have "NormalizeResetPeriod (QuotaResetPeriod long_plan) = js ''custom''" by code_simp
  moreover have "js ''custom'' \<noteq> js ''daily''" "js ''custom'' \<noteq> js ''weekly''" "js ''custom'' \<noteq> js ''monthly''"
    by simp_all
  ultimately have "reset_after 0 long_plan t = t - 9223372036709551616"
    by (simp add: reset_after_def long_plan_def second_def int64_def)
  then show ?thesis using e by (simp add: calcNextResetTime_def IsZero_def zero_time_def second_def)
qed

definition backwards :: "int \<Rightarrow> int \<Rightarrow> SubscriptionPlan \<Rightarrow> int \<Rightarrow> int \<Rightarrow> int \<Rightarrow> bool" where
  "backwards e off plan e' tnow nxt \<longleftrightarrow>
     off = 0 \<and> plan = long_plan \<and> e' = e \<and> tnow = 1000 \<and> (\<exists>k. nxt = 1000 - int k * 9223372036709551616)"

lemma backwards_step:
  assumes "backwards e off plan e' tnow nxt" and "e > 0"
  shows "\<not> IsZero nxt \<and> \<not> nxt > tnow \<and> backwards e off plan e' tnow (calcNextResetTime off nxt plan e')"
proof -
  obtain k where h: "off = 0" "plan = long_plan" "e' = e" "tnow = 1000" "nxt = 1000 - int k * 9223372036709551616"
    using assms(1) by (auto simp: backwards_def)
  have "int k * 9223372036709551616 \<noteq> 62135596800000001000"
  proof
    assume "int k * 9223372036709551616 = 62135596800000001000"
    then have "6 < int k" "int k < 7" by linarith+
    then show False by linarith
  qed
  then have "\<not> IsZero nxt" using h(5) by (simp add: IsZero_def zero_time_def second_def)
  moreover have le: "nxt \<le> 1000" using h(5) by simp
  moreover have "calcNextResetTime off nxt plan e' = 1000 - int (Suc k) * 9223372036709551616"
    using h(1-4) long_plan_next [OF assms(2) le] by (simp add: h(5) algebra_simps)
  ultimately show ?thesis using h(1-4) unfolding backwards_def by (metis not_le)
qed

lemma long_plan_loops:
  assumes "e > 0"
  shows "reset_loop 0 long_plan e 1000 base (1000 - int k * 9223372036709551616) adv = None"
proof -
  have "reset_loop off plan e' tnow b nxt a = Some y \<Longrightarrow> \<not> backwards e off plan e' tnow nxt" for off plan e' tnow b nxt a y
  proof (rule reset_loop.raw_induct [where P = "\<lambda>off plan e' tnow b nxt a y. \<not> backwards e off plan e' tnow nxt"])
    fix f off plan e' tnow b nxt a y
    assume IH: "\<And>off plan e' tnow b nxt a y. f off plan e' tnow b nxt a = Some y \<Longrightarrow> \<not> backwards e off plan e' tnow nxt"
      and body: "(if \<not> IsZero nxt \<and> \<not> nxt > tnow then f off plan e' tnow nxt (calcNextResetTime off nxt plan e') True
        else Some (b, nxt, a)) = Some y"
    show "\<not> backwards e off plan e' tnow nxt"
    proof
      assume "backwards e off plan e' tnow nxt"
      note b = backwards_step [OF this assms]
      then have "f off plan e' tnow nxt (calcNextResetTime off nxt plan e') True = Some y" using body by simp
      from IH [OF this] b show False by simp
    qed
  qed
  moreover have "backwards e 0 long_plan e 1000 (1000 - int k * 9223372036709551616)" by (auto simp: backwards_def)
  ultimately show ?thesis by (metis not_None_eq)
qed

section \<open>Bounds\<close>

text \<open>
  The total is an \<open>int64\<close>, and what is used of a subscription with a total lies between nothing and the
  total. A total of zero stands for an unlimited subscription; what is used of it may wrap around.
\<close>

definition sub_ok :: "UserSubscription \<Rightarrow> bool" where
  "sub_ok sub \<longleftrightarrow> is_int64 (us_AmountTotal sub) \<and>
     (0 < us_AmountTotal sub \<longrightarrow> 0 \<le> us_AmountUsed sub \<and> us_AmountUsed sub \<le> us_AmountTotal sub)"

definition subs_ok :: "store \<Rightarrow> bool" where
  "subs_ok st \<longleftrightarrow> list_all (\<lambda>(i, sub). sub_ok sub) (subs st)"

lemma subs_ok_get: "subs_ok st \<Longrightarrow> map_of (subs st) i = Some sub \<Longrightarrow> sub_ok sub"
  by (auto simp: subs_ok_def list_all_iff dest: map_of_SomeD)

lemma update_row_ok: "list_all (\<lambda>(i, r). P r) tab \<Longrightarrow> P x \<Longrightarrow> list_all (\<lambda>(i, r). P r) (update_row k (\<lambda>_. x) tab)"
  by (auto simp: update_row_def list_all_iff)

lemma statement_ok: "statement env st = (e, st') \<Longrightarrow> subs st' = subs st \<and> records st' = records st"
  by (auto simp: statement_def)

lemma save_sub_ok: "save_sub env sid sub st = (e, st') \<Longrightarrow> subs_ok st \<Longrightarrow> sub_ok sub \<Longrightarrow> subs_ok st'"
  by (auto simp: save_sub_def statement_def subs_ok_def update_row_ok split: option.splits)

lemma reset_ok:
  assumes "maybeResetUserSubscriptionWithPlanTx env sid sub plan tnow st = Some ((e, sub'), st')"
    and "subs_ok st" and "sub_ok sub"
  shows "subs_ok st' \<and> sub_ok sub' \<and> us_AmountTotal sub' = us_AmountTotal sub"
  using assms
  by (auto simp: maybeResetUserSubscriptionWithPlanTx_def Let_def sub_ok_def dest!: save_sub_ok
      split: if_splits option.splits prod.splits)

lemma plan_ok: "getSubscriptionPlanByIdTx env pid st = (r, st') \<Longrightarrow> subs st' = subs st \<and> records st' = records st"
  by (auto simp: getSubscriptionPlanByIdTx_def statement_def split: if_splits option.splits)

lemma charge_fits:
  assumes "sub_ok sub" and "0 < amount" and "0 < us_AmountTotal sub"
    and "\<not> int64 (us_AmountTotal sub - us_AmountUsed sub) < amount"
  shows "int64 (us_AmountUsed sub + amount) = us_AmountUsed sub + amount" "us_AmountUsed sub + amount \<le> us_AmountTotal sub"
proof -
  have "int64 (us_AmountTotal sub - us_AmountUsed sub) = us_AmountTotal sub - us_AmountUsed sub"
    using assms(1,3) by (intro int64_id) (simp add: sub_ok_def is_int64_def)
  then show le: "us_AmountUsed sub + amount \<le> us_AmountTotal sub" using assms(4) by simp
  then show "int64 (us_AmountUsed sub + amount) = us_AmountUsed sub + amount"
    using assms(1-3) by (intro int64_id) (simp add: sub_ok_def is_int64_def)
qed

lemma charge_ok:
  assumes "charge_candidate env rid uid amount sid sub st = (r, st')" and "subs_ok st" and "sub_ok sub" and "0 < amount"
    and "\<not> (us_AmountTotal sub > 0 \<and> int64 (us_AmountTotal sub - us_AmountUsed sub) < amount)"
  shows "subs_ok st'"
proof -
  have "sub_ok (sub\<lparr>us_AmountUsed := int64 (us_AmountUsed sub + amount)\<rparr>)"
    using assms(3-5) charge_fits [OF assms(3,4)] by (auto simp: sub_ok_def)
  then show ?thesis
    using assms(1,2)
    by (auto simp: charge_candidate_def Let_def save_sub_def statement_def subs_ok_def
        intro!: update_row_ok split: option.splits if_splits)
qed

lemma try_candidates_cases:
  assumes "try_candidates env rid uid amount tnow ((sid, sub) # cs) st = Some (r, st')"
  obtains
    (no_plan) m where "getSubscriptionPlanByIdTx env (us_PlanId sub) st = (Inl m, st')" "r = Inl m"
  | (no_reset) plan m sub' st1 where "getSubscriptionPlanByIdTx env (us_PlanId sub) st = (Inr plan, st1)"
      "maybeResetUserSubscriptionWithPlanTx env sid sub plan tnow st1 = Some ((Some m, sub'), st')" "r = Inl m"
  | (skip) plan sub' st1 st2 where "getSubscriptionPlanByIdTx env (us_PlanId sub) st = (Inr plan, st1)"
      "maybeResetUserSubscriptionWithPlanTx env sid sub plan tnow st1 = Some ((None, sub'), st2)"
      "try_candidates env rid uid amount tnow cs st2 = Some (r, st')"
  | (charge) plan sub' st1 st2 where "getSubscriptionPlanByIdTx env (us_PlanId sub) st = (Inr plan, st1)"
      "maybeResetUserSubscriptionWithPlanTx env sid sub plan tnow st1 = Some ((None, sub'), st2)"
      "\<not> (us_AmountTotal sub' > 0 \<and> int64 (us_AmountTotal sub' - us_AmountUsed sub') < amount)"
      "charge_candidate env rid uid amount sid sub' st2 = (r, st')"
proof -
  obtain p st1 where p: "getSubscriptionPlanByIdTx env (us_PlanId sub) st = (p, st1)" by force
  show ?thesis
  proof (cases p)
    case (Inl m)
    then show ?thesis using assms p no_plan [of m] by simp
  next
    case (Inr plan)
    note q = p [unfolded Inr]
    show ?thesis
    proof (cases "maybeResetUserSubscriptionWithPlanTx env sid sub plan tnow st1")
      case None
      then show ?thesis using assms q by simp
    next
      case (Some t)
      obtain e sub' st2 where t: "t = ((e, sub'), st2)" by (metis prod.exhaust)
      note m = Some [unfolded t]
      show ?thesis
      proof (cases e)
        case (Some x)
        then show ?thesis using assms q m no_reset [OF q, of x sub'] by simp
      next
        case None
        then show ?thesis
          using assms q m skip [OF q m [unfolded None]] charge [OF q m [unfolded None]]
          by (cases "us_AmountTotal sub' > 0 \<and> int64 (us_AmountTotal sub' - us_AmountUsed sub') < amount") auto
      qed
    qed
  qed
qed

lemma candidates_ok:
  assumes "try_candidates env rid uid amount tnow cs st = Some (r, st')" and "subs_ok st"
    and "list_all (\<lambda>(i, sub). sub_ok sub) cs" and "0 < amount"
  shows "subs_ok st'"
  using assms
proof (induction cs arbitrary: st)
  case (Cons c cs)
  obtain sid sub where c: "c = (sid, sub)" by force
  have sub: "sub_ok sub" using Cons.prems(3) c by simp
  have st1: "subs_ok st1" if "getSubscriptionPlanByIdTx env (us_PlanId sub) st = (p, st1)" for p st1
    using plan_ok [OF that] Cons.prems(2) by (simp add: subs_ok_def)
  from Cons.prems(1) [unfolded c] show ?case
  proof (cases rule: try_candidates_cases)
    case (no_plan m)
    then show ?thesis using st1 by blast
  next
    case (no_reset plan m sub' st1')
    then show ?thesis using reset_ok [OF no_reset(2) st1 sub] by blast
  next
    case (skip plan sub' st1' st2)
    then show ?thesis using reset_ok [OF skip(2) st1 sub] Cons.IH [OF skip(3)] Cons.prems by simp
  next
    case (charge plan sub' st1' st2)
    then show ?thesis using reset_ok [OF charge(2) st1 sub] charge_ok [OF charge(4)] Cons.prems(4) by simp
  qed
qed simp

lemma pre_consume_tx_ok:
  assumes "pre_consume_tx env rid uid amount tnow st = Some (r, st')" and "subs_ok st" and "0 < amount"
  shows "subs_ok st'"
proof -
  have c: "list_all (\<lambda>(i, sub). sub_ok sub) (sort_key f (filter P (subs st)))" for f P
    using assms(2) by (auto simp: subs_ok_def list_all_iff)
  show ?thesis
    using assms c
    by (auto simp: pre_consume_tx_def statement_def subs_ok_def Let_def
        dest!: candidates_ok [unfolded subs_ok_def] split: option.splits if_splits)
qed

lemma end_tx_ok: "subs_ok st0 \<Longrightarrow> subs_ok st \<Longrightarrow> subs_ok (snd (end_tx env st0 (r, st)))"
  by (auto simp: end_tx_def statement_def subs_ok_def split: sum.splits option.splits)

lemma statement_subs_ok: "statement env st = (e, st') \<Longrightarrow> subs_ok st' = subs_ok st"
  by (auto simp: statement_def subs_ok_def)

lemma post_consume_tx_ok: "post_consume_tx env sid d st = (r, st') \<Longrightarrow> subs_ok st \<Longrightarrow> subs_ok st'"
  by (auto simp: post_consume_tx_def Let_def sub_ok_def dest!: statement_subs_ok save_sub_ok dest: subs_ok_get
      split: prod.splits option.splits if_splits)

lemma PostConsume_ok: "subs_ok st \<Longrightarrow> subs_ok (snd (PostConsumeUserSubscriptionDelta env sid d st))"
proof -
  assume ok: "subs_ok st"
  obtain e st1 where s: "statement env st = (e, st1)" by force
  obtain r st2 where p: "post_consume_tx env sid d st1 = (r, st2)" by force
  have ok1: "subs_ok st1" "subs_ok st2"
    using ok statement_subs_ok [OF s] post_consume_tx_ok [OF p] by auto
  show ?thesis
    using ok ok1 end_tx_ok [OF ok1, of env r]
    by (auto simp: PostConsumeUserSubscriptionDelta_def transaction_def s p split: option.splits prod.splits sum.splits)
qed

lemma save_record_subs: "subs (snd (save_record env rid r st)) = subs st"
  by (simp add: save_record_def statement_def split: option.split)

lemma refund_tx_ok: "subs_ok st \<Longrightarrow> subs_ok (snd (refund_tx env rid st))"
proof -
  assume ok: "subs_ok st"
  obtain e st1 where s: "statement env st = (e, st1)" by force
  have ok1: "subs_ok st1" using ok statement_subs_ok [OF s] by simp
  have sv: "subs_ok x \<Longrightarrow> subs_ok (snd (save_record env rid r x))" for r x
    using save_record_subs [of env rid r x] by (simp add: subs_ok_def)
  show ?thesis
    using ok1 sv PostConsume_ok [OF ok1]
    by (auto simp: refund_tx_def s split: option.split prod.split) (metis snd_conv)+
qed

lemma Refund_ok: "subs_ok st \<Longrightarrow> subs_ok (snd (RefundSubscriptionPreConsume env rid st))"
proof -
  assume ok: "subs_ok st"
  obtain e st1 where s: "statement env st = (e, st1)" by force
  have ok1: "subs_ok st1" using ok statement_subs_ok [OF s] by simp
  obtain e2 st2 where t: "refund_tx env rid st1 = (e2, st2)" by force
  have ok2: "subs_ok st2" using refund_tx_ok [OF ok1, of env rid] t by simp
  have r: "subs_ok (x\<lparr>records := y\<rparr>) = subs_ok x" for x y by (simp add: subs_ok_def)
  show ?thesis
    using ok ok1 ok2 statement_subs_ok [of env st2]
    by (auto simp: RefundSubscriptionPreConsume_def s t r split: option.split prod.split)
qed

text \<open>
  C3. What is used of a subscription with a total never exceeds the total and never falls below zero: taking
  quota in advance, correcting it and giving it back keep this for every such subscription, whatever fails
  and whatever amounts of 64 bits are asked for.
\<close>

theorem subscription_within_total:
  assumes "subs_ok st"
  shows "subs_ok (snd (PostConsumeUserSubscriptionDelta env sid delta st)) \<and>
    subs_ok (snd (RefundSubscriptionPreConsume env rid st)) \<and>
    pred_option (\<lambda>(r, st'). subs_ok st') (PreConsumeUserSubscription env rid uid m t amt st)"
proof -
  obtain e st1 where s: "statement env st = (e, st1)" by force
  have ok1: "subs_ok st1" using assms statement_subs_ok [OF s] by simp
  have "pred_option (\<lambda>(r, st'). subs_ok st') (PreConsumeUserSubscription env rid uid m t amt st)"
  proof (cases "uid \<le> 0 \<or> TrimSpace rid = [] \<or> amt \<le> 0 \<or> e \<noteq> None")
    case True
    then show ?thesis using assms ok1 by (auto simp: PreConsumeUserSubscription_def Let_def s)
  next
    case False
    have "pred_option (\<lambda>(r, st'). subs_ok st') (map_option (end_tx env st1) (pre_consume_tx env rid uid amt n st1))" for n
      using False end_tx_ok [OF ok1, of _ env] pre_consume_tx_ok [OF _ ok1, of env rid uid amt n]
      by (cases "pre_consume_tx env rid uid amt n st1") (auto simp: case_prod_unfold not_le)
    then show ?thesis using False by (simp add: PreConsumeUserSubscription_def Let_def s)
  qed
  then show ?thesis using PostConsume_ok Refund_ok assms by blast
qed

definition sub_store :: store where
  "sub_store = example_store\<lparr>subs := [(5, example_sub)], plans := [(3, daily_plan)],
     records := [(js ''r0'', \<lparr>r_UserId = 1, r_UserSubscriptionId = 5, r_PreConsumed = 100, r_Status = js ''consumed''\<rparr>)]\<rparr>"

lemma sub_store_ok: "subs_ok sub_store"
  by (simp add: sub_store_def subs_ok_def sub_ok_def example_sub_def is_int64_def)

theorem subscription_within_total_witness:
  "subs_ok (snd (PostConsumeUserSubscriptionDelta quiet 5 (- 900) sub_store)) \<and>
   us_AmountUsed (the (map_of (subs (snd (PostConsumeUserSubscriptionDelta quiet 5 (- 900) sub_store))) 5)) = 0"
proof
  show "subs_ok (snd (PostConsumeUserSubscriptionDelta quiet 5 (- 900) sub_store))"
    using subscription_within_total [OF sub_store_ok] by blast
qed code_simp

section \<open>A charge in advance is exact\<close>

text \<open>
  The quota of a subscription is renewed when its period is not never, the stored time of the next reset,
  if any, has passed, and the first reset after the last one exists and has passed.
\<close>

definition reset_due :: "env \<Rightarrow> SubscriptionPlan \<Rightarrow> int \<Rightarrow> UserSubscription \<Rightarrow> bool" where
  "reset_due env plan tnow sub \<longleftrightarrow>
     (let base = (case LastResetTime sub of None \<Rightarrow> us_StartTime sub | Some b \<Rightarrow> b);
          nxt = calcNextResetTime (zone env) base plan (us_EndTime sub) in
      (case NextResetTime sub of None \<Rightarrow> True | Some t \<Rightarrow> t \<le> tnow) \<and>
      NormalizeResetPeriod (QuotaResetPeriod plan) \<noteq> js ''never'' \<and> \<not> IsZero nxt \<and> nxt \<le> tnow)"

text \<open>A subscription before and after the reset: what is used is cleared if a reset was due, and kept otherwise.\<close>

definition reset_of :: "env \<Rightarrow> SubscriptionPlan \<Rightarrow> int \<Rightarrow> UserSubscription \<Rightarrow> UserSubscription \<Rightarrow> bool" where
  "reset_of env plan tnow sub sub' \<longleftrightarrow>
     (\<exists>l n. sub' = sub\<lparr>us_AmountUsed := (if reset_due env plan tnow sub then 0 else us_AmountUsed sub),
        LastResetTime := l, NextResetTime := n\<rparr>)"

definition plan_read :: "env \<Rightarrow> store \<Rightarrow> int \<Rightarrow> SubscriptionPlan \<Rightarrow> bool" where
  "plan_read env st pid plan \<longleftrightarrow> map_of (plans st) pid = Some plan \<or> (\<exists>n. cached_plan env n pid = Some plan)"

lemma reset_of_same: "\<not> reset_due env plan tnow sub \<Longrightarrow> reset_of env plan tnow sub sub"
  unfolding reset_of_def by (rule exI [of _ "LastResetTime sub"], rule exI [of _ "NextResetTime sub"]) simp

lemma reset_loop_advanced:
  "reset_loop off plan e tnow base nxt adv = Some (b, n, a) \<Longrightarrow> a \<longleftrightarrow> adv \<or> (\<not> IsZero nxt \<and> nxt \<le> tnow)"
proof -
  let ?P = "\<lambda>off plan e tnow base nxt adv y. snd (snd y) \<longleftrightarrow> adv \<or> (\<not> IsZero nxt \<and> nxt \<le> tnow)"
  have "?P off plan e tnow base nxt adv y" if "reset_loop off plan e tnow base nxt adv = Some y" for y
  proof (rule reset_loop.raw_induct [where P = ?P, OF _ that])
    fix f off plan e tnow base nxt adv y
    assume IH: "\<And>off plan e tnow base nxt adv y. f off plan e tnow base nxt adv = Some y \<Longrightarrow> ?P off plan e tnow base nxt adv y"
      and body: "(if \<not> IsZero nxt \<and> \<not> nxt > tnow then f off plan e tnow nxt (calcNextResetTime off nxt plan e) True
        else Some (base, nxt, adv)) = Some y"
    show "?P off plan e tnow base nxt adv y"
    proof (cases "\<not> IsZero nxt \<and> \<not> nxt > tnow")
      case True
      then show ?thesis using IH [of off plan e tnow nxt "calcNextResetTime off nxt plan e" True y] body by simp
    next
      case False
      then show ?thesis using body by auto
    qed
  qed
  then show "reset_loop off plan e tnow base nxt adv = Some (b, n, a) \<Longrightarrow> a \<longleftrightarrow> adv \<or> (\<not> IsZero nxt \<and> nxt \<le> tnow)"
    by fastforce
qed

lemma save_sub_done:
  "save_sub env sid sub st = (None, st') \<Longrightarrow> subs st' = update_row sid (\<lambda>_. sub) (subs st) \<and> records st' = records st \<and> plans st' = plans st"
  by (auto simp: save_sub_def statement_def split: option.splits)

text \<open>The effect of a reset on the tables: the row of the subscription becomes the one that is returned.\<close>

lemma reset_effect:
  assumes "maybeResetUserSubscriptionWithPlanTx env sid sub plan tnow st = Some ((None, sub'), st')"
    and "map_of (subs st) sid = Some sub"
  shows "reset_of env plan tnow sub sub' \<and> map_of (subs st') = (map_of (subs st))(sid \<mapsto> sub') \<and>
    records st' = records st \<and> plans st' = plans st"
proof -
  let ?base = "case LastResetTime sub of None \<Rightarrow> us_StartTime sub | Some b \<Rightarrow> b"
  let ?nxt = "calcNextResetTime (zone env) ?base plan (us_EndTime sub)"
  have row: "map_of (update_row sid (\<lambda>_. x) (subs st)) = (map_of (subs st))(sid \<mapsto> x)" for x
    using assms(2) by (auto simp: fun_eq_iff map_of_update_row)
  have same: "(map_of (subs st))(sid \<mapsto> sub) = map_of (subs st)" using assms(2) by (simp add: fun_upd_idem)
  show ?thesis
  proof (cases "(case NextResetTime sub of None \<Rightarrow> False | Some t \<Rightarrow> t > tnow) \<or>
      NormalizeResetPeriod (QuotaResetPeriod plan) = js ''never''")
    case True
    then have "maybeResetUserSubscriptionWithPlanTx env sid sub plan tnow st = Some ((None, sub), st)"
      by (elim disjE) (simp_all only: maybeResetUserSubscriptionWithPlanTx_def if_True simp_thms if_cancel split: if_split)
    then have "sub' = sub" "st' = st" using assms(1) by simp_all
    moreover have "\<not> reset_due env plan tnow sub"
      using True by (elim disjE) (auto simp: reset_due_def Let_def split: option.splits)
    ultimately show ?thesis using reset_of_same same by simp
  next
    case False
    note body = assms(1) [unfolded maybeResetUserSubscriptionWithPlanTx_def Let_def if_not_P [OF False [simplified de_Morgan_disj, THEN conjunct1]]
      if_not_P [OF False [simplified de_Morgan_disj, THEN conjunct2]]]
    then obtain b n a where l: "reset_loop (zone env) plan (us_EndTime sub) tnow ?base ?nxt False = Some (b, n, a)"
      by (cases "reset_loop (zone env) plan (us_EndTime sub) tnow ?base ?nxt False") auto
    have due: "reset_due env plan tnow sub = a"
      using False reset_loop_advanced [OF l] by (auto simp: reset_due_def Let_def split: option.splits)
    note body = body [unfolded l option.case prod.case]
    show ?thesis
    proof (cases "a \<or> NextResetTime sub = None \<and> \<not> IsZero n")
      case True
      then have "save_sub env sid sub' st = (None, st')"
        "sub' = sub\<lparr>us_AmountUsed := (if a then 0 else us_AmountUsed sub), LastResetTime := Some b, NextResetTime := Some n\<rparr>"
        using body by (auto split: if_splits prod.splits)
      then show ?thesis using save_sub_done row due by (auto simp: reset_of_def)
    next
      case no: False
      then have "sub' = sub" "st' = st" using body by (auto split: if_splits)
      then show ?thesis using no due reset_of_same same by auto
    qed
  qed
qed

lemma plan_effect:
  "getSubscriptionPlanByIdTx env pid st = (Inr plan, st') \<Longrightarrow>
     plan_read env st pid plan \<and> subs st' = subs st \<and> records st' = records st \<and> plans st' = plans st"
  by (auto simp: getSubscriptionPlanByIdTx_def statement_def plan_read_def split: if_splits option.splits)

lemma charge_effect:
  assumes "charge_candidate env rid uid amt sid sub st = (Inr res, st')" and "map_of (records st) rid = None"
  shows "res = \<lparr>res_UserSubscriptionId = sid, res_PreConsumed = amt, res_AmountTotal = us_AmountTotal sub,
      res_AmountUsedBefore = us_AmountUsed sub, res_AmountUsedAfter = int64 (us_AmountUsed sub + amt)\<rparr> \<and>
    subs st' = update_row sid (\<lambda>_. sub\<lparr>us_AmountUsed := int64 (us_AmountUsed sub + amt)\<rparr>) (subs st) \<and>
    records st' = records st @ [(rid, \<lparr>r_UserId = uid, r_UserSubscriptionId = sid, r_PreConsumed = amt, r_Status = js ''consumed''\<rparr>)]"
  using assms by (auto simp: charge_candidate_def Let_def save_sub_def statement_def split: option.splits)

text \<open>
  The charge of a request, from the store before to the store after. One subscription of the user, active at
  that moment, is charged: its quota is renewed if that was due, the amount fits into what is left of its
  total, and then what is used grows by the amount. Any other subscription is as it was, or, when it is an
  active one of the user, with its quota renewed. One record is added.
\<close>

definition charged ::
  "env \<Rightarrow> int \<Rightarrow> jstring \<Rightarrow> int \<Rightarrow> int \<Rightarrow> SubscriptionPreConsumeResult \<Rightarrow> store \<Rightarrow> store \<Rightarrow> bool" where
  "charged env tnow rid uid amt res st st' \<longleftrightarrow>
     (\<exists>sid sub plan sub1.
        map_of (subs st) sid = Some sub \<and> active_sub uid tnow sub \<and>
        plan_read env st (us_PlanId sub) plan \<and> reset_of env plan tnow sub sub1 \<and>
        (0 < us_AmountTotal sub \<longrightarrow> amt \<le> int64 (us_AmountTotal sub - us_AmountUsed sub1)) \<and>
        map_of (subs st') sid = Some (sub1\<lparr>us_AmountUsed := int64 (us_AmountUsed sub1 + amt)\<rparr>) \<and>
        res = \<lparr>res_UserSubscriptionId = sid, res_PreConsumed = amt, res_AmountTotal = us_AmountTotal sub,
          res_AmountUsedBefore = us_AmountUsed sub1, res_AmountUsedAfter = int64 (us_AmountUsed sub1 + amt)\<rparr> \<and>
        (\<forall>i. i = sid \<or> rel_option (\<lambda>s s'. s' = s \<or> active_sub uid tnow s \<and>
           (\<exists>p. plan_read env st (us_PlanId s) p \<and> reset_of env p tnow s s')) (map_of (subs st) i) (map_of (subs st') i)) \<and>
        records st' = records st @ [(rid, \<lparr>r_UserId = uid, r_UserSubscriptionId = sid, r_PreConsumed = amt,
          r_Status = js ''consumed''\<rparr>)])"

lemma candidates_exact:
  assumes "try_candidates env rid uid amt tnow cs st1 = Some (Inr res, st')"
    and "map_of (records st) rid = None" and "records st1 = records st" and "plans st1 = plans st"
    and "\<forall>(i, sub) \<in> set cs. map_of (subs st) i = Some sub \<and> map_of (subs st1) i = Some sub \<and> active_sub uid tnow sub"
    and "distinct (map fst cs)"
    and "\<forall>i. rel_option (\<lambda>s s'. s' = s \<or> active_sub uid tnow s \<and>
           (\<exists>p. plan_read env st (us_PlanId s) p \<and> reset_of env p tnow s s')) (map_of (subs st) i) (map_of (subs st1) i)"
  shows "charged env tnow rid uid amt res st st'"
  using assms(1,3-)
proof (induction cs arbitrary: st1)
  case (Cons c cs)
  obtain sid sub where c: "c = (sid, sub)" by force
  have sub: "map_of (subs st) sid = Some sub" "map_of (subs st1) sid = Some sub" "active_sub uid tnow sub"
    using Cons.prems(4) c by auto
  from Cons.prems(1) [unfolded c] show ?case
  proof (cases rule: try_candidates_cases)
    case (skip plan sub' st2 st3)
    note p = plan_effect [OF skip(1)]
    have r: "reset_of env plan tnow sub sub'" "map_of (subs st3) = (map_of (subs st1))(sid \<mapsto> sub')"
      "records st3 = records st" "plans st3 = plans st"
      using reset_effect [OF skip(2)] p sub(2) Cons.prems(2,3) by auto
    have read: "plan_read env st (us_PlanId sub) plan" using p Cons.prems(3) by (simp add: plan_read_def)
    show ?thesis
    proof (rule Cons.IH [OF skip(3) r(3,4)])
      show "\<forall>(i, s) \<in> set cs. map_of (subs st) i = Some s \<and> map_of (subs st3) i = Some s \<and> active_sub uid tnow s"
        using Cons.prems(4,5) c r(2) by (force simp: image_iff)
      show "distinct (map fst cs)" using Cons.prems(5) by simp
      show "\<forall>i. rel_option (\<lambda>s s'. s' = s \<or> active_sub uid tnow s \<and>
          (\<exists>p. plan_read env st (us_PlanId s) p \<and> reset_of env p tnow s s')) (map_of (subs st) i) (map_of (subs st3) i)"
        using Cons.prems(6) r(1,2) sub(1,3) read by auto
    qed
  next
    case (charge plan sub' st2 st3)
    note p = plan_effect [OF charge(1)]
    have r: "reset_of env plan tnow sub sub'" "map_of (subs st3) = (map_of (subs st1))(sid \<mapsto> sub')"
      "records st3 = records st"
      using reset_effect [OF charge(2)] p sub(2) Cons.prems(2,3) by auto
    have read: "plan_read env st (us_PlanId sub) plan" using p Cons.prems(3) by (simp add: plan_read_def)
    have tot: "us_AmountTotal sub' = us_AmountTotal sub" using r(1) by (auto simp: reset_of_def)
    note ch = charge_effect [OF charge(4), unfolded r(3), OF assms(2)]
    have m: "map_of (subs st') = (map_of (subs st1))(sid \<mapsto> sub'\<lparr>us_AmountUsed := int64 (us_AmountUsed sub' + amt)\<rparr>)"
      using ch r(2) by (auto simp: fun_eq_iff map_of_update_row)
    show ?thesis
      unfolding charged_def
      using sub(1,3) read r(1) ch m tot charge(3) Cons.prems(6)
      by (intro exI [of _ sid] exI [of _ sub] exI [of _ plan] exI [of _ sub']) auto
  qed simp_all
qed simp

lemma pre_consume_tx_exact:
  assumes "pre_consume_tx env rid uid amt tnow st = Some (Inr res, st')" and "distinct (map fst (subs st))"
  shows "if map_of (records st) rid = None then charged env tnow rid uid amt res st st'
    else subs st' = subs st \<and> records st' = records st"
proof (cases "map_of (records st) rid")
  case None
  let ?cs = "sort_key (\<lambda>(i, sub). (us_EndTime sub, i)) (filter (\<lambda>(i, sub). active_sub uid tnow sub) (subs st))"
  obtain st1 where t: "try_candidates env rid uid amt tnow ?cs st1 = Some (Inr res, st')"
    "subs st1 = subs st" "records st1 = records st" "plans st1 = plans st"
    using assms None by (auto simp: pre_consume_tx_def statement_def Let_def split: option.splits if_splits)
  have "distinct (map fst (filter (\<lambda>(i, sub). active_sub uid tnow sub) (subs st)))"
    using assms(2) by (rule distinct_map_filter)
  then have d: "distinct (map fst ?cs)"
    by (metis distinct_map distinct_sort set_sort)
  have cs: "\<forall>(i, sub) \<in> set ?cs. map_of (subs st) i = Some sub \<and> map_of (subs st1) i = Some sub \<and> active_sub uid tnow sub"
    using assms(2) t(2) by (auto simp: map_of_is_SomeI)
  have "\<forall>i. rel_option (\<lambda>s s'. s' = s \<or> active_sub uid tnow s \<and>
      (\<exists>p. plan_read env st (us_PlanId s) p \<and> reset_of env p tnow s s')) (map_of (subs st) i) (map_of (subs st1) i)"
    using t(2) by (auto simp: option.rel_refl)
  then show ?thesis using candidates_exact [OF t(1) None t(3,4) cs d] None by simp
next
  case (Some x)
  then show ?thesis using assms by (auto simp: pre_consume_tx_def statement_def split: option.splits if_splits)
qed

lemma pre_consume_result:
  assumes "PreConsumeUserSubscription env rid uid m t amt st = Some (r, st')"
  shows "case r of
      Inl err \<Rightarrow> subs st' = subs st \<and> records st' = records st
    | Inr res \<Rightarrow>
        if map_of (records st) rid = None
        then distinct (map fst (subs st)) \<longrightarrow> charged env (now env (statements st)) rid uid amt res st st'
        else subs st' = subs st \<and> records st' = records st"
proof (cases "uid \<le> 0 \<or> TrimSpace rid = [] \<or> amt \<le> 0 \<or> fst (statement env st) \<noteq> None")
  case True
  then show ?thesis
    using assms by (auto simp: PreConsumeUserSubscription_def Let_def statement_def split: option.splits if_splits)
next
  case False
  let ?now = "now env (statements st)"
  obtain st1 where s: "statement env st = (None, st1)" using False by (metis prod.collapse)
  have st1: "subs st1 = subs st" "records st1 = records st" "plans st1 = plans st" using s by (auto simp: statement_def)
  obtain r2 st2 where t: "pre_consume_tx env rid uid amt ?now st1 = Some (r2, st2)"
    and e: "(r, st') = end_tx env st1 (r2, st2)"
    using assms False by (auto simp: PreConsumeUserSubscription_def Let_def s)
  show ?thesis
  proof (cases r)
    case (Inl err)
    then show ?thesis using e st1 by (auto simp: end_tx_def split: sum.splits option.splits prod.splits)
  next
    case (Inr res)
    then have r: "r2 = Inr res" "subs st' = subs st2" "records st' = records st2"
      using e by (auto simp: end_tx_def statement_def split: sum.splits option.splits prod.splits)
    have c: "charged env ?now rid uid amt res st st' = charged env ?now rid uid amt res st1 st2"
      using r st1 by (simp add: charged_def plan_read_def)
    have idem: "subs st2 = subs st1 \<and> records st2 = records st1" if "map_of (records st1) rid \<noteq> None"
      using t that by (auto simp: pre_consume_tx_def statement_def r(1) split: option.splits if_splits)
    show ?thesis
      using pre_consume_tx_exact [of env rid uid amt ?now st1 res st2] t st1 Inr r c idem by auto
  qed
qed

text \<open>
  C6. Taking quota of a subscription in advance is atomic and idempotent: an error leaves every subscription
  and every record as it was; a first success charges one active subscription of the user, whose total has
  room for the amount, with exactly the amount, renews what is due to be renewed, changes no other
  subscription and adds one record; for a request that has a record nothing is charged again. The rows of
  the table have distinct keys.
\<close>

theorem pre_consume_exact:
  assumes "PreConsumeUserSubscription env rid uid m t amt st = Some (r, st')" and "distinct (map fst (subs st))"
  shows "case r of
      Inl err \<Rightarrow> subs st' = subs st \<and> records st' = records st
    | Inr res \<Rightarrow>
        if map_of (records st) rid = None
        then charged env (now env (statements st)) rid uid amt res st st'
        else subs st' = subs st \<and> records st' = records st"
  using pre_consume_result [OF assms(1)] assms(2) by (cases r) auto

theorem pre_consume_exact_witness:
  "\<exists>res st'. PreConsumeUserSubscription quiet (js ''r1'') 1 [] 0 50 sub_store = Some (Inr res, st') \<and>
     charged quiet (now quiet (statements sub_store)) (js ''r1'') 1 50 res sub_store st' \<and> res_AmountUsedAfter res = 450"
proof -
  have "case PreConsumeUserSubscription quiet (js ''r1'') 1 [] 0 50 sub_store of
      Some (Inr res, st') \<Rightarrow> res_AmountUsedAfter res = 450 | _ \<Rightarrow> False" by code_simp
  then obtain res st' where r: "PreConsumeUserSubscription quiet (js ''r1'') 1 [] 0 50 sub_store = Some (Inr res, st')"
    "res_AmountUsedAfter res = 450" by (auto split: option.splits sum.splits prod.splits)
  have "map_of (records sub_store) (js ''r1'') = None" "distinct (map fst (subs sub_store))" by (simp_all add: sub_store_def)
  then show ?thesis using pre_consume_exact [OF r(1)] r by simp
qed

section \<open>A refund happens once\<close>

text \<open>A correction that reports success has changed exactly the row of its subscription.\<close>

lemma PostConsume_done:
  assumes "PostConsumeUserSubscriptionDelta env sid d st = (None, st')" and "d \<noteq> 0"
  shows "records st' = records st \<and> (\<exists>sub. map_of (subs st) sid = Some sub \<and>
    subs st' = update_row sid (\<lambda>_. sub\<lparr>us_AmountUsed := max 0 (int64 (us_AmountUsed sub + d))\<rparr>) (subs st))"
proof -
  obtain e st1 where s: "statement env st = (e, st1)" by force
  have tabs: "subs st1 = subs st" "records st1 = records st" using statement_ok [OF s] by auto
  have e: "e = None" using assms by (auto simp: PostConsumeUserSubscriptionDelta_def transaction_def s split: if_splits option.splits)
  obtain r st2 where p: "post_consume_tx env sid d st1 = (r, st2)" by force
  have c: "end_tx env st1 (r, st2) = (Inr (), st')"
    using assms by (auto simp: PostConsumeUserSubscriptionDelta_def transaction_def s e p split: if_splits sum.splits prod.splits)
  then have r: "r = Inr ()" "subs st' = subs st2" "records st' = records st2"
    by (auto simp: end_tx_def statement_def split: sum.splits option.splits)
  obtain e3 st3 where s3: "statement env st1 = (e3, st3)" by force
  have tabs3: "subs st3 = subs st" "records st3 = records st" using statement_ok [OF s3] tabs by auto
  obtain sub where sub: "e3 = None" "map_of (subs st) sid = Some sub"
    using p r(1) tabs3 by (auto simp: post_consume_tx_def s3 split: option.splits)
  let ?used = "int64 (us_AmountUsed sub + d)"
  have sv: "save_sub env sid (sub\<lparr>us_AmountUsed := if ?used < 0 then 0 else ?used\<rparr>) st3 = (None, st2)"
    using p r(1) tabs3 sub by (auto simp: post_consume_tx_def s3 Let_def split: option.splits if_splits prod.splits)
  have m: "(if ?used < 0 then 0 else ?used) = max 0 ?used" by simp
  show ?thesis using save_sub_done [OF sv [unfolded m]] r(2,3) tabs3 sub(2) by simp
qed

text \<open>What a refund of a request with the record \<open>rc\<close> does to the subscriptions.\<close>

definition given_back :: "SubscriptionPreConsumeRecord \<Rightarrow> UserSubscription table \<Rightarrow> UserSubscription table \<Rightarrow> bool" where
  "given_back rc tab tab' \<longleftrightarrow>
     (if r_Status rc = js ''refunded'' \<or> r_PreConsumed rc \<le> 0 then tab' = tab
      else \<exists>sub. map_of tab (r_UserSubscriptionId rc) = Some sub \<and>
        tab' = update_row (r_UserSubscriptionId rc)
          (\<lambda>_. sub\<lparr>us_AmountUsed := max 0 (int64 (us_AmountUsed sub - r_PreConsumed rc))\<rparr>) tab)"

lemma save_record_done:
  "save_record env rid r st = (None, st') \<Longrightarrow> subs st' = subs st \<and> records st' = update_row rid (\<lambda>_. r) (records st)"
  by (auto simp: save_record_def statement_def split: option.splits)

lemma refund_tx_done:
  assumes "refund_tx env rid st = (None, st')"
  shows "\<exists>rc. map_of (records st) rid = Some rc \<and> given_back rc (subs st) (subs st') \<and>
    map_of (records st') rid = Some (rc\<lparr>r_Status := js ''refunded''\<rparr>)"
proof -
  obtain e st1 where s: "statement env st = (e, st1)" by force
  have tabs: "subs st1 = subs st" "records st1 = records st" using statement_ok [OF s] by auto
  obtain rc where rc: "e = None" "map_of (records st) rid = Some rc"
    using assms tabs by (auto simp: refund_tx_def s split: option.splits)
  note body = assms [unfolded refund_tx_def s rc(1), simplified, unfolded tabs rc(2), simplified]
  let ?rc = "rc\<lparr>r_Status := js ''refunded''\<rparr>"
  consider (old) "r_Status rc = js ''refunded''" | (none) "r_Status rc \<noteq> js ''refunded''" "r_PreConsumed rc \<le> 0"
    | (give) "r_Status rc \<noteq> js ''refunded''" "0 < r_PreConsumed rc" by linarith
  then show ?thesis
  proof cases
    case old
    then have "st' = st1" "rc = ?rc" using body by auto
    then show ?thesis using old rc(2) tabs by (auto simp: given_back_def)
  next
    case none
    then have "save_record env rid ?rc st1 = (None, st')" using body by simp
    then show ?thesis using none rc(2) tabs save_record_done by (auto simp: given_back_def map_of_update_row)
  next
    case give
    obtain e2 st2 where p: "PostConsumeUserSubscriptionDelta env (r_UserSubscriptionId rc) (- r_PreConsumed rc) st1 = (e2, st2)"
      by force
    have "e2 = None" "save_record env rid ?rc st2 = (None, st')" using body give p by (auto split: option.splits)
    then show ?thesis
      using PostConsume_done [of env "r_UserSubscriptionId rc" "- r_PreConsumed rc" st1 st2] p give rc(2) tabs save_record_done
      by (auto simp: given_back_def map_of_update_row)
  qed
qed

lemma refund_done:
  assumes "RefundSubscriptionPreConsume env rid st = (None, st')"
  shows "\<exists>rc. map_of (records st) rid = Some rc \<and> given_back rc (subs st) (subs st') \<and>
    map_of (records st') rid = Some (rc\<lparr>r_Status := js ''refunded''\<rparr>)"
proof -
  obtain e st1 where s: "statement env st = (e, st1)" by force
  obtain e2 st2 where t: "refund_tx env rid st1 = (e2, st2)" by force
  obtain e3 st3 where c: "statement env st2 = (e3, st3)" by force
  have "e2 = None" "st' = st3"
    using assms by (auto simp: RefundSubscriptionPreConsume_def s t c split: if_splits option.splits)
  then show ?thesis using refund_tx_done t statement_ok [OF s] statement_ok [OF c] by metis
qed

lemma refunded_stays:
  assumes "map_of (records st) rid = Some rc" and "r_Status rc = js ''refunded''"
  shows "subs (snd (RefundSubscriptionPreConsume env rid st)) = subs st \<and>
    records (snd (RefundSubscriptionPreConsume env rid st)) = records st"
  using assms
  by (auto simp: RefundSubscriptionPreConsume_def refund_tx_def statement_def split: option.split)

text \<open>
  C20. A refund that reports success has given back exactly what the request had taken in advance, at most
  down to zero, or nothing when the request was refunded already or had taken nothing; it has marked the
  record. From then on no refund of the same request changes a subscription or a record, whichever
  statements fail.
\<close>

theorem refund_once:
  assumes "RefundSubscriptionPreConsume env rid st = (None, st1)"
  shows "\<exists>rc. map_of (records st) rid = Some rc \<and> given_back rc (subs st) (subs st1) \<and>
    map_of (records st1) rid = Some (rc\<lparr>r_Status := js ''refunded''\<rparr>) \<and>
    (\<forall>env'. subs (snd (RefundSubscriptionPreConsume env' rid st1)) = subs st1 \<and>
       records (snd (RefundSubscriptionPreConsume env' rid st1)) = records st1)"
  using refund_done [OF assms] refunded_stays [of st1 rid] by force

theorem refund_once_witness:
  "\<exists>st1. RefundSubscriptionPreConsume quiet (js ''r0'') sub_store = (None, st1) \<and>
     map_of (subs st1) 5 = Some (example_sub\<lparr>us_AmountUsed := 300\<rparr>) \<and>
     subs (snd (RefundSubscriptionPreConsume quiet (js ''r0'') st1)) = subs st1"
proof -
  let ?st1 = "snd (RefundSubscriptionPreConsume quiet (js ''r0'') sub_store)"
  have "fst (RefundSubscriptionPreConsume quiet (js ''r0'') sub_store) = None" by code_simp
  then have r: "RefundSubscriptionPreConsume quiet (js ''r0'') sub_store = (None, ?st1)" by (metis prod.collapse)
  moreover have "map_of (subs ?st1) 5 = Some (example_sub\<lparr>us_AmountUsed := 300\<rparr>)" by code_simp
  moreover have "subs (snd (RefundSubscriptionPreConsume quiet (js ''r0'') ?st1)) = subs ?st1"
    using refund_once [OF r] by blast
  ultimately show ?thesis by blast
qed

text \<open>The used quota of an unlimited subscription wraps around; the correction then makes it zero.\<close>

lemma unlimited_wraps:
  "us_AmountUsed (the (map_of (subs (snd (PostConsumeUserSubscriptionDelta quiet 5 1
     (sub_store\<lparr>subs := [(5, example_sub\<lparr>us_AmountTotal := 0, us_AmountUsed := 9223372036854775807\<rparr>)]\<rparr>)))) 5)) = 0"
  by code_simp

text \<open>
  When writing the record fails after the correction, the record still says consumed: the next attempt
  gives the quota back again.
\<close>

definition save_fails :: env where
  "save_fails = quiet\<lparr>fault := (\<lambda>n. if n = 6 then Some (js ''timeout'') else None)\<rparr>"

lemma refunded_twice:
  "let (e1, st1) = RefundSubscriptionPreConsume save_fails (js ''r0'') sub_store;
       (e2, st2) = RefundSubscriptionPreConsume save_fails (js ''r0'') st1 in
   e1 = Some (js ''timeout'') \<and> e2 = None \<and> us_AmountUsed (the (map_of (subs st2) 5)) = 200"
  by code_simp

lemma overflowing_reset:
  "maybeResetUserSubscriptionWithPlanTx quiet 5 (example_sub\<lparr>us_StartTime := 1000\<rparr>) long_plan 1000 st = None"
proof -
  have "0 < 30 * day_ns" by (simp add: day_ns_def second_def)
  note n = long_plan_next [OF this order_refl] long_plan_loops [OF this, of 1000 1 False]
  have "NormalizeResetPeriod (QuotaResetPeriod long_plan) \<noteq> js ''never''" by code_simp
  then show ?thesis
    using n by (simp add: maybeResetUserSubscriptionWithPlanTx_def example_sub_def quiet_def)
qed

section \<open>Wallets and tokens are left alone\<close>

definition same_money :: "store \<Rightarrow> store \<Rightarrow> bool" where
  "same_money st st' \<longleftrightarrow> users st' = users st \<and> tokens_tab st' = tokens_tab st \<and> batch_token st' = batch_token st"

named_theorems money_frame \<open>operations that leave wallets and tokens alone\<close>

lemma same_money_refl [simp]: "same_money st st"
  by (simp add: same_money_def)

lemma same_money_trans: "same_money a b \<Longrightarrow> same_money b c \<Longrightarrow> same_money a c"
  by (simp add: same_money_def)

lemma same_moneyD: "same_money st st' \<Longrightarrow> wallet u st' = wallet u st \<and> token_left i st' = token_left i st"
  by (simp add: same_money_def wallet_def token_left_def)

lemma statement_money [money_frame]: "statement env st = (e, st') \<Longrightarrow> same_money st st'"
  by (auto simp: statement_def same_money_def)

lemma save_sub_money [money_frame]: "save_sub env sid sub st = (e, st') \<Longrightarrow> same_money st st'"
  by (auto simp: save_sub_def statement_def same_money_def split: option.splits)

lemma save_record_money [money_frame]: "save_record env rid r st = (e, st') \<Longrightarrow> same_money st st'"
  by (auto simp: save_record_def statement_def same_money_def split: option.splits)

lemma reset_money [money_frame]:
  "maybeResetUserSubscriptionWithPlanTx env sid sub plan tnow st = Some ((e, sub'), st') \<Longrightarrow> same_money st st'"
  by (auto simp: maybeResetUserSubscriptionWithPlanTx_def Let_def dest!: save_sub_money
      split: if_splits option.splits prod.splits)

lemma plan_money [money_frame]: "getSubscriptionPlanByIdTx env pid st = (r, st') \<Longrightarrow> same_money st st'"
  by (auto simp: getSubscriptionPlanByIdTx_def statement_def same_money_def split: if_splits option.splits)

lemma info_money [money_frame]: "GetSubscriptionPlanInfoByUserSubscriptionId env sid st = (r, st') \<Longrightarrow> same_money st st'"
  by (auto simp: GetSubscriptionPlanInfoByUserSubscriptionId_def dest!: statement_money plan_money
      intro: same_money_trans split: if_splits option.splits prod.splits sum.splits)

lemma active_money [money_frame]: "HasActiveUserSubscription env uid st = (r, st') \<Longrightarrow> same_money st st'"
  by (auto simp: HasActiveUserSubscription_def Let_def statement_def same_money_def split: if_splits option.splits)

lemma charge_money [money_frame]: "charge_candidate env rid uid amt sid sub st = (r, st') \<Longrightarrow> same_money st st'"
  by (auto simp: charge_candidate_def Let_def save_sub_def statement_def same_money_def split: option.splits if_splits)

lemma candidates_money [money_frame]:
  "try_candidates env rid uid amt tnow cs st = Some (r, st') \<Longrightarrow> same_money st st'"
proof (induction cs arbitrary: st)
  case (Cons c cs)
  obtain sid sub where c: "c = (sid, sub)" by force
  from Cons.prems [unfolded c] show ?case
    by (cases rule: try_candidates_cases)
      (meson plan_money reset_money charge_money Cons.IH same_money_trans)+
qed simp

lemma pre_tx_money [money_frame]: "pre_consume_tx env rid uid amt tnow st = Some (r, st') \<Longrightarrow> same_money st st'"
  by (auto simp: pre_consume_tx_def Let_def dest!: statement_money candidates_money
      intro: same_money_trans split: prod.splits option.splits if_splits)

lemma end_tx_money [money_frame]: "end_tx env st0 (r, st) = (r', st') \<Longrightarrow> same_money st0 st \<Longrightarrow> same_money st0 st'"
  by (auto simp: end_tx_def statement_def same_money_def split: sum.splits option.splits)

lemma PreConsumeSub_money [money_frame]:
  assumes "PreConsumeUserSubscription env rid uid m t amt st = Some (r, st')"
  shows "same_money st st'"
proof -
  obtain e st1 where s: "statement env st = (e, st1)" by force
  note s1 = statement_money [OF s]
  show ?thesis
    using assms s1
    by (auto simp: PreConsumeUserSubscription_def Let_def s dest!: pre_tx_money dest: end_tx_money
        intro: same_money_trans [OF s1] split: if_splits option.splits)
qed

lemma post_tx_money [money_frame]: "post_consume_tx env sid d st = (r, st') \<Longrightarrow> same_money st st'"
  by (auto simp: post_consume_tx_def Let_def dest!: statement_money save_sub_money intro: same_money_trans
      split: prod.splits option.splits if_splits)

lemma PostConsume_money [money_frame]:
  assumes "PostConsumeUserSubscriptionDelta env sid d st = (e, st')"
  shows "same_money st st'"
proof -
  obtain e1 st1 where s: "statement env st = (e1, st1)" by force
  obtain r st2 where p: "post_consume_tx env sid d st1 = (r, st2)" by force
  obtain r3 st3 where t: "end_tx env st1 (r, st2) = (r3, st3)" by force
  have "same_money st st1" "same_money st st3"
    using statement_money [OF s] end_tx_money [OF t post_tx_money [OF p]] same_money_trans by blast+
  then show ?thesis
    using assms by (auto simp: PostConsumeUserSubscriptionDelta_def transaction_def s p t split: if_splits option.splits sum.splits)
qed

lemma refund_tx_money [money_frame]: "refund_tx env rid st = (e, st') \<Longrightarrow> same_money st st'"
  by (auto simp: refund_tx_def dest!: statement_money PostConsume_money save_record_money intro: same_money_trans
      split: prod.splits option.splits if_splits)

lemma RefundSub_money [money_frame]:
  assumes "RefundSubscriptionPreConsume env rid st = (e, st')"
  shows "same_money st st'"
proof -
  obtain e1 st1 where s: "statement env st = (e1, st1)" by force
  obtain e2 st2 where t: "refund_tx env rid st1 = (e2, st2)" by force
  obtain e3 st3 where c: "statement env st2 = (e3, st3)" by force
  have m: "same_money st st1" "same_money st st2" "same_money st st3"
    using statement_money [OF s] refund_tx_money [OF t] statement_money [OF c] same_money_trans by blast+
  have r: "same_money a (b\<lparr>records := y\<rparr>) = same_money a b" for a b y by (simp add: same_money_def)
  show ?thesis
    using assms m by (auto simp: RefundSubscriptionPreConsume_def s t r c split: if_splits option.splits)
qed

end
