(* ===== verification/Go_Billing.thy ===== *)
theory Go_Billing
  imports Go_Status_Ranges Go_Subscription
begin

text \<open>
  Billing of one request: \<open>src/service/funding_source.go\<close>, \<open>src/service/billing_session.go\<close>,
  \<open>src/service/billing.go\<close> and the quota functions of \<open>src/service/quota.go\<close>. A session takes quota in
  advance from a wallet or a subscription and from the token of the request; at the end it is settled
  with what the request has cost, or refunded.

  The session is a record; \<open>relayInfo\<close>, which Go shares by a pointer, is one of its fields. The methods
  hold a mutex, so each is one step. \<open>Refund\<close> starts a goroutine: it returns the work to be done, and
  \<open>refund_work\<close> does it. Log messages and notifications are left out. \<open>None\<close> around a result stands for a
  call that does not return, which a reset of a subscription may be.
\<close>

section \<open>Errors\<close>

text \<open>
  \<open>NewError\<close> passes on an error that is a \<open>NewAPIError\<close> already; the callers here only give it plain errors,
  which are their messages.
\<close>

definition NewError :: "jstring \<Rightarrow> jstring \<Rightarrow> (NewAPIError \<Rightarrow> NewAPIError) list \<Rightarrow> NewAPIError" where
  "NewError err code ops =
     fold (\<lambda>op e. op e) ops
       \<lparr>e_err = Some err, skipRetry = False, recordErrorLog = None, errorCode = code, StatusCode = 500\<rparr>"

definition NewErrorWithStatusCode ::
  "jstring \<Rightarrow> jstring \<Rightarrow> int \<Rightarrow> (NewAPIError \<Rightarrow> NewAPIError) list \<Rightarrow> NewAPIError" where
  "NewErrorWithStatusCode err code statusCode ops =
     fold (\<lambda>op e. op e) ops
       \<lparr>e_err = Some err, skipRetry = False, recordErrorLog = None, errorCode = code, StatusCode = statusCode\<rparr>"

definition ErrOptionWithSkipRetry :: "NewAPIError \<Rightarrow> NewAPIError" where
  "ErrOptionWithSkipRetry e = e\<lparr>skipRetry := True\<rparr>"

definition ErrOptionWithNoRecordErrorLog :: "NewAPIError \<Rightarrow> NewAPIError" where
  "ErrOptionWithNoRecordErrorLog e = e\<lparr>recordErrorLog := Some False\<rparr>"

definition ErrorCodeQueryDataError :: jstring where "ErrorCodeQueryDataError = js ''query_data_error''"
definition ErrorCodeUpdateDataError :: jstring where "ErrorCodeUpdateDataError = js ''update_data_error''"
definition ErrorCodeInsufficientUserQuota :: jstring where
  "ErrorCodeInsufficientUserQuota = js ''insufficient_user_quota''"
definition ErrorCodePreConsumeTokenQuotaFailed :: jstring where
  "ErrorCodePreConsumeTokenQuotaFailed = js ''pre_consume_token_quota_failed''"

definition forbidden :: "jstring \<Rightarrow> jstring \<Rightarrow> NewAPIError" where
  "forbidden err code = NewErrorWithStatusCode err code 403 [ErrOptionWithSkipRetry, ErrOptionWithNoRecordErrorLog]"

section \<open>Data\<close>

definition BillingSourceWallet :: jstring where "BillingSourceWallet = js ''wallet''"
definition BillingSourceSubscription :: jstring where "BillingSourceSubscription = js ''subscription''"

record RelayInfo =
  UserId :: int
  TokenId :: int
  TokenKey :: jstring
  TokenUnlimited :: bool
  token_quota :: int
  IsPlayground :: bool
  ForcePreConsume :: bool
  UserQuota :: int
  RequestId :: jstring
  OriginModelName :: jstring
  BillingPreference :: jstring
  FinalPreConsumedQuota :: int
  BillingSource :: jstring
  SubscriptionId :: int
  SubscriptionPreConsumed :: int
  SubscriptionPostDelta :: int
  SubscriptionAmountTotal :: int
  SubscriptionAmountUsedAfterPreConsume :: int
  SubscriptionPlanId :: int
  SubscriptionPlanTitle :: jstring

record WalletFunding =
  w_userId :: int
  consumed :: int

record SubscriptionFunding =
  requestId :: jstring
  s_userId :: int
  modelName :: jstring
  amount :: int
  subscriptionId :: int
  preConsumed :: int
  AmountTotal :: int
  AmountUsedAfter :: int
  PlanId :: int
  PlanTitle :: jstring

datatype FundingSource = Wallet WalletFunding | Subscription SubscriptionFunding

record BillingSession =
  relayInfo :: RelayInfo
  funding :: FundingSource
  preConsumedQuota :: int
  tokenConsumed :: int
  extraReserved :: int
  trusted :: bool
  fundingSettled :: bool
  settled :: bool
  refunded :: bool

section \<open>Sources of funding\<close>

fun Source :: "FundingSource \<Rightarrow> jstring" where
  "Source (Wallet w) = BillingSourceWallet"
| "Source (Subscription f) = BillingSourceSubscription"

definition wallet_PreConsume :: "env \<Rightarrow> int \<Rightarrow> WalletFunding \<Rightarrow> store \<Rightarrow> (jstring option \<times> WalletFunding) \<times> store" where
  "wallet_PreConsume env amt w st =
     (if amt \<le> 0 then ((None, w), st)
      else case DecreaseUserQuota env (w_userId w) amt True st of
        (Some err, st) \<Rightarrow> ((Some err, w), st)
      | (None, st) \<Rightarrow> ((None, w\<lparr>consumed := amt\<rparr>), st))"

definition subscription_PreConsume ::
  "env \<Rightarrow> SubscriptionFunding \<Rightarrow> store \<Rightarrow> ((jstring option \<times> SubscriptionFunding) \<times> store) option" where
  "subscription_PreConsume env f st =
     (case PreConsumeUserSubscription env (requestId f) (s_userId f) (modelName f) 0 (amount f) st of
        None \<Rightarrow> None
      | Some (Inl err, st) \<Rightarrow> Some ((Some err, f), st)
      | Some (Inr res, st) \<Rightarrow>
          let f = f\<lparr>subscriptionId := res_UserSubscriptionId res, preConsumed := res_PreConsumed res,
                    AmountTotal := res_AmountTotal res, AmountUsedAfter := res_AmountUsedAfter res\<rparr> in
          case GetSubscriptionPlanInfoByUserSubscriptionId env (res_UserSubscriptionId res) st of
            (Inl err, st) \<Rightarrow> Some ((None, f), st)
          | (Inr (pid, title), st) \<Rightarrow> Some ((None, f\<lparr>PlanId := pid, PlanTitle := title\<rparr>), st))"

fun PreConsume :: "env \<Rightarrow> int \<Rightarrow> FundingSource \<Rightarrow> store \<Rightarrow> ((jstring option \<times> FundingSource) \<times> store) option" where
  "PreConsume env amt (Wallet w) st =
     (case wallet_PreConsume env amt w st of ((e, w), st) \<Rightarrow> Some ((e, Wallet w), st))"
| "PreConsume env amt (Subscription f) st =
     (case subscription_PreConsume env f st of
        None \<Rightarrow> None | Some ((e, f), st) \<Rightarrow> Some ((e, Subscription f), st))"

fun Settle_funding :: "env \<Rightarrow> int \<Rightarrow> FundingSource \<Rightarrow> store \<Rightarrow> jstring option \<times> store" where
  "Settle_funding env delta (Wallet w) st =
     (if delta = 0 then (None, st)
      else if delta > 0 then DecreaseUserQuota env (w_userId w) delta True st
      else IncreaseUserQuota env (w_userId w) (- delta) True st)"
| "Settle_funding env delta (Subscription f) st =
     (if delta = 0 then (None, st) else PostConsumeUserSubscriptionDelta env (subscriptionId f) delta st)"

text \<open>\<open>refundWithRetry\<close>: at most three attempts; the pauses between them are not modelled.\<close>

fun retry :: "nat \<Rightarrow> (store \<Rightarrow> jstring option \<times> store) \<Rightarrow> jstring option \<Rightarrow> store \<Rightarrow> jstring option \<times> store" where
  "retry 0 fn lastErr st = (lastErr, st)"
| "retry (Suc n) fn lastErr st =
     (case fn st of (None, st) \<Rightarrow> (None, st) | (Some err, st) \<Rightarrow> retry n fn (Some err) st)"

definition refundWithRetry :: "(store \<Rightarrow> jstring option \<times> store) \<Rightarrow> store \<Rightarrow> jstring option \<times> store" where
  "refundWithRetry fn st = retry 3 fn None st"

fun Refund_funding :: "env \<Rightarrow> FundingSource \<Rightarrow> store \<Rightarrow> jstring option \<times> store" where
  "Refund_funding env (Wallet w) st =
     (if consumed w \<le> 0 then (None, st) else IncreaseUserQuota env (w_userId w) (consumed w) True st)"
| "Refund_funding env (Subscription f) st =
     (if preConsumed f \<le> 0 then (None, st)
      else refundWithRetry (RefundSubscriptionPreConsume env (requestId f)) st)"

section \<open>Quota of the token\<close>

definition PreConsumeTokenQuota :: "env \<Rightarrow> RelayInfo \<Rightarrow> int \<Rightarrow> store \<Rightarrow> jstring option \<times> store" where
  "PreConsumeTokenQuota env info quota st =
     (if quota < 0 then (Some negative_quota, st)
      else if IsPlayground info then (None, st)
      else case GetTokenByKey env (TokenKey info) st of
        (Inl err, st) \<Rightarrow> (Some err, st)
      | (Inr token, st) \<Rightarrow>
          if \<not> TokenUnlimited info \<and> RemainQuota token < quota
          then (Some (js ''token quota is not enough, token remain quota: '' @ FormatQuota env (RemainQuota token) @
                      js '', need quota: '' @ FormatQuota env quota), st)
          else DecreaseTokenQuota env (TokenId info) (TokenKey info) quota st)"

definition change_token :: "env \<Rightarrow> RelayInfo \<Rightarrow> int \<Rightarrow> store \<Rightarrow> jstring option \<times> store" where
  "change_token env info delta st =
     (if IsPlayground info then (None, st)
      else if delta > 0 then DecreaseTokenQuota env (TokenId info) (TokenKey info) delta st
      else IncreaseTokenQuota env (TokenId info) (TokenKey info) (- delta) st)"

text \<open>\<open>PostConsumeQuota\<close> without its notification: the charge of a request that has no session.\<close>

definition PostConsumeQuota :: "env \<Rightarrow> RelayInfo \<Rightarrow> int \<Rightarrow> store \<Rightarrow> (jstring option \<times> RelayInfo) \<times> store" where
  "PostConsumeQuota env info quota st =
     (let ((err, info), st) =
        (if BillingSource info = BillingSourceSubscription then
           (if SubscriptionId info = 0 then ((Some (js ''subscription id is missing''), info), st)
            else if quota \<noteq> 0 then
              (case PostConsumeUserSubscriptionDelta env (SubscriptionId info) quota st of
                 (Some err, st) \<Rightarrow> ((Some err, info), st)
               | (None, st) \<Rightarrow> ((None, info\<lparr>SubscriptionPostDelta := SubscriptionPostDelta info + quota\<rparr>), st))
            else ((None, info), st))
         else
           (case (if quota > 0 then DecreaseUserQuota env (UserId info) quota True st
                  else IncreaseUserQuota env (UserId info) (- quota) True st) of
              (err, st) \<Rightarrow> ((err, info), st))) in
      if err \<noteq> None then ((err, info), st)
      else (case change_token env info quota st of (err, st) \<Rightarrow> ((err, info), st)))"

section \<open>The session\<close>

definition syncRelayInfo :: "BillingSession \<Rightarrow> BillingSession" where
  "syncRelayInfo s =
     (let info = (relayInfo s)\<lparr>FinalPreConsumedQuota := preConsumedQuota s, BillingSource := Source (funding s)\<rparr> in
      s\<lparr>relayInfo :=
        (case funding s of
           Subscription f \<Rightarrow>
             info\<lparr>SubscriptionId := subscriptionId f, SubscriptionPreConsumed := preConsumed f + extraReserved s,
                  SubscriptionPostDelta := 0, SubscriptionAmountTotal := AmountTotal f,
                  SubscriptionAmountUsedAfterPreConsume := AmountUsedAfter f + extraReserved s,
                  SubscriptionPlanId := PlanId f, SubscriptionPlanTitle := PlanTitle f\<rparr>
         | Wallet w \<Rightarrow> info\<lparr>SubscriptionId := 0, SubscriptionPreConsumed := 0\<rparr>)\<rparr>)"

definition Settle :: "env \<Rightarrow> int \<Rightarrow> BillingSession \<Rightarrow> store \<Rightarrow> (jstring option \<times> BillingSession) \<times> store" where
  "Settle env actualQuota s st =
     (if settled s then ((None, s), st)
      else
        let delta = actualQuota - preConsumedQuota s in
        if delta = 0 then ((None, s\<lparr>settled := True\<rparr>), st)
        else
          case (if \<not> fundingSettled s then Settle_funding env delta (funding s) st else (None, st)) of
            (Some err, st) \<Rightarrow> ((Some err, s), st)
          | (None, st) \<Rightarrow>
              let s = s\<lparr>fundingSettled := True\<rparr>; info = relayInfo s;
                  (tokenErr, st) = change_token env info delta st;
                  s = (if Source (funding s) = BillingSourceSubscription
                       then s\<lparr>relayInfo := info\<lparr>SubscriptionPostDelta := SubscriptionPostDelta info + delta\<rparr>\<rparr> else s) in
              ((tokenErr, s\<lparr>settled := True\<rparr>), st))"

definition needsRefundLocked :: "BillingSession \<Rightarrow> bool" where
  "needsRefundLocked s =
     (if settled s \<or> refunded s \<or> fundingSettled s then False
      else if tokenConsumed s > 0 then True
      else case funding s of Subscription f \<Rightarrow> preConsumed f > 0 | Wallet w \<Rightarrow> False)"

definition NeedsRefund :: "BillingSession \<Rightarrow> bool" where
  "NeedsRefund s = needsRefundLocked s"

definition Refund :: "BillingSession \<Rightarrow> bool \<times> BillingSession" where
  "Refund s = (if settled s \<or> refunded s \<or> \<not> needsRefundLocked s then (False, s) else (True, s\<lparr>refunded := True\<rparr>))"

definition refund_work :: "env \<Rightarrow> BillingSession \<Rightarrow> store \<Rightarrow> store" where
  "refund_work env s st =
     (let info = relayInfo s;
          st = snd (Refund_funding env (funding s) st);
          st = (if extraReserved s > 0 \<and> Source (funding s) = BillingSourceSubscription \<and> SubscriptionId info > 0
                then snd (PostConsumeUserSubscriptionDelta env (SubscriptionId info) (- extraReserved s) st) else st) in
      if tokenConsumed s > 0 \<and> \<not> IsPlayground info
      then snd (IncreaseTokenQuota env (TokenId info) (TokenKey info) (tokenConsumed s) st) else st)"

fun reserveFunding :: "env \<Rightarrow> int \<Rightarrow> FundingSource \<Rightarrow> store \<Rightarrow> (NewAPIError option \<times> FundingSource) \<times> store" where
  "reserveFunding env delta (Wallet w) st =
     (case DecreaseUserQuota env (w_userId w) delta True st of
        (Some err, st) \<Rightarrow> ((Some (NewError err ErrorCodeUpdateDataError [ErrOptionWithSkipRetry]), Wallet w), st)
      | (None, st) \<Rightarrow> ((None, Wallet (w\<lparr>consumed := consumed w + delta\<rparr>)), st))"
| "reserveFunding env delta (Subscription f) st =
     (case PostConsumeUserSubscriptionDelta env (subscriptionId f) delta st of
        (Some err, st) \<Rightarrow>
          ((Some (forbidden ([35746, 38405, 39069, 24230, 19981, 36275, 25110, 26410, 37197, 32622, 35746, 38405] @ js '': '' @ err) ErrorCodeInsufficientUserQuota), Subscription f), st)
      | (None, st) \<Rightarrow> ((None, Subscription f), st))"

fun rollbackFundingReserve :: "env \<Rightarrow> int \<Rightarrow> FundingSource \<Rightarrow> store \<Rightarrow> FundingSource \<times> store" where
  "rollbackFundingReserve env delta (Wallet w) st =
     (case IncreaseUserQuota env (w_userId w) delta True st of
        (Some err, st) \<Rightarrow> (Wallet w, st)
      | (None, st) \<Rightarrow> (Wallet (w\<lparr>consumed := consumed w - delta\<rparr>), st))"
| "rollbackFundingReserve env delta (Subscription f) st =
     (Subscription f, snd (PostConsumeUserSubscriptionDelta env (subscriptionId f) (- delta) st))"

definition reserveToken :: "env \<Rightarrow> int \<Rightarrow> RelayInfo \<Rightarrow> store \<Rightarrow> NewAPIError option \<times> store" where
  "reserveToken env delta info st =
     (if delta \<le> 0 \<or> IsPlayground info then (None, st)
      else case PreConsumeTokenQuota env info delta st of
        (Some err, st) \<Rightarrow> (Some (forbidden err ErrorCodePreConsumeTokenQuotaFailed), st)
      | (None, st) \<Rightarrow> (None, st))"

definition Reserve :: "env \<Rightarrow> int \<Rightarrow> BillingSession \<Rightarrow> store \<Rightarrow> (NewAPIError option \<times> BillingSession) \<times> store" where
  "Reserve env targetQuota s st =
     (if settled s \<or> refunded s \<or> trusted s \<or> targetQuota \<le> preConsumedQuota s then ((None, s), st)
      else
        let delta = targetQuota - preConsumedQuota s in
        if delta \<le> 0 then ((None, s), st)
        else case reserveFunding env delta (funding s) st of
          ((Some err, f), st) \<Rightarrow> ((Some err, s), st)
        | ((None, f), st) \<Rightarrow>
            (case reserveToken env delta (relayInfo s) st of
               (Some err, st) \<Rightarrow>
                 (case rollbackFundingReserve env delta f st of (f, st) \<Rightarrow> ((Some err, s\<lparr>funding := f\<rparr>), st))
             | (None, st) \<Rightarrow>
                 ((None, syncRelayInfo (s\<lparr>funding := f, preConsumedQuota := preConsumedQuota s + delta,
                    tokenConsumed := tokenConsumed s + delta, extraReserved := extraReserved s + delta\<rparr>)), st)))"

definition shouldTrust :: "env \<Rightarrow> BillingSession \<Rightarrow> bool" where
  "shouldTrust env s =
     (let info = relayInfo s in
      if ForcePreConsume info then False
      else if trustQuota env \<le> 0 then False
      else if \<not> (TokenUnlimited info \<or> token_quota info > trustQuota env) then False
      else case funding s of Wallet w \<Rightarrow> UserQuota info > trustQuota env | Subscription f \<Rightarrow> False)"

definition preConsume ::
  "env \<Rightarrow> int \<Rightarrow> BillingSession \<Rightarrow> store \<Rightarrow> ((NewAPIError option \<times> BillingSession) \<times> store) option" where
  "preConsume env quota s st =
     (let trust = shouldTrust env s;
          effectiveQuota = (if trust then 0 else quota);
          s = s\<lparr>trusted := trusted s \<or> trust\<rparr> in
      case (if effectiveQuota > 0 then PreConsumeTokenQuota env (relayInfo s) effectiveQuota st else (None, st)) of
        (Some err, st) \<Rightarrow> Some ((Some (forbidden err ErrorCodePreConsumeTokenQuotaFailed), s), st)
      | (None, st) \<Rightarrow>
          let s = (if effectiveQuota > 0 then s\<lparr>tokenConsumed := effectiveQuota\<rparr> else s); info = relayInfo s in
          case PreConsume env effectiveQuota (funding s) st of
            None \<Rightarrow> None
          | Some ((Some err, f), st) \<Rightarrow>
              let s = s\<lparr>funding := f\<rparr>;
                  (s, st) =
                    (if tokenConsumed s > 0 \<and> \<not> IsPlayground info
                     then (s\<lparr>tokenConsumed := 0\<rparr>,
                           snd (IncreaseTokenQuota env (TokenId info) (TokenKey info) (tokenConsumed s) st))
                     else (s, st)) in
              if str_includes (js ''no active subscription'') err \<or> str_includes (js ''subscription quota insufficient'') err
              then Some ((Some (forbidden ([35746, 38405, 39069, 24230, 19981, 36275, 25110, 26410, 37197, 32622, 35746, 38405] @ js '': '' @ err) ErrorCodeInsufficientUserQuota), s), st)
              else Some ((Some (NewError err ErrorCodeUpdateDataError [ErrOptionWithSkipRetry]), s), st)
          | Some ((None, f), st) \<Rightarrow>
              Some ((None, syncRelayInfo (s\<lparr>funding := f, preConsumedQuota := effectiveQuota\<rparr>)), st))"

section \<open>Creating a session\<close>

definition NormalizeBillingPreference :: "jstring \<Rightarrow> jstring" where
  "NormalizeBillingPreference pref =
     (if TrimSpace pref \<in> {js ''subscription_first'', js ''wallet_first'', js ''subscription_only'', js ''wallet_only''}
      then TrimSpace pref else js ''subscription_first'')"

definition new_session :: "RelayInfo \<Rightarrow> FundingSource \<Rightarrow> BillingSession" where
  "new_session info f =
     \<lparr>relayInfo = info, funding = f, preConsumedQuota = 0, tokenConsumed = 0, extraReserved = 0, trusted = False,
      fundingSettled = False, settled = False, refunded = False\<rparr>"

type_synonym session_result = "((NewAPIError + BillingSession) \<times> RelayInfo) \<times> store"

definition tryWallet :: "env \<Rightarrow> int \<Rightarrow> RelayInfo \<Rightarrow> store \<Rightarrow> session_result option" where
  "tryWallet env quota info st =
     (case GetUserQuota env (UserId info) st of
        (Inl err, st) \<Rightarrow> Some ((Inl (NewError err ErrorCodeQueryDataError [ErrOptionWithSkipRetry]), info), st)
      | (Inr userQuota, st) \<Rightarrow>
          if userQuota \<le> 0
          then Some ((Inl (forbidden ([29992, 25143, 39069, 24230, 19981, 36275] @ js '', '' @ [21097, 20313, 39069, 24230] @ js '': '' @ FormatQuota env userQuota) ErrorCodeInsufficientUserQuota), info), st)
          else if userQuota - quota < 0
          then Some ((Inl (forbidden ([39044, 25187, 36153, 39069, 24230, 22833, 36133] @ js '', '' @ [29992, 25143, 21097, 20313, 39069, 24230] @ js '': '' @ FormatQuota env userQuota @
                 js '', '' @ [38656, 35201, 39044, 25187, 36153, 39069, 24230] @ js '': '' @ FormatQuota env quota) ErrorCodeInsufficientUserQuota), info), st)
          else
            let info = info\<lparr>UserQuota := userQuota\<rparr> in
            case preConsume env quota (new_session info (Wallet \<lparr>w_userId = UserId info, consumed = 0\<rparr>)) st of
              None \<Rightarrow> None
            | Some ((Some apiErr, s), st) \<Rightarrow> Some ((Inl apiErr, relayInfo s), st)
            | Some ((None, s), st) \<Rightarrow> Some ((Inr s, relayInfo s), st))"

definition trySubscription :: "env \<Rightarrow> int \<Rightarrow> RelayInfo \<Rightarrow> store \<Rightarrow> session_result option" where
  "trySubscription env quota info st =
     (let subConsume = (if quota \<le> 0 then 1 else quota);
          f = \<lparr>requestId = RequestId info, s_userId = UserId info, modelName = OriginModelName info,
               amount = subConsume, subscriptionId = 0, preConsumed = 0, AmountTotal = 0, AmountUsedAfter = 0,
               PlanId = 0, PlanTitle = []\<rparr> in
      case preConsume env subConsume (new_session info (Subscription f)) st of
        None \<Rightarrow> None
      | Some ((Some apiErr, s), st) \<Rightarrow> Some ((Inl apiErr, relayInfo s), st)
      | Some ((None, s), st) \<Rightarrow> Some ((Inr s, relayInfo s), st))"

definition NewBillingSession :: "env \<Rightarrow> RelayInfo \<Rightarrow> int \<Rightarrow> store \<Rightarrow> session_result option" where
  "NewBillingSession env info quota st =
     (let pref = NormalizeBillingPreference (BillingPreference info) in
      if pref = js ''subscription_only'' then trySubscription env quota info st
      else if pref = js ''wallet_only'' then tryWallet env quota info st
      else if pref = js ''wallet_first'' then
        (case tryWallet env quota info st of
           Some ((Inl err, info), st) \<Rightarrow>
             if errorCode err = ErrorCodeInsufficientUserQuota then trySubscription env quota info st
             else Some ((Inl err, info), st)
         | r \<Rightarrow> r)
      else
        (case HasActiveUserSubscription env (UserId info) st of
           (Inl err, st) \<Rightarrow> Some ((Inl (NewError err ErrorCodeQueryDataError [ErrOptionWithSkipRetry]), info), st)
         | (Inr hasSub, st) \<Rightarrow>
             if \<not> hasSub then tryWallet env quota info st
             else (case trySubscription env quota info st of
                     Some ((Inl apiErr, info), st) \<Rightarrow>
                       if errorCode apiErr = ErrorCodeInsufficientUserQuota then tryWallet env quota info st
                       else Some ((Inl apiErr, info), st)
                   | r \<Rightarrow> r)))"

text \<open>\<open>SettleBilling\<close> without its notifications; a request without a session is charged at once.\<close>

definition SettleBilling ::
  "env \<Rightarrow> RelayInfo \<Rightarrow> BillingSession option \<Rightarrow> int \<Rightarrow> store \<Rightarrow>
     (jstring option \<times> BillingSession option \<times> RelayInfo) \<times> store" where
  "SettleBilling env info billing actualQuota st =
     (case billing of
        Some s \<Rightarrow> (case Settle env actualQuota s st of ((err, s), st) \<Rightarrow> ((err, Some s, relayInfo s), st))
      | None \<Rightarrow>
          let quotaDelta = actualQuota - FinalPreConsumedQuota info in
          if quotaDelta \<noteq> 0
          then (case PostConsumeQuota env info quotaDelta st of ((err, info), st) \<Rightarrow> ((err, None, info), st))
          else ((None, None, info), st))"

section \<open>A wallet session as a machine\<close>

text \<open>
  The steps of a request whose session is paid from the wallet. Before the refund the caller may raise the
  reserve and settle; \<open>Work\<close> is the goroutine of the refund; \<open>Other x\<close> is what other requests and payments
  do to the wallet. \<open>final\<close> is the quota the session was settled with, \<open>given\<close> what others have added, and
  \<open>returned\<close> says that the refund has arrived.
\<close>

record billing_run =
  sess :: BillingSession
  db :: store
  pending_work :: bool
  final :: "int option"
  given :: int
  returned :: bool

datatype billing_event = DoReserve int | DoSettle int | DoRefund | Work | Other int

definition settle_event :: "env \<Rightarrow> int \<Rightarrow> billing_run \<Rightarrow> billing_run" where
  "settle_event env a r =
     (case Settle env a (sess r) (db r) of ((e, s), st) \<Rightarrow>
        r\<lparr>sess := s, db := st, final := (if settled s \<and> \<not> settled (sess r) then Some a else final r)\<rparr>)"

definition work_event :: "env \<Rightarrow> int \<Rightarrow> billing_run \<Rightarrow> billing_run" where
  "work_event env u r =
     (let st = refund_work env (sess r) (db r) in
      r\<lparr>db := st, pending_work := False, returned := (wallet u st \<noteq> wallet u (db r))\<rparr>)"

fun billing_react :: "env \<Rightarrow> int \<Rightarrow> billing_event \<Rightarrow> billing_run \<Rightarrow> billing_run" where
  "billing_react env u (DoReserve t) r =
     (case Reserve env t (sess r) (db r) of ((e, s), st) \<Rightarrow> r\<lparr>sess := s, db := st\<rparr>)"
| "billing_react env u (DoSettle a) r = settle_event env a r"
| "billing_react env u DoRefund r =
     (case Refund (sess r) of (started, s) \<Rightarrow> r\<lparr>sess := s, pending_work := pending_work r \<or> started\<rparr>)"
| "billing_react env u Work r = work_event env u r"
| "billing_react env u (Other x) r =
     r\<lparr>db := (db r)\<lparr>users := update_row u (\<lambda>q. q + x) (users (db r))\<rparr>, given := given r + x\<rparr>"

fun billing_possible :: "billing_event \<Rightarrow> billing_run \<Rightarrow> bool" where
  "billing_possible (DoSettle a) r \<longleftrightarrow> \<not> refunded (sess r)"
| "billing_possible Work r \<longleftrightarrow> pending_work r"
| "billing_possible _ r \<longleftrightarrow> True"

inductive billing_step :: "env \<Rightarrow> int \<Rightarrow> billing_run \<Rightarrow> billing_run \<Rightarrow> bool" for env u where
  "billing_possible e r \<Longrightarrow> billing_step env u r (billing_react env u e r)"

section \<open>What each step does to the wallet\<close>

lemma GetTokenByKey_frame:
  "GetTokenByKey env key st = (r, st') \<Longrightarrow>
     wallet u st' = wallet u st \<and> token_left i st' = token_left i st \<and> subs st' = subs st \<and> records st' = records st"
  by (auto simp: GetTokenByKey_def statement_def wallet_def token_left_def split: option.splits)

lemma PreConsumeTokenQuota_wallet: "PreConsumeTokenQuota env info n st = (e, st') \<Longrightarrow> wallet u st' = wallet u st"
  by (auto simp: PreConsumeTokenQuota_def dest!: GetTokenByKey_frame [where u = u] token_debit_frame [where u = u]
      split: if_splits sum.splits prod.splits)

lemma reserveToken_wallet: "reserveToken env n info st = (e, st') \<Longrightarrow> wallet u st' = wallet u st"
  by (auto simp: reserveToken_def dest!: PreConsumeTokenQuota_wallet [where u = u] split: if_splits option.splits prod.splits)

lemma rollback_wallet:
  assumes "rollbackFundingReserve env d (Wallet w) st = (f, st')" and "wallet (w_userId w) st = Some q" and "0 < d"
  obtains w' q' where "f = Wallet w'" "w_userId w' = w_userId w" "wallet (w_userId w) st' = Some q'"
    "q' + consumed w' = q + consumed w" "consumed w - d \<le> consumed w'" "consumed w' \<le> consumed w"
    "(\<forall>n. fault env n = None) \<longrightarrow> consumed w' = consumed w - d"
proof (cases "IncreaseUserQuota env (w_userId w) d True st")
  case (Pair e st1)
  show ?thesis
  proof (cases e)
    case None
    then show ?thesis
      using assms Pair wal.credit_moves [of env "w_userId w" d st st1]
        that [of "w\<lparr>consumed := consumed w - d\<rparr>" "q + d"] by auto
  next
    case (Some m)
    then have "\<not> (\<forall>n. fault env n = None)"
      using Pair assms(3) by (auto simp: IncreaseUserQuota_def increaseUserQuota_def statement_def split: option.splits)
    then show ?thesis
      using assms Some Pair wal.credit_fails [of env "w_userId w" d st m st1] that [of w q] by auto
  qed
qed

lemma Reserve_wallet:
  assumes "Reserve env t s st = ((e, s'), st')" and "funding s = Wallet w" and "wallet (w_userId w) st = Some q"
  obtains w' q' where "funding s' = Wallet w'" "w_userId w' = w_userId w" "wallet (w_userId w) st' = Some q'"
    "q' + consumed w' = q + consumed w" "consumed w - preConsumedQuota s \<le> consumed w' - preConsumedQuota s'"
    "preConsumedQuota s \<le> preConsumedQuota s'"
    "(\<forall>n. fault env n = None) \<longrightarrow> consumed w' - preConsumedQuota s' = consumed w - preConsumedQuota s"
proof (cases "settled s \<or> refunded s \<or> trusted s \<or> t \<le> preConsumedQuota s")
  case True
  then show ?thesis using assms that [of w q] by (auto simp: Reserve_def)
next
  case False
  let ?d = "t - preConsumedQuota s" and ?u = "w_userId w"
  have d: "0 < ?d" using False by simp
  obtain e1 st1 where dec: "DecreaseUserQuota env ?u ?d True st = (e1, st1)" by force
  show ?thesis
  proof (cases e1)
    case (Some m)
    then have "s' = s" "wallet ?u st' = Some q"
      using assms False dec wal.debit_fails [of env ?u ?d st m st1] by (auto simp: Reserve_def Let_def)
    then show ?thesis using assms(2) that [of w q] by simp
  next
    case None
    let ?w1 = "w\<lparr>consumed := consumed w + ?d\<rparr>"
    have q1: "wallet ?u st1 = Some (q - ?d)"
      using None dec assms(3) wal.debit_moves [of env ?u ?d st st1] by simp
    obtain e2 st2 where tok: "reserveToken env ?d (relayInfo s) st1 = (e2, st2)" by force
    have q2: "wallet ?u st2 = Some (q - ?d)" using q1 reserveToken_wallet [OF tok, of ?u] by simp
    show ?thesis
    proof (cases e2)
      case None2: None
      then have "s' = syncRelayInfo (s\<lparr>funding := Wallet ?w1, preConsumedQuota := preConsumedQuota s + ?d,
          tokenConsumed := tokenConsumed s + ?d, extraReserved := extraReserved s + ?d\<rparr>)" "st' = st2"
        using assms(1,2) False None dec tok by (auto simp: Reserve_def Let_def)
      then show ?thesis using q2 d that [of ?w1 "q - ?d"] by (simp add: syncRelayInfo_def Let_def)
    next
      case (Some m)
      obtain f st3 where rb: "rollbackFundingReserve env ?d (Wallet ?w1) st2 = (f, st3)" by force
      then have s': "s' = s\<lparr>funding := f\<rparr>" "st' = st3"
        using assms(1,2) False None dec tok Some by (auto simp: Reserve_def Let_def)
      have "wallet (w_userId ?w1) st2 = Some (q - ?d)" using q2 by simp
      then show ?thesis
      proof (rule rollback_wallet [OF rb _ d])
        fix w' q'
        assume "f = Wallet w'" "w_userId w' = w_userId ?w1" "wallet (w_userId ?w1) st3 = Some q'"
          "q' + consumed w' = q - ?d + consumed ?w1" "consumed ?w1 - ?d \<le> consumed w'"
          "(\<forall>n. fault env n = None) \<longrightarrow> consumed w' = consumed ?w1 - ?d"
        then show ?thesis using that [of w' q'] s' by simp
      qed
    qed
  qed
qed

lemma Reserve_flags:
  "Reserve env t s st = ((e, s'), st') \<Longrightarrow>
     settled s' = settled s \<and> refunded s' = refunded s \<and> fundingSettled s' = fundingSettled s \<and> trusted s' = trusted s"
  by (auto simp: Reserve_def Let_def syncRelayInfo_def split: if_splits prod.splits option.splits)

lemma change_token_wallet: "change_token env info d st = (e, st') \<Longrightarrow> wallet u st' = wallet u st"
  by (auto simp: change_token_def dest: token_credit_frame [where u = u] token_debit_frame [where u = u] split: if_splits)

lemma source_wallet [simp]: "BillingSourceWallet \<noteq> BillingSourceSubscription"
  by (simp add: BillingSourceWallet_def BillingSourceSubscription_def)

lemma Settle_wallet:
  assumes "Settle env a s st = ((e, s'), st')" and "funding s = Wallet w" and "wallet (w_userId w) st = Some q"
    and "\<not> fundingSettled s"
  shows "funding s' = Wallet w \<and> preConsumedQuota s' = preConsumedQuota s \<and> refunded s' = refunded s \<and>
    (fundingSettled s' \<longrightarrow> settled s') \<and>
    (if settled s' \<and> \<not> settled s then wallet (w_userId w) st' = Some (q - (a - preConsumedQuota s))
     else s' = s \<and> wallet (w_userId w) st' = Some q)"
proof (cases "settled s \<or> a = preConsumedQuota s")
  case True
  then show ?thesis using assms by (cases "settled s") (auto simp: Settle_def Let_def)
next
  case False
  let ?d = "a - preConsumedQuota s" and ?u = "w_userId w" and ?i = "relayInfo s"
  let ?change = "if ?d > 0 then DecreaseUserQuota env ?u ?d True st else IncreaseUserQuota env ?u (- ?d) True st"
  obtain e1 st1 where ch: "?change = (e1, st1)" by force
  have sf: "Settle_funding env ?d (Wallet w) st = (e1, st1)" using False ch by simp
  show ?thesis
  proof (cases e1)
    case (Some m)
    then show ?thesis
      using assms False sf wal.change_fails [of ?d env ?u st m st1] ch by (auto simp: Settle_def Let_def)
  next
    case None
    obtain e2 st2 where tok: "change_token env ?i ?d st1 = (e2, st2)" by force
    have "wallet ?u st2 = wallet ?u st1" by (rule change_token_wallet [OF tok])
    moreover have "wallet ?u st1 = Some (q - ?d)"
      using wal.change_moves [of ?d env ?u st st1] ch None assms(3) by simp
    moreover have "Settle env a s st = ((e2, s\<lparr>fundingSettled := True, settled := True\<rparr>), st2)"
      using assms(2,4) False sf None tok by (simp add: Settle_def Let_def)
    then have "s' = s\<lparr>fundingSettled := True, settled := True\<rparr>" "st' = st2" using assms(1) by simp_all
    ultimately show ?thesis using assms(2) False by simp
  qed
qed

lemma refund_work_wallet:
  assumes "funding s = Wallet w" and "wallet (w_userId w) st = Some q"
  shows "wallet (w_userId w) (refund_work env s st) \<in> {Some q, Some (q + consumed w)} \<and>
    ((\<forall>n. fault env n = None) \<and> 0 < consumed w \<longrightarrow> wallet (w_userId w) (refund_work env s st) = Some (q + consumed w))"
proof -
  let ?u = "w_userId w" and ?i = "relayInfo s" and ?st1 = "snd (Refund_funding env (Wallet w) st)"
  have tok: "wallet ?u (snd (IncreaseTokenQuota env (TokenId ?i) (TokenKey ?i) n x)) = wallet ?u x" for n x
    using token_credit_frame [of env _ _ _ x _ _ ?u] by (metis prod.collapse)
  have "wallet ?u (refund_work env s st) = wallet ?u ?st1"
    using assms(1) tok by (simp add: refund_work_def Let_def)
  moreover obtain e st1 where inc: "IncreaseUserQuota env ?u (consumed w) True st = (e, st1)" by force
  moreover have "wallet ?u st1 = Some (if e = None then q + consumed w else q)"
    using inc assms(2) wal.credit_moves [of env ?u "consumed w" st st1] wal.credit_fails [of env ?u "consumed w" st _ st1]
    by (cases e) auto
  moreover have "e = None" if "\<forall>n. fault env n = None" and "0 < consumed w"
    using inc that by (auto simp: IncreaseUserQuota_def increaseUserQuota_def statement_def)
  ultimately show ?thesis using assms(2) by auto
qed

lemma Refund_cases:
  assumes "Refund s = (started, s')"
  shows "(started \<and> s' = s\<lparr>refunded := True\<rparr> \<and> \<not> settled s \<and> \<not> refunded s) \<or> (\<not> started \<and> s' = s)"
  using assms by (auto simp: Refund_def split: if_splits)

section \<open>The invariant\<close>

definition taken :: "billing_run \<Rightarrow> WalletFunding \<Rightarrow> int" where
  "taken r w =
     (case final r of
        Some a \<Rightarrow> a + (consumed w - preConsumedQuota (sess r))
      | None \<Rightarrow> if returned r then 0 else consumed w)"

definition run_ok :: "billing_run \<Rightarrow> bool" where
  "run_ok r \<longleftrightarrow>
     (settled (sess r) \<longleftrightarrow> final r \<noteq> None) \<and> (fundingSettled (sess r) \<longrightarrow> settled (sess r)) \<and>
     (settled (sess r) \<longrightarrow> \<not> refunded (sess r)) \<and> (pending_work r \<longrightarrow> refunded (sess r)) \<and>
     (returned r \<longrightarrow> refunded (sess r) \<and> \<not> pending_work r)"

definition calm_ok :: "billing_run \<Rightarrow> WalletFunding \<Rightarrow> bool" where
  "calm_ok r w \<longleftrightarrow> consumed w = preConsumedQuota (sess r) \<and>
     (refunded (sess r) \<and> \<not> pending_work r \<and> 0 < consumed w \<longrightarrow> returned r)"

definition wallet_inv :: "env \<Rightarrow> int \<Rightarrow> int \<Rightarrow> billing_run \<Rightarrow> bool" where
  "wallet_inv env u q0 r \<longleftrightarrow>
     (\<exists>w. funding (sess r) = Wallet w \<and> w_userId w = u \<and> 0 \<le> preConsumedQuota (sess r) \<and>
        preConsumedQuota (sess r) \<le> consumed w \<and> wallet u (db r) = Some (q0 + given r - taken r w) \<and>
        run_ok r \<and> ((\<forall>n. fault env n = None) \<longrightarrow> calm_ok r w))"

lemma wallet_invE:
  assumes "wallet_inv env u q0 r"
  obtains w where "funding (sess r) = Wallet w" "w_userId w = u" "0 \<le> preConsumedQuota (sess r)"
    "preConsumedQuota (sess r) \<le> consumed w" "wallet u (db r) = Some (q0 + given r - taken r w)" "run_ok r"
    "(\<forall>n. fault env n = None) \<longrightarrow> calm_ok r w"
  using assms by (auto simp: wallet_inv_def)

lemma reserve_inv:
  assumes "wallet_inv env u q0 r"
  shows "wallet_inv env u q0 (billing_react env u (DoReserve t) r)"
  using assms
proof (rule wallet_invE)
  fix w
  assume i: "funding (sess r) = Wallet w" "w_userId w = u" "0 \<le> preConsumedQuota (sess r)"
    "preConsumedQuota (sess r) \<le> consumed w" "wallet u (db r) = Some (q0 + given r - taken r w)" "run_ok r"
    "(\<forall>n. fault env n = None) \<longrightarrow> calm_ok r w"
  obtain e s' st' where res: "Reserve env t (sess r) (db r) = ((e, s'), st')" by (metis prod.exhaust)
  have fl: "settled s' = settled (sess r)" "refunded s' = refunded (sess r)" "fundingSettled s' = fundingSettled (sess r)"
    using Reserve_flags [OF res] by auto
  show ?thesis
  proof (cases "settled (sess r) \<or> refunded (sess r)")
    case True
    then have "Reserve env t (sess r) (db r) = ((None, sess r), db r)" by (auto simp: Reserve_def)
    then show ?thesis using assms by simp
  next
    case False
    then have u: "final r = None" "\<not> returned r" using i(6) by (auto simp: run_ok_def)
    have q: "wallet (w_userId w) (db r) = Some (q0 + given r - consumed w)" using i u by (simp add: taken_def)
    from res i(1) q show ?thesis
    proof (rule Reserve_wallet)
      fix w' q'
      assume w': "funding s' = Wallet w'" "w_userId w' = w_userId w" "wallet (w_userId w) st' = Some q'"
        "q' + consumed w' = q0 + given r - consumed w + consumed w"
        "consumed w - preConsumedQuota (sess r) \<le> consumed w' - preConsumedQuota s'"
        "preConsumedQuota (sess r) \<le> preConsumedQuota s'"
        "(\<forall>n. fault env n = None) \<longrightarrow> consumed w' - preConsumedQuota s' = consumed w - preConsumedQuota (sess r)"
      show ?thesis
        unfolding wallet_inv_def
        by (rule exI [of _ w'])
          (use w' i u False fl in \<open>auto simp: res taken_def run_ok_def calm_ok_def\<close>)
    qed
  qed
qed

lemma settle_inv:
  assumes "wallet_inv env u q0 r" and "\<not> refunded (sess r)"
  shows "wallet_inv env u q0 (billing_react env u (DoSettle a) r)"
  using assms(1)
proof (rule wallet_invE)
  fix w
  assume i: "funding (sess r) = Wallet w" "w_userId w = u" "0 \<le> preConsumedQuota (sess r)"
    "preConsumedQuota (sess r) \<le> consumed w" "wallet u (db r) = Some (q0 + given r - taken r w)" "run_ok r"
    "(\<forall>n. fault env n = None) \<longrightarrow> calm_ok r w"
  obtain e s' st' where res: "Settle env a (sess r) (db r) = ((e, s'), st')" by (metis prod.exhaust)
  show ?thesis
  proof (cases "settled (sess r)")
    case True
    then have "s' = sess r" "st' = db r" using res by (auto simp: Settle_def)
    then show ?thesis
      using i True by (auto simp: wallet_inv_def settle_event_def res taken_def run_ok_def calm_ok_def)
  next
    case False
    then have u: "final r = None" "\<not> returned r" "\<not> fundingSettled (sess r)" "\<not> pending_work r"
      using i(6) assms(2) by (auto simp: run_ok_def)
    have q: "wallet (w_userId w) (db r) = Some (q0 + given r - consumed w)" using i u by (simp add: taken_def)
    note w' = Settle_wallet [OF res i(1) q u(3)]
    show ?thesis
      unfolding wallet_inv_def
      by (rule exI [of _ w])
        (use w' i u False assms(2) in \<open>auto simp: settle_event_def res taken_def run_ok_def calm_ok_def split: if_splits\<close>)
  qed
qed

lemma refund_inv:
  assumes "wallet_inv env u q0 r"
  shows "wallet_inv env u q0 (billing_react env u DoRefund r)"
  using assms
proof (rule wallet_invE)
  fix w
  assume i: "funding (sess r) = Wallet w" "w_userId w = u" "0 \<le> preConsumedQuota (sess r)"
    "preConsumedQuota (sess r) \<le> consumed w" "wallet u (db r) = Some (q0 + given r - taken r w)" "run_ok r"
    "(\<forall>n. fault env n = None) \<longrightarrow> calm_ok r w"
  obtain started s' where res: "Refund (sess r) = (started, s')" by force
  show ?thesis
  proof (cases started)
    case True
    then have s': "s' = (sess r)\<lparr>refunded := True\<rparr>" "\<not> settled (sess r)" "\<not> refunded (sess r)"
      using Refund_cases [OF res] by auto
    then have "\<not> returned r" "\<not> fundingSettled (sess r)" "final r = None" using i(6) by (auto simp: run_ok_def)
    then show ?thesis
      unfolding wallet_inv_def
      by (intro exI [of _ w]) (use i s' True in \<open>simp add: res taken_def run_ok_def calm_ok_def\<close>)
  next
    case False
    then have "s' = sess r" using Refund_cases [OF res] by simp
    then show ?thesis using assms res False by simp
  qed
qed

lemma work_inv:
  assumes "wallet_inv env u q0 r" and "pending_work r"
  shows "wallet_inv env u q0 (billing_react env u Work r)"
  using assms(1)
proof (rule wallet_invE)
  fix w
  assume i: "funding (sess r) = Wallet w" "w_userId w = u" "0 \<le> preConsumedQuota (sess r)"
    "preConsumedQuota (sess r) \<le> consumed w" "wallet u (db r) = Some (q0 + given r - taken r w)" "run_ok r"
    "(\<forall>n. fault env n = None) \<longrightarrow> calm_ok r w"
  have u: "final r = None" "\<not> returned r" "refunded (sess r)" "\<not> settled (sess r)"
    using i(6) assms(2) by (auto simp: run_ok_def)
  have q: "wallet (w_userId w) (db r) = Some (q0 + given r - consumed w)" using i u by (simp add: taken_def)
  note w' = refund_work_wallet [OF i(1) q, of env]
  show ?thesis
    unfolding wallet_inv_def
    by (rule exI [of _ w])
      (use w' i u q in \<open>auto simp: work_event_def Let_def taken_def run_ok_def calm_ok_def\<close>)
qed

lemma other_inv: "wallet_inv env u q0 r \<Longrightarrow> wallet_inv env u q0 (billing_react env u (Other x) r)"
proof (erule wallet_invE)
  fix w
  assume i: "funding (sess r) = Wallet w" "w_userId w = u" "0 \<le> preConsumedQuota (sess r)"
    "preConsumedQuota (sess r) \<le> consumed w" "wallet u (db r) = Some (q0 + given r - taken r w)" "run_ok r"
    "(\<forall>n. fault env n = None) \<longrightarrow> calm_ok r w"
  let ?r = "billing_react env u (Other x) r"
  have same: "sess ?r = sess r" "\<And>v. taken ?r v = taken r v" "run_ok ?r = run_ok r" "\<And>v. calm_ok ?r v = calm_ok r v"
    by (simp_all add: taken_def run_ok_def calm_ok_def split: option.split)
  have q: "wallet u (db ?r) = Some (q0 + given ?r - taken r w)"
    using i(5) by (simp add: wallet_def map_of_update_row)
  show ?thesis unfolding wallet_inv_def same by (intro exI [of _ w] conjI) (rule i q)+
qed

lemma billing_step_inv: "wallet_inv env u q0 r \<Longrightarrow> billing_step env u r r' \<Longrightarrow> wallet_inv env u q0 r'"
proof (erule billing_step.cases)
  fix e r1
  assume i: "wallet_inv env u q0 r" and s: "r = r1" "r' = billing_react env u e r1" "billing_possible e r1"
  show "wallet_inv env u q0 r'"
    using i s reserve_inv settle_inv refund_inv work_inv other_inv by (cases e) (simp_all del: billing_react.simps)
qed

interpretation wallet_session: machine_invariant "wallet_inv env u q0" "billing_step env u" "wallet_inv env u q0"
  for env u q0
  by unfold_locales (auto intro: billing_step_inv)

section \<open>Opening a wallet session\<close>

definition start_run :: "BillingSession \<Rightarrow> store \<Rightarrow> billing_run" where
  "start_run s st = \<lparr>sess = s, db = st, pending_work = False, final = None, given = 0, returned = False\<rparr>"

lemma preConsume_wallet:
  assumes "preConsume env quota (new_session info (Wallet \<lparr>w_userId = u, consumed = 0\<rparr>)) st = Some ((None, s), st1)"
    and "wallet u st = Some q" and "0 \<le> quota"
  shows "wallet_inv env u q (start_run s st1)"
proof -
  let ?s0 = "new_session info (Wallet \<lparr>w_userId = u, consumed = 0\<rparr>)"
  define n where "n = (if shouldTrust env ?s0 then 0 else quota)"
  have n: "0 \<le> n" using assms(3) by (simp add: n_def)
  obtain e1 st2 where t: "(if n > 0 then PreConsumeTokenQuota env info n st else (None, st)) = (e1, st2)" by force
  have q2: "wallet u st2 = Some q"
    using t assms(2) PreConsumeTokenQuota_wallet [of env info n st e1 st2 u] by (auto split: if_splits)
  obtain e2 w st3 where p: "wallet_PreConsume env n \<lparr>w_userId = u, consumed = 0\<rparr> st2 = ((e2, w), st3)"
    by (metis prod.exhaust)
  have "e1 = None" "e2 = None" "st1 = st3" and s: "funding s = Wallet w" "preConsumedQuota s = n" "\<not> settled s"
    "\<not> refunded s" "\<not> fundingSettled s"
    using assms(1) t p
    by (auto simp: preConsume_def new_session_def n_def syncRelayInfo_def Let_def split: if_splits option.splits)
  moreover have "w_userId w = u \<and> consumed w = n \<and> wallet u st3 = Some (q - n)"
  proof (cases "n = 0")
    case True
    then show ?thesis using p q2 by (auto simp: wallet_PreConsume_def)
  next
    case False
    then show ?thesis
      using p n q2 \<open>e2 = None\<close> wal.debit_moves [of env u n st2 st3]
      by (auto simp: wallet_PreConsume_def split: prod.splits option.splits)
  qed
  ultimately show ?thesis
    using n by (simp add: wallet_inv_def start_run_def taken_def run_ok_def calm_ok_def)
qed

lemma tryWallet_inv:
  assumes "tryWallet env quota info st = Some ((Inr s, info'), st1)" and "wallet (UserId info) st = Some q" and "0 \<le> quota"
  shows "wallet_inv env (UserId info) q (start_run s st1)"
proof -
  obtain r st2 where g: "GetUserQuota env (UserId info) st = (r, st2)" by force
  have w: "wallet u st2 = wallet u st" for u
    using g by (auto simp: GetUserQuota_def statement_def wallet_def split: option.splits)
  obtain x where "r = Inr x" using assms(1) g by (cases r) (auto simp: tryWallet_def)
  then obtain s0 where
    "preConsume env quota (new_session (info\<lparr>UserQuota := x\<rparr>) (Wallet \<lparr>w_userId = UserId info, consumed = 0\<rparr>)) st2 =
       Some ((None, s), st1)"
    using assms(1) g by (auto simp: tryWallet_def Let_def split: if_splits option.splits prod.splits)
  then show ?thesis using preConsume_wallet assms(2,3) w by metis
qed

section \<open>Properties\<close>

text \<open>
  C1. A request that is paid from the wallet is charged exactly once. While no statement fails, and whatever
  else happens to the wallet, a settled session has taken the quota it was settled with, in total over the
  prepayment, the reserves and the settlement; a refunded one has taken nothing.
\<close>

theorem wallet_charged_once:
  assumes "tryWallet env quota info st = Some ((Inr s, info'), st1)" and "wallet (UserId info) st = Some q"
    and "0 \<le> quota" and "\<forall>n. fault env n = None" and "(billing_step env (UserId info))\<^sup>*\<^sup>* (start_run s st1) r"
  shows "(\<forall>a. final r = Some a \<longrightarrow> wallet (UserId info) (db r) = Some (q + given r - a)) \<and>
    (refunded (sess r) \<and> \<not> pending_work r \<longrightarrow> wallet (UserId info) (db r) = Some (q + given r))"
proof -
  have "wallet_inv env (UserId info) q r"
    by (rule wallet_session.reachable_inv [OF tryWallet_inv [OF assms(1-3)] assms(5)])
  then show ?thesis
  proof (rule wallet_invE)
    fix w
    assume i: "preConsumedQuota (sess r) \<le> consumed w" "0 \<le> preConsumedQuota (sess r)" "run_ok r"
      "wallet (UserId info) (db r) = Some (q + given r - taken r w)" "(\<forall>n. fault env n = None) \<longrightarrow> calm_ok r w"
    then have c: "consumed w = preConsumedQuota (sess r)"
      "refunded (sess r) \<Longrightarrow> \<not> pending_work r \<Longrightarrow> 0 < consumed w \<Longrightarrow> returned r"
      using assms(4) by (auto simp: calm_ok_def)
    show ?thesis
    proof (cases "final r")
      case None
      then have "taken r w = 0" if "refunded (sess r)" "\<not> pending_work r"
        using c(2) [OF that] i(1,2) by (fastforce simp: taken_def)
      then show ?thesis using i(4) None by simp
    next
      case (Some a)
      then have "settled (sess r)" using i(3) by (simp add: run_ok_def)
      then have "\<not> refunded (sess r)" using i(3) by (simp add: run_ok_def)
      then show ?thesis using i(4) Some c(1) by (simp add: taken_def)
    qed
  qed
qed

definition example_info :: RelayInfo where
  "example_info =
     \<lparr>UserId = 1, TokenId = 7, TokenKey = js ''sk'', TokenUnlimited = False, token_quota = 500, IsPlayground = False,
      ForcePreConsume = False, UserQuota = 0, RequestId = js ''r1'', OriginModelName = js ''m'', BillingPreference = [],
      FinalPreConsumedQuota = 0, BillingSource = [], SubscriptionId = 0, SubscriptionPreConsumed = 0,
      SubscriptionPostDelta = 0, SubscriptionAmountTotal = 0, SubscriptionAmountUsedAfterPreConsume = 0,
      SubscriptionPlanId = 0, SubscriptionPlanTitle = []\<rparr>"

lemma example_user [simp]: "UserId example_info = 1"
  by (simp add: example_info_def)

lemma example_wallet: "wallet (UserId example_info) example_store = Some 1000"
  by (simp add: example_info_def example_store_def wallet_def)

lemma example_opens:
  "case tryWallet quiet 100 example_info example_store of
     Some ((Inr s, i), st1) \<Rightarrow> final (billing_react quiet 1 (DoSettle 150) (start_run s st1)) = Some 150 \<and> \<not> refunded s
   | _ \<Rightarrow> False"
  by code_simp

lemma example_run:
  obtains s i st1 where "tryWallet quiet 100 example_info example_store = Some ((Inr s, i), st1)"
    "final (billing_react quiet 1 (DoSettle 150) (start_run s st1)) = Some 150"
    "(billing_step quiet (UserId example_info))\<^sup>*\<^sup>* (start_run s st1) (billing_react quiet 1 (DoSettle 150) (start_run s st1))"
proof -
  obtain s i st1 where t: "tryWallet quiet 100 example_info example_store = Some ((Inr s, i), st1)"
    "final (billing_react quiet 1 (DoSettle 150) (start_run s st1)) = Some 150" "\<not> refunded s"
    using example_opens by (auto split: option.splits sum.splits prod.splits)
  have "billing_possible (DoSettle 150) (start_run s st1)" using t(3) by (simp add: start_run_def)
  then have "billing_step quiet 1 (start_run s st1) (billing_react quiet 1 (DoSettle 150) (start_run s st1))"
    by (rule billing_step.intros)
  then show ?thesis using that [OF t(1,2)] by (simp add: r_into_rtranclp del: billing_react.simps)
qed

theorem wallet_charged_once_witness:
  "\<exists>s i st1. tryWallet quiet 100 example_info example_store = Some ((Inr s, i), st1) \<and>
     wallet 1 (db (billing_react quiet 1 (DoSettle 150) (start_run s st1))) = Some 850"
proof (rule example_run)
  fix s i st1
  let ?r = "billing_react quiet 1 (DoSettle 150) (start_run s st1)"
  assume a: "tryWallet quiet 100 example_info example_store = Some ((Inr s, i), st1)" "final ?r = Some 150"
    "(billing_step quiet (UserId example_info))\<^sup>*\<^sup>* (start_run s st1) ?r"
  have "\<forall>n. fault quiet n = None" by (simp add: quiet_def)
  from wallet_charged_once [OF a(1) example_wallet _ this a(3)] a(2)
  have "wallet (UserId example_info) (db ?r) = Some (1000 + given ?r - 150)" by simp
  moreover have "given ?r = 0" by (simp add: settle_event_def start_run_def split: prod.split)
  ultimately show ?thesis using a(1) by simp
qed

text \<open>
  C13. Failing statements never turn to the user's advantage: however statements fail, a settled session has
  taken at least the quota it was settled with, and no session gives back more than it has taken.
\<close>

theorem wallet_never_overpaid:
  assumes "tryWallet env quota info st = Some ((Inr s, info'), st1)" and "wallet (UserId info) st = Some q"
    and "0 \<le> quota" and "(billing_step env (UserId info))\<^sup>*\<^sup>* (start_run s st1) r"
  shows "\<exists>t. wallet (UserId info) (db r) = Some (q + given r - t) \<and> (case final r of Some a \<Rightarrow> a \<le> t | None \<Rightarrow> 0 \<le> t)"
proof -
  have "wallet_inv env (UserId info) q r"
    by (rule wallet_session.reachable_inv [OF tryWallet_inv [OF assms(1-3)] assms(4)])
  then show ?thesis
    by (rule wallet_invE) (intro exI conjI, assumption, auto simp: taken_def split: option.splits)
qed

theorem wallet_never_overpaid_witness:
  "\<exists>s i st1 t. tryWallet quiet 100 example_info example_store = Some ((Inr s, i), st1) \<and> 150 \<le> t \<and>
     wallet 1 (db (billing_react quiet 1 (DoSettle 150) (start_run s st1))) = Some (1000 - t)"
proof (rule example_run)
  fix s i st1
  let ?r = "billing_react quiet 1 (DoSettle 150) (start_run s st1)"
  assume a: "tryWallet quiet 100 example_info example_store = Some ((Inr s, i), st1)" "final ?r = Some 150"
    "(billing_step quiet (UserId example_info))\<^sup>*\<^sup>* (start_run s st1) ?r"
  from wallet_never_overpaid [OF a(1) example_wallet _ a(3)] a(2)
  obtain t where "wallet (UserId example_info) (db ?r) = Some (1000 + given ?r - t)" "150 \<le> t" by auto
  moreover have "given ?r = 0" by (simp add: settle_event_def start_run_def split: prod.split)
  ultimately show ?thesis using a(1) by auto
qed

section \<open>What each step does to the token\<close>

lemma calm_credit: "\<forall>n. fault env n = None \<Longrightarrow> 0 \<le> n \<Longrightarrow> fst (IncreaseTokenQuota env i k n st) = None"
  by (simp add: token_ops)

lemma calm_debit: "\<forall>n. fault env n = None \<Longrightarrow> 0 \<le> n \<Longrightarrow> fst (DecreaseTokenQuota env i k n st) = None"
  by (simp add: token_ops)

lemma calm_change:
  assumes "\<forall>n. fault env n = None" and "\<not> IsPlayground info"
  obtains st' where "change_token env info d st = (None, st')"
    "token_left (TokenId info) st' = map_option (\<lambda>q. q - d) (token_left (TokenId info) st)"
proof -
  obtain e st' where c: "change_token env info d st = (e, st')" by force
  then have "e = None"
    using assms calm_credit [OF assms(1), of "- d" "TokenId info" "TokenKey info" st]
      calm_debit [OF assms(1), of d "TokenId info" "TokenKey info" st]
    by (auto simp: change_token_def split: if_splits)
  then show ?thesis
    using that c tok.change_moves [of d env "TokenId info" "TokenKey info" st st'] assms(2) by (simp add: change_token_def)
qed

lemma PreConsumeTokenQuota_token:
  assumes "PreConsumeTokenQuota env info n st = (e, st')" and "\<not> IsPlayground info"
  shows "token_left (TokenId info) st' =
    (if e = None then map_option (\<lambda>q. q - n) (token_left (TokenId info) st) else token_left (TokenId info) st)"
proof -
  obtain r st1 where g: "GetTokenByKey env (TokenKey info) st = (r, st1)" by force
  note f = GetTokenByKey_frame [OF g, of _ "TokenId info"]
  show ?thesis
    using assms g f tok.debit_moves [of env "TokenId info" "TokenKey info" n st1 st']
      tok.debit_fails [of env "TokenId info" "TokenKey info" n st1 _ st']
    by (cases e) (auto simp: PreConsumeTokenQuota_def split: if_splits sum.splits)
qed

lemma user_ops_token:
  "DecreaseUserQuota env u n True st = (e, st') \<Longrightarrow> token_left i st' = token_left i st"
  "IncreaseUserQuota env u n True st = (e, st') \<Longrightarrow> token_left i st' = token_left i st"
  using user_debit_frame user_credit_frame by blast+

lemma PostConsume_token: "PostConsumeUserSubscriptionDelta env sid d st = (e, st') \<Longrightarrow> token_left i st' = token_left i st"
  using PostConsume_money same_moneyD by blast

lemma Settle_funding_token: "Settle_funding env d f st = (e, st') \<Longrightarrow> token_left i st' = token_left i st"
  by (cases f) (auto dest: user_ops_token PostConsume_token split: if_splits)

lemma reserveFunding_token: "reserveFunding env d f st = ((e, f'), st') \<Longrightarrow> token_left i st' = token_left i st"
  by (cases f) (auto dest!: user_ops_token [where i = i] PostConsume_token [where i = i] split: prod.splits option.splits)

lemma rollback_token: "rollbackFundingReserve env d f st = (f', st') \<Longrightarrow> token_left i st' = token_left i st"
  by (cases f) (auto dest!: user_ops_token [where i = i] simp: PostConsume_token [where i = i, OF prod.collapse [symmetric]]
      split: prod.splits option.splits)

lemma retry_money: "(\<And>x e y. fn x = (e, y) \<Longrightarrow> same_money x y) \<Longrightarrow> retry n fn le st = (e, st') \<Longrightarrow> same_money st st'"
  by (induction n fn le st rule: retry.induct) (auto intro: same_money_trans split: prod.splits option.splits)

lemma Refund_funding_token: "Refund_funding env f st = (e, st') \<Longrightarrow> token_left i st' = token_left i st"
proof (cases f)
  case (Subscription g)
  assume "Refund_funding env f st = (e, st')"
  then have "same_money st st'"
    using Subscription retry_money [of "RefundSubscriptionPreConsume env (requestId g)" 3 None st e st'] RefundSub_money
    by (auto simp: refundWithRetry_def split: if_splits)
  then show ?thesis using same_moneyD by blast
qed (auto dest: user_ops_token split: if_splits)

lemma Settle_flags:
  assumes "Settle env a s st = ((e, s'), st')"
  shows "refunded s' = refunded s \<and> preConsumedQuota s' = preConsumedQuota s \<and> tokenConsumed s' = tokenConsumed s \<and>
    (settled s \<longrightarrow> s' = s) \<and> (fundingSettled s' \<longrightarrow> settled s' \<or> fundingSettled s) \<and>
    TokenId (relayInfo s') = TokenId (relayInfo s) \<and> IsPlayground (relayInfo s') = IsPlayground (relayInfo s)"
  using assms by (auto simp: Settle_def Let_def split: if_splits prod.splits option.splits)

lemma Settle_token:
  assumes "Settle env a s st = ((e, s'), st')" and "\<forall>n. fault env n = None" and "\<not> settled s" and "\<not> fundingSettled s"
    and "\<not> IsPlayground (relayInfo s)"
  shows "token_left (TokenId (relayInfo s)) st' =
    (if settled s' then map_option (\<lambda>q. q - (a - preConsumedQuota s)) (token_left (TokenId (relayInfo s)) st)
     else token_left (TokenId (relayInfo s)) st)"
proof (cases "a = preConsumedQuota s")
  case True
  then show ?thesis using assms(1,3) by (auto simp: Settle_def option.map_ident)
next
  case False
  let ?d = "a - preConsumedQuota s" and ?i = "relayInfo s"
  obtain e1 st1 where f: "Settle_funding env ?d (funding s) st = (e1, st1)" by force
  note t1 = Settle_funding_token [OF f, of "TokenId ?i"]
  show ?thesis
  proof (cases e1)
    case (Some m)
    then show ?thesis using assms(1,3,4) False f t1 by (auto simp: Settle_def Let_def)
  next
    case None
    obtain st2 where c: "change_token env ?i ?d st1 = (None, st2)"
      "token_left (TokenId ?i) st2 = map_option (\<lambda>q. q - ?d) (token_left (TokenId ?i) st1)"
      by (rule calm_change [OF assms(2,5)])
    have "st' = st2" "settled s'" using assms(1,3,4) False f None c(1) by (auto simp: Settle_def Let_def)
    then show ?thesis using c(2) t1 by simp
  qed
qed

lemma syncRelayInfo_fields [simp]:
  "TokenId (relayInfo (syncRelayInfo s)) = TokenId (relayInfo s)"
  "IsPlayground (relayInfo (syncRelayInfo s)) = IsPlayground (relayInfo s)"
  "preConsumedQuota (syncRelayInfo s) = preConsumedQuota s" "tokenConsumed (syncRelayInfo s) = tokenConsumed s"
  "settled (syncRelayInfo s) = settled s" "refunded (syncRelayInfo s) = refunded s"
  "fundingSettled (syncRelayInfo s) = fundingSettled s" "funding (syncRelayInfo s) = funding s"
  by (simp_all add: syncRelayInfo_def Let_def split: FundingSource.split)

lemma reserveToken_token:
  assumes "reserveToken env d info st = (e, st')" and "\<not> IsPlayground info" and "0 < d"
  shows "token_left (TokenId info) st' =
    (if e = None then map_option (\<lambda>q. q - d) (token_left (TokenId info) st) else token_left (TokenId info) st)"
  using assms PreConsumeTokenQuota_token [of env info d st _ st']
  by (auto simp: reserveToken_def split: prod.splits option.splits)

lemma Reserve_token:
  assumes "Reserve env t s st = ((e, s'), st')" and "\<not> IsPlayground (relayInfo s)"
    and "token_left (TokenId (relayInfo s)) st = Some q"
  shows "token_left (TokenId (relayInfo s)) st' = Some (q - (tokenConsumed s' - tokenConsumed s)) \<and>
    tokenConsumed s' - tokenConsumed s = preConsumedQuota s' - preConsumedQuota s \<and>
    preConsumedQuota s \<le> preConsumedQuota s' \<and>
    TokenId (relayInfo s') = TokenId (relayInfo s) \<and> IsPlayground (relayInfo s') = IsPlayground (relayInfo s)"
proof (cases "settled s \<or> refunded s \<or> trusted s \<or> t \<le> preConsumedQuota s")
  case True
  then show ?thesis using assms by (auto simp: Reserve_def)
next
  case False
  let ?d = "t - preConsumedQuota s"
  obtain e1 f1 st1 where f: "reserveFunding env ?d (funding s) st = ((e1, f1), st1)" by (metis prod.exhaust)
  note t1 = reserveFunding_token [OF f, of "TokenId (relayInfo s)"]
  show ?thesis
  proof (cases e1)
    case (Some m)
    then show ?thesis using assms False f t1 by (auto simp: Reserve_def Let_def)
  next
    case None
    obtain e2 st2 where r: "reserveToken env ?d (relayInfo s) st1 = (e2, st2)" by force
    note t2 = reserveToken_token [OF r assms(2)]
    show ?thesis
    proof (cases e2)
      case (Some m)
      obtain f3 st3 where b: "rollbackFundingReserve env ?d f1 st2 = (f3, st3)" by force
      then have "s' = s\<lparr>funding := f3\<rparr>" "st' = st3" using assms(1) False f None r Some by (auto simp: Reserve_def Let_def)
      then show ?thesis using rollback_token [OF b, of "TokenId (relayInfo s)"] t1 t2 Some False assms(3) by simp
    next
      case None2: None
      then have "s' = syncRelayInfo (s\<lparr>funding := f1, preConsumedQuota := preConsumedQuota s + ?d,
          tokenConsumed := tokenConsumed s + ?d, extraReserved := extraReserved s + ?d\<rparr>)" "st' = st2"
        using assms(1) False f None r by (auto simp: Reserve_def Let_def)
      then show ?thesis using t1 t2 None2 False assms(3) by simp
    qed
  qed
qed

lemma refund_work_token:
  assumes "\<forall>n. fault env n = None" and "\<not> IsPlayground (relayInfo s)" and "0 \<le> tokenConsumed s"
  shows "token_left (TokenId (relayInfo s)) (refund_work env s st) =
    map_option (\<lambda>q. q + tokenConsumed s) (token_left (TokenId (relayInfo s)) st)"
proof -
  let ?i = "TokenId (relayInfo s)" and ?k = "TokenKey (relayInfo s)" and ?n = "tokenConsumed s"
  define st1 where "st1 = snd (Refund_funding env (funding s) st)"
  define st2 where "st2 = (if extraReserved s > 0 \<and> Source (funding s) = BillingSourceSubscription \<and>
    SubscriptionId (relayInfo s) > 0
    then snd (PostConsumeUserSubscriptionDelta env (SubscriptionId (relayInfo s)) (- extraReserved s) st1) else st1)"
  have "token_left ?i st1 = token_left ?i st"
    unfolding st1_def by (rule Refund_funding_token [OF prod.collapse [symmetric]])
  moreover have "token_left ?i st2 = token_left ?i st1"
    unfolding st2_def using PostConsume_token [OF prod.collapse [symmetric]] by simp
  moreover have "refund_work env s st = (if ?n > 0 then snd (IncreaseTokenQuota env ?i ?k ?n st2) else st2)"
    using assms(2) by (simp add: refund_work_def Let_def st1_def st2_def)
  moreover have "token_left ?i (snd (IncreaseTokenQuota env ?i ?k ?n st2)) = map_option (\<lambda>q. q + ?n) (token_left ?i st2)"
    using calm_credit [OF assms(1,3)] tok.credit_moves by (metis prod.collapse)
  ultimately show ?thesis using assms(3) by (cases "?n = 0") (simp_all add: option.map_ident)
qed

section \<open>The token is charged once\<close>

lemma run_ok_step:
  assumes "run_ok r" and "billing_possible e r"
  shows "run_ok (billing_react env u e r)"
proof (cases e)
  case (DoReserve t)
  obtain x s' st' where r: "Reserve env t (sess r) (db r) = ((x, s'), st')" by (metis prod.exhaust)
  then show ?thesis using assms DoReserve Reserve_flags [OF r] by (auto simp: run_ok_def)
next
  case (DoSettle a)
  obtain x s' st' where r: "Settle env a (sess r) (db r) = ((x, s'), st')" by (metis prod.exhaust)
  then show ?thesis using assms DoSettle Settle_flags [OF r] by (auto simp: run_ok_def settle_event_def)
next
  case DoRefund
  obtain x s' where r: "Refund (sess r) = (x, s')" by force
  then show ?thesis using assms DoRefund Refund_cases [OF r] by (cases x) (auto simp: run_ok_def)
next
  case Work
  then show ?thesis using assms by (auto simp: run_ok_def work_event_def Let_def)
next
  case (Other x)
  then show ?thesis using assms by (auto simp: run_ok_def)
qed

definition token_taken :: "billing_run \<Rightarrow> int" where
  "token_taken r =
     (case final r of
        Some a \<Rightarrow> a
      | None \<Rightarrow> if refunded (sess r) \<and> \<not> pending_work r then 0 else preConsumedQuota (sess r))"

definition token_inv :: "int \<Rightarrow> int \<Rightarrow> billing_run \<Rightarrow> bool" where
  "token_inv i t0 r \<longleftrightarrow>
     run_ok r \<and> TokenId (relayInfo (sess r)) = i \<and> \<not> IsPlayground (relayInfo (sess r)) \<and>
     0 \<le> preConsumedQuota (sess r) \<and> tokenConsumed (sess r) = preConsumedQuota (sess r) \<and>
     token_left i (db r) = Some (t0 - token_taken r)"

lemma token_step_inv:
  assumes "\<forall>n. fault env n = None" and "token_inv i t0 r" and "billing_possible e r"
  shows "token_inv i t0 (billing_react env u e r)"
proof -
  have ok: "run_ok (billing_react env u e r)" using assms(2,3) run_ok_step by (simp add: token_inv_def)
  have i: "TokenId (relayInfo (sess r)) = i" "\<not> IsPlayground (relayInfo (sess r))" "0 \<le> preConsumedQuota (sess r)"
    "tokenConsumed (sess r) = preConsumedQuota (sess r)" "token_left i (db r) = Some (t0 - token_taken r)" "run_ok r"
    using assms(2) by (simp_all add: token_inv_def)
  show ?thesis
  proof (cases e)
    case (DoReserve t)
    show ?thesis
    proof (cases "settled (sess r) \<or> refunded (sess r)")
      case True
      then have "Reserve env t (sess r) (db r) = ((None, sess r), db r)" by (auto simp: Reserve_def)
      then show ?thesis using assms(2) DoReserve by simp
    next
      case False
      obtain x s' st' where r: "Reserve env t (sess r) (db r) = ((x, s'), st')" by (metis prod.exhaust)
      have "final r = None" using False i(6) by (simp add: run_ok_def)
      then show ?thesis
        using ok DoReserve i False r Reserve_flags [OF r] Reserve_token [OF r, of "t0 - token_taken r"]
        by (simp add: token_inv_def token_taken_def)
    qed
  next
    case (DoSettle a)
    show ?thesis
    proof (cases "settled (sess r)")
      case True
      then have "Settle env a (sess r) (db r) = ((None, sess r), db r)" by (simp add: Settle_def)
      then show ?thesis using assms(2) DoSettle True by (simp add: settle_event_def)
    next
      case False
      obtain x s' st' where r: "Settle env a (sess r) (db r) = ((x, s'), st')" by (metis prod.exhaust)
      have u: "final r = None" "\<not> fundingSettled (sess r)" "\<not> refunded (sess r)"
        using False i(6) assms(3) DoSettle by (auto simp: run_ok_def)
      then show ?thesis
        using ok DoSettle i False r Settle_flags [OF r] Settle_token [OF r assms(1) False u(2)]
        by (simp add: token_inv_def token_taken_def settle_event_def)
    qed
  next
    case DoRefund
    obtain x s' where r: "Refund (sess r) = (x, s')" by force
    show ?thesis
    proof (cases x)
      case True
      then have s': "s' = (sess r)\<lparr>refunded := True\<rparr>" "\<not> settled (sess r)" "\<not> refunded (sess r)"
        using Refund_cases [OF r] by auto
      then have "final r = None" using i(6) by (simp add: run_ok_def)
      then show ?thesis using ok DoRefund i r s' True by (simp add: token_inv_def token_taken_def)
    next
      case False
      then have "s' = sess r" using Refund_cases [OF r] by simp
      then show ?thesis using assms(2) DoRefund r False by simp
    qed
  next
    case Work
    then have "final r = None" "refunded (sess r)" "pending_work r" using i(6) assms(3) by (auto simp: run_ok_def)
    then show ?thesis
      using ok Work i refund_work_token [OF assms(1) i(2), of "db r"]
      by (simp add: token_inv_def token_taken_def work_event_def Let_def)
  next
    case (Other x)
    have "token_left i (y\<lparr>users := z\<rparr>) = token_left i y" for y z by (simp add: token_left_def)
    moreover have "token_taken (billing_react env u (Other x) r) = token_taken r"
      by (cases "final r") (auto simp: token_taken_def)
    ultimately show ?thesis using ok Other i by (simp add: token_inv_def)
  qed
qed

definition calm_step :: "env \<Rightarrow> int \<Rightarrow> billing_run \<Rightarrow> billing_run \<Rightarrow> bool" where
  "calm_step env u r r' \<longleftrightarrow> (\<forall>n. fault env n = None) \<and> billing_step env u r r'"

interpretation token_session: machine_invariant "token_inv i t0" "calm_step env u" "token_inv i t0"
  for env u i t0
  by unfold_locales (auto simp: calm_step_def elim!: billing_step.cases intro: token_step_inv)

lemma calm_steps: "\<forall>n. fault env n = None \<Longrightarrow> calm_step env u = billing_step env u"
  by (intro ext) (simp add: calm_step_def)

text \<open>
  What a session has not changed: the wallets and the subscriptions and, when no statement has failed, the
  token.
\<close>

definition untouched :: "env \<Rightarrow> int \<Rightarrow> store \<Rightarrow> store \<Rightarrow> bool" where
  "untouched env i st st' \<longleftrightarrow> (\<forall>u. wallet u st' = wallet u st) \<and> subs st' = subs st \<and> records st' = records st \<and>
     ((\<forall>n. fault env n = None) \<longrightarrow> token_left i st' = token_left i st)"

lemma untouched_refl [simp]: "untouched env i st st"
  by (simp add: untouched_def)

lemma untouched_trans: "untouched env i a b \<Longrightarrow> untouched env i b c \<Longrightarrow> untouched env i a c"
  by (simp add: untouched_def)

lemma PreConsumeTokenQuota_frame:
  "PreConsumeTokenQuota env info n st = (e, st') \<Longrightarrow> subs st' = subs st \<and> records st' = records st"
  by (auto simp: PreConsumeTokenQuota_def dest!: GetTokenByKey_frame token_debit_frame
      split: if_splits sum.splits prod.splits)

lemma PreConsumeTokenQuota_playground: "IsPlayground info \<Longrightarrow> 0 \<le> n \<Longrightarrow> PreConsumeTokenQuota env info n st = (None, st)"
  by (simp add: PreConsumeTokenQuota_def)

lemma PreConsume_token: "PreConsume env n f st = Some ((e, f'), st') \<Longrightarrow> token_left i st' = token_left i st"
proof (cases f)
  case (Wallet w)
  assume "PreConsume env n f st = Some ((e, f'), st')"
  then show ?thesis
    using Wallet by (auto simp: wallet_PreConsume_def dest!: user_ops_token(1) [where i = i] split: if_splits prod.splits option.splits)
next
  case (Subscription g)
  assume "PreConsume env n f st = Some ((e, f'), st')"
  then have "same_money st st'"
    using Subscription
    by (auto simp: subscription_PreConsume_def Let_def dest!: PreConsumeSub_money info_money intro: same_money_trans
        split: option.splits prod.splits sum.splits)
  then show ?thesis using same_moneyD by blast
qed

lemma PreConsume_error: "PreConsume env n f st = Some ((Some err, f'), st') \<Longrightarrow> untouched env i st st'"
proof (cases f)
  case (Wallet w)
  assume p: "PreConsume env n f st = Some ((Some err, f'), st')"
  then have d: "DecreaseUserQuota env (w_userId w) n True st = (Some err, st')"
    using Wallet by (auto simp: wallet_PreConsume_def split: if_splits prod.splits option.splits)
  have "wallet u st' = wallet u st" for u
    using d by (auto simp: user_ops wallet_def split: if_splits option.splits)
  then show ?thesis using user_debit_frame [OF d, of i] by (simp add: untouched_def)
next
  case (Subscription g)
  assume p: "PreConsume env n f st = Some ((Some err, f'), st')"
  then have d: "PreConsumeUserSubscription env (requestId g) (s_userId g) (modelName g) 0 (amount g) st = Some (Inl err, st')"
    using Subscription
    by (auto simp: subscription_PreConsume_def Let_def split: option.splits prod.splits sum.splits)
  then show ?thesis
    using pre_consume_result [OF d] same_moneyD [OF PreConsumeSub_money [OF d]] by (simp add: untouched_def)
qed

lemma new_session_fields [simp]:
  "relayInfo (new_session info f) = info" "funding (new_session info f) = f" "tokenConsumed (new_session info f) = 0"
  "preConsumedQuota (new_session info f) = 0" "\<not> settled (new_session info f)" "\<not> refunded (new_session info f)"
  "\<not> fundingSettled (new_session info f)" "\<not> trusted (new_session info f)"
  by (simp_all add: new_session_def)

text \<open>The quota that is taken in advance, and what the two steps of \<open>preConsume\<close> make of it.\<close>

definition effective :: "env \<Rightarrow> int \<Rightarrow> RelayInfo \<Rightarrow> FundingSource \<Rightarrow> int" where
  "effective env quota info f = (if shouldTrust env (new_session info f) then 0 else quota)"

definition take_token :: "env \<Rightarrow> int \<Rightarrow> RelayInfo \<Rightarrow> store \<Rightarrow> jstring option \<times> store" where
  "take_token env n info st = (if n > 0 then PreConsumeTokenQuota env info n st else (None, st))"

lemma preConsume_no_token:
  assumes "take_token env (effective env quota info f) info st = (Some m, st1)"
  shows "\<exists>s. preConsume env quota (new_session info f) st =
    Some ((Some (forbidden m ErrorCodePreConsumeTokenQuotaFailed), s), st1) \<and> relayInfo s = info"
proof -
  have "effective env quota info f > 0" using assms by (auto simp: take_token_def split: if_splits)
  then show ?thesis using assms by (simp add: preConsume_def Let_def take_token_def effective_def split: if_splits)
qed

lemma preConsume_no_funding:
  assumes "take_token env (effective env quota info f) info st = (None, st1)"
    and "PreConsume env (effective env quota info f) f st1 = Some ((Some m, f'), st2)"
  shows "\<exists>s err. preConsume env quota (new_session info f) st = Some ((Some err, s),
      if effective env quota info f > 0 \<and> \<not> IsPlayground info
      then snd (IncreaseTokenQuota env (TokenId info) (TokenKey info) (effective env quota info f) st2) else st2) \<and>
    relayInfo s = info"
  using assms
  by (cases "effective env quota info f > 0")
    (auto simp: preConsume_def Let_def take_token_def effective_def split: if_splits)

lemma preConsume_success:
  assumes "take_token env (effective env quota info f) info st = (None, st1)"
    and "PreConsume env (effective env quota info f) f st1 = Some ((None, f'), st2)"
  shows "\<exists>s. preConsume env quota (new_session info f) st = Some ((None, s), st2) \<and>
    preConsumedQuota s = effective env quota info f \<and>
    tokenConsumed s = (if effective env quota info f > 0 then effective env quota info f else 0) \<and>
    \<not> settled s \<and> \<not> refunded s \<and> \<not> fundingSettled s \<and> TokenId (relayInfo s) = TokenId info \<and>
    IsPlayground (relayInfo s) = IsPlayground info"
  using assms
  by (cases "effective env quota info f > 0")
    (auto simp: preConsume_def Let_def take_token_def effective_def split: if_splits)

lemma preConsume_stuck:
  assumes "take_token env (effective env quota info f) info st = (None, st1)"
    and "PreConsume env (effective env quota info f) f st1 = None"
  shows "preConsume env quota (new_session info f) st = None"
  using assms
  by (cases "effective env quota info f > 0")
    (auto simp: preConsume_def Let_def take_token_def effective_def split: if_splits)

lemma take_token_error: "take_token env n info st = (Some m, st') \<Longrightarrow> untouched env (TokenId info) st st'"
proof -
  assume t: "take_token env n info st = (Some m, st')"
  then have p: "PreConsumeTokenQuota env info n st = (Some m, st')" "n > 0" by (auto simp: take_token_def split: if_splits)
  then have "\<not> IsPlayground info" using PreConsumeTokenQuota_playground [of info n env st] by auto
  then show ?thesis
    using PreConsumeTokenQuota_token [OF p(1)] PreConsumeTokenQuota_frame [OF p(1)] PreConsumeTokenQuota_wallet [OF p(1)]
    by (simp add: untouched_def)
qed

lemma preConsume_error:
  assumes "preConsume env quota (new_session info f) st = Some ((Some err, s), st')"
  shows "untouched env (TokenId info) st st' \<and> relayInfo s = info"
proof -
  let ?n = "effective env quota info f" and ?i = "TokenId info"
  obtain e1 st1 where t: "take_token env ?n info st = (e1, st1)" by force
  show ?thesis
  proof (cases e1)
    case (Some m)
    then show ?thesis using preConsume_no_token [of env quota info f st m st1] t take_token_error [of env ?n info st m st1] assms(1) by auto
  next
    case None
    note t = t [unfolded None]
    obtain e2 f' st2 where p: "PreConsume env ?n f st1 = Some ((e2, f'), st2)"
      using preConsume_stuck [OF t] assms(1) by (cases "PreConsume env ?n f st1") auto
    then obtain m where e2: "e2 = Some m" using preConsume_success [OF t, of f' st2] assms(1) by (cases e2) auto
    note u = PreConsume_error [OF p [unfolded e2], of ?i]
    obtain s' err' where pc: "preConsume env quota (new_session info f) st = Some ((Some err', s'),
      if ?n > 0 \<and> \<not> IsPlayground info then snd (IncreaseTokenQuota env ?i (TokenKey info) ?n st2) else st2)"
      "relayInfo s' = info"
      using preConsume_no_funding [OF t p [unfolded e2]] by blast
    have "untouched env ?i st st'"
    proof (cases "?n > 0 \<and> \<not> IsPlayground info")
      case True
      then have tk: "PreConsumeTokenQuota env info ?n st = (None, st1)" using t by (simp add: take_token_def)
      obtain e3 st3 where c: "IncreaseTokenQuota env ?i (TokenKey info) ?n st2 = (e3, st3)" by force
      then have st': "st' = st3" using pc(1) assms(1) True by simp
      have "token_left ?i st3 = token_left ?i st" if calm: "\<forall>n. fault env n = None"
      proof -
        have "e3 = None" using calm_credit [OF calm, of ?n ?i "TokenKey info" st2] True c by (metis less_imp_le fst_conv)
        then show ?thesis
          using tok.credit_moves [OF c [unfolded \<open>e3 = None\<close>]] u calm PreConsumeTokenQuota_token [OF tk] True
          by (cases "token_left ?i st") (auto simp: untouched_def)
      qed
      then show ?thesis
        using st' u token_credit_frame [OF c] PreConsumeTokenQuota_frame [OF tk] PreConsumeTokenQuota_wallet [OF tk]
        by (simp add: untouched_def)
    next
      case False
      then have "st' = st2" "st1 = st"
        using pc(1) assms(1) t PreConsumeTokenQuota_playground [of info ?n env st]
        by (auto simp: take_token_def split: if_splits)
      then show ?thesis using u by simp
    qed
    then show ?thesis using pc assms(1) by simp
  qed
qed

lemma tryWallet_error:
  assumes "tryWallet env quota info st = Some ((Inl err, info'), st')"
  shows "untouched env (TokenId info) st st' \<and> TokenId info' = TokenId info \<and> IsPlayground info' = IsPlayground info"
proof -
  obtain x st1 where g: "GetUserQuota env (UserId info) st = (x, st1)" by force
  have u: "untouched env (TokenId info) st st1"
    using g by (auto simp: GetUserQuota_def statement_def untouched_def wallet_def token_left_def split: option.splits)
  let ?s0 = "\<lambda>y. new_session (info\<lparr>UserQuota := y\<rparr>) (Wallet \<lparr>w_userId = UserId info, consumed = 0\<rparr>)"
  have "(st' = st1 \<and> info' = info) \<or> (\<exists>y s. preConsume env quota (?s0 y) st1 = Some ((Some err, s), st') \<and> info' = relayInfo s)"
    using assms(1) g by (auto simp: tryWallet_def Let_def split: sum.splits if_splits option.splits prod.splits)
  then show ?thesis
    using u preConsume_error untouched_trans by fastforce
qed

lemma trySubscription_error:
  assumes "trySubscription env quota info st = Some ((Inl err, info'), st')"
  shows "untouched env (TokenId info) st st' \<and> TokenId info' = TokenId info \<and> IsPlayground info' = IsPlayground info"
  using assms(1) preConsume_error
  by (auto simp: trySubscription_def Let_def split: option.splits prod.splits)

text \<open>
  C9. A request that is refused for lack of quota, or for any other reason, is not charged: whatever fails, an
  error leaves every wallet, every subscription and every record of a prepayment as they were, also when
  both sources of funding were tried. The token is as it was when no statement fails; otherwise the one
  that gives back its quota may have.
\<close>

theorem refused_session_free:
  assumes "NewBillingSession env info quota st = Some ((Inl err, info'), st')"
  shows "wallet u st' = wallet u st \<and> subs st' = subs st \<and> records st' = records st \<and>
    ((\<forall>n. fault env n = None) \<longrightarrow> token_left (TokenId info) st' = token_left (TokenId info) st)"
proof -
  obtain x st1 where h: "HasActiveUserSubscription env (UserId info) st = (x, st1)" by force
  have h1: "untouched env (TokenId info) st st1"
    using h by (auto simp: HasActiveUserSubscription_def Let_def statement_def untouched_def wallet_def token_left_def
        split: if_splits option.splits)
  let ?W = "tryWallet env quota" and ?S = "trySubscription env quota" and ?r = "Some ((Inl err, info'), st')"
  have w: "untouched env (TokenId info) st y" if "?W i x = Some ((Inl e, j), y)" "untouched env (TokenId info) st x" "TokenId i = TokenId info"
    for i x e j y
    using tryWallet_error [OF that(1)] that(2,3) untouched_trans by metis
  have s: "untouched env (TokenId info) st y" if "?S i x = Some ((Inl e, j), y)" "untouched env (TokenId info) st x" "TokenId i = TokenId info"
    for i x e j y
    using trySubscription_error [OF that(1)] that(2,3) untouched_trans by metis
  consider (one) y where "y = st \<or> y = st1" "?W info y = ?r \<or> ?S info y = ?r"
    | (wallet_first) e i y where "?W info st = Some ((Inl e, i), y)" "?S i y = ?r"
    | (subscription_first) e i y where "?S info st1 = Some ((Inl e, i), y)" "?W i y = ?r"
    | (none) "st' = st1"
    using assms(1) by (auto simp: NewBillingSession_def Let_def h split: if_splits option.splits sum.splits prod.splits)
  then have "untouched env (TokenId info) st st'"
  proof cases
    case (one y)
    then show ?thesis using w s h1 by auto
  next
    case (wallet_first e i y)
    then show ?thesis using w [OF wallet_first(1)] s [OF wallet_first(2)] tryWallet_error [OF wallet_first(1)] by simp
  next
    case (subscription_first e i y)
    then show ?thesis
      using s [OF subscription_first(1) h1] w [OF subscription_first(2)] trySubscription_error [OF subscription_first(1)]
      by simp
  qed (use h1 in simp)
  then show ?thesis by (simp add: untouched_def)
qed

theorem refused_session_free_witness:
  "\<exists>err i st'. NewBillingSession quiet example_info 5000 example_store = Some ((Inl err, i), st') \<and>
     wallet 1 st' = Some 1000 \<and> token_left 7 st' = Some 480"
proof -
  have "case NewBillingSession quiet example_info 5000 example_store of Some ((Inl err, i), st') \<Rightarrow> True | _ \<Rightarrow> False"
    by code_simp
  then obtain err i st' where n: "NewBillingSession quiet example_info 5000 example_store = Some ((Inl err, i), st')"
    by (auto split: option.splits sum.splits prod.splits)
  have "\<forall>n. fault quiet n = None" by (simp add: quiet_def)
  from refused_session_free [OF n, of 1] this n show ?thesis
    by (simp add: example_info_def example_store_def wallet_def token_left_def collected_def)
qed

lemma preConsume_token_inv:
  assumes "preConsume env quota (new_session info f) st = Some ((None, s), st')" and "\<not> IsPlayground info"
    and "token_left (TokenId info) st = Some q" and "0 \<le> quota"
  shows "token_inv (TokenId info) q (start_run s st')"
proof -
  let ?n = "effective env quota info f" and ?i = "TokenId info"
  have n: "0 \<le> ?n" using assms(4) by (simp add: effective_def)
  obtain e1 st1 where t: "take_token env ?n info st = (e1, st1)" by force
  then have e1: "e1 = None" using preConsume_no_token [of env quota info f st _ st1] assms(1) by (cases e1) auto
  note t = t [unfolded e1]
  obtain e2 f' st2 where p: "PreConsume env ?n f st1 = Some ((e2, f'), st2)"
    using preConsume_stuck [OF t] assms(1) by (cases "PreConsume env ?n f st1") auto
  then have e2: "e2 = None" using preConsume_no_funding [OF t, of _ f' st2] assms(1) by (cases e2) auto
  have "token_left ?i st1 = Some (q - ?n)"
    using t n assms(3) PreConsumeTokenQuota_token [of env info ?n st None st1] assms(2)
    by (auto simp: take_token_def split: if_splits)
  then have "token_left ?i st2 = Some (q - ?n)" using PreConsume_token [OF p] by simp
  then show ?thesis
    using preConsume_success [OF t p [unfolded e2]] assms(1,2) n
    by (auto simp: token_inv_def start_run_def token_taken_def run_ok_def)
qed

lemma tryWallet_token_inv:
  assumes "tryWallet env quota info st = Some ((Inr s, info'), st')" and "\<not> IsPlayground info"
    and "token_left (TokenId info) st = Some q" and "0 \<le> quota"
  shows "token_inv (TokenId info) q (start_run s st')"
proof -
  obtain x st1 where g: "GetUserQuota env (UserId info) st = (x, st1)" by force
  have u: "token_left i st1 = token_left i st" for i
    using g by (auto simp: GetUserQuota_def statement_def token_left_def split: option.splits)
  obtain y where "preConsume env quota (new_session (info\<lparr>UserQuota := y\<rparr>)
      (Wallet \<lparr>w_userId = UserId info, consumed = 0\<rparr>)) st1 = Some ((None, s), st')"
    using assms(1) g by (auto simp: tryWallet_def Let_def split: sum.splits if_splits option.splits prod.splits)
  from preConsume_token_inv [OF this] show ?thesis using assms(2-4) u by simp
qed

lemma trySubscription_token_inv:
  assumes "trySubscription env quota info st = Some ((Inr s, info'), st')" and "\<not> IsPlayground info"
    and "token_left (TokenId info) st = Some q"
  shows "token_inv (TokenId info) q (start_run s st')"
proof -
  obtain f where "preConsume env (if quota \<le> 0 then 1 else quota) (new_session info f) st = Some ((None, s), st')"
    using assms(1) unfolding trySubscription_def Let_def by (auto split: option.splits prod.splits)
  from preConsume_token_inv [OF this assms(2,3)] show ?thesis by simp
qed

text \<open>
  C12. The token of a request is charged exactly once, whichever source pays: while no statement fails, a settled
  session has taken the quota it was settled with from the token, and a refunded one has taken nothing.
\<close>

theorem token_charged_once:
  assumes "NewBillingSession env info quota st = Some ((Inr s, info'), st1)" and "\<forall>n. fault env n = None"
    and "\<not> IsPlayground info" and "0 \<le> quota" and "token_left (TokenId info) st = Some q"
    and "(billing_step env u)\<^sup>*\<^sup>* (start_run s st1) r"
  shows "(\<forall>a. final r = Some a \<longrightarrow> token_left (TokenId info) (db r) = Some (q - a)) \<and>
    (refunded (sess r) \<and> \<not> pending_work r \<longrightarrow> token_left (TokenId info) (db r) = Some q)"
proof -
  obtain x st0 where h: "HasActiveUserSubscription env (UserId info) st = (x, st0)" by force
  have h0: "token_left (TokenId info) st0 = Some q"
    using same_moneyD [OF active_money [OF h]] assms(5) by metis
  let ?W = "tryWallet env quota" and ?S = "trySubscription env quota" and ?r = "Some ((Inr s, info'), st1)"
  consider (one) y where "y = st \<or> y = st0" "?W info y = ?r \<or> ?S info y = ?r"
    | (wallet_first) e i y where "?W info st = Some ((Inl e, i), y)" "?S i y = ?r"
    | (subscription_first) e i y where "?S info st0 = Some ((Inl e, i), y)" "?W i y = ?r"
    using assms(1) by (auto simp: NewBillingSession_def Let_def h split: if_splits option.splits sum.splits prod.splits)
  then have "token_inv (TokenId info) q (start_run s st1)"
  proof cases
    case (one y)
    then show ?thesis
      using tryWallet_token_inv [of env quota info y] trySubscription_token_inv [of env quota info y] assms(3-5) h0 by blast
  next
    case (wallet_first e i y)
    then show ?thesis
      using tryWallet_error [OF wallet_first(1)] trySubscription_token_inv [OF wallet_first(2)] assms(2,3,5)
      by (simp add: untouched_def)
  next
    case (subscription_first e i y)
    then show ?thesis
      using trySubscription_error [OF subscription_first(1)] tryWallet_token_inv [OF subscription_first(2)] assms(2-4) h0
      by (simp add: untouched_def)
  qed
  then have "token_inv (TokenId info) q r"
    using token_session.reachable_inv assms(6) calm_steps [OF assms(2)] by metis
  then have t: "token_left (TokenId info) (db r) = Some (q - token_taken r)" "run_ok r" by (simp_all add: token_inv_def)
  show ?thesis
  proof (cases "final r")
    case None
    then show ?thesis using t(1) by (simp add: token_taken_def)
  next
    case (Some a)
    then have "settled (sess r)" using t(2) by (simp add: run_ok_def)
    then have "\<not> refunded (sess r)" using t(2) by (simp add: run_ok_def)
    then show ?thesis using t(1) Some by (simp add: token_taken_def)
  qed
qed

theorem token_charged_once_witness:
  "\<exists>s i st1. NewBillingSession quiet example_info 100 example_store = Some ((Inr s, i), st1) \<and>
     token_left 7 (db (billing_react quiet 1 (DoSettle 150) (start_run s st1))) = Some 330"
proof -
  have "case NewBillingSession quiet example_info 100 example_store of
      Some ((Inr s, i), st1) \<Rightarrow> final (billing_react quiet 1 (DoSettle 150) (start_run s st1)) = Some 150 \<and> \<not> refunded s
    | _ \<Rightarrow> False" by code_simp
  then obtain s i st1 where n: "NewBillingSession quiet example_info 100 example_store = Some ((Inr s, i), st1)"
    "final (billing_react quiet 1 (DoSettle 150) (start_run s st1)) = Some 150" "\<not> refunded s"
    by (auto split: option.splits sum.splits prod.splits)
  let ?r = "billing_react quiet 1 (DoSettle 150) (start_run s st1)"
  have "billing_possible (DoSettle 150) (start_run s st1)" using n(3) by (simp add: start_run_def)
  then have r: "(billing_step quiet 1)\<^sup>*\<^sup>* (start_run s st1) ?r" by (intro r_into_rtranclp billing_step.intros)
  have q: "\<forall>n. fault quiet n = None" by (simp add: quiet_def)
  have p: "\<not> IsPlayground example_info" "token_left (TokenId example_info) example_store = Some 480"
    by (simp_all add: example_info_def example_store_def token_left_def collected_def)
  have "TokenId example_info = 7" by (simp add: example_info_def)
  then show ?thesis using token_charged_once [OF n(1) q p(1) _ p(2) r] n(1,2) by simp
qed

text \<open>The retries of a refund repeat the correction of the subscription when writing its record fails.\<close>

lemma retried_refund_twice:
  "let (e, st) = refundWithRetry (RefundSubscriptionPreConsume save_fails (js ''r0'')) sub_store in
   e = None \<and> us_AmountUsed (the (map_of (subs st) 5)) = 200"
  by code_simp

end
