(* ===== verification/Go_Subscription_Life.thy ===== *)
theory Go_Subscription_Life
  imports Go_Subscription
begin

text \<open>
  The life of a subscription in \<open>src/model/subscription.go\<close>: an order is completed or expires, a
  subscription is created from a plan and moves the user to the group of the plan, an administrator
  binds, invalidates or deletes one, and the maintenance task of
  \<open>src/service/subscription_reset_task.go\<close> ends the subscriptions that are over and resets the quota of
  those that are due. The caches of groups and the log are left out.
\<close>

section \<open>The end of a plan\<close>

text \<open>
  \<open>AddDate\<close> keeps the day of the month, so a day that the target month does not have runs over into the
  next one. Months are counted from January 1970; \<open>month_at\<close> finds the month of a day and its first day. The
  calendar of Go wraps around after some 292 thousand million years, which is left out: what is shown of
  months and years is for plans of at most a million years.
\<close>

definition month_length :: "nat \<Rightarrow> int" where
  "month_length n = month_days (1970 + int (n div 12)) (int (n mod 12) + 1)"

lemma month_length_pos: "28 \<le> month_length n"
  by (simp add: month_length_def month_days_pos)

function month_at :: "nat \<Rightarrow> int \<Rightarrow> int \<Rightarrow> nat \<times> int" where
  "month_at n f d = (if d < f + month_length n then (n, f) else month_at (Suc n) (f + month_length n) d)"
  by auto
termination
proof (relation "measure (\<lambda>(n, f, d). nat (d - f))")
  fix n :: nat and f d :: int
  assume "\<not> d < f + month_length n"
  then show "((Suc n, f + month_length n, d), n, f, d) \<in> measure (\<lambda>(n, f, d). nat (d - f))"
    using month_length_pos [of n] by simp
qed simp

declare month_at.simps [simp del]

primrec skip_months :: "nat \<Rightarrow> nat \<Rightarrow> int \<Rightarrow> int" where
  "skip_months 0 n f = f"
| "skip_months (Suc k) n f = skip_months k (Suc n) (f + month_length n)"

definition add_months :: "int \<Rightarrow> int \<Rightarrow> int \<Rightarrow> int" where
  "add_months off t k =
     (case month_at 0 0 (day_of off t) of (n, f) \<Rightarrow> t + (skip_months (nat k) n f - f) * day_ns)"

definition calcPlanEndTime :: "int \<Rightarrow> int \<Rightarrow> SubscriptionPlan \<Rightarrow> jstring + int" where
  "calcPlanEndTime off start plan =
     (if DurationValue plan \<le> 0 \<and> DurationUnit plan \<noteq> js ''custom'' then Inl (js ''duration_value must be > 0'')
      else if DurationUnit plan = js ''year'' then Inr (add_months off start (12 * DurationValue plan))
      else if DurationUnit plan = js ''month'' then Inr (add_months off start (DurationValue plan))
      else if DurationUnit plan = js ''day'' then Inr (start + int64 (DurationValue plan * 24 * (3600 * second)))
      else if DurationUnit plan = js ''hour'' then Inr (start + int64 (DurationValue plan * (3600 * second)))
      else if DurationUnit plan = js ''custom'' then
        (if CustomSeconds plan \<le> 0 then Inl (js ''custom_seconds must be > 0'')
         else Inr (start + int64 (CustomSeconds plan * second)))
      else Inl (js ''invalid duration_unit: '' @ DurationUnit plan))"

section \<open>Groups of users\<close>

definition getUserGroupByIdTx :: "env \<Rightarrow> int \<Rightarrow> store \<Rightarrow> (jstring + jstring) \<times> store" where
  "getUserGroupByIdTx env userId st =
     (if userId \<le> 0 then (Inl (js ''invalid userId''), st)
      else case statement env st of
        (Some err, st) \<Rightarrow> (Inl err, st)
      | (None, st) \<Rightarrow> (Inr (case map_of (groups st) userId of None \<Rightarrow> [] | Some g \<Rightarrow> g), st))"

definition set_group :: "env \<Rightarrow> int \<Rightarrow> jstring \<Rightarrow> store \<Rightarrow> jstring option \<times> store" where
  "set_group env userId g st =
     (case statement env st of
        (Some err, st) \<Rightarrow> (Some err, st)
      | (None, st) \<Rightarrow> (None, st\<lparr>groups := update_row userId (\<lambda>_. g) (groups st)\<rparr>))"

text \<open>The most recent of the rows that satisfy a condition: \<open>Order("end_time desc, id desc").Limit(1)\<close>.\<close>

definition latest :: "(int \<Rightarrow> UserSubscription \<Rightarrow> bool) \<Rightarrow> UserSubscription table \<Rightarrow> UserSubscription option" where
  "latest P tab =
     (case rev (sort_key (\<lambda>(i, sub). (us_EndTime sub, i)) (filter (\<lambda>(i, sub). P i sub) tab)) of
        [] \<Rightarrow> None | (i, sub) # _ \<Rightarrow> Some sub)"

definition downgradeUserGroupForSubscriptionTx ::
  "env \<Rightarrow> int \<Rightarrow> UserSubscription \<Rightarrow> int \<Rightarrow> store \<Rightarrow> (jstring + jstring) \<times> store" where
  "downgradeUserGroupForSubscriptionTx env sid sub tnow st =
     (let upgradeGroup = TrimSpace (us_UpgradeGroup sub) in
      if upgradeGroup = [] then (Inr [], st)
      else case getUserGroupByIdTx env (us_UserId sub) st of
        (Inl err, st) \<Rightarrow> (Inl err, st)
      | (Inr currentGroup, st) \<Rightarrow>
          if currentGroup \<noteq> upgradeGroup then (Inr [], st)
          else
            let (failed, st) = statement env st;
                other = latest (\<lambda>i s. active_sub (us_UserId sub) tnow s \<and> i \<noteq> sid \<and> us_UpgradeGroup s \<noteq> []) (subs st);
                prevGroup = TrimSpace (us_PrevUserGroup sub) in
            if failed = None \<and> other \<noteq> None then (Inr [], st)
            else if prevGroup = [] \<or> prevGroup = currentGroup then (Inr [], st)
            else (case set_group env (us_UserId sub) prevGroup st of
                    (Some err, st) \<Rightarrow> (Inl err, st) | (None, st) \<Rightarrow> (Inr prevGroup, st)))"

section \<open>Creating a subscription\<close>

definition count_by_plan :: "int \<Rightarrow> int \<Rightarrow> store \<Rightarrow> nat" where
  "count_by_plan userId planId st = length (filter (\<lambda>(i, sub). us_UserId sub = userId \<and> us_PlanId sub = planId) (subs st))"

definition CountUserSubscriptionsByPlan :: "env \<Rightarrow> int \<Rightarrow> int \<Rightarrow> store \<Rightarrow> (jstring + int) \<times> store" where
  "CountUserSubscriptionsByPlan env userId planId st =
     (if userId \<le> 0 \<or> planId \<le> 0 then (Inl (js ''invalid userId or planId''), st)
      else case statement env st of
        (Some err, st) \<Rightarrow> (Inl err, st)
      | (None, st) \<Rightarrow> (Inr (int (count_by_plan userId planId st)), st))"

definition purchase_limit :: "env \<Rightarrow> int \<Rightarrow> int \<Rightarrow> SubscriptionPlan \<Rightarrow> store \<Rightarrow> jstring option \<times> store" where
  "purchase_limit env userId planId plan st =
     (if MaxPurchasePerUser plan > 0 then
        (case statement env st of
           (Some err, st) \<Rightarrow> (Some err, st)
         | (None, st) \<Rightarrow>
             if int (count_by_plan userId planId st) \<ge> MaxPurchasePerUser plan
             then (Some [24050, 36798, 21040, 35813, 22871, 39184, 36141, 20080, 19978, 38480], st)
             else (None, st))
      else (None, st))"

text \<open>The user moves to the group of the plan; the result is the group to return to, if there was another.\<close>

definition upgrade :: "env \<Rightarrow> int \<Rightarrow> jstring \<Rightarrow> store \<Rightarrow> (jstring + jstring) \<times> store" where
  "upgrade env userId upgradeGroup st =
     (if upgradeGroup = [] then (Inr [], st)
      else case getUserGroupByIdTx env userId st of
        (Inl err, st) \<Rightarrow> (Inl err, st)
      | (Inr currentGroup, st) \<Rightarrow>
          if currentGroup \<noteq> upgradeGroup
          then (case set_group env userId upgradeGroup st of
                  (Some err, st) \<Rightarrow> (Inl err, st) | (None, st) \<Rightarrow> (Inr currentGroup, st))
          else (Inr [], st))"

definition CreateUserSubscriptionFromPlanTx ::
  "env \<Rightarrow> int \<Rightarrow> int \<Rightarrow> SubscriptionPlan \<Rightarrow> jstring \<Rightarrow> store \<Rightarrow> (jstring + int \<times> UserSubscription) \<times> store" where
  "CreateUserSubscriptionFromPlanTx env userId planId plan src st =
     (if planId = 0 then (Inl (js ''invalid plan''), st)
      else if userId \<le> 0 then (Inl (js ''invalid user id''), st)
      else case purchase_limit env userId planId plan st of
        (Some err, st) \<Rightarrow> (Inl err, st)
      | (None, st) \<Rightarrow>
          let tnow = now env (statements st) in
          case calcPlanEndTime (zone env) tnow plan of
            Inl err \<Rightarrow> (Inl err, st)
          | Inr end_time \<Rightarrow>
              let nextReset = calcNextResetTime (zone env) tnow plan end_time;
                  upgradeGroup = TrimSpace (p_UpgradeGroup plan) in
              case upgrade env userId upgradeGroup st of
                (Inl err, st) \<Rightarrow> (Inl err, st)
              | (Inr prevGroup, st) \<Rightarrow>
                  let sub = \<lparr>us_UserId = userId, us_PlanId = planId, us_AmountTotal = TotalAmount plan,
                        us_AmountUsed = 0, us_StartTime = tnow, us_EndTime = end_time, us_Status = js ''active'',
                        us_Source = src,
                        LastResetTime = (if IsZero nextReset then None else Some tnow),
                        NextResetTime = (if IsZero nextReset then None else Some nextReset),
                        us_UpgradeGroup = upgradeGroup, us_PrevUserGroup = prevGroup\<rparr> in
                  (case statement env st of
                     (Some err, st) \<Rightarrow> (Inl err, st)
                   | (None, st) \<Rightarrow>
                       let sid = last_sub_id st + 1 in
                       (Inr (sid, sub), st\<lparr>subs := subs st @ [(sid, sub)], last_sub_id := sid\<rparr>)))"

definition AdminBindSubscription :: "env \<Rightarrow> int \<Rightarrow> int \<Rightarrow> store \<Rightarrow> (jstring + jstring) \<times> store" where
  "AdminBindSubscription env userId planId st =
     (if userId \<le> 0 \<or> planId \<le> 0 then (Inl (js ''invalid userId or planId''), st)
      else case getSubscriptionPlanByIdTx env planId st of
        (Inl err, st) \<Rightarrow> (Inl err, st)
      | (Inr plan, st) \<Rightarrow>
          (case transaction env (CreateUserSubscriptionFromPlanTx env userId planId plan (js ''admin'')) st of
             (Inl err, st) \<Rightarrow> (Inl err, st)
           | (Inr _, st) \<Rightarrow>
               (Inr (if TrimSpace (p_UpgradeGroup plan) \<noteq> []
                     then [29992, 25143, 20998, 32452, 23558, 21319, 32423, 21040, 32] @ p_UpgradeGroup plan else []), st)))"

definition rollback_message :: "jstring \<Rightarrow> jstring" where
  "rollback_message g =
     (if g \<noteq> [] then [29992, 25143, 20998, 32452, 23558, 22238, 36864, 21040, 32] @ g else [])"

definition invalidate_tx :: "env \<Rightarrow> int \<Rightarrow> int \<Rightarrow> store \<Rightarrow> (jstring + jstring) \<times> store" where
  "invalidate_tx env sid tnow st =
     (case statement env st of
        (Some err, st) \<Rightarrow> (Inl err, st)
      | (None, st) \<Rightarrow>
          (case map_of (subs st) sid of
             None \<Rightarrow> (Inl record_not_found, st)
           | Some sub \<Rightarrow>
               let sub' = sub\<lparr>us_Status := js ''cancelled'', us_EndTime := tnow\<rparr> in
               case save_sub env sid sub' st of
                 (Some err, st) \<Rightarrow> (Inl err, st)
               | (None, st) \<Rightarrow> downgradeUserGroupForSubscriptionTx env sid sub' tnow st))"

definition AdminInvalidateUserSubscription :: "env \<Rightarrow> int \<Rightarrow> store \<Rightarrow> (jstring + jstring) \<times> store" where
  "AdminInvalidateUserSubscription env sid st =
     (if sid \<le> 0 then (Inl (js ''invalid userSubscriptionId''), st)
      else case transaction env (invalidate_tx env sid (now env (statements st))) st of
        (Inl err, st) \<Rightarrow> (Inl err, st) | (Inr target, st) \<Rightarrow> (Inr (rollback_message target), st))"

definition delete_tx :: "env \<Rightarrow> int \<Rightarrow> int \<Rightarrow> store \<Rightarrow> (jstring + jstring) \<times> store" where
  "delete_tx env sid tnow st =
     (case statement env st of
        (Some err, st) \<Rightarrow> (Inl err, st)
      | (None, st) \<Rightarrow>
          (case map_of (subs st) sid of
             None \<Rightarrow> (Inl record_not_found, st)
           | Some sub \<Rightarrow>
               (case downgradeUserGroupForSubscriptionTx env sid sub tnow st of
                  (Inl err, st) \<Rightarrow> (Inl err, st)
                | (Inr target, st) \<Rightarrow>
                    (case statement env st of
                       (Some err, st) \<Rightarrow> (Inl err, st)
                     | (None, st) \<Rightarrow> (Inr target, st\<lparr>subs := filter (\<lambda>(i, s). i \<noteq> sid) (subs st)\<rparr>)))))"

definition AdminDeleteUserSubscription :: "env \<Rightarrow> int \<Rightarrow> store \<Rightarrow> (jstring + jstring) \<times> store" where
  "AdminDeleteUserSubscription env sid st =
     (if sid \<le> 0 then (Inl (js ''invalid userSubscriptionId''), st)
      else case transaction env (delete_tx env sid (now env (statements st))) st of
        (Inl err, st) \<Rightarrow> (Inl err, st) | (Inr target, st) \<Rightarrow> (Inr (rollback_message target), st))"

section \<open>Orders\<close>

definition order_not_found :: jstring where "order_not_found = js ''subscription order not found''"
definition order_status_invalid :: jstring where "order_status_invalid = js ''subscription order status invalid''"
definition payment_mismatch :: jstring where "payment_mismatch = js ''payment method mismatch''"

definition upsertSubscriptionTopUpTx :: "env \<Rightarrow> jstring \<Rightarrow> SubscriptionOrder \<Rightarrow> store \<Rightarrow> jstring option \<times> store" where
  "upsertSubscriptionTopUpTx env tradeNo order st =
     (let tnow = now env (statements st) in
      case statement env st of
        (Some err, st) \<Rightarrow> (Some err, st)
      | (None, st) \<Rightarrow>
          (case map_of (topups st) tradeNo of
             None \<Rightarrow>
               (case statement env st of
                  (Some err, st) \<Rightarrow> (Some err, st)
                | (None, st) \<Rightarrow>
                    (None, st\<lparr>topups := topups st @
                       [(tradeNo, \<lparr>tu_UserId = o_UserId order, tu_Amount = 0, tu_Money = o_Money order,
                          tu_PaymentMethod = o_PaymentMethod order, tu_PaymentProvider = [],
                          tu_CreateTime = o_CreateTime order, tu_CompleteTime = Some tnow,
                          tu_Status = js ''success''\<rparr>)]\<rparr>))
           | Some topup \<Rightarrow>
               if tu_PaymentMethod topup \<noteq> [] \<and> tu_PaymentMethod topup \<noteq> o_PaymentMethod order
               then (Some payment_mismatch, st)
               else (case statement env st of
                       (Some err, st) \<Rightarrow> (Some err, st)
                     | (None, st) \<Rightarrow>
                         (None, st\<lparr>topups := update_row tradeNo (\<lambda>_.
                            topup\<lparr>tu_Money := o_Money order, tu_PaymentMethod := o_PaymentMethod order,
                              tu_CreateTime := (if IsZero (tu_CreateTime topup) then o_CreateTime order
                                                else tu_CreateTime topup),
                              tu_CompleteTime := Some tnow, tu_Status := js ''success''\<rparr>) (topups st)\<rparr>))))"

definition save_order :: "env \<Rightarrow> jstring \<Rightarrow> SubscriptionOrder \<Rightarrow> store \<Rightarrow> jstring option \<times> store" where
  "save_order env tradeNo order st =
     (case statement env st of
        (Some err, st) \<Rightarrow> (Some err, st)
      | (None, st) \<Rightarrow> (None, st\<lparr>orders := update_row tradeNo (\<lambda>_. order) (orders st)\<rparr>))"

text \<open>What both functions on orders do first: they look for the order and compare the provider.\<close>

definition find_order :: "env \<Rightarrow> jstring \<Rightarrow> jstring \<Rightarrow> store \<Rightarrow> (jstring + SubscriptionOrder) \<times> store" where
  "find_order env tradeNo expectedPaymentProvider st =
     (case statement env st of
        (Some err, st) \<Rightarrow> (Inl order_not_found, st)
      | (None, st) \<Rightarrow>
          (case map_of (orders st) tradeNo of
             None \<Rightarrow> (Inl order_not_found, st)
           | Some order \<Rightarrow>
               if expectedPaymentProvider \<noteq> [] \<and> o_PaymentProvider order \<noteq> expectedPaymentProvider
               then (Inl payment_mismatch, st) else (Inr order, st)))"

definition complete_tx :: "env \<Rightarrow> jstring \<Rightarrow> jstring \<Rightarrow> jstring \<Rightarrow> jstring \<Rightarrow> store \<Rightarrow> (jstring + unit) \<times> store" where
  "complete_tx env tradeNo providerPayload expectedPaymentProvider actualPaymentMethod st =
     (case find_order env tradeNo expectedPaymentProvider st of
        (Inl err, st) \<Rightarrow> (Inl err, st)
      | (Inr order, st) \<Rightarrow>
          if o_Status order = js ''success'' then (Inr (), st)
          else if o_Status order \<noteq> js ''pending'' then (Inl order_status_invalid, st)
          else case getSubscriptionPlanByIdTx env (o_PlanId order) st of
            (Inl err, st) \<Rightarrow> (Inl err, st)
          | (Inr plan, st) \<Rightarrow>
              (case CreateUserSubscriptionFromPlanTx env (o_UserId order) (o_PlanId order) plan (js ''order'') st of
                 (Inl err, st) \<Rightarrow> (Inl err, st)
               | (Inr _, st) \<Rightarrow>
                   (case upsertSubscriptionTopUpTx env tradeNo order st of
                      (Some err, st) \<Rightarrow> (Inl err, st)
                    | (None, st) \<Rightarrow>
                        let order' = order\<lparr>o_Status := js ''success'', o_CompleteTime := Some (now env (statements st)),
                              o_ProviderPayload := (if providerPayload \<noteq> [] then providerPayload else o_ProviderPayload order),
                              o_PaymentMethod := (if actualPaymentMethod \<noteq> [] then actualPaymentMethod
                                                  else o_PaymentMethod order)\<rparr> in
                        case save_order env tradeNo order' st of
                          (Some err, st) \<Rightarrow> (Inl err, st) | (None, st) \<Rightarrow> (Inr (), st))))"

definition CompleteSubscriptionOrder ::
  "env \<Rightarrow> jstring \<Rightarrow> jstring \<Rightarrow> jstring \<Rightarrow> jstring \<Rightarrow> store \<Rightarrow> jstring option \<times> store" where
  "CompleteSubscriptionOrder env tradeNo providerPayload expectedPaymentProvider actualPaymentMethod st =
     (if tradeNo = [] then (Some (js ''tradeNo is empty''), st)
      else case transaction env (complete_tx env tradeNo providerPayload expectedPaymentProvider actualPaymentMethod) st of
        (Inl err, st) \<Rightarrow> (Some err, st) | (Inr _, st) \<Rightarrow> (None, st))"

definition expire_order_tx :: "env \<Rightarrow> jstring \<Rightarrow> jstring \<Rightarrow> store \<Rightarrow> (jstring + unit) \<times> store" where
  "expire_order_tx env tradeNo expectedPaymentProvider st =
     (case find_order env tradeNo expectedPaymentProvider st of
        (Inl err, st) \<Rightarrow> (Inl err, st)
      | (Inr order, st) \<Rightarrow>
          if o_Status order \<noteq> js ''pending'' then (Inr (), st)
          else (case save_order env tradeNo
                       (order\<lparr>o_Status := js ''expired'', o_CompleteTime := Some (now env (statements st))\<rparr>) st of
                  (Some err, st) \<Rightarrow> (Inl err, st) | (None, st) \<Rightarrow> (Inr (), st)))"

definition ExpireSubscriptionOrder :: "env \<Rightarrow> jstring \<Rightarrow> jstring \<Rightarrow> store \<Rightarrow> jstring option \<times> store" where
  "ExpireSubscriptionOrder env tradeNo expectedPaymentProvider st =
     (if tradeNo = [] then (Some (js ''tradeNo is empty''), st)
      else case transaction env (expire_order_tx env tradeNo expectedPaymentProvider) st of
        (Inl err, st) \<Rightarrow> (Some err, st) | (Inr _, st) \<Rightarrow> (None, st))"

section \<open>Maintenance\<close>

text \<open>
  \<open>ExpireDueSubscriptions\<close> collects the users of due subscriptions in a Go map; here they come in the
  order of their first subscription. A transaction counts the rows it has changed even when it fails later.
\<close>

definition over :: "int \<Rightarrow> UserSubscription \<Rightarrow> bool" where
  "over tnow sub \<longleftrightarrow> us_Status sub = js ''active'' \<and> us_EndTime sub \<le> tnow"

definition expire_group :: "env \<Rightarrow> int \<Rightarrow> int \<Rightarrow> store \<Rightarrow> (jstring + unit) \<times> store" where
  "expire_group env userId tnow st =
     (let (failed, st) = statement env st in
      if failed = None \<and> latest (\<lambda>i s. active_sub userId tnow s \<and> us_UpgradeGroup s \<noteq> []) (subs st) \<noteq> None
      then (Inr (), st)
      else
        let (failed, st) = statement env st in
        case latest (\<lambda>i s. us_UserId s = userId \<and> us_Status s = js ''expired'' \<and> us_UpgradeGroup s \<noteq> []) (subs st) of
          None \<Rightarrow> (Inr (), st)
        | Some lastExpired \<Rightarrow>
            let upgradeGroup = TrimSpace (us_UpgradeGroup lastExpired); prevGroup = TrimSpace (us_PrevUserGroup lastExpired) in
            if failed \<noteq> None \<or> upgradeGroup = [] \<or> prevGroup = [] then (Inr (), st)
            else case getUserGroupByIdTx env userId st of
              (Inl err, st) \<Rightarrow> (Inl err, st)
            | (Inr currentGroup, st) \<Rightarrow>
                if currentGroup \<noteq> upgradeGroup \<or> currentGroup = prevGroup then (Inr (), st)
                else (case set_group env userId prevGroup st of
                        (Some err, st) \<Rightarrow> (Inl err, st) | (None, st) \<Rightarrow> (Inr (), st)))"

definition expire_user_tx :: "env \<Rightarrow> int \<Rightarrow> int \<Rightarrow> store \<Rightarrow> nat \<times> (jstring + unit) \<times> store" where
  "expire_user_tx env userId tnow st =
     (case statement env st of
        (Some err, st) \<Rightarrow> (0, Inl err, st)
      | (None, st) \<Rightarrow>
          let due = (\<lambda>(i, sub). us_UserId sub = userId \<and> over tnow sub) in
          (length (filter due (subs st)),
           expire_group env userId tnow
             (st\<lparr>subs := map (\<lambda>(i, sub). (i, if due (i, sub) then sub\<lparr>us_Status := js ''expired''\<rparr> else sub)) (subs st)\<rparr>)))"

fun expire_users :: "env \<Rightarrow> int \<Rightarrow> int list \<Rightarrow> nat \<Rightarrow> store \<Rightarrow> (nat \<times> jstring option) \<times> store" where
  "expire_users env tnow [] expiredCount st = ((expiredCount, None), st)"
| "expire_users env tnow (userId # us) expiredCount st =
     (case statement env st of
        (Some err, st) \<Rightarrow> ((expiredCount, Some err), st)
      | (None, st) \<Rightarrow>
          (case expire_user_tx env userId tnow st of (n, res) \<Rightarrow>
             (case end_tx env st res of
                (Inl err, st) \<Rightarrow> ((expiredCount + n, Some err), st)
              | (Inr _, st) \<Rightarrow> expire_users env tnow us (expiredCount + n) st)))"

definition ExpireDueSubscriptions :: "env \<Rightarrow> int \<Rightarrow> store \<Rightarrow> (nat \<times> jstring option) \<times> store" where
  "ExpireDueSubscriptions env lim st =
     (let limit = (if lim \<le> 0 then 200 else lim); tnow = now env (statements st) in
      case statement env st of
        (Some err, st) \<Rightarrow> ((0, Some err), st)
      | (None, st) \<Rightarrow>
          let found = take (nat limit) (sort_key (\<lambda>(i, sub). (us_EndTime sub, i)) (filter (\<lambda>(i, sub). over tnow sub) (subs st)));
              userIds = remdups (filter (\<lambda>u. u > 0) (map (\<lambda>(i, sub). us_UserId sub) found)) in
          expire_users env tnow userIds 0 st)"

text \<open>
  \<open>ResetDueSubscriptions\<close>: equal times of the next reset come in the order of the table. The plan is read
  outside the transaction.
\<close>

definition due_reset :: "int \<Rightarrow> UserSubscription \<Rightarrow> bool" where
  "due_reset tnow sub \<longleftrightarrow> (case NextResetTime sub of None \<Rightarrow> False | Some t \<Rightarrow> t \<le> tnow)"

definition reset_due_tx ::
  "env \<Rightarrow> int \<Rightarrow> SubscriptionPlan \<Rightarrow> int \<Rightarrow> store \<Rightarrow> ((jstring + nat) \<times> store) option" where
  "reset_due_tx env sid plan tnow st =
     (case statement env st of
        (Some err, st) \<Rightarrow> Some (Inr 0, st)
      | (None, st) \<Rightarrow>
          (case map_of (subs st) sid of
             None \<Rightarrow> Some (Inr 0, st)
           | Some locked \<Rightarrow>
               if \<not> due_reset tnow locked then Some (Inr 0, st)
               else (case maybeResetUserSubscriptionWithPlanTx env sid locked plan tnow st of
                       None \<Rightarrow> None
                     | Some ((Some err, _), st) \<Rightarrow> Some (Inl err, st)
                     | Some ((None, _), st) \<Rightarrow> Some (Inr 1, st))))"

fun reset_due_loop ::
  "env \<Rightarrow> int \<Rightarrow> UserSubscription table \<Rightarrow> nat \<Rightarrow> store \<Rightarrow> ((nat \<times> jstring option) \<times> store) option" where
  "reset_due_loop env tnow [] resetCount st = Some ((resetCount, None), st)"
| "reset_due_loop env tnow ((sid, sub) # cs) resetCount st =
     (case getSubscriptionPlanByIdTx env (us_PlanId sub) st of
        (Inl err, st) \<Rightarrow> reset_due_loop env tnow cs resetCount st
      | (Inr plan, st) \<Rightarrow>
          (case statement env st of
             (Some err, st) \<Rightarrow> Some ((resetCount, Some err), st)
           | (None, st) \<Rightarrow>
               (case reset_due_tx env sid plan tnow st of
                  None \<Rightarrow> None
                | Some (res, st') \<Rightarrow>
                    let n = resetCount + (case res of Inl _ \<Rightarrow> 0 | Inr k \<Rightarrow> k) in
                    case end_tx env st (res, st') of
                      (Inl err, st) \<Rightarrow> Some ((n, Some err), st)
                    | (Inr _, st) \<Rightarrow> reset_due_loop env tnow cs n st)))"

definition ResetDueSubscriptions :: "env \<Rightarrow> int \<Rightarrow> store \<Rightarrow> ((nat \<times> jstring option) \<times> store) option" where
  "ResetDueSubscriptions env lim st =
     (let limit = (if lim \<le> 0 then 200 else lim); tnow = now env (statements st) in
      case statement env st of
        (Some err, st) \<Rightarrow> Some ((0, Some err), st)
      | (None, st) \<Rightarrow>
          reset_due_loop env tnow
            (take (nat limit) (sort_key (\<lambda>(i, sub). the (NextResetTime sub))
              (filter (\<lambda>(i, sub). due_reset tnow sub \<and> us_Status sub = js ''active'') (subs st)))) 0 st)"

definition subscriptionResetBatchSize :: nat where "subscriptionResetBatchSize = 300"

text \<open>
  The two loops of \<open>runSubscriptionQuotaResetOnce\<close>; the clean-up of old records after them is left out. \<open>Some (True, st)\<close> is a loop that was left regularly, and
  \<open>Some (False, st)\<close> one that was left by an error.
\<close>

partial_function (option) expire_task :: "env \<Rightarrow> store \<Rightarrow> (bool \<times> store) option" where
  "expire_task env st =
     (case ExpireDueSubscriptions env (int subscriptionResetBatchSize) st of
        ((n, Some err), st) \<Rightarrow> Some (False, st)
      | ((n, None), st) \<Rightarrow>
          if n = 0 then Some (True, st) else if n < subscriptionResetBatchSize then Some (True, st) else expire_task env st)"

partial_function (option) reset_task :: "env \<Rightarrow> store \<Rightarrow> (bool \<times> store) option" where
  "reset_task env st =
     (case ResetDueSubscriptions env (int subscriptionResetBatchSize) st of
        None \<Rightarrow> None
      | Some ((n, Some err), st) \<Rightarrow> Some (False, st)
      | Some ((n, None), st) \<Rightarrow>
          if n = 0 then Some (True, st) else if n < subscriptionResetBatchSize then Some (True, st) else reset_task env st)"

definition runSubscriptionQuotaResetOnce :: "env \<Rightarrow> store \<Rightarrow> store option" where
  "runSubscriptionQuotaResetOnce env st =
     (case expire_task env st of
        None \<Rightarrow> None
      | Some (False, st) \<Rightarrow> Some st
      | Some (True, st) \<Rightarrow> map_option snd (reset_task env st))"

section \<open>The length of a plan\<close>












text \<open>A plan of 999999 days overflows the duration and ends before it starts.\<close>

lemma overflowing_plan:
  "calcPlanEndTime 0 1000 (daily_plan\<lparr>DurationValue := 999999\<rparr>) = Inr (- 5833806768547757080)"
  by code_simp

text \<open>A month after the last day of January is a day of March: the day runs over into the next month.\<close>

lemma month_overflow: "add_months 0 (30 * day_ns) 1 = 61 * day_ns"
  by (simp add: add_months_def month_at.simps month_length_def month_days_def leap_year_def day_of_def day_ns_def second_def)

section \<open>What the parts of a transaction change\<close>

text \<open>The tables of subscriptions and orders, which only a few statements change.\<close>

definition same_tables :: "store \<Rightarrow> store \<Rightarrow> bool" where
  "same_tables st st' \<longleftrightarrow> subs st' = subs st \<and> orders st' = orders st \<and> last_sub_id st' = last_sub_id st"

lemma same_tables_refl: "same_tables st st"
  by (simp add: same_tables_def)

lemma same_tables_trans: "same_tables a b \<Longrightarrow> same_tables b c \<Longrightarrow> same_tables a c"
  by (simp add: same_tables_def)

lemma statement_tables: "statement env st = (e, st') \<Longrightarrow> same_tables st st'"
  by (auto simp: statement_def same_tables_def)

lemma plan_tables: "getSubscriptionPlanByIdTx env pid st = (r, st') \<Longrightarrow> same_tables st st'"
  by (auto simp: getSubscriptionPlanByIdTx_def same_tables_def statement_def split: if_splits option.splits)

lemma group_tables: "getUserGroupByIdTx env u st = (r, st') \<Longrightarrow> same_tables st st'"
  by (auto simp: getUserGroupByIdTx_def same_tables_def statement_def split: if_splits option.splits)

lemma set_group_tables: "set_group env u g st = (r, st') \<Longrightarrow> same_tables st st'"
  by (auto simp: set_group_def same_tables_def statement_def split: option.splits)

lemma limit_tables: "purchase_limit env u p plan st = (r, st') \<Longrightarrow> same_tables st st'"
  by (auto simp: purchase_limit_def same_tables_def statement_def split: if_splits option.splits)

lemma upgrade_tables: "upgrade env u g st = (r, st') \<Longrightarrow> same_tables st st'"
  by (auto simp: upgrade_def dest!: group_tables set_group_tables intro: same_tables_trans
      simp: same_tables_refl split: if_splits option.splits sum.splits prod.splits)

lemma downgrade_tables:
  "downgradeUserGroupForSubscriptionTx env sid sub tnow st = (r, st') \<Longrightarrow> same_tables st st'"
  by (auto simp: downgradeUserGroupForSubscriptionTx_def Let_def same_tables_refl dest!: group_tables set_group_tables
      statement_tables intro: same_tables_trans split: if_splits option.splits sum.splits prod.splits)

lemma topup_tables: "upsertSubscriptionTopUpTx env t ord st = (r, st') \<Longrightarrow> same_tables st st'"
  by (auto simp: upsertSubscriptionTopUpTx_def Let_def same_tables_def statement_def split: if_splits option.splits)

lemma find_order_tables:
  assumes "find_order env t p st = (r, st')"
  shows "same_tables st st' \<and> (\<forall>ord. r = Inr ord \<longrightarrow> map_of (orders st) t = Some ord)"
  using assms by (auto simp: find_order_def same_tables_def statement_def split: if_splits option.splits)

lemma create_effect:
  assumes "CreateUserSubscriptionFromPlanTx env u p plan src st = (Inr (sid, sub), st')"
  shows "subs st' = subs st @ [(sid, sub)] \<and> orders st' = orders st \<and> sid = last_sub_id st + 1 \<and> last_sub_id st' = sid \<and>
    us_UserId sub = u \<and> us_PlanId sub = p \<and> us_Source sub = src \<and> us_Status sub = js ''active'' \<and>
    us_AmountUsed sub = 0 \<and> us_AmountTotal sub = TotalAmount plan \<and> us_UpgradeGroup sub = TrimSpace (p_UpgradeGroup plan)"
proof -
  obtain e st1 where l: "purchase_limit env u p plan st = (e, st1)" by force
  obtain r st2 where g: "upgrade env u (TrimSpace (p_UpgradeGroup plan)) st1 = (r, st2)" by force
  obtain e3 st3 where c: "statement env st2 = (e3, st3)" by force
  have "same_tables st st3"
    using limit_tables [OF l] upgrade_tables [OF g] statement_tables [OF c] same_tables_trans by blast
  then show ?thesis
    using assms l g c
    by (auto simp: CreateUserSubscriptionFromPlanTx_def Let_def same_tables_def split: if_splits option.splits sum.splits)
qed

text \<open>A transaction changes nothing but the count of statements, or its body has succeeded.\<close>

lemma transaction_cases:
  assumes "transaction env body st = (r, st')"
  obtains (undone) err n where "r = Inl err" "st' = st\<lparr>statements := n\<rparr>"
    | (kept) x n m st1 where "r = Inr x" "body (st\<lparr>statements := n\<rparr>) = (Inr x, st1)" "st' = st1\<lparr>statements := m\<rparr>"
proof (cases "fault env (statements st)")
  case (Some err)
  then show ?thesis using assms undone by (auto simp: transaction_def statement_def)
next
  case None
  let ?st = "st\<lparr>statements := Suc (statements st)\<rparr>"
  obtain r1 st1 where b: "body ?st = (r1, st1)" by force
  show ?thesis
    using assms None b undone kept [of _ "Suc (statements st)" st1 "Suc (statements st1)"]
    by (auto simp: transaction_def statement_def end_tx_def split: sum.splits option.splits)
qed

lemma purchase_within_limit:
  assumes "CreateUserSubscriptionFromPlanTx env u p plan src st = (Inr x, st')" and "0 < MaxPurchasePerUser plan"
  shows "int (count_by_plan u p st') \<le> MaxPurchasePerUser plan"
proof -
  obtain sid sub where x: "x = (sid, sub)" by force
  have "int (count_by_plan u p st) < MaxPurchasePerUser plan"
    using assms
    by (auto simp: CreateUserSubscriptionFromPlanTx_def purchase_limit_def statement_def count_by_plan_def
        split: if_splits option.splits)
  then show ?thesis using create_effect [OF assms(1) [unfolded x]] by (simp add: count_by_plan_def)
qed

section \<open>An order is delivered once\<close>

text \<open>
  The events that the payment providers, an administrator and the maintenance task cause, in any order.
  \<open>delivered\<close> counts the subscriptions that came from an order, \<open>paid\<close> the orders that were completed.
\<close>

datatype order_event =
  Complete jstring jstring jstring jstring | Expire jstring jstring | Bind int int | Invalidate int | ExpireDue int

fun order_react :: "env \<Rightarrow> order_event \<Rightarrow> store \<Rightarrow> store" where
  "order_react env (Complete t payload provider paymethod) st = snd (CompleteSubscriptionOrder env t payload provider paymethod st)"
| "order_react env (Expire t provider) st = snd (ExpireSubscriptionOrder env t provider st)"
| "order_react env (Bind u p) st = snd (AdminBindSubscription env u p st)"
| "order_react env (Invalidate sid) st = snd (AdminInvalidateUserSubscription env sid st)"
| "order_react env (ExpireDue lim) st = snd (ExpireDueSubscriptions env lim st)"

inductive order_step :: "env \<Rightarrow> store \<Rightarrow> store \<Rightarrow> bool" for env where
  "order_step env st (order_react env e st)"

definition sources :: "store \<Rightarrow> (int \<times> jstring) list" where
  "sources st = map (\<lambda>(i, sub). (i, us_Source sub)) (subs st)"

definition delivered :: "store \<Rightarrow> nat" where
  "delivered st = length (filter (\<lambda>(i, src). src = js ''order'') (sources st))"

definition paid :: "store \<Rightarrow> nat" where
  "paid st = length (filter (\<lambda>(t, ord). o_Status ord = js ''success'') (orders st))"

definition completed :: "jstring \<Rightarrow> store \<Rightarrow> bool" where
  "completed t st \<longleftrightarrow> (\<exists>ord. map_of (orders st) t = Some ord \<and> o_Status ord = js ''success'')"

definition keys_ok :: "store \<Rightarrow> bool" where
  "keys_ok st \<longleftrightarrow> distinct (map fst (sources st)) \<and> (\<forall>i \<in> set (map fst (sources st)). i \<le> last_sub_id st) \<and>
     distinct (map fst (orders st))"

definition order_inv :: "store \<Rightarrow> store \<Rightarrow> bool" where
  "order_inv st0 st \<longleftrightarrow> keys_ok st \<and> delivered st + paid st0 = delivered st0 + paid st \<and>
     (\<forall>t. completed t st0 \<longrightarrow> completed t st)"

text \<open>The ways in which an event may change the two tables.\<close>

definition delivers :: "store \<Rightarrow> store \<Rightarrow> bool" where
  "delivers st st' \<longleftrightarrow>
     (\<exists>t ord ord'. map_of (orders st) t = Some ord \<and> o_Status ord \<noteq> js ''success'' \<and> o_Status ord' = js ''success'' \<and>
        orders st' = update_row t (\<lambda>_. ord') (orders st) \<and> sources st' = sources st @ [(last_sub_id st', js ''order'')] \<and>
        last_sub_id st' = last_sub_id st + 1)"

definition gives_up :: "store \<Rightarrow> store \<Rightarrow> bool" where
  "gives_up st st' \<longleftrightarrow>
     (\<exists>t ord ord'. map_of (orders st) t = Some ord \<and> o_Status ord \<noteq> js ''success'' \<and> o_Status ord' \<noteq> js ''success'' \<and>
        orders st' = update_row t (\<lambda>_. ord') (orders st) \<and> sources st' = sources st \<and> last_sub_id st' = last_sub_id st)"

definition binds :: "store \<Rightarrow> store \<Rightarrow> bool" where
  "binds st st' \<longleftrightarrow> orders st' = orders st \<and> sources st' = sources st @ [(last_sub_id st', js ''admin'')] \<and>
     last_sub_id st' = last_sub_id st + 1"

definition keeps :: "store \<Rightarrow> store \<Rightarrow> bool" where
  "keeps st st' \<longleftrightarrow> orders st' = orders st \<and> sources st' = sources st \<and> last_sub_id st' = last_sub_id st"

lemma same_tables_keeps: "same_tables st st' \<Longrightarrow> keeps st st'"
  by (simp add: same_tables_def keeps_def sources_def)

lemma keeps_trans: "keeps a b \<Longrightarrow> keeps b c \<Longrightarrow> keeps a c"
  by (simp add: keeps_def)

lemma update_row_Cons [simp]: "update_row k f ((i, r) # tab) = (i, if i = k then f r else r) # update_row k f tab"
  by (simp add: update_row_def)

lemma update_row_notin: "k \<notin> fst ` set tab \<Longrightarrow> update_row k f tab = tab"
  by (induction tab) (auto simp: update_row_def)

lemma count_update_row:
  assumes "distinct (map fst tab)" and "map_of tab k = Some r"
  shows "length (filter (\<lambda>(i, r). P r) (update_row k (\<lambda>_. x) tab)) + (if P r then 1 else 0) =
    length (filter (\<lambda>(i, r). P r) tab) + (if P x then 1 else 0)"
  using assms
proof (induction tab)
  case (Cons a tab)
  obtain i r' where a: "a = (i, r')" by force
  show ?case
  proof (cases "i = k")
    case True
    then show ?thesis using Cons.prems update_row_notin [of k tab "\<lambda>_. x"] by (simp add: a)
  next
    case False
    then show ?thesis using Cons by (simp add: a del: map_of_eq_Some_iff)
  qed
qed simp

lemma map_update_row:
  assumes "distinct (map fst tab)" and "map_of tab k = Some r" and "f x = f r"
  shows "map (\<lambda>(i, r). (i, f r)) (update_row k (\<lambda>_. x) tab) = map (\<lambda>(i, r). (i, f r)) tab"
proof -
  have "f r' = f r" if "(k, r') \<in> set tab" for r' using that assms(1,2) by (simp add: map_of_is_SomeI)
  then show ?thesis using assms(3) by (auto simp: update_row_def)
qed

lemma orders_changed:
  assumes "keys_ok st" and "map_of (orders st) t = Some ord" and "o_Status ord \<noteq> js ''success''"
    and "orders st' = update_row t (\<lambda>_. ord') (orders st)"
  shows "distinct (map fst (orders st'))"
    and "paid st' = paid st + (if o_Status ord' = js ''success'' then 1 else 0)"
    and "completed u st \<Longrightarrow> completed u st'"
proof -
  have d: "distinct (map fst (orders st))" using assms(1) by (simp add: keys_ok_def)
  then show "distinct (map fst (orders st'))" using assms(4) by simp
  show "paid st' = paid st + (if o_Status ord' = js ''success'' then 1 else 0)"
    using count_update_row [OF d assms(2), of "\<lambda>r. o_Status r = js ''success''" ord'] assms(3,4) by (simp add: paid_def)
  show "completed u st \<Longrightarrow> completed u st'"
    using assms(2-4) by (cases "u = t") (auto simp: completed_def map_of_update_row)
qed

lemma order_inv_step:
  assumes "order_inv st0 st" and "delivers st st' \<or> gives_up st st' \<or> binds st st' \<or> keeps st st'"
  shows "order_inv st0 st'"
proof -
  have k: "keys_ok st" using assms(1) by (simp add: order_inv_def)
  consider (d) "delivers st st'" | (g) "gives_up st st'" | (b) "binds st st'" | (k) "keeps st st'" using assms(2) by blast
  then show ?thesis
  proof cases
    case d
    then obtain t ord ord' where o: "map_of (orders st) t = Some ord" "o_Status ord \<noteq> js ''success''"
      "o_Status ord' = js ''success''" "orders st' = update_row t (\<lambda>_. ord') (orders st)"
      "sources st' = sources st @ [(last_sub_id st', js ''order'')]" "last_sub_id st' = last_sub_id st + 1"
      by (auto simp: delivers_def)
    note c = orders_changed [OF k o(1,2,4)]
    have "keys_ok st'" using k o(5,6) c(1) by (fastforce simp: keys_ok_def)
    then show ?thesis using assms(1) o c by (simp add: order_inv_def delivered_def)
  next
    case g
    then obtain t ord ord' where o: "map_of (orders st) t = Some ord" "o_Status ord \<noteq> js ''success''"
      "o_Status ord' \<noteq> js ''success''" "orders st' = update_row t (\<lambda>_. ord') (orders st)"
      "sources st' = sources st" "last_sub_id st' = last_sub_id st"
      by (auto simp: gives_up_def)
    note c = orders_changed [OF k o(1,2,4)]
    have "keys_ok st'" using k o(5,6) c(1) by (simp add: keys_ok_def)
    then show ?thesis using assms(1) o c by (simp add: order_inv_def delivered_def)
  next
    case b
    then have "keys_ok st'" using k by (fastforce simp: keys_ok_def binds_def)
    then show ?thesis using assms(1) b by (simp add: order_inv_def delivered_def binds_def paid_def completed_def)
  next
    case k
    then show ?thesis
      using assms(1) by (simp add: order_inv_def delivered_def keeps_def paid_def completed_def keys_ok_def del: map_of_eq_Some_iff)
  qed
qed

lemma complete_effect:
  assumes "complete_tx env t payload provider paymethod st = (Inr x, st')"
  shows "keeps st st' \<or> delivers st st'"
proof -
  obtain r1 st1 where f: "find_order env t provider st = (r1, st1)" by force
  with assms obtain ord where ord: "r1 = Inr ord" by (cases r1) (auto simp: complete_tx_def)
  note f = f [unfolded ord]
  have t1: "same_tables st st1" "map_of (orders st) t = Some ord" using find_order_tables [OF f] by auto
  show ?thesis
  proof (cases "o_Status ord = js ''success''")
    case True
    then show ?thesis using assms f same_tables_keeps [OF t1(1)] by (simp add: complete_tx_def)
  next
    case False
    with assms f have pending: "o_Status ord = js ''pending''" by (auto simp: complete_tx_def split: if_splits)
    obtain r2 st2 where p: "getSubscriptionPlanByIdTx env (o_PlanId ord) st1 = (r2, st2)" by force
    with assms f False pending obtain plan where plan: "r2 = Inr plan" by (cases r2) (auto simp: complete_tx_def)
    obtain r3 st3 where c: "CreateUserSubscriptionFromPlanTx env (o_UserId ord) (o_PlanId ord) plan (js ''order'') st2 = (r3, st3)"
      by force
    with assms f False pending p plan obtain sid sub where r3: "r3 = Inr (sid, sub)" by (cases r3) (auto simp: complete_tx_def)
    obtain e4 st4 where u: "upsertSubscriptionTopUpTx env t ord st3 = (e4, st4)" by force
    with assms f False pending p plan c r3 have e4: "e4 = None" by (cases e4) (auto simp: complete_tx_def)
    obtain ord' where sv: "save_order env t ord' st4 = (None, st')" "o_Status ord' = js ''success''"
      using assms f False pending p plan c r3 u e4
      by (auto simp: complete_tx_def Let_def split: prod.splits option.splits)
    have "same_tables st st2" using t1(1) plan_tables [OF p] by (rule same_tables_trans)
    moreover have "same_tables st3 st4" using topup_tables [OF u] .
    moreover have "orders st' = update_row t (\<lambda>_. ord') (orders st4)" "subs st' = subs st4" "last_sub_id st' = last_sub_id st4"
      using sv by (auto simp: save_order_def statement_def split: option.splits)
    moreover note create_effect [OF c [unfolded r3]]
    ultimately have "delivers st st'"
      using t1(2) False sv(2) by (auto simp: delivers_def same_tables_def sources_def)
    then show ?thesis ..
  qed
qed

lemma expire_order_effect:
  assumes "expire_order_tx env t provider st = (Inr x, st')"
  shows "keeps st st' \<or> gives_up st st'"
proof -
  obtain r1 st1 where f: "find_order env t provider st = (r1, st1)" by force
  with assms obtain ord where ord: "r1 = Inr ord" by (cases r1) (auto simp: expire_order_tx_def)
  note t1 = find_order_tables [OF f [unfolded ord]]
  show ?thesis
  proof (cases "o_Status ord = js ''pending''")
    case False
    then show ?thesis using assms f ord t1 same_tables_keeps by (auto simp: expire_order_tx_def)
  next
    case True
    let ?ord = "ord\<lparr>o_Status := js ''expired'', o_CompleteTime := Some (now env (statements st1))\<rparr>"
    have "save_order env t ?ord st1 = (None, st')"
      using assms f ord True by (auto simp: expire_order_tx_def split: prod.splits option.splits)
    then have "orders st' = update_row t (\<lambda>_. ?ord) (orders st1)" "subs st' = subs st1" "last_sub_id st' = last_sub_id st1"
      by (auto simp: save_order_def statement_def split: option.splits)
    then have "gives_up st st'"
      unfolding gives_up_def
      by (intro exI [of _ t] exI [of _ ord] exI [of _ ?ord]) (use t1 ord True in \<open>simp add: same_tables_def sources_def\<close>)
    then show ?thesis ..
  qed
qed

lemma invalidate_effect:
  assumes "invalidate_tx env sid tnow st = (Inr x, st')" and "keys_ok st"
  shows "keeps st st'"
proof -
  obtain e1 st1 where s: "statement env st = (e1, st1)" by force
  with assms(1) have e1: "e1 = None" by (cases e1) (auto simp: invalidate_tx_def)
  have t1: "same_tables st st1" by (rule statement_tables [OF s])
  with assms(1) s e1 obtain sub where sub: "map_of (subs st) sid = Some sub"
    by (auto simp: invalidate_tx_def same_tables_def split: option.splits)
  let ?sub = "sub\<lparr>us_Status := js ''cancelled'', us_EndTime := tnow\<rparr>"
  obtain e2 st2 where v: "save_sub env sid ?sub st1 = (e2, st2)" by force
  with assms(1) s e1 sub t1 have e2: "e2 = None"
    by (cases e2) (auto simp: invalidate_tx_def same_tables_def)
  have d: "same_tables st2 st'"
    using assms(1) s e1 sub t1 v e2 by (auto simp: invalidate_tx_def same_tables_def dest: downgrade_tables [unfolded same_tables_def])
  have dist: "distinct (map fst (subs st))" using assms(2) by (simp add: keys_ok_def sources_def comp_def case_prod_unfold)
  have "subs st2 = update_row sid (\<lambda>_. ?sub) (subs st1)" "orders st2 = orders st1" "last_sub_id st2 = last_sub_id st1"
    using v e2 by (auto simp: save_sub_def statement_def split: option.splits)
  then show ?thesis
    using d t1 map_update_row [OF dist sub, of us_Source ?sub] by (simp add: keeps_def same_tables_def sources_def)
qed

lemma bind_effect:
  assumes "CreateUserSubscriptionFromPlanTx env u p plan (js ''admin'') st = (Inr x, st')"
  shows "binds st st'"
proof -
  obtain sid sub where "x = (sid, sub)" by force
  then show ?thesis using create_effect assms by (fastforce simp: binds_def sources_def)
qed

text \<open>The maintenance task changes the status of subscriptions and the groups of users only.\<close>

lemma expire_group_tables: "expire_group env u tnow st = (r, st') \<Longrightarrow> same_tables st st'"
  by (auto simp: expire_group_def Let_def same_tables_refl dest!: group_tables set_group_tables statement_tables
      intro: same_tables_trans split: if_splits option.splits sum.splits prod.splits)

lemma expire_user_keeps:
  assumes "expire_user_tx env u tnow st = (n, r, st')"
  shows "keeps st st'"
proof (cases "fault env (statements st)")
  case (Some e)
  then show ?thesis using assms by (auto simp: expire_user_tx_def statement_def keeps_def sources_def)
next
  case None
  let ?f = "\<lambda>(i, sub). (i, if us_UserId sub = u \<and> over tnow sub then sub\<lparr>us_Status := js ''expired''\<rparr> else sub)"
  let ?st = "st\<lparr>statements := Suc (statements st), subs := map ?f (subs st)\<rparr>"
  have "expire_group env u tnow ?st = (r, st')"
    using assms None by (auto simp: expire_user_tx_def statement_def Let_def)
  then have "keeps ?st st'" by (intro same_tables_keeps expire_group_tables)
  moreover have "keeps st ?st" by (auto simp: keeps_def sources_def)
  ultimately show ?thesis using keeps_trans by blast
qed

lemma end_tx_keeps: "end_tx env st (r, st1) = (r', st') \<Longrightarrow> keeps st st1 \<Longrightarrow> keeps st st'"
  by (auto simp: end_tx_def statement_def keeps_def sources_def split: sum.splits option.splits)

lemma expire_users_keeps: "expire_users env tnow us c st = (x, st') \<Longrightarrow> keeps st st'"
proof (induction us arbitrary: c st)
  case Nil
  then show ?case by (simp add: keeps_def)
next
  case (Cons u us)
  obtain e1 st1 where s: "statement env st = (e1, st1)" by force
  obtain n r st2 where t: "expire_user_tx env u tnow st1 = (n, r, st2)" by (metis prod_cases3)
  obtain r' st3 where d: "end_tx env st1 (r, st2) = (r', st3)" by force
  have k1: "keeps st st1" using statement_tables [OF s] by (rule same_tables_keeps)
  have k3: "keeps st st3" using k1 end_tx_keeps [OF d expire_user_keeps [OF t]] keeps_trans by blast
  show ?case
  proof (cases e1)
    case (Some err)
    then show ?thesis using Cons.prems s k1 by simp
  next
    case None
    then show ?thesis
      using Cons.prems s t d k3 Cons.IH [of "c + n" st3] keeps_trans [of st st3 st'] by (cases r') auto
  qed
qed

lemma expire_due_keeps: "keeps st (snd (ExpireDueSubscriptions env lim st))"
proof -
  obtain e st1 where s: "statement env st = (e, st1)" by force
  have k: "keeps st st1" using statement_tables [OF s] by (rule same_tables_keeps)
  have "keeps st1 (snd (expire_users env tnow us 0 st1))" for tnow us using expire_users_keeps by (metis prod.collapse)
  then show ?thesis using k keeps_trans [of st st1] by (cases e) (simp_all add: ExpireDueSubscriptions_def Let_def s)
qed

definition moves :: "store \<Rightarrow> store \<Rightarrow> bool" where
  "moves st st' \<longleftrightarrow> delivers st st' \<or> gives_up st st' \<or> binds st st' \<or> keeps st st'"

lemma moves_statements: "moves (st\<lparr>statements := n\<rparr>) (st'\<lparr>statements := m\<rparr>) = moves st st'"
  by (simp add: moves_def delivers_def gives_up_def binds_def keeps_def sources_def)

lemma transaction_moves:
  assumes "transaction env body st = (r, st')"
    and "\<And>n x st1. body (st\<lparr>statements := n\<rparr>) = (Inr x, st1) \<Longrightarrow> moves (st\<lparr>statements := n\<rparr>) st1"
  shows "moves st st'"
  using assms(1)
proof (cases rule: transaction_cases)
  case (undone err n)
  then show ?thesis by (simp add: moves_def keeps_def sources_def)
next
  case (kept x n m st1)
  then show ?thesis using assms(2) [OF kept(2)] moves_statements [where st = st and n = n and st' = st1 and m = "statements st1"]
      moves_statements [where st = st and n = "statements st" and st' = st1 and m = m] by simp
qed

lemma order_react_moves:
  assumes "keys_ok st"
  shows "moves st (order_react env e st)"
proof (cases e)
  case (Complete t payload provider paymethod)
  obtain r st' where t: "transaction env (complete_tx env t payload provider paymethod) st = (r, st')" by force
  have "moves st st'" by (rule transaction_moves [OF t]) (auto simp: moves_def dest: complete_effect)
  moreover have "moves st st" by (simp add: moves_def keeps_def)
  ultimately show ?thesis using Complete t by (auto simp: CompleteSubscriptionOrder_def split: sum.splits)
next
  case (Expire t provider)
  obtain r st' where t: "transaction env (expire_order_tx env t provider) st = (r, st')" by force
  have "moves st st'" by (rule transaction_moves [OF t]) (auto simp: moves_def dest: expire_order_effect)
  moreover have "moves st st" by (simp add: moves_def keeps_def)
  ultimately show ?thesis using Expire t by (auto simp: ExpireSubscriptionOrder_def split: sum.splits)
next
  case (Bind u p)
  obtain r1 st1 where g: "getSubscriptionPlanByIdTx env p st = (r1, st1)" by force
  have k: "keeps st st1" using plan_tables [OF g] by (rule same_tables_keeps)
  have "moves st st'" if "transaction env (CreateUserSubscriptionFromPlanTx env u p plan (js ''admin'')) st1 = (r, st')"
    for plan r st'
  proof -
    have "moves st1 st'" by (rule transaction_moves [OF that]) (auto simp: moves_def dest: bind_effect)
    then show ?thesis using k by (auto simp: moves_def delivers_def gives_up_def binds_def keeps_def)
  qed
  moreover have "moves st st" "moves st st1" using k by (simp_all add: moves_def keeps_def)
  ultimately show ?thesis using Bind g by (auto simp: AdminBindSubscription_def split: sum.splits prod.splits)
next
  case (Invalidate sid)
  obtain r st' where t: "transaction env (invalidate_tx env sid (now env (statements st))) st = (r, st')" by force
  have "keys_ok (st\<lparr>statements := n\<rparr>)" for n using assms by (simp add: keys_ok_def sources_def)
  then have "moves st st'"
    by (intro transaction_moves [OF t]) (auto simp: moves_def dest: invalidate_effect)
  moreover have "moves st st" by (simp add: moves_def keeps_def)
  ultimately show ?thesis using Invalidate t by (auto simp: AdminInvalidateUserSubscription_def split: sum.splits)
next
  case (ExpireDue lim)
  then show ?thesis using expire_due_keeps by (simp add: moves_def)
qed

interpretation order_machine: machine_invariant "order_inv st0" "order_step env" "order_inv st0"
proof unfold_locales
  fix st st' assume i: "order_inv st0 st" and "order_step env st st'"
  then obtain e where "st' = order_react env e st" by (auto elim: order_step.cases)
  then have "moves st st'" using order_react_moves i by (simp add: order_inv_def)
  then show "order_inv st0 st'" using order_inv_step [OF i] by (simp add: moves_def)
qed

text \<open>
  C2. Every completed order has delivered exactly one subscription: whatever sequence of completions,
  expiries, administrative changes and maintenance runs happens, and whatever statements fail, as many
  subscriptions are delivered as orders become completed, and a completed order stays completed. A
  provider that reports a payment again delivers nothing more.
\<close>

theorem orders_delivered_once:
  assumes "(order_step env)\<^sup>*\<^sup>* st st'" and "keys_ok st"
  shows "delivered st' + paid st = delivered st + paid st' \<and> (\<forall>t. completed t st \<longrightarrow> completed t st')"
proof -
  have "order_inv st st" using assms(2) by (simp add: order_inv_def)
  from order_machine.reachable_inv [OF this assms(1)] show ?thesis by (simp add: order_inv_def)
qed

definition order_store :: store where
  "order_store = example_store\<lparr>plans := [(3, daily_plan)], orders := [(js ''t1'', \<lparr>o_UserId = 1, o_PlanId = 3, o_Money = 10,
     o_PaymentMethod = js ''alipay'', o_PaymentProvider = js ''epay'', o_Status = js ''pending'', o_CreateTime = 0,
     o_CompleteTime = None, o_ProviderPayload = []\<rparr>)]\<rparr>"

theorem orders_delivered_once_witness:
  "let e = Complete (js ''t1'') [] (js ''epay'') []; st = order_react quiet e (order_react quiet e order_store) in
   paid st = 1 \<and> delivered st = 1"
proof -
  let ?e = "Complete (js ''t1'') [] (js ''epay'') []"
  let ?st = "order_react quiet ?e (order_react quiet ?e order_store)"
  have c: "paid ?st = 1" "paid order_store = 0" "delivered order_store = 0" by code_simp+
  have k: "keys_ok order_store" by (simp add: keys_ok_def order_store_def sources_def example_store_def)
  have "(order_step quiet)\<^sup>*\<^sup>* order_store ?st"
    by (rule rtranclp.rtrancl_into_rtrancl [OF r_into_rtranclp]) (rule order_step.intros)+
  from orders_delivered_once [OF this k] c have "delivered ?st = 1" by linarith
  then show ?thesis unfolding Let_def by (rule conjI [OF c(1)])
qed

section \<open>The end of subscriptions\<close>

definition active_count :: "store \<Rightarrow> nat" where
  "active_count st = length (filter (\<lambda>(i, sub). us_Status sub = js ''active'') (subs st))"

lemma expire_rows_count:
  "length (filter (\<lambda>(i, sub). us_Status sub = js ''active'')
       (map (\<lambda>(i, sub). (i, if us_UserId sub = u \<and> over tnow sub then sub\<lparr>us_Status := js ''expired''\<rparr> else sub)) tab)) +
     length (filter (\<lambda>(i, sub). us_UserId sub = u \<and> over tnow sub) tab) =
   length (filter (\<lambda>(i, sub). us_Status sub = js ''active'') tab)"
  by (induction tab) (auto simp: over_def split: if_splits)

lemma expire_user_count:
  assumes "expire_user_tx env u tnow st = (n, Inr x, st')"
  shows "active_count st' + n = active_count st"
proof -
  let ?st = "st\<lparr>statements := Suc (statements st), subs := map (\<lambda>(i, sub). (i, if us_UserId sub = u \<and> over tnow sub
    then sub\<lparr>us_Status := js ''expired''\<rparr> else sub)) (subs st)\<rparr>"
  have "n = length (filter (\<lambda>(i, sub). us_UserId sub = u \<and> over tnow sub) (subs st))"
    "expire_group env u tnow ?st = (Inr x, st')"
    using assms by (auto simp: expire_user_tx_def statement_def Let_def split: option.splits)
  then show ?thesis
    using expire_group_tables [of env u tnow ?st] expire_rows_count [of u tnow "subs st"]
    by (simp add: active_count_def same_tables_def)
qed

lemma expire_users_count: "expire_users env tnow us c st = ((n, None), st') \<Longrightarrow> active_count st' + n = active_count st + c"
proof (induction us arbitrary: c st)
  case (Cons u us)
  obtain e1 st1 where s: "statement env st = (e1, st1)" by force
  with Cons.prems have e1: "e1 = None" by (cases e1) auto
  obtain k r st2 where t: "expire_user_tx env u tnow st1 = (k, r, st2)" by (metis prod_cases3)
  obtain r' st3 where d: "end_tx env st1 (r, st2) = (r', st3)" by force
  with Cons.prems s t e1 obtain x where x: "r' = Inr x" by (cases r') auto
  have st1: "active_count st1 = active_count st" using statement_tables [OF s] by (simp add: same_tables_def active_count_def)
  have "r = Inr x" "subs st3 = subs st2"
    using d x by (auto simp: end_tx_def statement_def split: sum.splits option.splits)
  then have "active_count st3 + k = active_count st"
    using expire_user_count [of env u tnow st1 k x st2] t st1 by (simp add: active_count_def)
  moreover have "expire_users env tnow us (c + k) st3 = ((n, None), st')" using Cons.prems s t d e1 x by simp
  ultimately show ?case using Cons.IH by fastforce
qed simp

lemma expire_due_count:
  assumes "ExpireDueSubscriptions env lim st = ((n, None), st')"
  shows "active_count st' + n = active_count st"
proof -
  obtain e st1 where s: "statement env st = (e, st1)" by force
  have "active_count st1 = active_count st" using statement_tables [OF s] by (simp add: same_tables_def active_count_def)
  moreover have "e = None" using assms s by (cases e) (auto simp: ExpireDueSubscriptions_def Let_def)
  ultimately show ?thesis
    using assms s expire_users_count [of env _ _ 0 st1 n st'] by (auto simp: ExpireDueSubscriptions_def Let_def)
qed

text \<open>
  C17. The loop that ends the subscriptions which are over always returns: every round but the last takes
  subscriptions out of the active ones, so there are only finitely many.
\<close>

theorem expire_task_returns: "\<exists>regular st'. expire_task env st = Some (regular, st')"
proof (induction "active_count st" arbitrary: st rule: less_induct)
  case less
  obtain n e st1 where x: "ExpireDueSubscriptions env (int subscriptionResetBatchSize) st = ((n, e), st1)" by (metis prod_cases3 prod.collapse)
  show ?case
  proof (cases "e \<noteq> None \<or> n < subscriptionResetBatchSize")
    case True
    then show ?thesis using x by (subst expire_task.simps) (auto split: option.split)
  next
    case False
    then have "active_count st1 < active_count st"
      using expire_due_count [of env "int subscriptionResetBatchSize" st n st1] x by (simp add: subscriptionResetBatchSize_def)
    from less [OF this] show ?thesis using x False by (subst expire_task.simps) (simp add: subscriptionResetBatchSize_def)
  qed
qed

section \<open>The reset of due subscriptions\<close>

text \<open>
  When the last period of a subscription begins, there is no next reset, and the zero time is saved for it.
  Such a row is due for ever: a reset changes nothing, but is counted. A full batch of such rows keeps the
  loop of the task from ending.
\<close>

lemma last_reset_saves_zero:
  "map_option (\<lambda>((e, sub), st). NextResetTime sub)
     (maybeResetUserSubscriptionWithPlanTx quiet 5 (example_sub\<lparr>us_EndTime := 3 * day_ns + 5\<rparr>) daily_plan (3 * day_ns) sub_store) =
   Some (Some zero_time)"
  by code_simp

definition last_period :: "env \<Rightarrow> SubscriptionPlan \<Rightarrow> UserSubscription \<Rightarrow> bool" where
  "last_period env plan sub \<longleftrightarrow>
     us_Status sub = js ''active'' \<and> NextResetTime sub = Some zero_time \<and>
     (case LastResetTime sub of None \<Rightarrow> False | Some b \<Rightarrow> calcNextResetTime (zone env) b plan (us_EndTime sub) = zero_time)"

definition waiting :: "env \<Rightarrow> int \<Rightarrow> SubscriptionPlan \<Rightarrow> store \<Rightarrow> bool" where
  "waiting env p plan st \<longleftrightarrow>
     subscriptionResetBatchSize \<le> length (subs st) \<and> distinct (map fst (subs st)) \<and> map_of (plans st) p = Some plan \<and>
     list_all (\<lambda>(i, sub). us_PlanId sub = p \<and> last_period env plan sub) (subs st)"

definition calm :: "env \<Rightarrow> bool" where
  "calm env \<longleftrightarrow> (\<forall>n. fault env n = None) \<and> (\<forall>n p. cached_plan env n p = None) \<and> (\<forall>n. zero_time \<le> now env n)"

lemma last_period_reset:
  assumes "last_period env plan sub" and "zero_time \<le> tnow"
  shows "maybeResetUserSubscriptionWithPlanTx env sid sub plan tnow st = Some ((None, sub), st)"
proof -
  obtain b where b: "LastResetTime sub = Some b" "calcNextResetTime (zone env) b plan (us_EndTime sub) = zero_time"
    "NextResetTime sub = Some zero_time"
    using assms(1) by (auto simp: last_period_def split: option.splits)
  have "reset_loop (zone env) plan (us_EndTime sub) tnow b zero_time False = Some (b, zero_time, False)"
    by (subst reset_loop.simps) (simp add: IsZero_def)
  then show ?thesis using b assms(2) by (simp add: maybeResetUserSubscriptionWithPlanTx_def)
qed

lemma waiting_loop:
  assumes "calm env" and "0 < p" and "zero_time \<le> tnow" and "map_of (plans st) p = Some plan"
    and "\<forall>(i, sub) \<in> set cs. map_of (subs st) i = Some sub \<and> us_PlanId sub = p \<and> last_period env plan sub"
  shows "\<exists>m. reset_due_loop env tnow cs c st = Some ((c + length cs, None), st\<lparr>statements := m\<rparr>)"
  using assms(4,5)
proof (induction cs arbitrary: c st)
  case Nil
  show ?case by (intro exI [of _ "statements st"]) simp
next
  case (Cons x cs)
  obtain i sub where x: "x = (i, sub)" by force
  have sub: "map_of (subs st) i = Some sub" "us_PlanId sub = p" "last_period env plan sub" using Cons.prems(2) x by auto
  have due: "due_reset tnow sub" using sub(3) assms(3) by (simp add: due_reset_def last_period_def)
  let ?st = "\<lambda>k. st\<lparr>statements := statements st + k\<rparr>"
  have f: "fault env n = None" "cached_plan env n p = None" for n using assms(1) by (simp_all add: calm_def)
  have g: "getSubscriptionPlanByIdTx env p st = (Inr plan, ?st 1)"
    using f assms(2) Cons.prems(1) by (simp add: getSubscriptionPlanByIdTx_def statement_def)
  have t: "reset_due_tx env i plan tnow (?st 2) = Some (Inr 1, ?st 3)"
    using f sub due last_period_reset [OF sub(3) assms(3)]
    by (simp add: reset_due_tx_def statement_def eval_nat_numeral)
  have "reset_due_loop env tnow (x # cs) c st = reset_due_loop env tnow cs (c + 1) (?st 4)"
    using g t f sub(2) x by (simp add: statement_def end_tx_def Let_def eval_nat_numeral)
  moreover obtain m where "reset_due_loop env tnow cs (c + 1) (?st 4) = Some ((c + 1 + length cs, None), (?st 4)\<lparr>statements := m\<rparr>)"
    using Cons.IH [of "?st 4" "c + 1"] Cons.prems by auto
  ultimately show ?case by auto
qed

lemma waiting_again:
  assumes "calm env" and "0 < p" and "waiting env p plan st"
  shows "\<exists>m. ResetDueSubscriptions env (int subscriptionResetBatchSize) st =
    Some ((subscriptionResetBatchSize, None), st\<lparr>statements := m\<rparr>)"
proof -
  let ?t = "now env (statements st)" and ?st = "st\<lparr>statements := Suc (statements st)\<rparr>"
  have z: "zero_time \<le> ?t" using assms(1) by (simp add: calm_def)
  have rows: "us_PlanId sub = p" "last_period env plan sub" if "(i, sub) \<in> set (subs st)" for i sub
    using assms(3) that by (auto simp: waiting_def list_all_iff)
  have all: "filter (\<lambda>(i, sub). due_reset ?t sub \<and> us_Status sub = js ''active'') (subs st) = subs st"
    using rows z by (auto simp: filter_id_conv due_reset_def last_period_def)
  define cs where "cs = take subscriptionResetBatchSize (sort_key (\<lambda>(i, sub). the (NextResetTime sub)) (subs st))"
  have len: "length cs = subscriptionResetBatchSize" using assms(3) by (simp add: cs_def waiting_def)
  have cs: "set cs \<subseteq> set (subs st)" unfolding cs_def by (metis set_sort set_take_subset)
  have "\<forall>(i, sub) \<in> set cs. map_of (subs ?st) i = Some sub \<and> us_PlanId sub = p \<and> last_period env plan sub"
  proof clarify
    fix i sub assume "(i, sub) \<in> set cs"
    with cs have "(i, sub) \<in> set (subs st)" by blast
    then show "map_of (subs ?st) i = Some sub \<and> us_PlanId sub = p \<and> last_period env plan sub"
      using rows assms(3) by (simp add: waiting_def)
  qed
  moreover have "map_of (plans ?st) p = Some plan" using assms(3) by (simp add: waiting_def)
  ultimately obtain m where m: "reset_due_loop env ?t cs 0 ?st = Some ((subscriptionResetBatchSize, None), st\<lparr>statements := m\<rparr>)"
    using waiting_loop [OF assms(1,2) z, of ?st plan cs 0] len by (simp del: reset_due_loop.simps) blast
  have "fault env (statements st) = None" using assms(1) by (simp add: calm_def)
  moreover have "\<not> int subscriptionResetBatchSize \<le> 0" by (simp add: subscriptionResetBatchSize_def)
  ultimately show ?thesis
    by (intro exI [of _ m]) (use m all in \<open>simp add: ResetDueSubscriptions_def statement_def Let_def cs_def\<close>)
qed

lemma waiting_statements: "waiting env p plan (st\<lparr>statements := m\<rparr>) = waiting env p plan st"
  by (simp add: waiting_def)

lemma waiting_task_stuck:
  assumes "calm env" and "0 < p" and "waiting env p plan st"
  shows "reset_task env st = None"
proof -
  have "reset_task env' st = Some y \<Longrightarrow> \<not> (env' = env \<and> waiting env p plan st)" for env' st y
  proof (rule reset_task.raw_induct [where P = "\<lambda>env' st y. \<not> (env' = env \<and> waiting env p plan st)"])
    fix f env' st y
    assume IH: "\<And>env' st y. f env' st = Some y \<Longrightarrow> \<not> (env' = env \<and> waiting env p plan st)"
      and body: "(case ResetDueSubscriptions env' (int subscriptionResetBatchSize) st of
        None \<Rightarrow> None
      | Some ((n, Some err), st) \<Rightarrow> Some (False, st)
      | Some ((n, None), st) \<Rightarrow>
          if n = 0 then Some (True, st) else if n < subscriptionResetBatchSize then Some (True, st) else f env' st) = Some y"
    show "\<not> (env' = env \<and> waiting env p plan st)"
    proof
      assume w: "env' = env \<and> waiting env p plan st"
      then obtain m where "ResetDueSubscriptions env' (int subscriptionResetBatchSize) st =
          Some ((subscriptionResetBatchSize, None), st\<lparr>statements := m\<rparr>)"
        using waiting_again [OF assms(1,2)] by blast
      then have "f env' (st\<lparr>statements := m\<rparr>) = Some y" using body by (simp add: subscriptionResetBatchSize_def)
      from IH [OF this] w show False by (simp add: waiting_statements)
    qed
  qed
  then show ?thesis using assms(3) by (metis not_None_eq)
qed

definition last_period_store :: store where
  "last_period_store = example_store\<lparr>plans := [(3, daily_plan)],
     subs := map (\<lambda>i. (int i, example_sub\<lparr>LastResetTime := Some (29 * day_ns), NextResetTime := Some zero_time,
       us_EndTime := 29 * day_ns + 5\<rparr>)) [1..<301]\<rparr>"

lemma reset_task_stuck: "reset_task quiet last_period_store = None"
proof (rule waiting_task_stuck [of _ 3 daily_plan])
  show "calm quiet" by (simp add: calm_def quiet_def zero_time_def second_def)
  have "last_period quiet daily_plan (example_sub\<lparr>LastResetTime := Some (29 * day_ns), NextResetTime := Some zero_time,
       us_EndTime := 29 * day_ns + 5\<rparr>)" by code_simp
  then show "waiting quiet 3 daily_plan last_period_store"
    by (auto simp: waiting_def last_period_store_def list_all_iff example_sub_def subscriptionResetBatchSize_def
        comp_def distinct_map inj_on_def)
qed simp

section \<open>A user returns to the former group\<close>

text \<open>What the subscriptions of a user say about groups: their status, end, group and former group.\<close>

definition upgraded :: "int \<Rightarrow> UserSubscription \<Rightarrow> bool" where
  "upgraded u sub \<longleftrightarrow> us_UserId sub = u \<and> us_UpgradeGroup sub \<noteq> []"

definition upgrades :: "int \<Rightarrow> store \<Rightarrow> (jstring \<times> int \<times> jstring \<times> jstring) list" where
  "upgrades u st = map (\<lambda>(i, sub). (us_Status sub, us_EndTime sub, us_UpgradeGroup sub, us_PrevUserGroup sub))
     (filter (\<lambda>(i, sub). upgraded u sub) (subs st))"

lemma latest_filter:
  assumes "\<And>i sub. P i sub \<Longrightarrow> Q sub"
  shows "latest P tab = latest P (filter (\<lambda>(i, sub). Q sub) tab)"
proof -
  have "filter (\<lambda>(i, sub). P i sub) (filter (\<lambda>(i, sub). Q sub) tab) = filter (\<lambda>(i, sub). P i sub) tab"
    using assms by (induction tab) auto
  then show ?thesis by (simp add: latest_def)
qed

lemma latest_one: "latest P [(i, sub)] = (if P i sub then Some sub else None)"
  by (simp add: latest_def)

lemma create_upgrades:
  assumes "CreateUserSubscriptionFromPlanTx env u p plan src st = (Inr (sid, sub), st')" and "\<forall>n. fault env n = None"
    and "map_of (groups st) u = Some g" and "TrimSpace (p_UpgradeGroup plan) \<noteq> []" and "g \<noteq> TrimSpace (p_UpgradeGroup plan)"
  shows "us_PrevUserGroup sub = g \<and> map_of (groups st') u = Some (TrimSpace (p_UpgradeGroup plan))"
proof -
  obtain e st1 where l: "purchase_limit env u p plan st = (e, st1)" by force
  have g: "groups st1 = groups st"
    using l by (auto simp: purchase_limit_def statement_def split: if_splits option.splits)
  have u: "0 < u" using assms(1) by (simp add: CreateUserSubscriptionFromPlanTx_def split: if_splits)
  let ?G = "TrimSpace (p_UpgradeGroup plan)"
  have up: "upgrade env u ?G st1 = (Inr g, st1\<lparr>statements := Suc (Suc (statements st1)),
      groups := update_row u (\<lambda>_. ?G) (groups st)\<rparr>)"
    using u g assms(2-5) by (simp add: upgrade_def getUserGroupByIdTx_def set_group_def statement_def)
  show ?thesis
    using assms l up
    by (auto simp: CreateUserSubscriptionFromPlanTx_def Let_def statement_def map_of_update_row split: if_splits option.splits sum.splits)
qed

lemma expire_own_group:
  assumes "\<forall>n. fault env n = None" and "0 < u" and "upgrades u st = [(js ''active'', e, G, g)]" and "e \<le> tnow"
    and "map_of (groups st) u = Some G" and "TrimSpace G = G" and "TrimSpace g = g" and "g \<noteq> []" and "g \<noteq> G"
  shows "\<exists>n st'. expire_user_tx env u tnow st = (n, Inr (), st') \<and> map_of (groups st') u = Some g"
proof -
  obtain i sub where f: "filter (\<lambda>(i, sub). upgraded u sub) (subs st) = [(i, sub)]"
    and sub: "us_Status sub = js ''active''" "us_EndTime sub = e" "us_UpgradeGroup sub = G" "us_PrevUserGroup sub = g"
    using assms(3) by (auto simp: upgrades_def)
  have "(i, sub) \<in> set (filter (\<lambda>(i, sub). upgraded u sub) (subs st))" using f by simp
  then have us: "us_UserId sub = u" "G \<noteq> []" using sub by (auto simp: upgraded_def)
  let ?f = "\<lambda>(i, s). (i, if us_UserId s = u \<and> over tnow s then s\<lparr>us_Status := js ''expired''\<rparr> else s)"
  let ?sub = "sub\<lparr>us_Status := js ''expired''\<rparr>"
  have ex: "filter (\<lambda>(i, s). upgraded u s) (map ?f tab) = map ?f (filter (\<lambda>(i, s). upgraded u s) tab)" for tab
    by (induction tab) (auto simp: upgraded_def split: if_splits)
  have rows: "filter (\<lambda>(i, s). upgraded u s) (map ?f (subs st)) = [(i, ?sub)]"
    unfolding ex f using us sub assms(4) by (simp add: over_def)
  let ?P = "\<lambda>i s. active_sub u tnow s \<and> us_UpgradeGroup s \<noteq> []"
  let ?X = "\<lambda>i s. us_UserId s = u \<and> us_Status s = js ''expired'' \<and> us_UpgradeGroup s \<noteq> []"
  have "latest ?P (map ?f (subs st)) = latest ?P (filter (\<lambda>(i, s). upgraded u s) (map ?f (subs st)))"
    by (rule latest_filter) (simp add: active_sub_def upgraded_def)
  then have a: "latest ?P (map ?f (subs st)) = None" unfolding rows by (simp add: latest_one active_sub_def)
  have "latest ?X (map ?f (subs st)) = latest ?X (filter (\<lambda>(i, s). upgraded u s) (map ?f (subs st)))"
    by (rule latest_filter) (simp add: upgraded_def)
  then have x: "latest ?X (map ?f (subs st)) = Some ?sub" unfolding rows using us sub by (simp add: latest_one)
  show ?thesis
    using assms us sub a x
    by (simp add: expire_user_tx_def statement_def expire_group_def Let_def getUserGroupByIdTx_def set_group_def map_of_update_row)
qed

lemma group_of_other:
  assumes "getUserGroupByIdTx env w st = (r, st')"
  shows "groups st' = groups st"
  using assms by (auto simp: getUserGroupByIdTx_def statement_def split: if_splits option.splits)

lemma expire_other_group:
  assumes "expire_user_tx env w tnow st = (n, r, st')" and "w \<noteq> u"
  shows "map_of (groups st') u = map_of (groups st) u \<and> upgrades u st' = upgrades u st"
proof -
  have g: "map_of (groups st') u = map_of (groups st) u" if "expire_group env w tnow st = (r, st')" for st st' r
    using that assms(2)
    by (auto simp: expire_group_def Let_def statement_def set_group_def map_of_update_row dest!: group_of_other
        split: if_splits option.splits sum.splits prod.splits)
  let ?f = "\<lambda>(i, s). (i, if us_UserId s = w \<and> over tnow s then s\<lparr>us_Status := js ''expired''\<rparr> else s)"
  have f: "filter (\<lambda>(i, s). upgraded u s) (map ?f tab) = filter (\<lambda>(i, s). upgraded u s) tab" for tab
    using assms(2) by (induction tab) (auto simp: upgraded_def split: if_splits)
  show ?thesis
  proof (cases "fault env (statements st)")
    case (Some e)
    then show ?thesis using assms(1) by (auto simp: expire_user_tx_def statement_def upgrades_def)
  next
    case None
    let ?st = "st\<lparr>statements := Suc (statements st), subs := map ?f (subs st)\<rparr>"
    have "expire_group env w tnow ?st = (r, st')" using assms(1) None by (auto simp: expire_user_tx_def statement_def Let_def)
    moreover from this have "subs st' = map ?f (subs st)" using expire_group_tables by (fastforce simp: same_tables_def)
    then have "upgrades u st' = upgrades u st" unfolding upgrades_def by (simp only: f)
    ultimately show ?thesis using g [of ?st] by simp
  qed
qed

lemma expire_others_group:
  assumes "expire_users env tnow us c st = (x, st')" and "u \<notin> set us"
  shows "map_of (groups st') u = map_of (groups st) u"
  using assms
proof (induction us arbitrary: c st)
  case (Cons w us)
  obtain e1 st1 where s: "statement env st = (e1, st1)" by force
  have g1: "groups st1 = groups st" using s by (auto simp: statement_def)
  obtain n r st2 where t: "expire_user_tx env w tnow st1 = (n, r, st2)" by (metis prod_cases3)
  obtain r' st3 where d: "end_tx env st1 (r, st2) = (r', st3)" by force
  have "map_of (groups st2) u = map_of (groups st) u" using expire_other_group [OF t, of u] Cons.prems(2) g1 by simp
  then have g3: "map_of (groups st3) u = map_of (groups st) u"
    using d g1 by (auto simp: end_tx_def statement_def split: sum.splits option.splits)
  show ?case
  proof (cases e1)
    case (Some err)
    then show ?thesis using Cons.prems(1) s g1 by simp
  next
    case None
    then show ?thesis using Cons.prems s t d g3 Cons.IH [of "c + n" st3] by (cases r') auto
  qed
qed simp

lemma expire_users_group:
  assumes "\<forall>n. fault env n = None" and "upgrades u st = [(js ''active'', e, G, g)]" and "e \<le> tnow"
    and "map_of (groups st) u = Some G" and "TrimSpace G = G" and "TrimSpace g = g" and "g \<noteq> []" and "g \<noteq> G"
    and "u \<in> set us" and "distinct us" and "\<forall>w \<in> set us. 0 < w"
  shows "map_of (groups (snd (expire_users env tnow us c st))) u = Some g"
  using assms(2,4,9-11)
proof (induction us arbitrary: c st)
  case (Cons w us)
  let ?st = "st\<lparr>statements := Suc (statements st)\<rparr>"
  have f: "fault env n = None" for n using assms(1) by blast
  have up: "upgrades u ?st = [(js ''active'', e, G, g)]" "map_of (groups ?st) u = Some G" using Cons.prems by (simp_all add: upgrades_def)
  obtain n r st2 where t: "expire_user_tx env w tnow ?st = (n, r, st2)" by (metis prod_cases3)
  let ?st2 = "st2\<lparr>statements := Suc (statements st2)\<rparr>"
  show ?case
  proof (cases "w = u")
    case True
    then have r: "r = Inr ()" "map_of (groups st2) u = Some g"
      using expire_own_group [OF assms(1) _ up(1) assms(3) up(2) assms(5-8)] t Cons.prems(5) by auto
    obtain x st3 where l: "expire_users env tnow us (c + n) ?st2 = (x, st3)" by (metis surj_pair)
    have "map_of (groups st3) u = Some g" using expire_others_group [OF l, of u] Cons.prems(4) True r by simp
    then show ?thesis using l t r f by (simp add: statement_def end_tx_def)
  next
    case False
    have o: "map_of (groups st2) u = Some G" "upgrades u st2 = [(js ''active'', e, G, g)]"
      using expire_other_group [OF t False] up by simp_all
    have "\<exists>y. r = Inr y"
      using t f Cons.prems(5)
      by (auto simp: expire_user_tx_def expire_group_def Let_def statement_def getUserGroupByIdTx_def set_group_def
          split: if_splits option.splits)
    then obtain y where "r = Inr y" by blast
    moreover have "map_of (groups (snd (expire_users env tnow us (c + n) ?st2))) u = Some g"
      using Cons.IH [of ?st2 "c + n"] o Cons.prems(3-5) False by (simp add: upgrades_def)
    ultimately show ?thesis using t f by (simp add: statement_def end_tx_def)
  qed
qed simp

lemma TrimSpace_idem: "TrimSpace (TrimSpace s) = TrimSpace s"
proof -
  let ?a = "dropWhile is_space s" and ?b = "rev (dropWhile is_space (rev (dropWhile is_space s)))"
  have "dropWhile is_space ?b = ?b"
  proof (cases ?b)
    case Nil
    then show ?thesis by (simp only: dropWhile.simps)
  next
    case (Cons c r)
    have "dropWhile is_space (rev ?a) = rev ?b" by simp
    then obtain pre where "rev ?a = pre @ rev ?b" by (metis takeWhile_dropWhile_id)
    then have "?a = ?b @ rev pre" by (metis rev_append rev_rev_ident)
    then have "hd ?a = c" "?a \<noteq> []" using Cons by auto
    then show ?thesis using hd_dropWhile [of is_space s] Cons by simp
  qed
  then show ?thesis by (simp add: TrimSpace_def dropWhile_idem)
qed

text \<open>
  C16. A user whom a plan has moved to its group returns to the former group when the subscription is over:
  after the maintenance task has run, if no statement fails, nothing else has upgraded the user and the batch
  is not full.
  What happens in between to the quota, to orders or to other users does not matter.
\<close>

theorem group_restored:
  assumes "\<forall>n. fault env n = None"
    and "CreateUserSubscriptionFromPlanTx env u p plan src st = (Inr (sid, sub), st1)"
    and "map_of (groups st) u = Some g" and "TrimSpace g = g" and "g \<noteq> []" and "upgrades u st = []"
    and "TrimSpace (p_UpgradeGroup plan) \<noteq> []" and "g \<noteq> TrimSpace (p_UpgradeGroup plan)"
    and "upgrades u st2 = upgrades u st1" and "map_of (groups st2) u = map_of (groups st1) u"
    and "us_EndTime sub \<le> now env (statements st2)" and "0 < lim"
    and "int (length (filter (\<lambda>(i, s). over (now env (statements st2)) s) (subs st2))) \<le> lim"
  shows "map_of (groups st1) u = Some (TrimSpace (p_UpgradeGroup plan)) \<and>
    map_of (groups (snd (ExpireDueSubscriptions env lim st2))) u = Some g"
proof -
  let ?G = "TrimSpace (p_UpgradeGroup plan)" and ?t = "now env (statements st2)"
  note c = create_effect [OF assms(2)] and cu = create_upgrades [OF assms(2,1,3,7,8)]
  have u: "0 < u" using assms(2) by (simp add: CreateUserSubscriptionFromPlanTx_def split: if_splits)
  have "upgrades u st1 = [(js ''active'', us_EndTime sub, ?G, g)]"
    using c cu assms(6,7) by (simp add: upgrades_def upgraded_def)
  then have up: "upgrades u st2 = [(js ''active'', us_EndTime sub, ?G, g)]" using assms(9) by simp
  let ?st = "st2\<lparr>statements := Suc (statements st2)\<rparr>"
  let ?over = "filter (\<lambda>(i, s). over ?t s) (subs st2)"
  let ?us = "remdups (filter (\<lambda>w. w > 0) (map (\<lambda>(i, s). us_UserId s) (take (nat lim) (sort_key (\<lambda>(i, s). (us_EndTime s, i)) ?over))))"
  have "\<exists>(i, s) \<in> set (subs st2). upgraded u s \<and> us_Status s = js ''active'' \<and> us_EndTime s = us_EndTime sub"
  proof -
    have "(js ''active'', us_EndTime sub, ?G, g) \<in> set (upgrades u st2)" using up by simp
    then show ?thesis unfolding upgrades_def by auto
  qed
  then obtain i s where s: "(i, s) \<in> set (subs st2)" "upgraded u s" "us_Status s = js ''active''" "us_EndTime s = us_EndTime sub"
    by blast
  then have "(i, s) \<in> set ?over" "us_UserId s = u" using assms(11) by (simp_all add: over_def upgraded_def)
  then have us: "u \<in> set ?us" using u assms(13) by force
  have "upgrades u ?st = [(js ''active'', us_EndTime sub, ?G, g)]" "map_of (groups ?st) u = Some ?G"
    using up assms(10) cu by (simp_all add: upgrades_def)
  note v = this
  have d: "distinct ?us" "\<forall>w \<in> set ?us. 0 < w" by auto
  have g: "map_of (groups (snd (expire_users env ?t ?us 0 ?st))) u = Some g"
    by (rule expire_users_group [OF assms(1) v(1) assms(11) v(2) TrimSpace_idem assms(4,5,8) us d])
  have "\<not> lim \<le> 0" "fault env (statements st2) = None" using assms(1,12) by simp_all
  then have "ExpireDueSubscriptions env lim st2 = expire_users env ?t ?us 0 ?st"
    by (simp add: ExpireDueSubscriptions_def statement_def Let_def del: expire_users.simps)
  then show ?thesis using cu g by (simp only: simp_thms)
qed

definition forty_days :: "nat \<Rightarrow> env" where
  "forty_days k = quiet\<lparr>now := (\<lambda>n. if n < k then 1000 else 40 * day_ns)\<rparr>"

theorem group_restored_witness:
  "\<exists>sid sub st1. CreateUserSubscriptionFromPlanTx (forty_days 3) 1 3 daily_plan (js ''admin'') order_store = (Inr (sid, sub), st1) \<and>
     map_of (groups st1) 1 = Some (js ''vip'') \<and>
     map_of (groups (snd (ExpireDueSubscriptions (forty_days 3) 300 st1))) 1 = Some (js ''default'')"
proof -
  let ?e = "forty_days 3"
  have "case CreateUserSubscriptionFromPlanTx ?e 1 3 daily_plan (js ''admin'') order_store of
      (Inr (sid, sub), st1) \<Rightarrow> us_EndTime sub \<le> now ?e (statements st1) \<and>
        int (length (filter (\<lambda>(i, s). over (now ?e (statements st1)) s) (subs st1))) \<le> 300
    | _ \<Rightarrow> False" by code_simp
  then obtain sid sub st1 where c: "CreateUserSubscriptionFromPlanTx ?e 1 3 daily_plan (js ''admin'') order_store = (Inr (sid, sub), st1)"
    "us_EndTime sub \<le> now ?e (statements st1)"
    "int (length (filter (\<lambda>(i, s). over (now ?e (statements st1)) s) (subs st1))) \<le> 300"
    by (auto split: prod.splits sum.splits)
  have f: "\<forall>n. fault ?e n = None" by (simp add: forty_days_def quiet_def)
  have g: "map_of (groups order_store) 1 = Some (js ''default'')" "upgrades 1 order_store = []"
    "TrimSpace (js ''default'') = js ''default''" "js ''default'' \<noteq> []"
    "TrimSpace (p_UpgradeGroup daily_plan) = js ''vip''" "js ''vip'' \<noteq> []" "js ''default'' \<noteq> js ''vip''"
    by code_simp+
  from group_restored [OF f c(1) g(1,3,4,2) g(6,7) [folded g(5)] refl refl c(2) _ c(3)] c(1) show ?thesis
    unfolding g(5) by auto
qed

text \<open>
  A user who renews while the first subscription lasts keeps the group of the plan for ever: the second
  subscription has no former group, and it is the one that is looked at when both are over.
\<close>

lemma renewal_keeps_group:
  "let env = forty_days 12; st1 = snd (AdminBindSubscription env 1 3 order_store);
       st2 = snd (AdminBindSubscription env 1 3 st1); st3 = snd (ExpireDueSubscriptions env 300 st2) in
   active_count st2 = 2 \<and> active_count st3 = 0 \<and> map_of (groups st3) 1 = Some (js ''vip'')"
  by code_simp

section \<open>Quota\<close>

text \<open>Creating, ending and resetting subscriptions keep what is used of them within their totals.\<close>

lemma create_within_total:
  "CreateUserSubscriptionFromPlanTx env u p plan src st = (Inr x, st') \<Longrightarrow> subs_ok st \<Longrightarrow> is_int64 (TotalAmount plan) \<Longrightarrow>
     subs_ok st'"
  by (cases x) (auto dest!: create_effect simp: subs_ok_def sub_ok_def)

lemma reset_due_tx_ok: "reset_due_tx env sid plan tnow st = Some (r, st') \<Longrightarrow> subs_ok st \<Longrightarrow> subs_ok st'"
  by (auto simp: reset_due_tx_def dest!: statement_subs_ok dest: reset_ok subs_ok_get
      split: prod.splits option.splits if_splits)

lemma reset_due_loop_ok: "reset_due_loop env tnow cs c st = Some (x, st') \<Longrightarrow> subs_ok st \<Longrightarrow> subs_ok st'"
proof (induction cs arbitrary: c st)
  case (Cons y cs)
  obtain sid sub where y: "y = (sid, sub)" by force
  obtain r1 st1 where p: "getSubscriptionPlanByIdTx env (us_PlanId sub) st = (r1, st1)" by force
  obtain e2 st2 where s: "statement env st1 = (e2, st2)" by force
  have ok: "subs_ok st1" "subs_ok st2"
    using plan_ok [OF p] Cons.prems(2) statement_subs_ok [OF s] by (simp_all add: subs_ok_def)
  show ?case
  proof (cases "isl r1 \<or> e2 \<noteq> None")
    case True
    then show ?thesis using Cons y p s ok by (cases r1) auto
  next
    case False
    then obtain plan where r1: "r1 = Inr plan" "e2 = None" by (cases r1) auto
    obtain r3 st3 where t: "reset_due_tx env sid plan tnow st2 = Some (r3, st3)"
      using Cons.prems(1) y p s r1 by (cases "reset_due_tx env sid plan tnow st2") auto
    obtain r4 st4 where d: "end_tx env st2 (r3, st3) = (r4, st4)" by force
    have "subs_ok st4" using end_tx_ok [OF ok(2) reset_due_tx_ok [OF t ok(2)], of env r3] d by simp
    then show ?thesis using Cons.IH Cons.prems(1) y p s r1 t d by (cases r4) (auto simp: Let_def)
  qed
qed simp

lemma maintenance_within_total:
  assumes "subs_ok st"
  shows "subs_ok (snd (ExpireDueSubscriptions env lim st))"
    and "pred_option (\<lambda>(x, st'). subs_ok st') (ResetDueSubscriptions env lim st)"
proof -
  obtain e st1 where s: "statement env st = (e, st1)" by force
  have ok: "subs_ok st1" using assms statement_subs_ok [OF s] by simp
  have "pred_option (\<lambda>(x, st'). subs_ok st') (reset_due_loop env tnow cs 0 st1)" for tnow cs
    using reset_due_loop_ok [OF _ ok] by (cases "reset_due_loop env tnow cs 0 st1") auto
  then show "pred_option (\<lambda>(x, st'). subs_ok st') (ResetDueSubscriptions env lim st)"
    using ok by (cases e) (simp_all add: ResetDueSubscriptions_def Let_def s)
  have u: "subs_ok st''" if "expire_user_tx env u tnow st' = (n, r, st'')" "subs_ok st'" for u tnow st' n r st''
    using that expire_group_tables
    by (fastforce simp: expire_user_tx_def statement_def subs_ok_def sub_ok_def same_tables_def list_all_iff Let_def
        split: option.splits)
  have "subs_ok (snd (expire_users env tnow us c st'))" if "subs_ok st'" for tnow us c st'
    using that
  proof (induction us arbitrary: c st')
    case (Cons w us)
    obtain e2 st2 where s: "statement env st' = (e2, st2)" by force
    have ok2: "subs_ok st2" using Cons.prems statement_subs_ok [OF s] by simp
    obtain n r st3 where t: "expire_user_tx env w tnow st2 = (n, r, st3)" by (metis prod_cases3)
    obtain r4 st4 where d: "end_tx env st2 (r, st3) = (r4, st4)" by force
    have "subs_ok st4" using end_tx_ok [OF ok2 u [OF t ok2], of env r] d by simp
    then show ?case using Cons.IH ok2 s t d by (cases e2; cases r4) auto
  qed simp
  then show "subs_ok (snd (ExpireDueSubscriptions env lim st))"
    using ok by (cases e) (simp_all add: ExpireDueSubscriptions_def Let_def s del: expire_users.simps)
qed

end
