(* ===== verification/JS_Number.thy ===== *)
theory JS_Number
  imports JS_Prelude "HOL-Library.Log_Nat"
begin

text \<open>
  JavaScript numbers: IEEE-754 binary64 values as exact rationals with NaN and the infinities
  (the two zeros are identified). \<open>f64\<close> rounds an exact result to the nearest double, ties to even;
  the arithmetic operators are the exact operation followed by \<open>f64\<close>. \<open>str_to_num\<close> is \<open>Number(s)\<close>
  and \<open>num_to_str\<close> is \<open>String(x)\<close>. Integers up to $2^{53}$ are exact (\<open>f64_int\<close>), which is what the
  identifiers, counts and status codes of the modelled modules rely on.
\<close>

datatype jnum = NaN | Infinity bool | Fin rat

section \<open>Rounding to a double\<close>

definition ilog2 :: "rat \<Rightarrow> int" where
  "ilog2 x = (if 1 \<le> x then bitlen \<lfloor>x\<rfloor> - 1 else - bitlen (\<lceil>1 / x\<rceil> - 1))"

definition round_half_even :: "rat \<Rightarrow> int" where
  "round_half_even x =
     (let f = \<lfloor>x\<rfloor>; d = x - of_int f in
      if d < 1 / 2 then f else if d > 1 / 2 then f + 1 else if even f then f else f + 1)"

definition ulp_of :: "rat \<Rightarrow> rat" where
  "ulp_of a =
     (let e = max (-1022) (ilog2 a) - 52 in if 0 \<le> e then 2 ^ nat e else 1 / 2 ^ nat (- e))"

text \<open>Results that round to this magnitude or above overflow to an infinity.\<close>

definition f64_limit :: rat where
  "f64_limit = 2 ^ 1024"

definition f64 :: "rat \<Rightarrow> jnum" where
  "f64 x =
     (if x = 0 then Fin 0
      else let a = \<bar>x\<bar>; u = ulp_of a; y = of_int (round_half_even (a / u)) * u in
        if y \<ge> f64_limit then Infinity (x < 0) else Fin (if x < 0 then - y else y))"

lemma round_half_even_int [simp]: "round_half_even (of_int n) = n"
  by (simp add: round_half_even_def)

lemma ilog2_int:
  assumes "0 < n"
  shows "ilog2 (of_int n) = bitlen n - 1"
  using assms by (simp add: ilog2_def)

lemma ulp_divides:
  assumes "0 < n" and "n \<le> 2 ^ 53"
  shows "\<exists>k. of_int n / ulp_of (of_int n) = of_int k"
proof -
  define e where "e = bitlen n - 1"
  have b: "2 ^ nat e \<le> n" and e0: "0 \<le> e"
    using bitlen_bounds [OF assms(1)] bitlen_nonneg [of n] assms(1)
    by (auto simp: e_def bitlen_eq_zero_iff less_le)
  have "(2::int) ^ nat e \<le> 2 ^ 53" using b assms(2) by linarith
  then have "nat e \<le> 53" by (simp only: power_increasing_iff)
  then have e53: "e \<le> 53" by linarith
  have il: "ilog2 (of_int n) = e" using assms(1) by (simp add: ilog2_int e_def)
  show ?thesis
  proof (cases "e \<le> 52")
    case True
    then have "ulp_of (of_int n) = 1 / 2 ^ nat (52 - e)"
      using e0 by (auto simp: ulp_of_def il Let_def)
    then have "of_int n / ulp_of (of_int n) = of_int (n * 2 ^ nat (52 - e))" by simp
    then show ?thesis by blast
  next
    case False
    with e53 have "e = 53" by simp
    then have n: "n = 2 ^ 53" using b assms(2) by simp
    have "ulp_of (of_int n) = 2" using \<open>e = 53\<close> by (simp add: ulp_of_def il)
    then have "of_int n / ulp_of (of_int n) = of_int (2 ^ 52)" by (simp add: n)
    then show ?thesis by blast
  qed
qed

lemma ulp_pos: "0 < ulp_of a"
  by (simp add: ulp_of_def Let_def)

lemma f64_int:
  assumes "\<bar>n\<bar> \<le> 2 ^ 53"
  shows "f64 (of_int n) = Fin (of_int n)"
proof (cases "n = 0")
  case True
  then show ?thesis by (simp add: f64_def)
next
  case False
  let ?m = "\<bar>n\<bar>"
  have m: "\<bar>of_int n :: rat\<bar> = of_int ?m" by simp
  obtain k where k: "of_int ?m / ulp_of (of_int ?m) = of_int k"
    using ulp_divides [of ?m] False assms by auto
  then have y: "of_int k * ulp_of (of_int ?m) = of_int ?m"
    using ulp_pos [of "of_int ?m"] by (simp add: field_simps)
  have "(of_int ?m :: rat) \<le> 2 ^ 53" using assms by (metis of_int_le_iff of_int_numeral of_int_power)
  also have "(2 :: rat) ^ 53 < f64_limit" by (simp add: f64_limit_def)
  finally have lt: "(of_int ?m :: rat) < f64_limit" .
  have "f64 (of_int n) = (let y = of_int (round_half_even (of_int ?m / ulp_of (of_int ?m))) * ulp_of (of_int ?m) in
      if y \<ge> f64_limit then Infinity (n < 0) else Fin (if n < 0 then - y else y))"
    using False unfolding f64_def m Let_def by simp
  also have "\<dots> = Fin (if n < 0 then - of_int ?m else of_int ?m)"
    using lt unfolding k round_half_even_int y Let_def by simp
  also have "\<dots> = Fin (of_int n)" by simp
  finally show ?thesis .
qed

text \<open>The error of rounding: at most half a unit of the last of 53 binary digits, or of the smallest double.\<close>

lemma ilog2_le: "0 < a \<Longrightarrow> (if 0 \<le> ilog2 a then 2 ^ nat (ilog2 a) else 1 / 2 ^ nat (- ilog2 a)) \<le> a"
proof (cases "1 \<le> a")
  case True
  then have f: "1 \<le> \<lfloor>a\<rfloor>" by simp
  have b: "2 ^ nat (bitlen \<lfloor>a\<rfloor> - 1) \<le> \<lfloor>a\<rfloor>" using bitlen_bounds [of "\<lfloor>a\<rfloor>"] f by simp
  have "0 \<le> bitlen \<lfloor>a\<rfloor> - 1" using f bitlen_nonneg [of "\<lfloor>a\<rfloor>"] bitlen_eq_zero_iff [of "\<lfloor>a\<rfloor>"] by linarith
  moreover have "(2 :: rat) ^ nat (bitlen \<lfloor>a\<rfloor> - 1) \<le> a"
  proof -
    have "(2 :: rat) ^ nat (bitlen \<lfloor>a\<rfloor> - 1) = of_int (2 ^ nat (bitlen \<lfloor>a\<rfloor> - 1))" by simp
    also have "\<dots> \<le> of_int \<lfloor>a\<rfloor>" using b by (simp only: of_int_le_iff)
    also have "\<dots> \<le> a" by simp
    finally show ?thesis .
  qed
  ultimately show ?thesis using True by (simp add: ilog2_def)
next
  case False
  assume a: "0 < a"
  define m where "m = \<lceil>1 / a\<rceil> - 1"
  have "1 < 1 / a" using a False by (simp add: field_simps)
  then have m: "1 \<le> m" by (simp add: m_def)
  have i: "ilog2 a = - bitlen m" using False by (simp add: ilog2_def m_def)
  have p: "0 < bitlen m" using m bitlen_eq_zero_iff [of m] bitlen_nonneg [of m] by linarith
  have "m + 1 \<le> 2 ^ nat (bitlen m)" using bitlen_bounds [of m] m by simp
  then have "of_int (m + 1) \<le> (2 :: rat) ^ nat (bitlen m)" by (metis of_int_le_iff of_int_numeral of_int_power)
  moreover have "1 / a \<le> of_int (m + 1)" by (simp add: m_def)
  ultimately have "1 / a \<le> 2 ^ nat (bitlen m)" by linarith
  then show ?thesis using a i p by (simp add: field_simps)
qed

lemma ulp_le: "0 < a \<Longrightarrow> ulp_of a \<le> a / 2 ^ 52 + 1 / 2 ^ 1074"
proof -
  assume a: "0 < a"
  define i where "i = ilog2 a"
  note le = ilog2_le [OF a, folded i_def]
  have t: "0 < (1 :: rat) / 2 ^ 1074" by simp
  consider "i < - 1022" | "- 1022 \<le> i" "i < 0" | "0 \<le> i" "i < 52" | "52 \<le> i" by linarith
  then show ?thesis
  proof cases
    case 1
    then have "ulp_of a = 1 / 2 ^ 1074" by (simp add: ulp_of_def i_def)
    then show ?thesis using a by simp
  next
    case 2
    then have "ulp_of a = 1 / 2 ^ (nat (- i) + 52)" by (simp add: ulp_of_def nat_add_distrib flip: i_def)
    also have "\<dots> = (1 / 2 ^ nat (- i)) / 2 ^ 52" by (simp add: power_add)
    also have "\<dots> \<le> a / 2 ^ 52" using le 2 by (intro divide_right_mono) auto
    finally show ?thesis using t by linarith
  next
    case 3
    then have u: "ulp_of a = 1 / 2 ^ nat (52 - i)" by (simp add: ulp_of_def flip: i_def)
    have "(2 :: rat) ^ nat i * 2 ^ nat (52 - i) = 2 ^ 52" using 3 by (simp flip: power_add add: nat_add_distrib [symmetric])
    then have "ulp_of a = 2 ^ nat i / 2 ^ 52" unfolding u by (simp add: divide_eq_eq eq_divide_eq mult.commute)
    also have "\<dots> \<le> a / 2 ^ 52" using le 3 by (intro divide_right_mono) auto
    finally show ?thesis using t by linarith
  next
    case 4
    then have u: "ulp_of a = 2 ^ nat (i - 52)" by (simp add: ulp_of_def flip: i_def)
    have "nat i = nat (i - 52) + 52" using 4 by simp
    then have "(2 :: rat) ^ nat i = 2 ^ nat (i - 52) * 2 ^ 52" by (simp only: power_add)
    then have "ulp_of a = 2 ^ nat i / 2 ^ 52" unfolding u by simp
    also have "\<dots> \<le> a / 2 ^ 52" using le 4 by (intro divide_right_mono) auto
    finally show ?thesis using t by linarith
  qed
qed

lemma round_half_even_error: "\<bar>of_int (round_half_even x) - x\<bar> \<le> 1 / 2"
proof -
  have "of_int \<lfloor>x\<rfloor> \<le> x" "x < of_int \<lfloor>x\<rfloor> + 1" using floor_correct [of x] by simp_all
  then have "0 \<le> x - of_int \<lfloor>x\<rfloor>" "x - of_int \<lfloor>x\<rfloor> < 1" by simp_all
  then show ?thesis unfolding round_half_even_def Let_def abs_le_iff by (simp split: if_split) linarith
qed

lemma f64_error:
  assumes "\<bar>x\<bar> \<le> 2 ^ 1000"
  shows "\<exists>y. f64 x = Fin y \<and> \<bar>y - x\<bar> \<le> \<bar>x\<bar> / 2 ^ 53 + 1 / 2 ^ 1075"
proof (cases "x = 0")
  case False
  define u where "u = ulp_of \<bar>x\<bar>"
  define y where "y = of_int (round_half_even (\<bar>x\<bar> / u)) * u"
  have u: "0 < u" "u \<le> \<bar>x\<bar> / 2 ^ 52 + 1 / 2 ^ 1074" using ulp_pos ulp_le [of "\<bar>x\<bar>"] False by (simp_all add: u_def)
  have "y - \<bar>x\<bar> = (of_int (round_half_even (\<bar>x\<bar> / u)) - \<bar>x\<bar> / u) * u" using u(1) by (simp add: y_def left_diff_distrib)
  then have "\<bar>y - \<bar>x\<bar>\<bar> \<le> 1 / 2 * u"
    using mult_right_mono [OF round_half_even_error [of "\<bar>x\<bar> / u"], of u] u(1) by (simp add: abs_mult)
  also have "\<dots> \<le> (\<bar>x\<bar> / 2 ^ 52 + 1 / 2 ^ 1074) / 2" using u(2) by simp
  also have "\<dots> = \<bar>x\<bar> / 2 ^ 53 + 1 / 2 ^ 1075" by (simp add: add_divide_distrib)
  finally have e: "\<bar>y - \<bar>x\<bar>\<bar> \<le> \<bar>x\<bar> / 2 ^ 53 + 1 / 2 ^ 1075" .
  have "\<bar>x\<bar> / 2 ^ 53 + 1 / 2 ^ 1075 \<le> \<bar>x\<bar> + 1" by (intro add_mono) (simp_all add: divide_le_eq)
  then have "y \<le> 2 * 2 ^ 1000 + 1" using e assms by linarith
  moreover have "(2 :: rat) * 2 ^ 1000 + 1 < f64_limit" by (simp add: f64_limit_def)
  ultimately have "f64 x = Fin (if x < 0 then - y else y)"
    using False by (simp add: f64_def y_def u_def Let_def)
  moreover have "\<bar>(if x < 0 then - y else y) - x\<bar> = \<bar>y - \<bar>x\<bar>\<bar>" by (auto simp: abs_if)
  ultimately show ?thesis using e by simp
qed (simp add: f64_def)

section \<open>Arithmetic and comparison\<close>

fun num_add :: "jnum \<Rightarrow> jnum \<Rightarrow> jnum" where
  "num_add (Fin x) (Fin y) = f64 (x + y)"
| "num_add (Fin x) (Infinity b) = Infinity b"
| "num_add (Infinity b) (Fin y) = Infinity b"
| "num_add (Infinity b) (Infinity c) = (if b = c then Infinity b else NaN)"
| "num_add _ _ = NaN"

fun num_mul :: "jnum \<Rightarrow> jnum \<Rightarrow> jnum" where
  "num_mul (Fin x) (Fin y) = f64 (x * y)"
| "num_mul (Fin x) (Infinity b) = (if x = 0 then NaN else Infinity (b \<noteq> (x < 0)))"
| "num_mul (Infinity b) (Fin y) = (if y = 0 then NaN else Infinity (b \<noteq> (y < 0)))"
| "num_mul (Infinity b) (Infinity c) = Infinity (b \<noteq> c)"
| "num_mul _ _ = NaN"

text \<open>Division by zero gives an infinity; the sign of a zero divisor is taken as positive.\<close>

fun num_div :: "jnum \<Rightarrow> jnum \<Rightarrow> jnum" where
  "num_div (Fin x) (Fin y) =
     (if y = 0 then (if x = 0 then NaN else Infinity (x < 0)) else f64 (x / y))"
| "num_div (Fin x) (Infinity b) = Fin 0"
| "num_div (Infinity b) (Fin y) = Infinity (b \<noteq> (y < 0))"
| "num_div _ _ = NaN"

fun num_less :: "jnum \<Rightarrow> jnum \<Rightarrow> bool" where
  "num_less (Fin x) (Fin y) = (x < y)"
| "num_less (Fin x) (Infinity b) = (\<not> b)"
| "num_less (Infinity b) (Fin y) = b"
| "num_less (Infinity b) (Infinity c) = (b \<and> \<not> c)"
| "num_less _ _ = False"

text \<open>\<open>===\<close> on numbers: NaN is different from everything.\<close>

definition num_eq :: "jnum \<Rightarrow> jnum \<Rightarrow> bool" where
  "num_eq x y \<longleftrightarrow> x = y \<and> x \<noteq> NaN"

definition num_le :: "jnum \<Rightarrow> jnum \<Rightarrow> bool" where
  "num_le x y \<longleftrightarrow> num_less x y \<or> num_eq x y"

definition num_truthy :: "jnum \<Rightarrow> bool" where
  "num_truthy x \<longleftrightarrow> x \<noteq> NaN \<and> x \<noteq> Fin 0"

text \<open>\<open>x || 0\<close>\<close>

definition num_or0 :: "jnum \<Rightarrow> jnum" where
  "num_or0 x = (if num_truthy x then x else Fin 0)"

definition is_finite :: "jnum \<Rightarrow> bool" where
  "is_finite x \<longleftrightarrow> (\<exists>r. x = Fin r)"

lemma is_finite_code [code]: "is_finite x = (case x of Fin _ \<Rightarrow> True | _ \<Rightarrow> False)"
  by (cases x) (auto simp: is_finite_def)

definition is_integer :: "jnum \<Rightarrow> bool" where
  "is_integer x \<longleftrightarrow> (case x of Fin r \<Rightarrow> r = of_int \<lfloor>r\<rfloor> | _ \<Rightarrow> False)"

definition num_of_nat :: "nat \<Rightarrow> jnum" where
  "num_of_nat n = f64 (of_nat n)"

definition num_of_int :: "int \<Rightarrow> jnum" where
  "num_of_int n = f64 (of_int n)"

lemma num_of_int_exact: "\<bar>n\<bar> \<le> 2 ^ 53 \<Longrightarrow> num_of_int n = Fin (of_int n)"
  by (simp add: num_of_int_def f64_int)

lemma num_of_nat_exact: "n \<le> 2 ^ 53 \<Longrightarrow> num_of_nat n = Fin (of_nat n)"
proof -
  assume "n \<le> 2 ^ 53"
  then have "\<bar>int n\<bar> \<le> 2 ^ 53" by (simp only: abs_of_nat of_nat_le_iff [symmetric, where 'a = int]) simp
  from f64_int [OF this] show ?thesis by (simp add: num_of_nat_def)
qed

section \<open>Number(s)\<close>

text \<open>An unsigned decimal literal: digits, an optional fraction and an optional exponent.\<close>

definition pow10 :: "int \<Rightarrow> rat" where
  "pow10 e = (if 0 \<le> e then 10 ^ nat e else 1 / 10 ^ nat (- e))"

definition parse_exponent :: "jstring \<Rightarrow> int option" where
  "parse_exponent s =
     (case s of
        [] \<Rightarrow> Some 0
      | c # r \<Rightarrow>
          if c = 101 \<or> c = 69 then
            (let neg = (take 1 r = js ''-'');
                 ds = (if neg \<or> take 1 r = js ''+'' then drop 1 r else r) in
             if ds \<noteq> [] \<and> list_all is_digit ds
             then Some (if neg then - int (digits_val ds) else int (digits_val ds)) else None)
          else None)"

definition parse_decimal :: "jstring \<Rightarrow> rat option" where
  "parse_decimal s =
     (let ip = takeWhile is_digit s; r = dropWhile is_digit s;
          dot = (take 1 r = js ''.'');
          fp = (if dot then takeWhile is_digit (drop 1 r) else []);
          r' = (if dot then dropWhile is_digit (drop 1 r) else r) in
      if ip = [] \<and> fp = [] then None
      else map_option (\<lambda>e. of_nat (digits_val (ip @ fp)) * pow10 (e - int (length fp))) (parse_exponent r'))"

definition hex_val :: "jchar \<Rightarrow> nat option" where
  "hex_val c =
     (if 48 \<le> c \<and> c \<le> 57 then Some (c - 48)
      else if 97 \<le> c \<and> c \<le> 102 then Some (c - 87)
      else if 65 \<le> c \<and> c \<le> 70 then Some (c - 55) else None)"

fun parse_radix :: "nat \<Rightarrow> nat \<Rightarrow> jstring \<Rightarrow> nat option" where
  "parse_radix b acc [] = Some acc"
| "parse_radix b acc (c # cs) =
     (case hex_val c of Some d \<Rightarrow> if d < b then parse_radix b (b * acc + d) cs else None | None \<Rightarrow> None)"

definition parse_prefixed :: "jstring \<Rightarrow> nat option" where
  "parse_prefixed s =
     (case s of
        z # p # c # r \<Rightarrow>
          if z \<noteq> 48 then None
          else if p = 120 \<or> p = 88 then parse_radix 16 0 (c # r)
          else if p = 111 \<or> p = 79 then parse_radix 8 0 (c # r)
          else if p = 98 \<or> p = 66 then parse_radix 2 0 (c # r) else None
      | _ \<Rightarrow> None)"

definition str_to_num :: "jstring \<Rightarrow> jnum" where
  "str_to_num s =
     (let t = trim s in
      if t = [] then Fin 0
      else case parse_prefixed t of Some n \<Rightarrow> f64 (of_nat n)
      | None \<Rightarrow>
        (let neg = (take 1 t = js ''-'');
             u = (if neg \<or> take 1 t = js ''+'' then drop 1 t else t) in
         if u = js ''Infinity'' then Infinity neg
         else case parse_decimal u of None \<Rightarrow> NaN | Some x \<Rightarrow> f64 (if neg then - x else x)))"

section \<open>String(x)\<close>

text \<open>The position of the decimal point: $10^{n-1} \le x < 10^n$ for $0 < x$.\<close>

definition dec_exp :: "rat \<Rightarrow> int" where
  "dec_exp x =
     (if 1 \<le> x then int (length (nat_to_js (nat \<lfloor>x\<rfloor>)))
      else let m = nat (\<lceil>1 / x\<rceil> - 1) in 1 - int (if m = 0 then 0 else length (nat_to_js m)))"

definition nearest_candidate :: "rat \<Rightarrow> int \<Rightarrow> nat \<Rightarrow> nat option" where
  "nearest_candidate x n k =
     (let q = x / pow10 (n - int k); lo = nat \<lfloor>q\<rfloor>;
          good = filter (\<lambda>s. f64 (of_nat s * pow10 (n - int k)) = Fin x) [lo, lo + 1] in
      case good of [] \<Rightarrow> None
      | [s] \<Rightarrow> Some s
      | a # b # _ \<Rightarrow> Some (if q - of_nat a \<le> of_nat b - q then a else b))"

fun shortest_from :: "nat \<Rightarrow> nat \<Rightarrow> rat \<Rightarrow> int \<Rightarrow> nat" where
  "shortest_from 0 k x n = nat \<lfloor>x / pow10 (n - int k)\<rfloor>"
| "shortest_from (Suc fuel) k x n =
     (case nearest_candidate x n k of Some s \<Rightarrow> s | None \<Rightarrow> shortest_from fuel (Suc k) x n)"

definition pad_zeros :: "nat \<Rightarrow> jstring" where
  "pad_zeros n = replicate n 48"

text \<open>Digits \<open>ds\<close> with the decimal point after position \<open>n\<close> (Number::toString of ECMA-262).\<close>

definition place_point :: "jstring \<Rightarrow> int \<Rightarrow> jstring" where
  "place_point ds n =
     (let k = int (length ds) in
      if k \<le> n \<and> n \<le> 21 then ds @ pad_zeros (nat (n - k))
      else if 0 < n \<and> n \<le> 21 then take (nat n) ds @ js ''.'' @ drop (nat n) ds
      else if -6 < n \<and> n \<le> 0 then js ''0.'' @ pad_zeros (nat (- n)) @ ds
      else let e = n - 1;
               es = (if e < 0 then js ''-'' else js ''+'') @ nat_to_js (nat \<bar>e\<bar>) in
        (if k = 1 then ds else take 1 ds @ js ''.'' @ drop 1 ds) @ js ''e'' @ es)"

text \<open>
  An integer below $2^{53}$ in absolute value is printed with its decimal digits: no shorter digit
  string denotes the same double.
\<close>

definition pos_to_str :: "rat \<Rightarrow> jstring" where
  "pos_to_str x =
     (if x = of_int \<lfloor>x\<rfloor> \<and> x \<le> 2 ^ 53 then nat_to_js (nat \<lfloor>x\<rfloor>)
      else let n = dec_exp x in place_point (nat_to_js (shortest_from 17 1 x n)) n)"

definition num_to_str :: "jnum \<Rightarrow> jstring" where
  "num_to_str v =
     (case v of NaN \<Rightarrow> js ''NaN''
      | Infinity neg \<Rightarrow> (if neg then js ''-Infinity'' else js ''Infinity'')
      | Fin x \<Rightarrow> (if x < 0 then js ''-'' @ pos_to_str (- x) else pos_to_str x))"

lemma num_to_str_nat: "n \<le> 2 ^ 53 \<Longrightarrow> num_to_str (Fin (of_nat n)) = nat_to_js n"
proof -
  assume "n \<le> 2 ^ 53"
  then have "(of_nat n :: rat) \<le> 2 ^ 53"
    by (metis of_nat_le_iff of_nat_numeral of_nat_power)
  then show ?thesis by (simp add: num_to_str_def pos_to_str_def)
qed

end
