(* ===== verification/JS_Json.thy ===== *)
theory JS_Json
  imports JS_Number
begin

text \<open>
  JSON values, \<open>JSON.parse\<close> and \<open>JSON.stringify\<close> (compact and with an indent) of ECMA-262, and the
  operations on plain objects the modules use. An object is the list of its own properties in
  \<open>Object.keys\<close> order: array-index keys ascending, then the other keys in insertion order
  (\<open>obj_put\<close>, \<open>canon_keys\<close>). The parser is a recursive descent over a fuel of twice the length of
  the text plus one, which is always enough (\<open>p_value_fuel\<close>): every nested call has consumed a
  character. \<open>parse_stringify\<close> is the round trip for values whose numbers print faithfully (\<open>num_ok\<close>).
\<close>

datatype json =
    JNull
  | JBool bool
  | JNum jnum
  | JStr jstring
  | JArr "json list"
  | JObj "(jstring \<times> json) list"

type_synonym jobject = "(jstring \<times> json) list"

section \<open>Objects\<close>

definition is_array_index :: "jstring \<Rightarrow> bool" where
  "is_array_index k \<longleftrightarrow>
     k \<noteq> [] \<and> list_all is_digit k \<and> (hd k \<noteq> 48 \<or> length k = 1) \<and> digits_val k < 4294967295"

fun insert_index :: "jstring \<Rightarrow> 'v \<Rightarrow> (jstring \<times> 'v) list \<Rightarrow> (jstring \<times> 'v) list" where
  "insert_index k v [] = [(k, v)]"
| "insert_index k v ((k', v') # o') =
     (if is_array_index k' \<and> digits_val k' < digits_val k then (k', v') # insert_index k v o'
      else (k, v) # (k', v') # o')"

definition obj_put :: "jstring \<Rightarrow> 'v \<Rightarrow> (jstring \<times> 'v) list \<Rightarrow> (jstring \<times> 'v) list" where
  "obj_put k v kvs =
     (if k \<in> fst ` set kvs then map (\<lambda>(k', v'). if k' = k then (k, v) else (k', v')) kvs
      else if is_array_index k then insert_index k v kvs else kvs @ [(k, v)])"

definition obj_of :: "(jstring \<times> 'v) list \<Rightarrow> (jstring \<times> 'v) list" where
  "obj_of kvs = foldl (\<lambda>ob (k, v). obj_put k v ob) [] kvs"

definition canon_keys :: "jstring list \<Rightarrow> bool" where
  "canon_keys ks \<longleftrightarrow>
     distinct ks \<and> sorted_wrt (\<lambda>a b. is_array_index b \<longrightarrow> is_array_index a \<and> digits_val a < digits_val b) ks"

lemma obj_put_new:
  assumes "canon_keys (map fst kvs @ [k])"
  shows "obj_put k v kvs = kvs @ [(k, v)]"
proof -
  have n: "k \<notin> fst ` set kvs" using assms by (auto simp: canon_keys_def)
  show ?thesis
  proof (cases "is_array_index k")
    case True
    then have "\<forall>a \<in> set (map fst kvs). is_array_index a \<and> digits_val a < digits_val k"
      using assms by (auto simp: canon_keys_def sorted_wrt_append)
    then have "insert_index k v kvs = kvs @ [(k, v)]" by (induction kvs) auto
    then show ?thesis using n True by (simp add: obj_put_def)
  qed (use n in \<open>simp add: obj_put_def\<close>)
qed

lemma obj_of_canon: "canon_keys (map fst kvs) \<Longrightarrow> obj_of kvs = kvs"
proof (induction kvs rule: rev_induct)
  case (snoc kv kvs)
  obtain k v where kv: "kv = (k, v)" by fastforce
  have c: "canon_keys (map fst kvs)" using snoc.prems by (auto simp: canon_keys_def sorted_wrt_append)
  have "obj_of (kvs @ [kv]) = obj_put k v (obj_of kvs)" by (simp add: obj_of_def kv)
  also have "\<dots> = kvs @ [kv]" using snoc.IH [OF c] snoc.prems kv by (simp add: obj_put_new)
  finally show ?case .
qed (simp add: obj_of_def)

lemma canon_keys_words: "distinct ks \<Longrightarrow> \<forall>k \<in> set ks. \<not> is_array_index k \<Longrightarrow> canon_keys ks"
  unfolding canon_keys_def by (induction ks) auto

text \<open>\<open>o.k\<close>, with \<open>None\<close> for undefined.\<close>

definition obj_get :: "jstring \<Rightarrow> (jstring \<times> 'v) list \<Rightarrow> 'v option" where
  "obj_get k kvs = map_of kvs k"

text \<open>
  An object built by a sequence of assignments to different properties, each under a condition:
  \<open>if (b) payload.k = v\<close>.
\<close>

definition assign_fields :: "(bool \<times> jstring \<times> 'v) list \<Rightarrow> (jstring \<times> 'v) list" where
  "assign_fields fs = map snd (filter fst fs)"

lemma obj_get_assign [simp]:
  "obj_get k (assign_fields []) = None"
  "obj_get k (assign_fields ((b, k', v) # fs)) = (if b \<and> k = k' then Some v else obj_get k (assign_fields fs))"
  by (auto simp: assign_fields_def obj_get_def)

lemma obj_get_simps [simp]:
  "obj_get k [] = None"
  "obj_get k ((k', v) # kvs) = (if k = k' then Some v else obj_get k kvs)"
  by (auto simp: obj_get_def)

lemma obj_get_put [simp]: "obj_get k (obj_put k' v kvs) = (if k = k' then Some v else obj_get k kvs)"
proof -
  let ?r = "map (\<lambda>(a, b). if a = k' then (k', v) else (a, b)) kvs"
  have m: "map_of ?r k = (if k = k' then map_option (\<lambda>_. v) (map_of kvs k) else map_of kvs k)"
    by (induction kvs) auto
  have i: "k' \<notin> fst ` set kvs \<Longrightarrow> map_of (insert_index k' v kvs) k = (if k = k' then Some v else map_of kvs k)"
    by (induction kvs) auto
  have n: "k' \<notin> fst ` set kvs \<Longrightarrow> map_of kvs k' = None" by (simp add: map_of_eq_None_iff)
  have s: "k' \<in> fst ` set kvs \<Longrightarrow> \<exists>x. map_of kvs k' = Some x" by (metis map_of_eq_None_iff not_None_eq)
  show ?thesis
  proof (cases "k' \<in> fst ` set kvs")
    case True
    then show ?thesis using m s [OF True] by (auto simp del: image_iff simp: obj_put_def obj_get_def)
  next
    case False
    then show ?thesis using i [OF False] n [OF False]
      by (auto simp: obj_put_def obj_get_def map_add_def split: option.split)
  qed
qed

lemma assign_keys:
  assumes "distinct (map (fst \<circ> snd) fs)" and "list_all (\<lambda>f. \<not> is_array_index (fst (snd f))) fs"
  shows "canon_keys (map fst (assign_fields fs))"
proof (rule canon_keys_words)
  show "distinct (map fst (assign_fields fs))"
    using assms(1) by (induction fs) (auto simp: assign_fields_def)
  show "\<forall>k \<in> set (map fst (assign_fields fs)). \<not> is_array_index k"
    using assms(2) by (auto simp: assign_fields_def list_all_iff)
qed

section \<open>JSON.parse\<close>

definition json_ws :: "jchar \<Rightarrow> bool" where
  "json_ws c \<longleftrightarrow> c = 9 \<or> c = 10 \<or> c = 13 \<or> c = 32"

definition skip :: "jstring \<Rightarrow> jstring" where
  "skip s = dropWhile json_ws s"

definition hex4_val :: "jchar \<Rightarrow> jchar \<Rightarrow> jchar \<Rightarrow> jchar \<Rightarrow> nat option" where
  "hex4_val a b c d =
     (case (hex_val a, hex_val b, hex_val c, hex_val d) of
        (Some p, Some q, Some r, Some s) \<Rightarrow> Some (4096 * p + 256 * q + 16 * r + s)
      | _ \<Rightarrow> None)"

definition unescape :: "jchar \<Rightarrow> jchar option" where
  "unescape e =
     (if e = 34 \<or> e = 92 \<or> e = 47 then Some e
      else if e = 98 then Some 8 else if e = 102 then Some 12 else if e = 110 then Some 10
      else if e = 114 then Some 13 else if e = 116 then Some 9 else None)"

text \<open>The characters of a string literal after its opening quote.\<close>

fun p_string :: "jstring \<Rightarrow> (jstring \<times> jstring) option" where
  "p_string [] = None"
| "p_string (c # r) =
     (if c = 34 then Some ([], r)
      else if c = 92 then
        (case r of [] \<Rightarrow> None
         | e # r1 \<Rightarrow>
             if e = 117 then
               (case r1 of
                  h1 # h2 # h3 # h4 # r2 \<Rightarrow>
                    (case hex4_val h1 h2 h3 h4 of
                       Some u \<Rightarrow> map_option (apfst (Cons u)) (p_string r2) | None \<Rightarrow> None)
                | _ \<Rightarrow> None)
             else (case unescape e of
                     Some u \<Rightarrow> map_option (apfst (Cons u)) (p_string r1) | None \<Rightarrow> None))
      else if c < 32 then None
      else map_option (apfst (Cons c)) (p_string r))"

definition num_char :: "jchar \<Rightarrow> bool" where
  "num_char c \<longleftrightarrow> is_digit c \<or> c = 43 \<or> c = 45 \<or> c = 46 \<or> c = 69 \<or> c = 101"

text \<open>The JSON number grammar; its value is the one \<open>Number\<close> gives the same text.\<close>

definition json_number :: "jstring \<Rightarrow> jnum option" where
  "json_number t =
     (let u = (if take 1 t = js ''-'' then drop 1 t else t);
          ip = takeWhile is_digit u; r = dropWhile is_digit u;
          dot = (take 1 r = js ''.'');
          fp = (if dot then takeWhile is_digit (drop 1 r) else []);
          r' = (if dot then dropWhile is_digit (drop 1 r) else r) in
      if ip = [] \<or> (hd ip = 48 \<and> length ip > 1) \<or> (dot \<and> fp = []) \<or> parse_exponent r' = None then None
      else Some (str_to_num t))"

definition p_number :: "jstring \<Rightarrow> (json \<times> jstring) option" where
  "p_number s =
     map_option (\<lambda>x. (JNum x, dropWhile num_char s)) (json_number (takeWhile num_char s))"

fun p_value :: "nat \<Rightarrow> jstring \<Rightarrow> (json \<times> jstring) option"
and p_elems :: "nat \<Rightarrow> jstring \<Rightarrow> (json list \<times> jstring) option"
and p_members :: "nat \<Rightarrow> jstring \<Rightarrow> (jobject \<times> jstring) option" where
  "p_value 0 s = None"
| "p_value (Suc n) s =
     (case skip s of [] \<Rightarrow> None
      | c # r \<Rightarrow>
          if c = 123 then
            (if take 1 (skip r) = [125] then Some (JObj [], drop 1 (skip r))
             else map_option (\<lambda>(kvs, t). (JObj (obj_of kvs), t)) (p_members n r))
          else if c = 91 then
            (if take 1 (skip r) = [93] then Some (JArr [], drop 1 (skip r))
             else map_option (\<lambda>(vs, t). (JArr vs, t)) (p_elems n r))
          else if c = 34 then map_option (\<lambda>(t, r'). (JStr t, r')) (p_string r)
          else if starts_with (js ''true'') (c # r) then Some (JBool True, drop 3 r)
          else if starts_with (js ''false'') (c # r) then Some (JBool False, drop 4 r)
          else if starts_with (js ''null'') (c # r) then Some (JNull, drop 3 r)
          else p_number (c # r))"
| "p_elems 0 s = None"
| "p_elems (Suc n) s =
     (case p_value n s of None \<Rightarrow> None
      | Some (v, r) \<Rightarrow>
          (case skip r of [] \<Rightarrow> None
           | c # r' \<Rightarrow>
               if c = 44 then map_option (apfst (Cons v)) (p_elems n r')
               else if c = 93 then Some ([v], r') else None))"
| "p_members 0 s = None"
| "p_members (Suc n) s =
     (case skip s of [] \<Rightarrow> None
      | q # r \<Rightarrow>
          if q \<noteq> 34 then None
          else (case p_string r of None \<Rightarrow> None
            | Some (k, r1) \<Rightarrow>
                if take 1 (skip r1) \<noteq> [58] then None
                else (case p_value n (drop 1 (skip r1)) of None \<Rightarrow> None
                  | Some (v, r2) \<Rightarrow>
                      (case skip r2 of [] \<Rightarrow> None
                       | c # r' \<Rightarrow>
                           if c = 44 then map_option (apfst (Cons (k, v))) (p_members n r')
                           else if c = 125 then Some ([(k, v)], r') else None))))"

definition JSON_parse :: "jstring \<Rightarrow> json option" where
  "JSON_parse s =
     (case p_value (2 * length s + 1) s of
        None \<Rightarrow> None
      | Some (v, r) \<Rightarrow> if skip r = [] then Some v else None)"

section \<open>JSON.stringify\<close>

definition hex_digit :: "nat \<Rightarrow> jchar" where
  "hex_digit d = (if d < 10 then 48 + d else 87 + d)"

definition u_escape :: "jchar \<Rightarrow> jstring" where
  "u_escape c =
     [92, 117, hex_digit (c div 4096 mod 16), hex_digit (c div 256 mod 16), hex_digit (c div 16 mod 16), hex_digit (c mod 16)]"

definition escape_char :: "jchar \<Rightarrow> jstring" where
  "escape_char c =
     (if c = 34 then [92, 34] else if c = 92 then [92, 92]
      else if c = 8 then [92, 98] else if c = 12 then [92, 102] else if c = 10 then [92, 110]
      else if c = 13 then [92, 114] else if c = 9 then [92, 116]
      else if c < 32 then u_escape c else [c])"

definition is_lead :: "jchar \<Rightarrow> bool" where
  "is_lead c \<longleftrightarrow> 55296 \<le> c \<and> c \<le> 56319"

definition is_trail :: "jchar \<Rightarrow> bool" where
  "is_trail c \<longleftrightarrow> 56320 \<le> c \<and> c \<le> 57343"

text \<open>A surrogate that is not part of a pair is written as an escape.\<close>

fun quote_body :: "jstring \<Rightarrow> jstring" where
  "quote_body [] = []"
| "quote_body [c] = (if is_lead c \<or> is_trail c then u_escape c else escape_char c)"
| "quote_body (c # d # r) =
     (if is_lead c \<and> is_trail d then c # d # quote_body r
      else (if is_lead c \<or> is_trail c then u_escape c else escape_char c) @ quote_body (d # r))"

definition quote :: "jstring \<Rightarrow> jstring" where
  "quote s = 34 # quote_body s @ [34]"

definition nl :: "jstring \<Rightarrow> jstring \<Rightarrow> jstring" where
  "nl gap ind = (if gap = [] then [] else 10 # ind)"

definition colon :: "jstring \<Rightarrow> jstring" where
  "colon gap = (if gap = [] then [58] else [58, 32])"

fun ser :: "jstring \<Rightarrow> jstring \<Rightarrow> json \<Rightarrow> jstring" where
  "ser gap ind JNull = js ''null''"
| "ser gap ind (JBool b) = (if b then js ''true'' else js ''false'')"
| "ser gap ind (JNum x) = (case x of Fin _ \<Rightarrow> num_to_str x | _ \<Rightarrow> js ''null'')"
| "ser gap ind (JStr s) = quote s"
| "ser gap ind (JArr vs) =
     (if vs = [] then js ''[]''
      else 91 # nl gap (ind @ gap) @ join_with (44 # nl gap (ind @ gap)) (map (ser gap (ind @ gap)) vs) @
           nl gap ind @ [93])"
| "ser gap ind (JObj kvs) =
     (if kvs = [] then js ''{}''
      else 123 # nl gap (ind @ gap) @
           join_with (44 # nl gap (ind @ gap))
             (map (\<lambda>kv. quote (fst kv) @ colon gap @ ser gap (ind @ gap) (snd kv)) kvs) @
           nl gap ind @ [125])"

text \<open>\<open>JSON.stringify(v)\<close> and \<open>JSON.stringify(v, null, 2)\<close>.\<close>

definition JSON_stringify :: "json \<Rightarrow> jstring" where
  "JSON_stringify v = ser [] [] v"

definition JSON_pretty :: "json \<Rightarrow> jstring" where
  "JSON_pretty v = ser [32, 32] [] v"

section \<open>Conversions of JSON values\<close>

definition json_truthy :: "json \<Rightarrow> bool" where
  "json_truthy v =
     (case v of JNull \<Rightarrow> False | JBool b \<Rightarrow> b | JNum x \<Rightarrow> num_truthy x | JStr s \<Rightarrow> s \<noteq> []
      | JArr _ \<Rightarrow> True | JObj _ \<Rightarrow> True)"

text \<open>\<open>String(v)\<close>: an array joins its elements with commas, null elements as empty strings.\<close>

fun json_to_str :: "json \<Rightarrow> jstring" where
  "json_to_str JNull = js ''null''"
| "json_to_str (JBool b) = (if b then js ''true'' else js ''false'')"
| "json_to_str (JNum x) = num_to_str x"
| "json_to_str (JStr s) = s"
| "json_to_str (JArr vs) = join_with (js '','') (map (\<lambda>v. if v = JNull then [] else json_to_str v) vs)"
| "json_to_str (JObj kvs) = js ''[object Object]''"

text \<open>\<open>Number(v)\<close>\<close>

definition json_to_num :: "json \<Rightarrow> jnum" where
  "json_to_num v =
     (case v of JNull \<Rightarrow> Fin 0 | JBool b \<Rightarrow> Fin (if b then 1 else 0) | JNum x \<Rightarrow> x
      | JStr s \<Rightarrow> str_to_num s | JArr _ \<Rightarrow> str_to_num (json_to_str v) | JObj _ \<Rightarrow> NaN)"

text \<open>The same on a property that may be undefined.\<close>

definition opt_truthy :: "json option \<Rightarrow> bool" where
  "opt_truthy v = (case v of None \<Rightarrow> False | Some w \<Rightarrow> json_truthy w)"

text \<open>\<open>String(v || '')\<close>\<close>

definition str_or_empty :: "json option \<Rightarrow> jstring" where
  "str_or_empty v = (case v of Some w \<Rightarrow> if json_truthy w then json_to_str w else [] | None \<Rightarrow> [])"

text \<open>\<open>typeof v === 'string' ? v : ''\<close>\<close>

definition string_or_empty :: "json option \<Rightarrow> jstring" where
  "string_or_empty v = (case v of Some (JStr s) \<Rightarrow> s | _ \<Rightarrow> [])"


text \<open>The entries that spreading a value copies: those of an object, the items of an array, the units of a string.\<close>

definition spread :: "json \<Rightarrow> jobject" where
  "spread v =
     (case v of
        JObj kvs \<Rightarrow> kvs
      | JArr vs \<Rightarrow> map (\<lambda>(i, x). (nat_to_js i, x)) (List.enumerate 0 vs)
      | JStr cs \<Rightarrow> map (\<lambda>(i, c). (nat_to_js i, JStr [c])) (List.enumerate 0 cs)
      | _ \<Rightarrow> [])"

section \<open>The parser consumes its input; the fuel is enough\<close>

lemma length_skip: "length (skip s) \<le> length s"
  by (simp add: skip_def length_dropWhile_le)

lemma skip_Cons_length: "skip s = c # r \<Longrightarrow> length r < length s"
  using length_skip [of s] by simp

lemma p_string_length: "p_string s = Some (t, r) \<Longrightarrow> length r < length s"
proof (induction s arbitrary: t rule: p_string.induct)
  case (2 c r')
  then show ?case
    by (fastforce split: if_splits list.splits option.splits)
qed simp

lemma json_number_ne: "json_number t = Some x \<Longrightarrow> t \<noteq> []"
  by (auto simp: json_number_def Let_def split: if_splits)

lemma p_number_length: "p_number s = Some (v, r) \<Longrightarrow> length r < length s"
proof -
  assume p: "p_number s = Some (v, r)"
  then have "takeWhile num_char s \<noteq> []" and r: "r = dropWhile num_char s"
    using json_number_ne by (auto simp: p_number_def)
  moreover have "length s = length (takeWhile num_char s) + length (dropWhile num_char s)"
    by (metis length_append takeWhile_dropWhile_id)
  ultimately show ?thesis by (cases "takeWhile num_char s") auto
qed

lemma p_length:
  "p_value n s = Some (v, r) \<Longrightarrow> length r < length s"
  "p_elems n s = Some (vs, r) \<Longrightarrow> length r < length s"
  "p_members n s = Some (kvs, r) \<Longrightarrow> length r < length s"
proof (induction n s and n s and n s arbitrary: v r and vs r and kvs r
    rule: p_value_p_elems_p_members.induct)
  case (2 n s)
  obtain c t where ct: "skip s = c # t" using "2.prems" by (cases "skip s") auto
  have l: "length t < length s" "length (skip t) \<le> length t"
    using skip_Cons_length [OF ct] length_skip by auto
  have d: "length (drop k (skip t)) < length s" "length (drop k t) < length s" for k
    using l by simp_all
  show ?case
  proof (cases "c = 123 \<or> c = 91 \<or> c = 34")
    case True
    then show ?thesis
      using 2 ct l d p_string_length [of t]
      by (fastforce split: if_splits)
  next
    case False
    then show ?thesis
      using 2 ct l d p_number_length [of "c # t" v r]
      by (auto split: if_splits)
  qed
next
  case (4 n s)
  then show ?case
    by (fastforce split: if_splits option.splits list.splits dest!: skip_Cons_length)
next
  case (6 n s)
  from "6.prems" obtain r0 k r1 where k: "skip s = 34 # r0" "p_string r0 = Some (k, r1)"
    and col: "take 1 (skip r1) = [58]"
    by (auto split: list.splits if_splits option.splits)
  with "6.prems" obtain v r2 c r' where v: "p_value n (drop 1 (skip r1)) = Some (v, r2)"
    and c: "skip r2 = c # r'"
    by (auto split: list.splits if_splits option.splits)
  have "length r2 < length (drop 1 (skip r1))"
    using "6.IH"(1) k col v by simp
  moreover have "length (drop 1 (skip r1)) \<le> length r1" using length_skip [of r1] by simp
  ultimately have l: "length r' < length s"
    using skip_Cons_length [OF k(1)] p_string_length [OF k(2)] skip_Cons_length [OF c] by linarith
  show ?case
  proof (cases "c = 44")
    case True
    then obtain kvs' where m: "p_members n r' = Some (kvs', r)"
      using "6.prems" k col v c by auto
    have "length r < length r'" using "6.IH"(2) k col v c True m by simp
    with l show ?thesis by simp
  next
    case False
    with "6.prems" k col v c have "r = r'" by (simp split: if_splits)
    with l show ?thesis by simp
  qed
qed auto

text \<open>Fuel of twice the length plus one (plus two for a list of elements) changes nothing any more.\<close>

lemma p_fuel_step:
  "(\<forall>s. 2 * length s + 1 \<le> n \<longrightarrow> p_value (Suc n) s = p_value n s) \<and>
   (\<forall>s. 2 * length s + 2 \<le> n \<longrightarrow> p_elems (Suc n) s = p_elems n s) \<and>
   (\<forall>s. 2 * length s + 2 \<le> n \<longrightarrow> p_members (Suc n) s = p_members n s)"
proof (induction n)
  case 0
  then show ?case by simp
next
  case (Suc n)
  have val: "p_value (Suc n) s = p_value n s" if "2 * length s + 1 \<le> n" for s
    using Suc that by blast
  have ele: "p_elems (Suc n) s = p_elems n s" if "2 * length s + 2 \<le> n" for s
    using Suc that by blast
  have mem: "p_members (Suc n) s = p_members n s" if "2 * length s + 2 \<le> n" for s
    using Suc that by blast
  have "p_value (Suc (Suc n)) s = p_value (Suc n) s" if l: "2 * length s + 1 \<le> Suc n" for s
  proof (cases "skip s")
    case (Cons c r)
    then have "2 * length r + 2 \<le> n" using skip_Cons_length [OF Cons] l by simp
    then show ?thesis
      using ele mem by (simp only: p_value.simps(2) [of _ s] Cons list.case cong: if_cong)
  qed simp
  moreover have "p_elems (Suc (Suc n)) s = p_elems (Suc n) s" if l: "2 * length s + 2 \<le> Suc n" for s
  proof -
    have v: "p_value (Suc n) s = p_value n s" using val l by simp
    show ?thesis
    proof (cases "p_value n s")
      case (Some vr)
      obtain v r where vr: "vr = (v, r)" by fastforce
      show ?thesis
      proof (cases "skip r")
        case (Cons c r')
        have "2 * length r' + 2 \<le> n"
          using p_length(1) [OF Some [unfolded vr]] skip_Cons_length [OF Cons] l by simp
        then show ?thesis by (simp only: p_elems.simps(2) [of _ s] v Some vr option.case prod.case Cons list.case ele)
      qed (simp only: p_elems.simps(2) [of _ s] v Some vr option.case prod.case list.case)
    qed (simp only: p_elems.simps(2) [of _ s] v option.case)
  qed
  moreover have "p_members (Suc (Suc n)) s = p_members (Suc n) s" if l: "2 * length s + 2 \<le> Suc n" for s
  proof (cases "skip s")
    case sk: (Cons q r)
    show ?thesis
    proof (cases "p_string r")
      case ps: (Some kr)
      obtain k r1 where kr: "kr = (k, r1)" by fastforce
      have l1: "length (drop 1 (skip r1)) + 2 \<le> length s"
        using p_string_length [OF ps [unfolded kr]] skip_Cons_length [OF sk] length_skip [of r1] by simp
      have v: "p_value (Suc n) (drop 1 (skip r1)) = p_value n (drop 1 (skip r1))"
        using val l l1 by simp
      show ?thesis
      proof (cases "p_value n (drop 1 (skip r1))")
        case (Some vr)
        obtain v r2 where vr: "vr = (v, r2)" by fastforce
        show ?thesis
        proof (cases "skip r2")
          case (Cons c r')
          have "2 * length r' + 2 \<le> n"
            using p_length(1) [OF Some [unfolded vr]] skip_Cons_length [OF Cons] l l1 by simp
          then show ?thesis
            by (simp only: p_members.simps(2) [of _ s] sk ps kr list.case option.case prod.case v Some vr Cons mem)
        qed (simp only: p_members.simps(2) [of _ s] sk ps kr list.case option.case prod.case v Some vr)
      qed (simp only: p_members.simps(2) [of _ s] sk ps kr list.case option.case prod.case v)
    qed (simp only: p_members.simps(2) [of _ s] sk list.case option.case)
  qed simp
  ultimately show ?case by blast
qed

lemma p_value_fuel: "p_value (2 * length s + 1 + k) s = p_value (2 * length s + 1) s"
proof (induction k)
  case (Suc k)
  then show ?case using p_fuel_step [of "2 * length s + 1 + k"] by (simp del: p_value.simps)
qed simp

section \<open>Strings round-trip\<close>

definition units :: "jstring \<Rightarrow> bool" where
  "units s \<longleftrightarrow> (\<forall>c \<in> set s. c < 65536)"

lemma units_simps [simp]: "units []" "units (c # s) \<longleftrightarrow> c < 65536 \<and> units s" "units (s @ t) \<longleftrightarrow> units s \<and> units t"
  by (auto simp: units_def)

lemma hex_val_digit: "d < 16 \<Longrightarrow> hex_val (hex_digit d) = Some d"
  by (auto simp: hex_val_def hex_digit_def)

lemma hex4_decomp:
  "4096 * (c div 4096) + 256 * (c div 256 mod 16) + 16 * (c div 16 mod 16) + c mod 16 = (c::nat)"
proof -
  have "c div 256 = 16 * (c div 4096) + c div 256 mod 16"
    using mult_div_mod_eq [of 16 "c div 256"] by (simp add: div_mult2_eq [symmetric])
  moreover have "c div 16 = 16 * (c div 256) + c div 16 mod 16"
    using mult_div_mod_eq [of 16 "c div 16"] by (simp add: div_mult2_eq [symmetric])
  moreover have "c = 16 * (c div 16) + c mod 16" by simp
  ultimately show ?thesis by linarith
qed

lemma p_string_u_escape:
  "c < 65536 \<Longrightarrow> p_string (u_escape c @ t) = map_option (apfst (Cons c)) (p_string t)"
proof -
  assume "c < 65536"
  then have "c div 4096 < 16" by (simp add: less_mult_imp_div_less)
  then have "hex4_val (hex_digit (c div 4096 mod 16)) (hex_digit (c div 256 mod 16))
      (hex_digit (c div 16 mod 16)) (hex_digit (c mod 16)) = Some c"
    by (simp add: hex4_val_def hex_val_digit hex4_decomp)
  then show ?thesis by (simp add: u_escape_def)
qed

lemma p_string_escape_char:
  "c < 65536 \<Longrightarrow> p_string (escape_char c @ t) = map_option (apfst (Cons c)) (p_string t)"
  using p_string_u_escape [of c t] by (auto simp: escape_char_def unescape_def)

lemma p_string_quote_body:
  "units s \<Longrightarrow> p_string (quote_body s @ 34 # rest) = Some (s, rest)"
proof (induction s rule: quote_body.induct)
  case (3 c d r)
  show ?case
  proof (cases "is_lead c \<and> is_trail d")
    case True
    then have "c > 92" "d > 92" by (auto simp: is_lead_def is_trail_def)
    with True 3 show ?thesis by simp
  qed (use 3 in \<open>auto simp: p_string_u_escape p_string_escape_char\<close>)
qed (auto simp: p_string_u_escape p_string_escape_char)

section \<open>Safe integers round-trip\<close>

definition safe_num :: "jnum \<Rightarrow> bool" where
  "safe_num x = (case x of Fin r \<Rightarrow> r = of_int \<lfloor>r\<rfloor> \<and> \<bar>r\<bar> \<le> 2 ^ 53 | _ \<Rightarrow> False)"

lemma safe_num_int: "safe_num x \<Longrightarrow> \<exists>i. x = Fin (of_int i) \<and> \<bar>i\<bar> \<le> 2 ^ 53"
proof (cases x)
  case (Fin r)
  assume "safe_num x"
  then have r: "r = of_int \<lfloor>r\<rfloor>" and "\<bar>r\<bar> \<le> 2 ^ 53" using Fin by (auto simp: safe_num_def)
  then have "of_int \<bar>\<lfloor>r\<rfloor>\<bar> \<le> (of_int (2 ^ 53) :: rat)" by (metis of_int_abs of_int_numeral of_int_power)
  then have "\<bar>\<lfloor>r\<rfloor>\<bar> \<le> 2 ^ 53" by (simp only: of_int_le_iff)
  then show ?thesis using r Fin by auto
qed (auto simp: safe_num_def)

definition int_to_js :: "int \<Rightarrow> jstring" where
  "int_to_js i = (if i < 0 then 45 # nat_to_js (nat (- i)) else nat_to_js (nat i))"

lemma num_to_str_int: "\<bar>i\<bar> \<le> 2 ^ 53 \<Longrightarrow> num_to_str (Fin (of_int i)) = int_to_js i"
proof -
  assume a: "\<bar>i\<bar> \<le> 2 ^ 53"
  have p: "pos_to_str (of_int j) = nat_to_js (nat j)" if "0 \<le> j" "j \<le> 2 ^ 53" for j
  proof -
    have "(of_int j :: rat) \<le> 2 ^ 53" using that by (metis of_int_le_iff of_int_numeral of_int_power)
    then show ?thesis by (simp add: pos_to_str_def)
  qed
  show ?thesis
    using p [of i] p [of "- i"] a by (auto simp: num_to_str_def int_to_js_def js_def)
qed

lemma nat_to_js_hd: "0 < n \<Longrightarrow> hd (nat_to_js n) \<noteq> 48"
proof (induction n rule: nat_to_js.induct)
  case (1 n)
  then show ?case by (cases "n < 10") (auto simp: nat_to_js.simps [of n])
qed

lemma nat_to_js_zero: "hd (nat_to_js n) = 48 \<Longrightarrow> length (nat_to_js n) = 1"
  using nat_to_js_hd [of n] by (cases "n = 0") (auto simp: nat_to_js.simps [of 0])

lemma takeWhile_digits: "takeWhile is_digit (nat_to_js n) = nat_to_js n" "dropWhile is_digit (nat_to_js n) = []"
  using nat_to_js_digits by (auto simp: takeWhile_eq_all_conv dropWhile_eq_Nil_conv)

lemma take1_digits: "take 1 (nat_to_js n) = [d] \<Longrightarrow> is_digit d"
  using nat_to_js_digits [of n] by (cases "nat_to_js n") auto

lemma nat_to_js_no_sign: "take 1 (nat_to_js n) \<noteq> js ''-''" "take 1 (nat_to_js n) \<noteq> js ''+''"
  using take1_digits [of n] by (auto simp: js_def is_digit_def)

lemmas nat_to_js_no_sign' [simp] = nat_to_js_no_sign [simplified]

lemma parse_prefixed_digits:
  "parse_prefixed (nat_to_js n) = None" "parse_prefixed (45 # s) = None"
proof -
  have "\<not> (\<exists>p c r. nat_to_js n = 48 # p # c # r)" using nat_to_js_zero [of n] by auto
  then show "parse_prefixed (nat_to_js n) = None"
    by (auto simp: parse_prefixed_def split: list.splits if_splits)
qed (auto simp: parse_prefixed_def split: list.splits)

lemma parse_decimal_digits: "parse_decimal (nat_to_js n) = Some (of_nat n)"
  by (simp add: parse_decimal_def takeWhile_digits js_def parse_exponent_def pow10_def)

lemma digits_not_Infinity: "nat_to_js n \<noteq> js ''Infinity''"
  using nat_to_js_digits [of n] by (auto simp: js_def is_digit_def)

lemma str_to_num_int: "\<bar>i\<bar> \<le> 2 ^ 53 \<Longrightarrow> str_to_num (int_to_js i) = Fin (of_int i)"
proof (cases "i < 0")
  case True
  assume a: "\<bar>i\<bar> \<le> 2 ^ 53"
  have t: "trim (45 # nat_to_js n) = 45 # nat_to_js n" for n
    using nat_to_js_no_ws by (intro trim_no_ws) auto
  show ?thesis
    using True f64_int [OF a]
    by (simp add: str_to_num_def int_to_js_def t parse_prefixed_digits js_def Let_def
        parse_decimal_digits digits_not_Infinity [unfolded js_def, simplified])
next
  case False
  assume a: "\<bar>i\<bar> \<le> 2 ^ 53"
  show ?thesis
    using False f64_int [OF a]
    by (simp add: str_to_num_def int_to_js_def parse_prefixed_digits nat_to_js_no_sign Let_def
        parse_decimal_digits digits_not_Infinity)
qed

lemma json_number_int: "\<bar>i\<bar> \<le> 2 ^ 53 \<Longrightarrow> json_number (int_to_js i) = Some (Fin (of_int i))"
proof -
  assume a: "\<bar>i\<bar> \<le> 2 ^ 53"
  obtain n where n: "(if take 1 (int_to_js i) = js ''-'' then drop 1 (int_to_js i) else int_to_js i) = nat_to_js n"
    using nat_to_js_no_sign(1) [of "nat i"] by (cases "i < 0") (simp_all add: int_to_js_def js_def)
  show ?thesis
    using nat_to_js_zero [of n] str_to_num_int [OF a]
    unfolding json_number_def n by (auto simp: Let_def takeWhile_digits js_def parse_exponent_def)
qed

lemma int_to_js_num_chars: "c \<in> set (int_to_js i) \<Longrightarrow> num_char c"
  using nat_to_js_digits by (auto simp: int_to_js_def num_char_def split: if_splits)

text \<open>
  A number that \<open>JSON.stringify\<close> prints so that \<open>JSON.parse\<close> reads it back; safe integers are such
  numbers, and a given double is checked by evaluation.
\<close>

definition num_ok :: "jnum \<Rightarrow> bool" where
  "num_ok x \<longleftrightarrow> is_finite x \<and> num_to_str x \<noteq> [] \<and> list_all num_char (num_to_str x) \<and>
     json_number (num_to_str x) = Some x"

lemma safe_num_ok: "safe_num x \<Longrightarrow> num_ok x"
proof -
  assume "safe_num x"
  then obtain i where i: "x = Fin (of_int i)" "\<bar>i\<bar> \<le> 2 ^ 53" using safe_num_int by blast
  have "int_to_js i \<noteq> []" by (simp add: int_to_js_def)
  then show ?thesis
    using i int_to_js_num_chars json_number_int
    by (auto simp: num_ok_def num_to_str_int is_finite_def list_all_iff)
qed

lemma num_ok_nat: "n \<le> 2 ^ 53 \<Longrightarrow> num_ok (num_of_nat n)"
proof -
  assume n: "n \<le> 2 ^ 53"
  then have "(of_nat n :: rat) \<le> 2 ^ 53" by (metis of_nat_le_iff of_nat_numeral of_nat_power)
  then show ?thesis using n by (intro safe_num_ok) (simp add: num_of_nat_exact safe_num_def)
qed

definition rest_ok :: "jstring \<Rightarrow> bool" where
  "rest_ok r \<longleftrightarrow> r = [] \<or> \<not> num_char (hd r)"

lemma p_number_ok:
  "num_ok x \<Longrightarrow> rest_ok r \<Longrightarrow> p_number (num_to_str x @ r) = Some (JNum x, r)"
proof -
  assume a: "num_ok x" and r: "rest_ok r"
  have t: "takeWhile num_char r = []" "dropWhile num_char r = r"
    using r by (cases r; simp add: rest_ok_def)+
  have "takeWhile num_char (num_to_str x @ r) = num_to_str x" "dropWhile num_char (num_to_str x @ r) = r"
    using a t by (simp_all add: takeWhile_append2 dropWhile_append2 num_ok_def list_all_iff)
  then show ?thesis using a by (simp add: p_number_def num_ok_def)
qed

section \<open>Values round-trip\<close>

fun wf_json :: "json \<Rightarrow> bool" where
  "wf_json (JNum x) = num_ok x"
| "wf_json (JStr s) = units s"
| "wf_json (JArr vs) = (\<forall>v \<in> set vs. wf_json v)"
| "wf_json (JObj kvs) =
     (canon_keys (map fst kvs) \<and> (\<forall>kv \<in> set kvs. units (fst kv) \<and> wf_json (snd kv)))"
| "wf_json _ = True"

definition all_ws :: "jstring \<Rightarrow> bool" where
  "all_ws w \<longleftrightarrow> (\<forall>c \<in> set w. json_ws c)"

lemma all_ws_simps [simp]: "all_ws []" "all_ws (c # w) \<longleftrightarrow> json_ws c \<and> all_ws w" "all_ws (v @ w) \<longleftrightarrow> all_ws v \<and> all_ws w"
  by (auto simp: all_ws_def)

lemma skip_all_ws: "all_ws w \<Longrightarrow> skip (w @ s) = skip s"
  by (induction w) (auto simp: skip_def)

lemma skip_Cons: "\<not> json_ws c \<Longrightarrow> skip (c # s) = c # s"
  by (simp add: skip_def)

lemma skip_to: "all_ws w \<Longrightarrow> \<not> json_ws c \<Longrightarrow> skip (w @ c # s) = c # s"
  by (simp add: skip_all_ws skip_Cons)

lemma all_ws_nl [simp]: "all_ws gap \<Longrightarrow> all_ws ind \<Longrightarrow> all_ws (nl gap ind)"
  by (simp add: nl_def json_ws_def)

lemma ws_no_num: "all_ws w \<Longrightarrow> \<not> num_char c \<Longrightarrow> rest_ok (w @ c # r)"
  by (cases w) (auto simp: rest_ok_def num_char_def json_ws_def is_digit_def)

definition starter :: "jchar \<Rightarrow> bool" where
  "starter c \<longleftrightarrow> \<not> json_ws c \<and> c \<noteq> 93 \<and> c \<noteq> 125"

lemma ser_num: "num_ok x \<Longrightarrow> ser gap ind (JNum x) = num_to_str x"
  by (cases x) (simp_all add: num_ok_def is_finite_def)

lemma num_ok_hd: "num_ok x \<Longrightarrow> num_to_str x \<noteq> [] \<and> num_char (hd (num_to_str x))"
  by (auto simp: num_ok_def list_all_iff)

lemma ser_hd: "wf_json v \<Longrightarrow> ser gap ind v \<noteq> [] \<and> starter (hd (ser gap ind v))"
proof (cases v)
  case (JNum x)
  assume "wf_json v"
  then have x: "num_ok x" using JNum by simp
  then have "starter (hd (num_to_str x))"
    using num_ok_hd [of x] by (auto simp: num_char_def starter_def json_ws_def is_digit_def)
  then show ?thesis using x num_ok_hd ser_num JNum by simp
qed (auto simp: js_def quote_def starter_def json_ws_def)

lemma ser_starts:
  assumes "wf_json v"
  obtains c t where "ser gap ind v = c # t" "starter c"
  using ser_hd [OF assms, of gap ind] by (cases "ser gap ind v") auto

lemma skip_ser: "wf_json v \<Longrightarrow> all_ws w \<Longrightarrow> skip (w @ ser gap ind v @ r) = ser gap ind v @ r"
proof -
  assume "wf_json v" "all_ws w"
  then show ?thesis
    by (metis append_Cons ser_starts skip_Cons skip_all_ws starter_def)
qed

definition reads :: "jstring \<Rightarrow> jstring \<Rightarrow> json \<Rightarrow> bool" where
  "reads gap ind v \<longleftrightarrow>
     (\<forall>w r n. all_ws w \<longrightarrow> rest_ok r \<longrightarrow> 2 * length (ser gap ind v @ r) + 1 \<le> n \<longrightarrow>
        p_value n (w @ ser gap ind v @ r) = Some (v, r))"

lemma readsD:
  "reads gap ind v \<Longrightarrow> all_ws w \<Longrightarrow> rest_ok r \<Longrightarrow> 2 * length (ser gap ind v @ r) + 1 \<le> n \<Longrightarrow>
     p_value n (w @ ser gap ind v @ r) = Some (v, r)"
  unfolding reads_def by blast

lemma p_elems_ser:
  assumes "\<forall>v \<in> set vs. reads gap ind v" and "vs \<noteq> []" and "all_ws w" and "all_ws w'" and "all_ws w2"
    and "2 * length (join_with (44 # w') (map (ser gap ind) vs) @ w2 @ 93 # r) + 2 \<le> n"
  shows "p_elems n (w @ join_with (44 # w') (map (ser gap ind) vs) @ w2 @ 93 # r) = Some (vs, r)"
  using assms
proof (induction vs arbitrary: w n)
  case (Cons v vs)
  obtain m where m: "n = Suc m" using Cons.prems(6) by (cases n) auto
  have rv: "reads gap ind v" using Cons.prems(1) by simp
  show ?case
  proof (cases "vs = []")
    case True
    have "p_value m (w @ ser gap ind v @ w2 @ 93 # r) = Some (v, w2 @ 93 # r)"
      using Cons.prems True m by (intro readsD [OF rv]) (auto intro!: ws_no_num simp: num_char_def is_digit_def)
    moreover have "skip (w2 @ 93 # r) = 93 # r" using Cons.prems(5) by (simp add: skip_to json_ws_def)
    ultimately show ?thesis using True m by simp
  next
    case False
    let ?J = "join_with (44 # w') (map (ser gap ind) vs) @ w2 @ 93 # r"
    have s: "join_with (44 # w') (map (ser gap ind) (v # vs)) @ w2 @ 93 # r = ser gap ind v @ 44 # w' @ ?J"
      using False by (simp add: join_with_Cons)
    have b: "2 * length (ser gap ind v @ 44 # w' @ ?J) + 2 \<le> n" using Cons.prems(6) unfolding s .
    have "rest_ok (44 # w' @ ?J)" by (simp add: rest_ok_def num_char_def is_digit_def)
    then have "p_value m (w @ ser gap ind v @ 44 # w' @ ?J) = Some (v, 44 # w' @ ?J)"
      using Cons.prems(3) b m by (intro readsD [OF rv]) simp_all
    moreover have "p_elems m (w' @ ?J) = Some (vs, r)"
      using Cons.prems False b m by (intro Cons.IH) simp_all
    ultimately show ?thesis unfolding s m by (simp add: skip_def json_ws_def)
  qed
qed simp

definition member_str :: "jstring \<Rightarrow> jstring \<Rightarrow> jstring \<times> json \<Rightarrow> jstring" where
  "member_str gap ind kv = quote (fst kv) @ colon gap @ ser gap ind (snd kv)"

lemma p_members_step:
  assumes "units (fst kv)" and "reads gap ind (snd kv)" and "all_ws w" and "rest_ok r"
    and "2 * length (member_str gap ind kv @ r) + 2 \<le> n"
  obtains t u where "skip (w @ member_str gap ind kv @ r) = 34 # t" "p_string t = Some (fst kv, u)"
    "take 1 (skip u) = [58]" "p_value (n - 1) (drop 1 (skip u)) = Some (snd kv, r)"
proof -
  let ?c = "if gap = [] then [] else [32::nat]"
  let ?u = "58 # ?c @ ser gap ind (snd kv) @ r"
  have m: "member_str gap ind kv @ r = 34 # quote_body (fst kv) @ 34 # ?u"
    by (simp add: member_str_def quote_def colon_def)
  have sk: "skip (w @ member_str gap ind kv @ r) = 34 # quote_body (fst kv) @ 34 # ?u"
    unfolding m using assms(3) by (rule skip_to) (simp add: json_ws_def)
  have ps: "p_string (quote_body (fst kv) @ 34 # ?u) = Some (fst kv, ?u)"
    by (rule p_string_quote_body [OF assms(1)])
  have sk2: "skip ?u = ?u" by (simp add: skip_def json_ws_def)
  have "p_value (n - 1) (?c @ ser gap ind (snd kv) @ r) = Some (snd kv, r)"
    using assms(2,4,5) unfolding m by (intro readsD) (auto simp: json_ws_def)
  then show ?thesis using that sk ps sk2 by simp
qed

lemma p_members_ser:
  assumes "\<forall>kv \<in> set kvs. units (fst kv) \<and> reads gap ind (snd kv)" and "kvs \<noteq> []"
    and "all_ws w" and "all_ws w'" and "all_ws w2"
    and "2 * length (join_with (44 # w') (map (member_str gap ind) kvs) @ w2 @ 125 # r) + 2 \<le> n"
  shows "p_members n (w @ join_with (44 # w') (map (member_str gap ind) kvs) @ w2 @ 125 # r) = Some (kvs, r)"
  using assms
proof (induction kvs arbitrary: w n)
  case (Cons kv kvs)
  obtain m where m: "n = Suc m" using Cons.prems(6) by (cases n) auto
  have k: "units (fst kv)" "reads gap ind (snd kv)" using Cons.prems(1) by auto
  show ?case
  proof (cases "kvs = []")
    case True
    have "rest_ok (w2 @ 125 # r)" using Cons.prems(5) by (intro ws_no_num) (auto simp: num_char_def is_digit_def)
    then obtain t u where "skip (w @ member_str gap ind kv @ w2 @ 125 # r) = 34 # t" "p_string t = Some (fst kv, u)"
      "take 1 (skip u) = [58]" "p_value m (drop 1 (skip u)) = Some (snd kv, w2 @ 125 # r)"
      using p_members_step [OF k Cons.prems(3), of "w2 @ 125 # r" n] Cons.prems(6) True m by auto
    moreover have "skip (w2 @ 125 # r) = 125 # r" using Cons.prems(5) by (simp add: skip_to json_ws_def)
    ultimately show ?thesis using True m by simp
  next
    case False
    let ?J = "join_with (44 # w') (map (member_str gap ind) kvs) @ w2 @ 125 # r"
    have s: "join_with (44 # w') (map (member_str gap ind) (kv # kvs)) @ w2 @ 125 # r =
        member_str gap ind kv @ 44 # w' @ ?J"
      using False by (simp add: join_with_Cons)
    have b: "2 * length (member_str gap ind kv @ 44 # w' @ ?J) + 2 \<le> n" using Cons.prems(6) unfolding s .
    have "rest_ok (44 # w' @ ?J)" by (simp add: rest_ok_def num_char_def is_digit_def)
    then obtain t u where "skip (w @ member_str gap ind kv @ 44 # w' @ ?J) = 34 # t"
      "p_string t = Some (fst kv, u)" "take 1 (skip u) = [58]"
      "p_value m (drop 1 (skip u)) = Some (snd kv, 44 # w' @ ?J)"
      using p_members_step [OF k Cons.prems(3) _ b] m by auto
    moreover have "p_members m (w' @ ?J) = Some (kvs, r)"
      using Cons.prems False b m by (intro Cons.IH) simp_all
    moreover have "skip (44 # w' @ ?J) = 44 # w' @ ?J" by (simp add: skip_def json_ws_def)
    ultimately show ?thesis unfolding s m by simp
  qed
qed simp

lemma reads_json: "wf_json v \<Longrightarrow> all_ws gap \<Longrightarrow> all_ws ind \<Longrightarrow> reads gap ind v"
proof (induction v arbitrary: ind)
  case (JNum x)
  then have x: "num_ok x" by simp
  obtain c t where ct: "num_to_str x = c # t" using num_ok_hd [OF x] by (cases "num_to_str x") auto
  have nc: "num_char c" using num_ok_hd [OF x] ct by simp
  then have c: "\<not> json_ws c" "c \<noteq> 123" "c \<noteq> 91" "c \<noteq> 34" "c \<noteq> 116" "c \<noteq> 102" "c \<noteq> 110"
    by (auto simp: num_char_def json_ws_def is_digit_def)
  show ?case unfolding reads_def ser_num [OF x]
  proof (intro allI impI)
    fix w r n
    assume a: "all_ws w" "rest_ok r" "2 * length (num_to_str x @ r) + 1 \<le> n"
    then obtain m where m: "n = Suc m" by (cases n) auto
    have "skip (w @ num_to_str x @ r) = c # t @ r" using a(1) c by (simp add: ct skip_to)
    moreover have "p_number (c # t @ r) = Some (JNum x, r)"
      using p_number_ok [OF x a(2)] by (simp add: ct)
    ultimately show "p_value n (w @ num_to_str x @ r) = Some (JNum x, r)"
      using c m by (simp add: js_def starts_with_def)
  qed
next
  case (JStr s)
  show ?case unfolding reads_def
  proof (intro allI impI)
    fix w r n
    assume a: "all_ws w" "rest_ok r" "2 * length (ser gap ind (JStr s) @ r) + 1 \<le> n"
    then obtain m where m: "n = Suc m" by (cases n) auto
    have "skip (w @ ser gap ind (JStr s) @ r) = 34 # quote_body s @ 34 # r"
      using a(1) by (simp add: quote_def skip_to json_ws_def)
    then show "p_value n (w @ ser gap ind (JStr s) @ r) = Some (JStr s, r)"
      using JStr.prems(1) by (simp add: m p_string_quote_body)
  qed
next
  case (JArr vs)
  show ?case unfolding reads_def
  proof (intro allI impI)
    fix w r n
    assume a: "all_ws w" "rest_ok r" "2 * length (ser gap ind (JArr vs) @ r) + 1 \<le> n"
    then obtain m where m: "n = Suc m" by (cases n) auto
    show "p_value n (w @ ser gap ind (JArr vs) @ r) = Some (JArr vs, r)"
    proof (cases "vs = []")
      case True
      then show ?thesis using a(1) by (simp add: m js_def skip_to skip_Cons json_ws_def)
    next
      case False
      let ?i = "ind @ gap"
      let ?J = "join_with (44 # nl gap ?i) (map (ser gap ?i) vs) @ nl gap ind @ 93 # r"
      have rd: "\<forall>v \<in> set vs. reads gap ?i v" using JArr by simp
      have s: "ser gap ind (JArr vs) @ r = 91 # nl gap ?i @ ?J" using False by simp
      have e: "p_elems m (nl gap ?i @ ?J) = Some (vs, r)"
        using JArr.prems a(3) m False unfolding s by (intro p_elems_ser [OF rd]) simp_all
      obtain v0 vs' where vs: "vs = v0 # vs'" using False by (cases vs) auto
      have "\<exists>x. ?J = ser gap ?i v0 @ x" by (cases "vs' = []") (auto simp: vs join_with_Cons)
      then obtain x where x: "?J = ser gap ?i v0 @ x" by blast
      have "skip (nl gap ?i @ ?J) = ser gap ?i v0 @ x"
        unfolding x using JArr.prems vs by (intro skip_ser) simp_all
      moreover obtain c t where "ser gap ?i v0 = c # t" "starter c"
        using ser_starts [of v0 gap ?i] JArr.prems vs by auto
      ultimately have "take 1 (skip (nl gap ?i @ ?J)) \<noteq> [93]" by (auto simp: starter_def)
      moreover have "skip (w @ 91 # nl gap ?i @ ?J) = 91 # nl gap ?i @ ?J"
        using a(1) by (rule skip_to) (simp add: json_ws_def)
      ultimately show ?thesis using e unfolding s m by simp
    qed
  qed
next
  case (JObj kvs)
  show ?case unfolding reads_def
  proof (intro allI impI)
    fix w r n
    assume a: "all_ws w" "rest_ok r" "2 * length (ser gap ind (JObj kvs) @ r) + 1 \<le> n"
    then obtain m where m: "n = Suc m" by (cases n) auto
    show "p_value n (w @ ser gap ind (JObj kvs) @ r) = Some (JObj kvs, r)"
    proof (cases "kvs = []")
      case True
      then show ?thesis using a(1) by (simp add: m js_def skip_to skip_Cons json_ws_def)
    next
      case False
      let ?i = "ind @ gap"
      let ?J = "join_with (44 # nl gap ?i) (map (member_str gap ?i) kvs) @ nl gap ind @ 125 # r"
      have rd: "\<forall>kv \<in> set kvs. units (fst kv) \<and> reads gap ?i (snd kv)"
        using JObj by (fastforce elim: snds.cases)
      have s: "ser gap ind (JObj kvs) @ r = 123 # nl gap ?i @ ?J"
        using False by (simp add: member_str_def [abs_def])
      have e: "p_members m (nl gap ?i @ ?J) = Some (kvs, r)"
        using JObj.prems a(3) m False unfolding s by (intro p_members_ser [OF rd]) simp_all
      obtain kv kvs' where kvs: "kvs = kv # kvs'" using False by (cases kvs) auto
      have "\<exists>x. ?J = 34 # x" by (cases "kvs' = []") (auto simp: kvs join_with_Cons member_str_def quote_def)
      then obtain x where x: "?J = 34 # x" by blast
      have "skip (nl gap ?i @ ?J) = 34 # x"
        unfolding x using JObj.prems by (intro skip_to) (simp_all add: json_ws_def)
      then have "take 1 (skip (nl gap ?i @ ?J)) \<noteq> [125]" by simp
      moreover have "skip (w @ 123 # nl gap ?i @ ?J) = 123 # nl gap ?i @ ?J"
        using a(1) by (rule skip_to) (simp add: json_ws_def)
      ultimately show ?thesis using e JObj.prems unfolding s m by (simp add: obj_of_canon)
    qed
  qed
next
  case (JBool b)
  show ?case unfolding reads_def
  proof (intro allI impI)
    fix w r n
    assume a: "all_ws w" "2 * length (ser gap ind (JBool b) @ r) + 1 \<le> n"
    then obtain m where "n = Suc m" by (cases n) auto
    then show "p_value n (w @ ser gap ind (JBool b) @ r) = Some (JBool b, r)"
      using a(1) by (auto simp: js_def skip_to json_ws_def starts_with_def)
  qed
next
  case JNull
  show ?case unfolding reads_def
  proof (intro allI impI)
    fix w r n
    assume a: "all_ws w" "2 * length (ser gap ind JNull @ r) + 1 \<le> n"
    then obtain m where "n = Suc m" by (cases n) auto
    then show "p_value n (w @ ser gap ind JNull @ r) = Some (JNull, r)"
      using a(1) by (auto simp: js_def skip_to json_ws_def starts_with_def)
  qed
qed

lemma parse_ser:
  assumes "wf_json v" and "all_ws gap"
  shows "JSON_parse (ser gap [] v) = Some v"
proof -
  have "p_value (2 * length (ser gap [] v) + 1) ([] @ ser gap [] v @ []) = Some (v, [])"
    by (rule readsD [OF reads_json [OF assms]]) (auto simp: rest_ok_def)
  then show ?thesis by (simp add: JSON_parse_def skip_def)
qed

lemma parse_stringify [simp]: "wf_json v \<Longrightarrow> JSON_parse (JSON_stringify v) = Some v"
  unfolding JSON_stringify_def by (rule parse_ser) simp_all

lemma parse_pretty [simp]: "wf_json v \<Longrightarrow> JSON_parse (JSON_pretty v) = Some v"
  unfolding JSON_pretty_def by (rule parse_ser) (simp_all add: json_ws_def)

lemma wf_assign_fields:
  assumes "distinct (map (fst \<circ> snd) fs)" and "list_all (\<lambda>f. \<not> is_array_index (fst (snd f))) fs"
    and "list_all (\<lambda>f. units (fst (snd f)) \<and> (fst f \<longrightarrow> wf_json (snd (snd f)))) fs"
  shows "wf_json (JObj (assign_fields fs))"
  using assign_keys [OF assms(1,2)] assms(3) by (auto simp: assign_fields_def list_all_iff)

section \<open>Printed values have no white space around them\<close>

lemma ser_ends:
  assumes "wf_json v"
  shows "\<not> is_ws (hd (ser gap ind v))" and "\<not> is_ws (last (ser gap ind v))"
proof -
  have c: "num_char c \<Longrightarrow> \<not> is_ws c" for c by (auto simp: num_char_def is_digit_def is_ws_def)
  have n: "\<not> is_ws (hd (ser gap ind (JNum x))) \<and> \<not> is_ws (last (ser gap ind (JNum x)))" if "num_ok x" for x
    unfolding ser_num [OF that] using num_ok_hd [OF that] that c by (auto simp: num_ok_def list_all_iff)
  show "\<not> is_ws (hd (ser gap ind v))"
    using assms n by (cases v) (auto simp: js_def quote_def is_ws_def simp del: ser.simps(3))
  show "\<not> is_ws (last (ser gap ind v))"
    using assms n by (cases v) (auto simp: js_def quote_def is_ws_def simp del: ser.simps(3))
qed

lemma ser_trimmed: "wf_json v \<Longrightarrow> trim (JSON_stringify v) = JSON_stringify v"
  and pretty_trimmed: "wf_json v \<Longrightarrow> trim (JSON_pretty v) = JSON_pretty v"
  by (simp_all add: trim_id trimmed_def JSON_stringify_def JSON_pretty_def ser_ends)

lemma stringify_ne: "wf_json v \<Longrightarrow> JSON_stringify v \<noteq> []"
  and pretty_ne: "wf_json v \<Longrightarrow> JSON_pretty v \<noteq> []"
  using ser_hd by (simp_all add: JSON_stringify_def JSON_pretty_def)

end
