(* ===== verification/Model_Mapping.thy ===== *)
theory Model_Mapping
  imports JS_Json
begin

text \<open>
  Validation of a channel's model list and redirects
  (\<open>src/web/default/src/features/channels/lib/model-mapping-validation.ts\<close>) and of its status-code
  redirects (\<open>src/web/default/src/features/channels/lib/status-code-risk-guard.ts\<close>). Both read a JSON
  object the administrator typed; text that is not a JSON object is treated as no mapping. A
  JavaScript \<open>Set\<close> is the list of its elements in insertion order.
\<close>

section \<open>Model lists\<close>

definition parseModelsString :: "jstring \<Rightarrow> jstring list" where
  "parseModelsString modelsStr = (if modelsStr \<noteq> [] then split_trim 44 modelsStr else [])"

definition formatModelsArray :: "jstring list \<Rightarrow> jstring" where
  "formatModelsArray models = join_with (js '','') (uniq models)"

definition normalizeModelName :: "jstring \<Rightarrow> jstring" where
  "normalizeModelName model = trim model"

section \<open>The mapping object\<close>

text \<open>
  The test \<open>!parsed || typeof parsed !== 'object' || Array.isArray(parsed)\<close> and the \<open>catch\<close> around
  \<open>JSON.parse\<close>: only a JSON object passes.
\<close>

definition parse_object :: "jstring \<Rightarrow> jobject option" where
  "parse_object s = (case JSON_parse s of Some (JObj kvs) \<Rightarrow> Some kvs | _ \<Rightarrow> None)"

definition extractMappingSourceModels :: "jstring \<Rightarrow> jstring list" where
  "extractMappingSourceModels modelMapping =
     (let trimmed = trim modelMapping in
      if trimmed = [] then []
      else case parse_object trimmed of None \<Rightarrow> []
           | Some kvs \<Rightarrow> uniq (filter_truthy (map (\<lambda>kv. trim (fst kv)) kvs)))"

definition string_values :: "jobject \<Rightarrow> jstring list" where
  "string_values kvs = List.map_filter (\<lambda>kv. case snd kv of JStr s \<Rightarrow> Some (trim s) | _ \<Rightarrow> None) kvs"

definition extractRedirectModels :: "jstring \<Rightarrow> jstring list" where
  "extractRedirectModels modelMapping =
     (let trimmed = trim modelMapping in
      if trimmed = [] then []
      else case parse_object trimmed of None \<Rightarrow> []
           | Some kvs \<Rightarrow> uniq (filter_truthy (string_values kvs)))"

fun models_differ :: "jstring list \<Rightarrow> jstring list \<Rightarrow> bool" where
  "models_differ (c # cs) (i # is) = (if c \<noteq> i then True else models_differ cs is)"
| "models_differ _ _ = False"

definition hasModelConfigChanged :: "jstring list \<Rightarrow> jstring \<Rightarrow> jstring list \<Rightarrow> jstring \<Rightarrow> bool" where
  "hasModelConfigChanged currentModels currentModelMapping initialModels initialModelMapping =
     (if length initialModels = 0 \<and> initialModelMapping = [] then True
      else if length currentModels \<noteq> length initialModels then True
      else if models_differ currentModels initialModels then True
      else trim currentModelMapping \<noteq> trim initialModelMapping)"

definition findMissingModelsInMapping :: "jstring \<Rightarrow> jstring list \<Rightarrow> jstring list" where
  "findMissingModelsInMapping modelMapping currentModels =
     (if modelMapping = [] \<or> trim modelMapping = [] then []
      else case parse_object modelMapping of None \<Rightarrow> []
      | Some parsedMapping \<Rightarrow>
          let modelSet = map normalizeModelName currentModels;
              missingModels = filter (\<lambda>key. key \<noteq> [] \<and> key \<notin> set modelSet)
                (map (\<lambda>kv. normalizeModelName (fst kv)) parsedMapping) in
          uniq missingModels)"

record mapping_validity =
  valid :: bool
  error :: "jstring option"

definition validateModelMappingJson :: "jstring \<Rightarrow> mapping_validity" where
  "validateModelMappingJson modelMapping =
     (if modelMapping = [] \<or> trim modelMapping = [] then \<lparr>valid = True, error = None\<rparr>
      else case JSON_parse modelMapping of
        None \<Rightarrow> \<lparr>valid = False, error = Some (js ''Model mapping must be valid JSON format'')\<rparr>
      | Some (JObj _) \<Rightarrow> \<lparr>valid = True, error = None\<rparr>
      | Some _ \<Rightarrow> \<lparr>valid = False, error = Some (js ''Model mapping must be a valid JSON object'')\<rparr>)"

definition findExposedTargetModels :: "jstring \<Rightarrow> jstring list \<Rightarrow> jstring list" where
  "findExposedTargetModels modelMapping currentModels =
     (let redirectModels = extractRedirectModels modelMapping in
      if length redirectModels = 0 then []
      else let modelSet = map normalizeModelName currentModels in
        filter (\<lambda>model. normalizeModelName model \<in> set modelSet) redirectModels)"

record model_categories =
  normalizedCurrentModels :: "jstring list"
  normalizedRedirectModels :: "jstring list"
  classificationSet :: "jstring list"
  redirectOnlySet :: "jstring list"

definition categorizeModelsWithRedirect :: "jstring list \<Rightarrow> jstring list \<Rightarrow> model_categories" where
  "categorizeModelsWithRedirect currentModels redirectModels =
     (let cur = uniq (filter_truthy (map normalizeModelName currentModels));
          red = uniq (filter_truthy (map normalizeModelName redirectModels)) in
      \<lparr>normalizedCurrentModels = cur, normalizedRedirectModels = red,
       classificationSet = uniq (cur @ red), redirectOnlySet = uniq (filter (\<lambda>m. m \<notin> set cur) red)\<rparr>)"

section \<open>Status-code redirects\<close>

definition NON_REDIRECTABLE_STATUS_CODES :: "nat list" where
  "NON_REDIRECTABLE_STATUS_CODES = [504, 524]"

text \<open>The pattern \<open>^[1-5]\d{2}$\<close>\<close>

definition status_pattern :: "jstring \<Rightarrow> bool" where
  "status_pattern s \<longleftrightarrow>
     (case s of [a, b, c] \<Rightarrow> 49 \<le> a \<and> a \<le> 53 \<and> is_digit b \<and> is_digit c | _ \<Rightarrow> False)"

definition parseStatusCodeKey :: "jstring \<Rightarrow> nat option" where
  "parseStatusCodeKey rawKey =
     (let normalized = trim rawKey in
      if \<not> status_pattern normalized then None else Some (digits_val normalized))"

definition parseStatusCodeMappingTarget :: "json \<Rightarrow> nat option" where
  "parseStatusCodeMappingTarget rawValue =
     (case rawValue of
        JNum x \<Rightarrow>
          (if is_integer x then
             (case x of Fin r \<Rightarrow> if 100 \<le> r \<and> r \<le> 599 then Some (nat \<lfloor>r\<rfloor>) else None | _ \<Rightarrow> None)
           else None)
      | JStr s \<Rightarrow>
          (let normalized = trim s in
           if \<not> status_pattern normalized then None
           else let code = digits_val normalized in
             if 100 \<le> code \<and> code \<le> 599 then Some code else None)
      | _ \<Rightarrow> None)"

text \<open>The code point U+2192 (8594) is the arrow of the message.\<close>

definition collectInvalidStatusCodeEntries :: "jstring \<Rightarrow> jstring list" where
  "collectInvalidStatusCodeEntries statusCodeMappingStr =
     (if trim statusCodeMappingStr = [] then []
      else case parse_object statusCodeMappingStr of None \<Rightarrow> []
      | Some parsed \<Rightarrow>
          map (\<lambda>kv. fst kv @ [32, 8594, 32] @ json_to_str (snd kv))
            (filter (\<lambda>kv. parseStatusCodeKey (fst kv) = None \<or> parseStatusCodeMappingTarget (snd kv) = None)
               parsed))"

definition risky_entry :: "jstring \<times> json \<Rightarrow> jstring option" where
  "risky_entry kv =
     (case (parseStatusCodeKey (fst kv), parseStatusCodeMappingTarget (snd kv)) of
        (Some fromCode, Some toCode) \<Rightarrow>
          if fromCode \<notin> set NON_REDIRECTABLE_STATUS_CODES then None
          else if fromCode = toCode then None
          else Some (nat_to_js fromCode @ js '' -> '' @ nat_to_js toCode)
      | _ \<Rightarrow> None)"

definition collectDisallowedStatusCodeRedirects :: "jstring \<Rightarrow> jstring list" where
  "collectDisallowedStatusCodeRedirects statusCodeMappingStr =
     (if trim statusCodeMappingStr = [] then []
      else case parse_object statusCodeMappingStr of None \<Rightarrow> []
      | Some parsed \<Rightarrow> sort (uniq (List.map_filter risky_entry parsed)))"

definition collectNewDisallowedStatusCodeRedirects :: "jstring \<Rightarrow> jstring \<Rightarrow> jstring list" where
  "collectNewDisallowedStatusCodeRedirects originalStr currentStr =
     (let currentRisky = collectDisallowedStatusCodeRedirects currentStr in
      if length currentRisky = 0 then []
      else let originalRiskySet = uniq (collectDisallowedStatusCodeRedirects originalStr) in
        filter (\<lambda>mapping. mapping \<notin> set originalRiskySet) currentRisky)"

section \<open>Lemmas\<close>

lemma trim_Nil_parse: "trim s = [] \<Longrightarrow> parse_object s = None"
proof -
  assume "trim s = []"
  then have ws: "\<forall>c \<in> set s. is_ws c" by (simp add: trim_eq_Nil)
  have "p_value n s = None" for n
  proof (cases n)
    case (Suc m)
    show ?thesis
    proof (cases "skip s")
      case (Cons c r)
      have "c \<in> set s" using Cons by (metis list.set_intros(1) set_dropWhileD skip_def)
      then have c: "is_ws c" using ws by blast
      then have n: "c \<noteq> 123" "c \<noteq> 91" "c \<noteq> 34" "c \<noteq> 116" "c \<noteq> 102" "c \<noteq> 110" "\<not> num_char c"
        by (auto simp: is_ws_def num_char_def is_digit_def)
      then have "p_number (c # r) = None"
        by (simp add: p_number_def json_number_def Let_def)
      then show ?thesis using n Cons Suc by (simp add: js_def starts_with_def)
    qed (simp add: Suc)
  qed simp
  then show ?thesis by (simp add: parse_object_def JSON_parse_def)
qed

lemma missing_iff:
  "m \<in> set (findMissingModelsInMapping mm models) \<longleftrightarrow>
     (\<exists>kvs. parse_object mm = Some kvs \<and> m \<in> trim ` fst ` set kvs) \<and> m \<noteq> [] \<and> m \<notin> trim ` set models"
proof (cases "parse_object mm")
  case (Some kvs)
  then have "trim mm \<noteq> []" "mm \<noteq> []" using trim_Nil_parse [of mm] by auto
  with Some show ?thesis
    by (auto simp: findMissingModelsInMapping_def normalizeModelName_def [abs_def] Let_def)
qed (simp add: findMissingModelsInMapping_def)

lemma string_values_trimmed: "m \<in> set (string_values kvs) \<Longrightarrow> trim m = m"
  unfolding string_values_def set_map_filter by (force split: json.split_asm)

lemma redirect_trimmed: "m \<in> set (extractRedirectModels mm) \<Longrightarrow> trim m = m"
  using string_values_trimmed
  by (auto simp: extractRedirectModels_def Let_def split: if_splits option.splits)

lemma exposed_iff:
  "m \<in> set (findExposedTargetModels mm models) \<longleftrightarrow>
     m \<in> set (extractRedirectModels mm) \<and> m \<in> trim ` set models"
  using redirect_trimmed [of m mm]
  by (auto simp: findExposedTargetModels_def Let_def normalizeModelName_def [abs_def])

lemma risky_iff:
  "m \<in> set (collectDisallowedStatusCodeRedirects s) \<longleftrightarrow>
     (\<exists>kvs kv. parse_object s = Some kvs \<and> kv \<in> set kvs \<and> risky_entry kv = Some m)"
proof (cases "parse_object s")
  case (Some kvs)
  then have "trim s \<noteq> []" using trim_Nil_parse [of s] by auto
  with Some show ?thesis by (auto simp: collectDisallowedStatusCodeRedirects_def set_map_filter)
qed (simp add: collectDisallowedStatusCodeRedirects_def)

section \<open>Properties\<close>

text \<open>
  C33. The missing-model check reports each model name that the mapping redirects from and the model
  list lacks, once, and nothing else; once the reported names are added to the list it reports
  nothing.
\<close>

theorem missing_models_complete:
  "distinct (findMissingModelsInMapping mm models) \<and>
   (m \<in> set (findMissingModelsInMapping mm models) \<longleftrightarrow>
      (\<exists>kvs. parse_object mm = Some kvs \<and> m \<in> trim ` fst ` set kvs) \<and> m \<noteq> [] \<and> m \<notin> trim ` set models) \<and>
   findMissingModelsInMapping mm (models @ findMissingModelsInMapping mm models) = []"
proof (intro conjI)
  show "distinct (findMissingModelsInMapping mm models)"
    by (simp add: findMissingModelsInMapping_def Let_def split: option.split)
  have t: "trim m = m" if "m \<in> set (findMissingModelsInMapping mm models)" for m
    using that by (auto simp: missing_iff)
  show "findMissingModelsInMapping mm (models @ findMissingModelsInMapping mm models) = []"
  proof (rule no_member_Nil, rule notI)
    fix x
    assume "x \<in> set (findMissingModelsInMapping mm (models @ findMissingModelsInMapping mm models))"
    then have x: "\<exists>kvs. parse_object mm = Some kvs \<and> x \<in> trim ` fst ` set kvs" "x \<noteq> []"
      and n: "x \<notin> trim ` set models" "x \<notin> trim ` set (findMissingModelsInMapping mm models)"
      by (auto simp: missing_iff [of x mm "models @ findMissingModelsInMapping mm models"])
    from x n(1) have "x \<in> set (findMissingModelsInMapping mm models)" by (simp add: missing_iff)
    with t n(2) show False by force
  qed
qed (rule missing_iff)

text \<open>
  A model is reported as an exposed target exactly when it is a redirect target and also in the
  model list; taking the reported models off the list leaves no exposed target.
\<close>

theorem exposed_targets_removed:
  "(m \<in> set (findExposedTargetModels mm models) \<longleftrightarrow>
      m \<in> set (extractRedirectModels mm) \<and> m \<in> trim ` set models) \<and>
   findExposedTargetModels mm
     (filter (\<lambda>x. trim x \<notin> set (findExposedTargetModels mm models)) models) = []"
proof
  let ?kept = "filter (\<lambda>x. trim x \<notin> set (findExposedTargetModels mm models)) models"
  show "findExposedTargetModels mm ?kept = []"
  proof (rule no_member_Nil)
    show "y \<notin> set (findExposedTargetModels mm ?kept)" for y
      unfolding exposed_iff [of y mm ?kept] by (auto simp: exposed_iff)
  qed
qed (rule exposed_iff)

text \<open>
  The categories shown next to the model list are consistent: the classification set is the
  union of the normalised current and redirect models, the redirect-only set is the redirect models
  that are not current, and no set lists a model twice.
\<close>

lemma categories_partition:
  "set (classificationSet (categorizeModelsWithRedirect cur red)) =
     set (normalizedCurrentModels (categorizeModelsWithRedirect cur red)) \<union>
     set (redirectOnlySet (categorizeModelsWithRedirect cur red)) \<and>
   set (redirectOnlySet (categorizeModelsWithRedirect cur red)) =
     (trim ` set red - {[]}) - (trim ` set cur - {[]}) \<and>
   set (classificationSet (categorizeModelsWithRedirect cur red)) =
     trim ` (set cur \<union> set red) - {[]} \<and>
   distinct (classificationSet (categorizeModelsWithRedirect cur red)) \<and>
   distinct (redirectOnlySet (categorizeModelsWithRedirect cur red))"
  by (auto simp: categorizeModelsWithRedirect_def Let_def normalizeModelName_def)

text \<open>
  The mapping is reported valid exactly when the other functions can read it or it is blank; for
  an invalid mapping no model is reported missing.
\<close>

theorem mapping_validity_agrees:
  "(valid (validateModelMappingJson mm) \<longleftrightarrow> trim mm = [] \<or> (\<exists>kvs. parse_object mm = Some kvs)) \<and>
   (error (validateModelMappingJson mm) = None \<longleftrightarrow> valid (validateModelMappingJson mm)) \<and>
   (valid (validateModelMappingJson mm) \<or> findMissingModelsInMapping mm models = [])"
proof -
  have "mm = [] \<longrightarrow> trim mm = []" by simp
  then show ?thesis
    by (auto simp: validateModelMappingJson_def parse_object_def findMissingModelsInMapping_def
        split: option.splits json.splits)
qed

text \<open>
  C34. The redirect guard lists a mapping exactly when it redirects 504 or 524 to a different valid
  status code; the list is sorted and without repetition.
\<close>

theorem disallowed_redirects_exact:
  "sorted (collectDisallowedStatusCodeRedirects s) \<and> distinct (collectDisallowedStatusCodeRedirects s) \<and>
   set (collectDisallowedStatusCodeRedirects s) =
     {nat_to_js f @ js '' -> '' @ nat_to_js t | f t kvs k v.
        parse_object s = Some kvs \<and> (k, v) \<in> set kvs \<and> parseStatusCodeKey k = Some f \<and>
        parseStatusCodeMappingTarget v = Some t \<and> f \<in> {504, 524} \<and> t \<noteq> f}"
proof (intro conjI)
  show "sorted (collectDisallowedStatusCodeRedirects s)" "distinct (collectDisallowedStatusCodeRedirects s)"
    by (auto simp: collectDisallowedStatusCodeRedirects_def split: option.split)
  have r: "risky_entry (k, v) = Some m \<longleftrightarrow>
      (\<exists>f t. parseStatusCodeKey k = Some f \<and> parseStatusCodeMappingTarget v = Some t \<and>
         f \<in> {504, 524} \<and> t \<noteq> f \<and> m = nat_to_js f @ js '' -> '' @ nat_to_js t)" for k v m
    by (auto simp: risky_entry_def NON_REDIRECTABLE_STATUS_CODES_def split: option.splits)
  show "set (collectDisallowedStatusCodeRedirects s) =
     {nat_to_js f @ js '' -> '' @ nat_to_js t | f t kvs k v.
        parse_object s = Some kvs \<and> (k, v) \<in> set kvs \<and> parseStatusCodeKey k = Some f \<and>
        parseStatusCodeMappingTarget v = Some t \<and> f \<in> {504, 524} \<and> t \<noteq> f}"
    (is "?L = ?R")
  proof (rule set_eqI)
    fix m
    have "m \<in> ?L \<longleftrightarrow> (\<exists>kvs k v. parse_object s = Some kvs \<and> (k, v) \<in> set kvs \<and> risky_entry (k, v) = Some m)"
      by (simp add: risky_iff)
    also have "\<dots> \<longleftrightarrow> m \<in> ?R" unfolding r by blast
    finally show "m \<in> ?L \<longleftrightarrow> m \<in> ?R" .
  qed
qed

text \<open>
  The confirmation dialog is asked about the redirects that are risky now and were not before:
  it is empty for an unchanged mapping and otherwise the set difference, in sorted order.
\<close>

lemma new_redirects_difference:
  "set (collectNewDisallowedStatusCodeRedirects old new) =
     set (collectDisallowedStatusCodeRedirects new) - set (collectDisallowedStatusCodeRedirects old) \<and>
   sorted (collectNewDisallowedStatusCodeRedirects old new) \<and>
   collectNewDisallowedStatusCodeRedirects old old = []"
proof -
  have "sorted (collectDisallowedStatusCodeRedirects new)"
    by (auto simp: collectDisallowedStatusCodeRedirects_def split: option.split)
  then show ?thesis
    by (auto simp: collectNewDisallowedStatusCodeRedirects_def Let_def filter_empty_conv
        intro: sorted_filter [where f = "\<lambda>x. x", simplified])
qed

end
