(* ===== verification/Param_Override.thy ===== *)
theory Param_Override
  imports JS_Json
begin

text \<open>
  The rule language of the parameter-override editor
  (\<open>src/web/default/src/features/channels/components/dialogs/param-override-editor-dialog.tsx\<close>): the
  operations and conditions a rule consists of, reading them from and writing them to JSON, their
  validation, and the drafts of the \<open>return_error\<close> and \<open>prune_objects\<close> rules. The editor's state and
  handlers are in theory \<open>Param_Editor\<close>.

  Identifiers come from \<open>nextLocalId\<close>, which reads the clock and a module-level counter. The counter
  is passed through every function that creates one; \<open>clk n\<close> is what \<open>Date.now()\<close> returned at the
  call with counter \<open>n\<close>. A \<open>TypeError\<close> (a property read on null) is the result \<open>None\<close>. The
  translation function \<open>t\<close> is a parameter: it takes the message key and the line.
\<close>

section \<open>Data\<close>

type_synonym clock = "nat \<Rightarrow> nat"
type_synonym translate = "jstring \<Rightarrow> nat \<Rightarrow> jstring"

record ParamOverrideCondition =
  c_id :: jstring
  c_path :: jstring
  c_mode :: jstring
  c_value_text :: jstring
  c_invert :: bool
  c_pass_missing_key :: bool

record ParamOverrideOperation =
  o_id :: jstring
  o_description :: jstring
  o_path :: jstring
  o_mode :: jstring
  o_from :: jstring
  o_to :: jstring
  o_value_text :: jstring
  o_keep_origin :: bool
  o_logic :: jstring
  o_conditions :: "ParamOverrideCondition list"

definition OPERATION_MODE_OPTIONS :: "(jstring \<times> jstring) list" where
  "OPERATION_MODE_OPTIONS =
    [(js ''Set Field'', js ''set''), (js ''Delete Field'', js ''delete''),
     (js ''Append to End'', js ''append''), (js ''Prepend to Start'', js ''prepend''),
     (js ''Copy Field'', js ''copy''), (js ''Move Field'', js ''move''),
     (js ''String Replace'', js ''replace''), (js ''Regex Replace'', js ''regex_replace''),
     (js ''Trim Prefix'', js ''trim_prefix''), (js ''Trim Suffix'', js ''trim_suffix''),
     (js ''Ensure Prefix'', js ''ensure_prefix''), (js ''Ensure Suffix'', js ''ensure_suffix''),
     (js ''Trim Space'', js ''trim_space''), (js ''To Lowercase'', js ''to_lower''),
     (js ''To Uppercase'', js ''to_upper''), (js ''Return Custom Error'', js ''return_error''),
     (js ''Prune Object Items'', js ''prune_objects''), (js ''Pass Through Headers'', js ''pass_headers''),
     (js ''Sync Fields'', js ''sync_fields''), (js ''Set Request Header'', js ''set_header''),
     (js ''Delete Request Header'', js ''delete_header''), (js ''Copy Request Header'', js ''copy_header''),
     (js ''Move Request Header'', js ''move_header'')]"

definition OPERATION_MODE_VALUES :: "jstring list" where
  "OPERATION_MODE_VALUES = map snd OPERATION_MODE_OPTIONS"

definition OPERATION_MODE_LABEL_MAP :: "(jstring \<times> jstring) list" where
  "OPERATION_MODE_LABEL_MAP = map (\<lambda>(l, v). (v, l)) OPERATION_MODE_OPTIONS"

definition CONDITION_MODE_OPTIONS :: "(jstring \<times> jstring) list" where
  "CONDITION_MODE_OPTIONS =
    [(js ''Exact Match'', js ''full''), (js ''Prefix'', js ''prefix''), (js ''Suffix'', js ''suffix''),
     (js ''Contains'', js ''contains''), (js ''Greater Than'', js ''gt''),
     (js ''Greater Than or Equal'', js ''gte''), (js ''Less Than'', js ''lt''),
     (js ''Less Than or Equal'', js ''lte'')]"

definition CONDITION_MODE_VALUES :: "jstring list" where
  "CONDITION_MODE_VALUES = map snd CONDITION_MODE_OPTIONS"

record mode_meta =
  m_path :: bool
  m_pathOptional :: bool
  m_value :: bool
  m_from :: bool
  m_to :: bool
  m_keepOrigin :: bool
  m_pathAlias :: bool

definition no_meta :: mode_meta where
  "no_meta = \<lparr>m_path = False, m_pathOptional = False, m_value = False, m_from = False, m_to = False,
     m_keepOrigin = False, m_pathAlias = False\<rparr>"

definition MODE_META :: "(jstring \<times> mode_meta) list" where
  "MODE_META =
    [(js ''delete'', no_meta\<lparr>m_path := True\<rparr>),
     (js ''set'', no_meta\<lparr>m_path := True, m_value := True, m_keepOrigin := True\<rparr>),
     (js ''append'', no_meta\<lparr>m_path := True, m_value := True, m_keepOrigin := True\<rparr>),
     (js ''prepend'', no_meta\<lparr>m_path := True, m_value := True, m_keepOrigin := True\<rparr>),
     (js ''copy'', no_meta\<lparr>m_from := True, m_to := True\<rparr>),
     (js ''move'', no_meta\<lparr>m_from := True, m_to := True\<rparr>),
     (js ''replace'', no_meta\<lparr>m_path := True, m_from := True\<rparr>),
     (js ''regex_replace'', no_meta\<lparr>m_path := True, m_from := True\<rparr>),
     (js ''trim_prefix'', no_meta\<lparr>m_path := True, m_value := True\<rparr>),
     (js ''trim_suffix'', no_meta\<lparr>m_path := True, m_value := True\<rparr>),
     (js ''ensure_prefix'', no_meta\<lparr>m_path := True, m_value := True\<rparr>),
     (js ''ensure_suffix'', no_meta\<lparr>m_path := True, m_value := True\<rparr>),
     (js ''trim_space'', no_meta\<lparr>m_path := True\<rparr>),
     (js ''to_lower'', no_meta\<lparr>m_path := True\<rparr>),
     (js ''to_upper'', no_meta\<lparr>m_path := True\<rparr>),
     (js ''return_error'', no_meta\<lparr>m_value := True\<rparr>),
     (js ''prune_objects'', no_meta\<lparr>m_pathOptional := True, m_value := True\<rparr>),
     (js ''pass_headers'', no_meta\<lparr>m_value := True, m_keepOrigin := True\<rparr>),
     (js ''sync_fields'', no_meta\<lparr>m_from := True, m_to := True\<rparr>),
     (js ''set_header'', no_meta\<lparr>m_path := True, m_value := True, m_keepOrigin := True\<rparr>),
     (js ''delete_header'', no_meta\<lparr>m_path := True\<rparr>),
     (js ''copy_header'', no_meta\<lparr>m_from := True, m_to := True, m_keepOrigin := True, m_pathAlias := True\<rparr>),
     (js ''move_header'', no_meta\<lparr>m_from := True, m_to := True, m_keepOrigin := True, m_pathAlias := True\<rparr>)]"

definition meta_of :: "jstring \<Rightarrow> mode_meta" where
  "meta_of mode =
     (case map_of MODE_META mode of Some m \<Rightarrow> m
      | None \<Rightarrow> no_meta\<lparr>m_path := True, m_value := True, m_keepOrigin := True\<rparr>)"

definition VALUE_REQUIRED_MODES :: "jstring list" where
  "VALUE_REQUIRED_MODES =
    [js ''trim_prefix'', js ''trim_suffix'', js ''ensure_prefix'', js ''ensure_suffix'',
     js ''set_header'', js ''return_error'', js ''prune_objects'', js ''pass_headers'']"

definition FROM_REQUIRED_MODES :: "jstring list" where
  "FROM_REQUIRED_MODES =
    [js ''copy'', js ''move'', js ''replace'', js ''regex_replace'', js ''copy_header'',
     js ''move_header'', js ''sync_fields'']"

definition TO_REQUIRED_MODES :: "jstring list" where
  "TO_REQUIRED_MODES =
    [js ''copy'', js ''move'', js ''copy_header'', js ''move_header'', js ''sync_fields'']"

section \<open>Values and identifiers\<close>

definition nextLocalId :: "clock \<Rightarrow> nat \<Rightarrow> jstring \<times> nat" where
  "nextLocalId clk seed = (js ''po_'' @ nat_to_js (clk seed) @ js ''_'' @ nat_to_js seed, seed + 1)"

definition toValueText :: "json option \<Rightarrow> jstring" where
  "toValueText value =
     (case value of None \<Rightarrow> [] | Some (JStr s) \<Rightarrow> s | Some v \<Rightarrow> JSON_stringify v)"

definition parseLooseValue :: "jstring \<Rightarrow> json" where
  "parseLooseValue valueText =
     (let raw = trim valueText in
      if raw = [] then JStr []
      else case JSON_parse raw of Some v \<Rightarrow> v | None \<Rightarrow> JStr raw)"

definition verifyJSON :: "jstring \<Rightarrow> bool" where
  "verifyJSON text \<longleftrightarrow> JSON_parse text \<noteq> None"

section \<open>Reading rules\<close>

text \<open>
  The properties of a value used as a record. Reading one on null is a \<open>TypeError\<close>; strings,
  numbers, booleans and arrays have none of the properties the editor reads.
\<close>

definition as_record :: "json \<Rightarrow> jobject option" where
  "as_record v = (case v of JNull \<Rightarrow> None | JObj kvs \<Rightarrow> Some kvs | _ \<Rightarrow> Some [])"

definition mode_or :: "jstring list \<Rightarrow> jstring \<Rightarrow> json option \<Rightarrow> jstring" where
  "mode_or values dflt v = (case v of Some (JStr m) \<Rightarrow> if m \<in> set values then m else dflt | _ \<Rightarrow> dflt)"

definition normalizeCondition :: "clock \<Rightarrow> nat \<Rightarrow> jobject \<Rightarrow> ParamOverrideCondition \<times> nat" where
  "normalizeCondition clk seed condition =
     (let (i, seed') = nextLocalId clk seed in
      (\<lparr>c_id = i,
        c_path = string_or_empty (obj_get (js ''path'') condition),
        c_mode = mode_or CONDITION_MODE_VALUES (js ''full'') (obj_get (js ''mode'') condition),
        c_value_text = toValueText (obj_get (js ''value'') condition),
        c_invert = (obj_get (js ''invert'') condition = Some (JBool True)),
        c_pass_missing_key = (obj_get (js ''pass_missing_key'') condition = Some (JBool True))\<rparr>, seed'))"

fun normalizeConditions :: "clock \<Rightarrow> nat \<Rightarrow> json list \<Rightarrow> (ParamOverrideCondition list \<times> nat) option" where
  "normalizeConditions clk seed [] = Some ([], seed)"
| "normalizeConditions clk seed (v # vs) =
     (case as_record v of None \<Rightarrow> None
      | Some r \<Rightarrow>
          let (c, seed') = normalizeCondition clk seed r in
          map_option (apfst (Cons c)) (normalizeConditions clk seed' vs))"

definition createDefaultCondition :: "clock \<Rightarrow> nat \<Rightarrow> ParamOverrideCondition \<times> nat" where
  "createDefaultCondition clk seed = normalizeCondition clk seed []"

definition normalizeOperation :: "clock \<Rightarrow> nat \<Rightarrow> jobject \<Rightarrow> (ParamOverrideOperation \<times> nat) option" where
  "normalizeOperation clk seed operation =
     (let (i, seed1) = nextLocalId clk seed;
          logic = (case obj_get (js ''logic'') operation of
                     Some l \<Rightarrow> if json_truthy l then json_to_str l else js ''OR'' | None \<Rightarrow> js ''OR'') in
      map_option
        (\<lambda>(cs, seed').
          (\<lparr>o_id = i,
            o_description = string_or_empty (obj_get (js ''description'') operation),
            o_path = string_or_empty (obj_get (js ''path'') operation),
            o_mode = mode_or OPERATION_MODE_VALUES (js ''set'') (obj_get (js ''mode'') operation),
            o_from = string_or_empty (obj_get (js ''from'') operation),
            o_to = string_or_empty (obj_get (js ''to'') operation),
            o_value_text = toValueText (obj_get (js ''value'') operation),
            o_keep_origin = (obj_get (js ''keep_origin'') operation = Some (JBool True)),
            o_logic = (if to_upper logic = js ''AND'' then js ''AND'' else js ''OR''),
            o_conditions = cs\<rparr>, seed'))
        (case obj_get (js ''conditions'') operation of
           Some (JArr vs) \<Rightarrow> normalizeConditions clk seed1 vs
         | _ \<Rightarrow> Some ([], seed1)))"

fun normalizeOperations :: "clock \<Rightarrow> nat \<Rightarrow> json list \<Rightarrow> (ParamOverrideOperation list \<times> nat) option" where
  "normalizeOperations clk seed [] = Some ([], seed)"
| "normalizeOperations clk seed (v # vs) =
     (case as_record v of None \<Rightarrow> None
      | Some r \<Rightarrow>
         (case normalizeOperation clk seed r of None \<Rightarrow> None
          | Some (op, seed') \<Rightarrow> map_option (apfst (Cons op)) (normalizeOperations clk seed' vs)))"

definition createDefaultOperation :: "clock \<Rightarrow> nat \<Rightarrow> ParamOverrideOperation \<times> nat" where
  "createDefaultOperation clk seed =
     (let (i, seed') = nextLocalId clk seed in
      (\<lparr>o_id = i, o_description = [], o_path = [], o_mode = js ''set'', o_from = [], o_to = [],
        o_value_text = [], o_keep_origin = False, o_logic = js ''OR'', o_conditions = []\<rparr>, seed'))"

text \<open>The source writes it as \<open>normalizeOperation({ mode: 'set' })\<close>.\<close>

lemma createDefaultOperation_eq:
  "normalizeOperation clk seed [(js ''mode'', JStr (js ''set''))] = Some (createDefaultOperation clk seed)"
  by (simp add: normalizeOperation_def createDefaultOperation_def nextLocalId_def Let_def
      string_or_empty_def toValueText_def mode_or_def OPERATION_MODE_VALUES_def
      OPERATION_MODE_OPTIONS_def to_upper_def js_def)

section \<open>Order and display\<close>

definition reorderOperations ::
  "ParamOverrideOperation list \<Rightarrow> jstring \<Rightarrow> jstring \<Rightarrow> bool \<Rightarrow> ParamOverrideOperation list" where
  "reorderOperations ops sourceId targetId after =
     (if sourceId = [] \<or> targetId = [] \<or> sourceId = targetId then ops
      else case find_index (\<lambda>x. o_id x = sourceId) ops of None \<Rightarrow> ops
      | Some srcIdx \<Rightarrow>
          let moved = ops ! srcIdx; rest = take srcIdx ops @ drop (srcIdx + 1) ops in
          case find_index (\<lambda>x. o_id x = targetId) rest of None \<Rightarrow> ops
          | Some idx \<Rightarrow>
              let insertIdx = (if after then idx + 1 else idx) in
              take insertIdx rest @ [moved] @ drop insertIdx rest)"

definition isOperationBlank :: "ParamOverrideOperation \<Rightarrow> bool" where
  "isOperationBlank operation =
     (let hasCondition = list_ex (\<lambda>c. trim (c_path c) \<noteq> [] \<or> trim (c_value_text c) \<noteq> [] \<or>
            c_mode c \<noteq> js ''full'' \<or> c_invert c \<or> c_pass_missing_key c) (o_conditions operation) in
      o_mode operation = js ''set'' \<and> trim (o_path operation) = [] \<and> trim (o_from operation) = [] \<and>
      trim (o_to operation) = [] \<and> trim (o_value_text operation) = [] \<and> \<not> o_keep_origin operation \<and>
      \<not> hasCondition)"

definition first_truthy :: "jstring list \<Rightarrow> jstring" where
  "first_truthy xs = (case filter_truthy xs of [] \<Rightarrow> js ''-'' | x # _ \<Rightarrow> x)"

text \<open>The code point U+00B7 (183) is the middle dot.\<close>

definition getOperationSummary :: "ParamOverrideOperation \<Rightarrow> nat \<Rightarrow> jstring" where
  "getOperationSummary operation index =
     (let mode = (if o_mode operation = [] then js ''set'' else o_mode operation);
          modeLabel = (case map_of OPERATION_MODE_LABEL_MAP mode of Some l \<Rightarrow> l | None \<Rightarrow> mode);
          path = trim (o_path operation); from' = trim (o_from operation); to' = trim (o_to operation) in
      nat_to_js (index + 1) @ js ''. '' @ modeLabel @ [32, 183, 32] @
        (if mode = js ''sync_fields'' then first_truthy [from', to'] else first_truthy [path, from', to']))"

section \<open>Synchronised fields\<close>

record sync_target =
  st_type :: jstring
  st_key :: jstring

definition parseSyncTargetSpec :: "jstring \<Rightarrow> sync_target" where
  "parseSyncTargetSpec spec =
     (let raw = trim spec in
      if raw = [] then \<lparr>st_type = js ''json'', st_key = []\<rparr>
      else case index_of (js '':'') raw of
        None \<Rightarrow> \<lparr>st_type = js ''json'', st_key = raw\<rparr>
      | Some idx \<Rightarrow>
          let prefix = to_lower (trim (take idx raw)); key = trim (drop (idx + 1) raw) in
          if prefix = js ''header'' then \<lparr>st_type = js ''header'', st_key = key\<rparr>
          else \<lparr>st_type = js ''json'', st_key = key\<rparr>)"

definition buildSyncTargetSpec :: "jstring \<Rightarrow> jstring \<Rightarrow> jstring" where
  "buildSyncTargetSpec type key =
     (let normalizedType = (if type = js ''header'' then js ''header'' else js ''json'');
          normalizedKey = trim key in
      if normalizedKey = [] then [] else normalizedType @ js '':'' @ normalizedKey)"

section \<open>return_error drafts\<close>

record ReturnErrorDraft =
  re_message :: jstring
  re_statusCode :: jnum
  re_code :: jstring
  re_type :: jstring
  re_skipRetry :: bool
  re_simpleMode :: bool

definition valid_status :: "jnum \<Rightarrow> bool" where
  "valid_status x \<longleftrightarrow> is_integer x \<and> num_le (Fin 100) x \<and> num_le x (Fin 599)"

definition return_error_defaults :: ReturnErrorDraft where
  "return_error_defaults =
     \<lparr>re_message = [], re_statusCode = Fin 400, re_code = [], re_type = [], re_skipRetry = True,
      re_simpleMode = True\<rparr>"

definition parseReturnErrorDraft :: "jstring \<Rightarrow> ReturnErrorDraft" where
  "parseReturnErrorDraft valueText =
     (let raw = trim valueText in
      if raw = [] then return_error_defaults
      else case JSON_parse raw of
        Some (JObj parsed) \<Rightarrow>
          let statusRaw = (case obj_get (js ''status_code'') parsed of
                             Some s \<Rightarrow> Some s | None \<Rightarrow> obj_get (js ''status'') parsed);
              statusValue = (case statusRaw of Some s \<Rightarrow> json_to_num s | None \<Rightarrow> NaN);
              message = (if opt_truthy (obj_get (js ''message'') parsed)
                         then str_or_empty (obj_get (js ''message'') parsed)
                         else str_or_empty (obj_get (js ''msg'') parsed)) in
          \<lparr>re_message = trim message,
           re_statusCode = (if valid_status statusValue then statusValue else Fin 400),
           re_code = trim (str_or_empty (obj_get (js ''code'') parsed)),
           re_type = trim (str_or_empty (obj_get (js ''type'') parsed)),
           re_skipRetry = (obj_get (js ''skip_retry'') parsed \<noteq> Some (JBool False)),
           re_simpleMode = False\<rparr>
      | _ \<Rightarrow> return_error_defaults\<lparr>re_message := raw, re_simpleMode := True\<rparr>)"

definition buildReturnErrorValueText :: "ReturnErrorDraft \<Rightarrow> jstring" where
  "buildReturnErrorValueText draft =
     (let message = trim (re_message draft) in
      if re_simpleMode draft then message
      else
        let statusCode = re_statusCode draft;
            code = trim (re_code draft); type = trim (re_type draft);
            payload =
              assign_fields
                [(True, js ''message'', JStr message),
                 (True, js ''status_code'', JNum (if valid_status statusCode then statusCode else Fin 400)),
                 (code \<noteq> [], js ''code'', JStr code),
                 (type \<noteq> [], js ''type'', JStr type),
                 (\<not> re_skipRetry draft, js ''skip_retry'', JBool False)] in
        JSON_stringify (JObj payload))"

section \<open>prune_objects drafts\<close>

record PruneRule =
  r_id :: jstring
  r_path :: jstring
  r_mode :: jstring
  r_value_text :: jstring
  r_invert :: bool
  r_pass_missing_key :: bool

record PruneObjectsDraft =
  p_simpleMode :: bool
  p_typeText :: jstring
  p_logic :: jstring
  p_recursive :: bool
  p_rules :: "PruneRule list"

definition normalizePruneRule :: "clock \<Rightarrow> nat \<Rightarrow> jobject \<Rightarrow> PruneRule \<times> nat" where
  "normalizePruneRule clk seed rule =
     (let (i, seed') = nextLocalId clk seed in
      (\<lparr>r_id = i,
        r_path = string_or_empty (obj_get (js ''path'') rule),
        r_mode = mode_or CONDITION_MODE_VALUES (js ''full'') (obj_get (js ''mode'') rule),
        r_value_text = toValueText (obj_get (js ''value'') rule),
        r_invert = (obj_get (js ''invert'') rule = Some (JBool True)),
        r_pass_missing_key = (obj_get (js ''pass_missing_key'') rule = Some (JBool True))\<rparr>, seed'))"

fun normalizePruneRules :: "clock \<Rightarrow> nat \<Rightarrow> jobject list \<Rightarrow> PruneRule list \<times> nat" where
  "normalizePruneRules clk seed [] = ([], seed)"
| "normalizePruneRules clk seed (r # rs) =
     (let (x, seed1) = normalizePruneRule clk seed r; (xs, seed2) = normalizePruneRules clk seed1 rs in
      (x # xs, seed2))"

text \<open>An entry \<open>path: value\<close> of a \<open>where\<close> or \<open>conditions\<close> object.\<close>

definition where_rule :: "jstring \<times> json \<Rightarrow> jobject" where
  "where_rule kv = [(js ''path'', JStr (fst kv)), (js ''mode'', JStr (js ''full'')), (js ''value'', snd kv)]"

definition prune_rule_records :: "jobject \<Rightarrow> jobject list" where
  "prune_rule_records parsed =
     (case obj_get (js ''where'') parsed of Some (JObj w) \<Rightarrow> map where_rule w | _ \<Rightarrow> []) @
     (case obj_get (js ''conditions'') parsed of
        Some (JArr items) \<Rightarrow>
          List.map_filter (\<lambda>item. case item of JObj r \<Rightarrow> Some r | JArr _ \<Rightarrow> Some [] | _ \<Rightarrow> None) items
      | Some (JObj c) \<Rightarrow> map where_rule c
      | _ \<Rightarrow> [])"

definition prune_defaults :: PruneObjectsDraft where
  "prune_defaults = \<lparr>p_simpleMode = True, p_typeText = [], p_logic = js ''AND'', p_recursive = True, p_rules = []\<rparr>"

definition parsePruneObjectsDraft :: "clock \<Rightarrow> nat \<Rightarrow> jstring \<Rightarrow> PruneObjectsDraft \<times> nat" where
  "parsePruneObjectsDraft clk seed valueText =
     (let raw = trim valueText in
      if raw = [] then (prune_defaults, seed)
      else case JSON_parse raw of
        None \<Rightarrow> (prune_defaults\<lparr>p_typeText := raw\<rparr>, seed)
      | Some (JStr s) \<Rightarrow> (prune_defaults\<lparr>p_typeText := trim s\<rparr>, seed)
      | Some (JObj parsed) \<Rightarrow>
          let (rules, seed') = normalizePruneRules clk seed (prune_rule_records parsed);
              logic = (case obj_get (js ''logic'') parsed of
                         Some l \<Rightarrow> if json_truthy l then json_to_str l else js ''AND'' | None \<Rightarrow> js ''AND'');
              hasAdvancedFields = list_ex (\<lambda>k. obj_get k parsed \<noteq> None)
                [js ''logic'', js ''recursive'', js ''where'', js ''conditions''] in
          (\<lparr>p_simpleMode = \<not> hasAdvancedFields,
            p_typeText = (case obj_get (js ''type'') parsed of None \<Rightarrow> [] | Some ty \<Rightarrow> trim (json_to_str ty)),
            p_logic = (if to_upper logic = js ''OR'' then js ''OR'' else js ''AND''),
            p_recursive = (obj_get (js ''recursive'') parsed \<noteq> Some (JBool False)),
            p_rules = rules\<rparr>, seed')
      | Some v \<Rightarrow> (prune_defaults\<lparr>p_typeText := (if v = JNull then [] else trim (json_to_str v))\<rparr>, seed))"

definition prune_condition :: "PruneRule \<Rightarrow> jobject" where
  "prune_condition rule =
     assign_fields
       [(True, js ''path'', JStr (trim (r_path rule))),
        (True, js ''mode'', JStr (if r_mode rule \<in> set CONDITION_MODE_VALUES then r_mode rule else js ''full'')),
        (trim (r_value_text rule) \<noteq> [], js ''value'', parseLooseValue (trim (r_value_text rule))),
        (r_invert rule, js ''invert'', JBool True),
        (r_pass_missing_key rule, js ''pass_missing_key'', JBool True)]"

definition buildPruneObjectsValueText :: "PruneObjectsDraft \<Rightarrow> jstring" where
  "buildPruneObjectsValueText draft =
     (let typeText = trim (p_typeText draft) in
      if p_simpleMode draft then typeText
      else
        let logic = (if p_logic draft = [] then js ''AND'' else p_logic draft);
            conditions = map prune_condition (filter (\<lambda>r. trim (r_path r) \<noteq> []) (p_rules draft));
            payload =
              assign_fields
                [(typeText \<noteq> [], js ''type'', JStr typeText),
                 (to_upper logic = js ''OR'', js ''logic'', JStr (js ''OR'')),
                 (\<not> p_recursive draft, js ''recursive'', JBool False),
                 (conditions \<noteq> [], js ''conditions'', JArr (map JObj conditions))] in
        if typeText = [] \<and> conditions = [] then JSON_stringify (JObj [(js ''logic'', JStr (js ''AND''))])
        else JSON_stringify (JObj payload))"

section \<open>pass_headers\<close>

text \<open>\<open>String(i ?? '').trim()\<close> of each item, the empty ones dropped.\<close>

definition header_items :: "json list \<Rightarrow> jstring list" where
  "header_items items = filter_truthy (map (\<lambda>i. if i = JNull then [] else trim (json_to_str i)) items)"

definition parsePassHeaderNames :: "json \<Rightarrow> jstring list" where
  "parsePassHeaderNames rawValue =
     (case rawValue of
        JArr items \<Rightarrow> header_items items
      | JObj obj \<Rightarrow>
          (case obj_get (js ''headers'') obj of
             Some (JArr items) \<Rightarrow> header_items items
           | _ \<Rightarrow> (case obj_get (js ''header'') obj of
                     Some h \<Rightarrow> header_items [h]
                   | None \<Rightarrow> []))
      | JStr s \<Rightarrow> split_trim 44 s
      | _ \<Rightarrow> [])"

section \<open>Validation and writing\<close>

definition buildConditionPayload :: "ParamOverrideCondition \<Rightarrow> jobject option" where
  "buildConditionPayload condition =
     (let path = trim (c_path condition) in
      if path = [] then None
      else Some
        (assign_fields
           [(True, js ''path'', JStr path),
            (True, js ''mode'', JStr (if c_mode condition = [] then js ''full'' else c_mode condition)),
            (True, js ''value'', parseLooseValue (c_value_text condition)),
            (c_invert condition, js ''invert'', JBool True),
            (c_pass_missing_key condition, js ''pass_missing_key'', JBool True)]))"

text \<open>The loop body of \<open>validateOperations\<close>: the key of the first message that applies.\<close>

definition validate_operation :: "ParamOverrideOperation \<Rightarrow> jstring option" where
  "validate_operation op =
     (let mode = (if o_mode op = [] then js ''set'' else o_mode op);
          meta = meta_of mode;
          pathValue = trim (o_path op); fromValue = trim (o_from op); toValue = trim (o_to op);
          raw = trim (o_value_text op) in
      if m_path meta \<and> pathValue = [] then Some (js ''Rule {{line}} is missing target path'')
      else if mode \<in> set FROM_REQUIRED_MODES \<and> fromValue = [] \<and> \<not> (m_pathAlias meta \<and> pathValue \<noteq> [])
        then Some (js ''Rule {{line}} is missing source field'')
      else if mode \<in> set TO_REQUIRED_MODES \<and> toValue = [] \<and> \<not> (m_pathAlias meta \<and> pathValue \<noteq> [])
        then Some (js ''Rule {{line}} is missing target field'')
      else if mode \<in> set VALUE_REQUIRED_MODES \<and> raw = [] then Some (js ''Rule {{line}} is missing value'')
      else if mode = js ''return_error'' then
        if raw = [] then Some (js ''Rule {{line}} is missing value'')
        else (case JSON_parse raw of
           Some (JObj parsed) \<Rightarrow>
             if trim (str_or_empty (obj_get (js ''message'') parsed)) = []
             then Some (js ''Rule {{line}} return_error requires a message field'') else None
         | _ \<Rightarrow> None)
      else if mode = js ''prune_objects'' then
        if raw = [] then Some (js ''Rule {{line}} prune_objects is missing conditions'') else None
      else if mode = js ''pass_headers'' then
        if raw = [] then Some (js ''Rule {{line}} pass_headers is missing header names'')
        else if parsePassHeaderNames (parseLooseValue raw) = []
        then Some (js ''Rule {{line}} pass_headers format is invalid'') else None
      else None)"

fun validate_from :: "translate \<Rightarrow> nat \<Rightarrow> ParamOverrideOperation list \<Rightarrow> jstring" where
  "validate_from t line [] = []"
| "validate_from t line (op # ops) =
     (case validate_operation op of Some key \<Rightarrow> t key line | None \<Rightarrow> validate_from t (line + 1) ops)"

definition validateOperations :: "ParamOverrideOperation list \<Rightarrow> translate \<Rightarrow> jstring" where
  "validateOperations operations t = validate_from t 1 operations"

text \<open>The modes with a path alias have both \<open>from\<close> and \<open>to\<close>, which an empty input leaves to the path.\<close>

definition operation_payload :: "ParamOverrideOperation \<Rightarrow> jobject" where
  "operation_payload operation =
     (let mode = (if o_mode operation = [] then js ''set'' else o_mode operation);
          meta = meta_of mode;
          descriptionValue = trim (o_description operation);
          pathValue = trim (o_path operation); fromValue = trim (o_from operation);
          toValue = trim (o_to operation);
          from' = (if m_pathAlias meta \<and> fromValue = [] then pathValue else fromValue);
          to' = (if m_pathAlias meta \<and> toValue = [] then pathValue else toValue);
          conditions = List.map_filter buildConditionPayload (o_conditions operation) in
      assign_fields
        [(True, js ''mode'', JStr mode),
         (descriptionValue \<noteq> [], js ''description'', JStr descriptionValue),
         (m_path meta \<or> m_pathOptional meta \<and> pathValue \<noteq> [], js ''path'', JStr pathValue),
         (m_value meta, js ''value'', parseLooseValue (o_value_text operation)),
         (m_keepOrigin meta \<and> o_keep_origin operation, js ''keep_origin'', JBool True),
         (m_from meta, js ''from'', JStr from'),
         (m_to meta \<or> toValue \<noteq> [], js ''to'', JStr to'),
         (conditions \<noteq> [], js ''conditions'', JArr (map JObj conditions)),
         (conditions \<noteq> [], js ''logic'', JStr (if o_logic operation = js ''AND'' then js ''AND'' else js ''OR''))])"

text \<open>\<open>Inl\<close> is the thrown error's message.\<close>

definition buildOperationsJson ::
  "ParamOverrideOperation list \<Rightarrow> bool \<Rightarrow> translate \<Rightarrow> jstring + jstring" where
  "buildOperationsJson sourceOperations validate t =
     (let filteredOps = filter (\<lambda>x. \<not> isOperationBlank x) sourceOperations in
      if filteredOps = [] then Inr []
      else let message = (if validate then validateOperations filteredOps t else []) in
        if message \<noteq> [] then Inl message
        else Inr (JSON_pretty (JObj [(js ''operations'', JArr (map (JObj \<circ> operation_payload) filteredOps))])))"

section \<open>Opening the editor\<close>

datatype edit_mode = Visual | Json
datatype visual_mode = Operations | Legacy

record EditorState =
  editMode :: edit_mode
  visualMode :: visual_mode
  legacyValue :: jstring
  operations :: "ParamOverrideOperation list"
  jsonText :: jstring
  jsonError :: jstring

definition parseInitialState :: "clock \<Rightarrow> nat \<Rightarrow> jstring \<Rightarrow> (EditorState \<times> nat) option" where
  "parseInitialState clk seed text =
     (let trimmed = trim text; (d, seed') = createDefaultOperation clk seed in
      if trimmed = [] then
        Some (\<lparr>editMode = Visual, visualMode = Operations, legacyValue = [], operations = [d],
               jsonText = [], jsonError = []\<rparr>, seed')
      else case JSON_parse trimmed of
        None \<Rightarrow>
          Some (\<lparr>editMode = Json, visualMode = Operations, legacyValue = [], operations = [d],
                 jsonText = text, jsonError = js ''Invalid JSON format''\<rparr>, seed')
      | Some parsed \<Rightarrow>
          let pretty = JSON_pretty parsed in
          (case parsed of
             JObj kvs \<Rightarrow>
               (case obj_get (js ''operations'') kvs of
                  Some (JArr vs) \<Rightarrow>
                    map_option
                      (\<lambda>(ops, s). (\<lparr>editMode = Visual, visualMode = Operations, legacyValue = [],
                                    operations = ops, jsonText = pretty, jsonError = []\<rparr>, s))
                      (if length vs > 0 then normalizeOperations clk seed vs else Some ([d], seed'))
                | _ \<Rightarrow>
                    Some (\<lparr>editMode = Visual, visualMode = Legacy, legacyValue = pretty, operations = [d],
                           jsonText = pretty, jsonError = []\<rparr>, seed'))
           | _ \<Rightarrow>
               Some (\<lparr>editMode = Json, visualMode = Operations, legacyValue = [], operations = [d],
                      jsonText = pretty, jsonError = []\<rparr>, seed')))"


section \<open>Identifiers are fresh\<close>

definition local_id :: "clock \<Rightarrow> nat \<Rightarrow> jstring" where
  "local_id clk n = fst (nextLocalId clk n)"

lemma nextLocalId_eq: "nextLocalId clk n = (local_id clk n, Suc n)"
  by (simp add: local_id_def nextLocalId_def)

lemma local_id_split: "split_on 95 (local_id clk n) = [js ''po'', nat_to_js (clk n), nat_to_js n]"
proof -
  have d: "95 \<notin> set (nat_to_js m)" for m
    using nat_to_js_digits [of m] by (auto simp: is_digit_def)
  have "local_id clk n = js ''po'' @ 95 # (nat_to_js (clk n) @ 95 # nat_to_js n)"
    by (simp add: local_id_def nextLocalId_def js_def)
  moreover have "95 \<notin> set (js ''po'')" by (simp add: js_def)
  ultimately show ?thesis by (simp add: split_on_append split_on_notin d)
qed

lemma local_id_inject [simp]: "local_id clk m = local_id clk n \<longleftrightarrow> m = n"
  by (metis local_id_split list.inject nat_to_js_inject)

lemma local_id_ne [simp]: "local_id clk n \<noteq> []"
  by (simp add: local_id_def nextLocalId_def)

definition minted :: "clock \<Rightarrow> nat \<Rightarrow> nat \<Rightarrow> jstring set" where
  "minted clk lo hi = local_id clk ` {lo..<hi}"

lemma minted_iff [simp]: "local_id clk n \<in> minted clk lo hi \<longleftrightarrow> lo \<le> n \<and> n < hi"
  by (auto simp: minted_def)

lemma minted_mono: "lo' \<le> lo \<Longrightarrow> hi \<le> hi' \<Longrightarrow> x \<in> minted clk lo hi \<Longrightarrow> x \<in> minted clk lo' hi'"
  by (auto simp: minted_def)

lemma minted_disjoint: "x \<in> minted clk a b \<Longrightarrow> x \<in> minted clk c d \<Longrightarrow> b \<le> c \<Longrightarrow> False"
  by (auto simp: minted_def)

lemma normalizeConditions_seed:
  "normalizeConditions clk seed vs = Some (cs, seed') \<Longrightarrow> seed \<le> seed'"
proof (induction vs arbitrary: seed cs)
  case (Cons v vs)
  then show ?case
    by (fastforce simp: normalizeCondition_def nextLocalId_eq Let_def split: option.splits)
qed simp

lemma normalizeOperation_id:
  assumes "normalizeOperation clk seed r = Some (op, seed')"
  shows "o_id op = local_id clk seed" and "seed < seed'"
proof -
  have "o_id op = local_id clk seed \<and> seed < seed'"
    using assms normalizeConditions_seed [of clk "Suc seed"]
    by (auto simp: normalizeOperation_def nextLocalId_eq Let_def Suc_le_eq
        split: option.splits json.splits)
  then show "o_id op = local_id clk seed" and "seed < seed'" by auto
qed

lemma normalizeOperations_ids:
  "normalizeOperations clk seed vs = Some (ops, seed') \<Longrightarrow>
     seed \<le> seed' \<and> distinct (map o_id ops) \<and> o_id ` set ops \<subseteq> minted clk seed seed' \<and> length ops = length vs"
proof (induction vs arbitrary: seed ops)
  case (Cons v vs)
  from Cons.prems obtain r op s ops' where r: "as_record v = Some r"
    and op: "normalizeOperation clk seed r = Some (op, s)"
    and ops': "normalizeOperations clk s vs = Some (ops', seed')" and o: "ops = op # ops'"
    by (auto split: option.splits)
  note id = normalizeOperation_id [OF op]
  from Cons.IH [OF ops'] have ih: "s \<le> seed'" "distinct (map o_id ops')" "o_id ` set ops' \<subseteq> minted clk s seed'"
    "length ops' = length vs" by auto
  have "local_id clk seed \<notin> minted clk s seed'" using id(2) by simp
  then have "o_id op \<notin> o_id ` set ops'" using id(1) ih(3) by force
  moreover have "o_id ` set ops' \<subseteq> minted clk seed seed'"
    using id(2) by (intro subset_trans [OF ih(3)]) (auto simp: minted_def)
  ultimately show ?case using o id ih by auto
qed simp

section \<open>Values survive reading and writing\<close>

lemma JSON_parse_Nil [simp]: "JSON_parse [] = None"
  by (simp add: JSON_parse_def skip_def)

lemma loose_value_nonstring:
  "wf_json v \<Longrightarrow> (\<And>s. v \<noteq> JStr s) \<Longrightarrow> parseLooseValue (toValueText (Some v)) = v"
  by (cases v) (auto simp: parseLooseValue_def toValueText_def ser_trimmed stringify_ne Let_def)

text \<open>A string value that reading the text back gives as the same string.\<close>

definition plain_text :: "jstring \<Rightarrow> bool" where
  "plain_text s \<longleftrightarrow> s = [] \<or> (trimmed s \<and> JSON_parse s = None)"

lemma loose_value_string:
  "parseLooseValue (toValueText (Some (JStr s))) = JStr s \<longleftrightarrow>
     plain_text s \<or> JSON_parse (trim s) = Some (JStr s)"
  by (auto simp: parseLooseValue_def toValueText_def plain_text_def Let_def trim_eq_iff [symmetric]
      split: option.split)

definition stable_text :: "jstring \<Rightarrow> bool" where
  "stable_text s \<longleftrightarrow> parseLooseValue (toValueText (Some (parseLooseValue s))) = parseLooseValue s"


lemma loose_object: "parseLooseValue x = JObj ob \<longleftrightarrow> JSON_parse (trim x) = Some (JObj ob)"
  by (auto simp: parseLooseValue_def Let_def split: option.split)

lemma loose_trim [simp]: "parseLooseValue (trim x) = parseLooseValue x"
  by (simp add: parseLooseValue_def)

lemma loose_empty: "trim x = [] \<Longrightarrow> parseLooseValue x = JStr []"
  by (simp add: parseLooseValue_def)

lemma units_trim [simp]: "units s \<Longrightarrow> units (trim s)"
  using set_trim by (auto simp: units_def)

section \<open>Reordering\<close>

lemma mset_take_drop: "mset (take i r) + mset (drop i r) = mset r"
  by (metis append_take_drop_id mset_append)

lemma reorder_perm: "mset (reorderOperations ops s t after) = mset ops"
proof -
  let ?i = "find_index (\<lambda>x. o_id x = s) ops"
  have ins: "mset (take i r @ [x] @ drop i r) = add_mset x (mset r)" for i x and r :: "ParamOverrideOperation list"
    using mset_take_drop [of i r] by simp
  have del: "add_mset (ops ! i) (mset (take i ops @ drop (i + 1) ops)) = mset ops" if "?i = Some i" for i
    using arg_cong [OF id_take_nth_drop, of i ops mset] find_index_Some [OF that] by simp
  show ?thesis
    unfolding reorderOperations_def Let_def
    by (auto simp only: ins del split: option.splits if_splits)
qed

text \<open>
  Dropping a rule on another moves it right before or right after it, and keeps the order of all
  the other rules.
\<close>

theorem reorder_moves:
  assumes "distinct (map o_id (a @ [s] @ b))" and "a @ b = xs @ [t] @ ys"
    and "o_id s \<noteq> []" and "o_id t \<noteq> []"
  shows "reorderOperations (a @ [s] @ b) (o_id s) (o_id t) after =
    (if after then xs @ [t, s] @ ys else xs @ [s, t] @ ys)"
proof -
  have d: "o_id s \<notin> o_id ` set a" "distinct (map o_id (xs @ [t] @ ys))" "o_id s \<notin> o_id ` set (xs @ [t] @ ys)"
    using assms(1) unfolding assms(2) [symmetric] by auto
  have f1: "find_index (\<lambda>x. o_id x = o_id s) (a @ [s] @ b) = Some (length a)"
    unfolding append_Cons append_Nil using d(1) by (intro find_index_append) (auto simp: image_iff)
  have f2: "find_index (\<lambda>x. o_id x = o_id t) (a @ b) = Some (length xs)"
    unfolding assms(2) append_Cons append_Nil using d(2) by (intro find_index_append) (auto simp: image_iff)
  have "o_id s \<noteq> o_id t" using d(3) by auto
  then show ?thesis
    using assms(2-4) f1 f2 by (simp add: reorderOperations_def)
qed

section \<open>return_error\<close>

lemma valid_status_num_ok: "valid_status x \<Longrightarrow> num_ok x"
proof (rule safe_num_ok)
  assume v: "valid_status x"
  then obtain r where x: "x = Fin r" "r = of_int \<lfloor>r\<rfloor>" "100 \<le> r" "r \<le> 599"
    by (cases x) (auto simp: valid_status_def is_integer_def num_le_def num_eq_def)
  moreover have "(599 :: rat) \<le> 2 ^ 53" by simp
  ultimately show "safe_num x" by (auto simp: safe_num_def)
qed

lemma valid_status_400: "valid_status (Fin 400)"
  by (simp add: valid_status_def is_integer_def num_le_def)

lemma units_js [simp]: "units (js s)"
proof -
  have "(of_char c :: nat) < 65536" for c
    by (rule less_trans [OF nat_of_char_less_256]) simp
  then show ?thesis by (auto simp: units_def js_def)
qed

lemma word_key: "s \<noteq> [] \<Longrightarrow> \<not> is_digit (of_char (hd s)) \<Longrightarrow> \<not> is_array_index (js s)"
  by (cases s) (auto simp: is_array_index_def js_def)

lemmas word_keys [simp] = word_key [of "c # s" for c s, simplified]

lemma str_or_empty_JStr [simp]: "str_or_empty (Some (JStr s)) = s" "str_or_empty None = []"
  by (simp_all add: str_or_empty_def json_truthy_def)

text \<open>
  The structured form of a \<open>return_error\<close> value round-trips: reading what was written gives the
  draft with its texts trimmed and an impossible status replaced by 400.
\<close>

theorem return_error_roundtrip:
  assumes "\<not> re_simpleMode d" and "units (re_message d)" and "units (re_code d)" and "units (re_type d)"
  shows "parseReturnErrorDraft (buildReturnErrorValueText d) =
    d\<lparr>re_message := trim (re_message d), re_code := trim (re_code d), re_type := trim (re_type d),
      re_statusCode := (if valid_status (re_statusCode d) then re_statusCode d else Fin 400)\<rparr>"
proof -
  let ?st = "if valid_status (re_statusCode d) then re_statusCode d else Fin 400"
  let ?p = "assign_fields
      [(True, js ''message'', JStr (trim (re_message d))), (True, js ''status_code'', JNum ?st),
       (trim (re_code d) \<noteq> [], js ''code'', JStr (trim (re_code d))),
       (trim (re_type d) \<noteq> [], js ''type'', JStr (trim (re_type d))),
       (\<not> re_skipRetry d, js ''skip_retry'', JBool False)]"
  have st: "valid_status ?st" using valid_status_400 by simp
  obtain p where p: "p = ?p" by simp
  have wf: "wf_json (JObj p)"
    using assms(2-4) valid_status_num_ok [OF st] unfolding p by (intro wf_assign_fields) (auto simp: is_digit_def)
  have b: "buildReturnErrorValueText d = JSON_stringify (JObj p)"
    using assms(1) by (simp add: buildReturnErrorValueText_def Let_def p)
  have g: "obj_get (js ''message'') p = Some (JStr (trim (re_message d)))"
    "obj_get (js ''status_code'') p = Some (JNum ?st)"
    "obj_get (js ''msg'') p = None"
    "str_or_empty (obj_get (js ''code'') p) = trim (re_code d)"
    "str_or_empty (obj_get (js ''type'') p) = trim (re_type d)"
    "obj_get (js ''skip_retry'') p \<noteq> Some (JBool False) \<longleftrightarrow> re_skipRetry d"
    unfolding p by simp_all
  have "parseReturnErrorDraft (JSON_stringify (JObj p)) =
      \<lparr>re_message = trim (re_message d), re_statusCode = ?st, re_code = trim (re_code d),
       re_type = trim (re_type d), re_skipRetry = re_skipRetry d, re_simpleMode = False\<rparr>"
    unfolding parseReturnErrorDraft_def ser_trimmed [OF wf] parse_stringify [OF wf] Let_def
    using st by (simp only: stringify_ne [OF wf] g option.case json.case json_to_num_def opt_truthy_def
        json_truthy_def if_False if_True str_or_empty_JStr trim_trim) simp
  then show ?thesis using assms(1) unfolding b by simp
qed


section \<open>Validation\<close>

text \<open>What the mode tables promise each other.\<close>

lemma from_required: "mode \<in> set FROM_REQUIRED_MODES \<Longrightarrow> m_from (meta_of mode)"
  by (auto simp: FROM_REQUIRED_MODES_def meta_of_def MODE_META_def no_meta_def)

lemma to_required: "mode \<in> set TO_REQUIRED_MODES \<Longrightarrow> m_to (meta_of mode)"
  by (auto simp: TO_REQUIRED_MODES_def meta_of_def MODE_META_def no_meta_def)

lemma value_required: "mode \<in> set VALUE_REQUIRED_MODES \<Longrightarrow> m_value (meta_of mode)"
  by (auto simp: VALUE_REQUIRED_MODES_def meta_of_def MODE_META_def no_meta_def)

lemma meta_of_cases: "meta_of mode \<in> insert (no_meta\<lparr>m_path := True, m_value := True, m_keepOrigin := True\<rparr>) (snd ` set MODE_META)"
  by (auto simp: meta_of_def split: option.split dest!: map_of_SomeD intro: rev_image_eqI)

lemma alias_fields:
  assumes "m_pathAlias (meta_of mode)"
  shows "m_from (meta_of mode)" "m_to (meta_of mode)" "\<not> m_path (meta_of mode)" "\<not> m_pathOptional (meta_of mode)"
  using assms meta_of_cases [of mode] by (auto simp: MODE_META_def no_meta_def)

lemma set_fields: "m_path (meta_of (js ''set''))" "js ''set'' \<in> set OPERATION_MODE_VALUES"
  by (simp_all add: meta_of_def MODE_META_def no_meta_def OPERATION_MODE_VALUES_def OPERATION_MODE_OPTIONS_def)

lemma value_required_special:
  "js ''return_error'' \<in> set VALUE_REQUIRED_MODES" "js ''prune_objects'' \<in> set VALUE_REQUIRED_MODES"
  "js ''pass_headers'' \<in> set VALUE_REQUIRED_MODES"
  by (simp_all add: VALUE_REQUIRED_MODES_def)

lemma mode_ne: "m \<in> set OPERATION_MODE_VALUES \<Longrightarrow> m \<noteq> []" "c \<in> set CONDITION_MODE_VALUES \<Longrightarrow> c \<noteq> []"
  by (auto simp: OPERATION_MODE_VALUES_def OPERATION_MODE_OPTIONS_def CONDITION_MODE_VALUES_def
      CONDITION_MODE_OPTIONS_def js_def)

lemma units_mode: "m \<in> set OPERATION_MODE_VALUES \<Longrightarrow> units m" "c \<in> set CONDITION_MODE_VALUES \<Longrightarrow> units c"
  by (auto simp: OPERATION_MODE_VALUES_def OPERATION_MODE_OPTIONS_def CONDITION_MODE_VALUES_def
      CONDITION_MODE_OPTIONS_def)

lemma validate_from_empty:
  assumes "\<And>k n. t k n \<noteq> []"
  shows "validate_from t n ops = [] \<longleftrightarrow> list_all (\<lambda>op. validate_operation op = None) ops"
  using assms by (induction ops arbitrary: n) (auto split: option.split)

lemma validate_from_first:
  "validate_from t n ops \<noteq> [] \<Longrightarrow>
    \<exists>i < length ops. \<exists>key. validate_operation (ops ! i) = Some key \<and> validate_from t n ops = t key (n + i) \<and>
      list_all (\<lambda>op. validate_operation op = None) (take i ops)"
proof (induction ops arbitrary: n)
  case (Cons op ops)
  show ?case
  proof (cases "validate_operation op")
    case None
    with Cons obtain i key where "i < length ops" "validate_operation (ops ! i) = Some key"
      "validate_from t (n + 1) ops = t key (n + 1 + i)" "list_all (\<lambda>op. validate_operation op = None) (take i ops)"
      by fastforce
    with None show ?thesis by (intro exI [of _ "Suc i"]) auto
  next
    case (Some key)
    then show ?thesis by (intro exI [of _ 0]) auto
  qed
qed simp

section \<open>Saving and reopening\<close>

text \<open>
  A value that is read back as it was written: every JSON value but a string that is not its own text
  (the string \<open>"123"\<close> is shown as 123, which is read as a number).
\<close>

definition value_ok :: "jstring \<Rightarrow> bool" where
  "value_ok x \<longleftrightarrow> (let v = parseLooseValue x in
     wf_json v \<and> (case v of JStr s \<Rightarrow> parseLooseValue s = v | _ \<Rightarrow> True))"

definition condition_ok :: "ParamOverrideCondition \<Rightarrow> bool" where
  "condition_ok c \<longleftrightarrow> units (c_path c) \<and> c_mode c \<in> set CONDITION_MODE_VALUES \<and> value_ok (c_value_text c)"

definition rule_ok :: "ParamOverrideOperation \<Rightarrow> bool" where
  "rule_ok op \<longleftrightarrow> units (o_description op) \<and> units (o_path op) \<and> units (o_from op) \<and> units (o_to op) \<and>
     o_mode op \<in> set OPERATION_MODE_VALUES \<and> value_ok (o_value_text op) \<and>
     (o_mode op \<in> set VALUE_REQUIRED_MODES \<longrightarrow> parseLooseValue (o_value_text op) \<noteq> JStr []) \<and>
     list_all condition_ok (o_conditions op)"

lemma value_ok_stable: "value_ok x \<Longrightarrow> parseLooseValue (toValueText (Some (parseLooseValue x))) = parseLooseValue x"
  using loose_value_nonstring [of "parseLooseValue x"]
  by (cases "parseLooseValue x") (auto simp: value_ok_def toValueText_def Let_def)

lemma value_ok_wf: "value_ok x \<Longrightarrow> wf_json (parseLooseValue x)"
  by (simp add: value_ok_def Let_def)

lemma toValueText_blank:
  assumes "value_ok x" and "trim (toValueText (Some (parseLooseValue x))) = []"
  shows "parseLooseValue x = JStr []"
  using value_ok_stable [OF assms(1)] loose_empty [OF assms(2)] by simp

lemma condition_reopen:
  assumes "condition_ok c" and "buildConditionPayload c = Some p"
  shows "buildConditionPayload (fst (normalizeCondition clk seed p)) = Some p" and "wf_json (JObj p)"
proof -
  have p: "trim (c_path c) \<noteq> []" "p = assign_fields
           [(True, js ''path'', JStr (trim (c_path c))), (True, js ''mode'', JStr (c_mode c)),
            (True, js ''value'', parseLooseValue (c_value_text c)),
            (c_invert c, js ''invert'', JBool True),
            (c_pass_missing_key c, js ''pass_missing_key'', JBool True)]"
    using assms mode_ne(2) by (auto simp: buildConditionPayload_def condition_ok_def Let_def split: if_splits)
  have c: "c_mode c \<in> set CONDITION_MODE_VALUES" "c_mode c \<noteq> []" "value_ok (c_value_text c)"
    using assms(1) mode_ne(2) by (auto simp: condition_ok_def)
  show "buildConditionPayload (fst (normalizeCondition clk seed p)) = Some p"
    unfolding p(2) using c p(1)
    by (simp add: normalizeCondition_def nextLocalId_eq Let_def buildConditionPayload_def string_or_empty_def
        mode_or_def value_ok_stable)
  show "wf_json (JObj p)"
    unfolding p(2) using assms(1) units_mode(2) [OF c(1)] value_ok_wf [OF c(3)]
    by (intro wf_assign_fields) (auto simp: condition_ok_def is_digit_def)
qed

lemma conditions_reopen:
  "list_all condition_ok cs \<Longrightarrow> \<exists>cs' s'. normalizeConditions clk seed (map JObj (List.map_filter buildConditionPayload cs)) = Some (cs', s') \<and>
     List.map_filter buildConditionPayload cs' = List.map_filter buildConditionPayload cs"
proof (induction cs arbitrary: seed)
  case (Cons c cs)
  show ?case
  proof (cases "buildConditionPayload c")
    case (Some p)
    let ?n = "normalizeCondition clk seed p"
    from Cons obtain cs' s' where i: "normalizeConditions clk (snd ?n) (map JObj (List.map_filter buildConditionPayload cs)) = Some (cs', s')"
      "List.map_filter buildConditionPayload cs' = List.map_filter buildConditionPayload cs" by fastforce
    have "buildConditionPayload (fst ?n) = Some p" using condition_reopen(1) [OF _ Some] Cons.prems by simp
    then show ?thesis using i Some by (cases ?n) (auto simp: map_filter_simps as_record_def)
  qed (use Cons in \<open>simp add: map_filter_simps\<close>)
qed (simp add: map_filter_simps)


text \<open>The fields a saved rule is reopened with.\<close>

definition written_from :: "ParamOverrideOperation \<Rightarrow> jstring" where
  "written_from op = (if m_pathAlias (meta_of (o_mode op)) \<and> trim (o_from op) = [] then trim (o_path op) else trim (o_from op))"

definition written_to :: "ParamOverrideOperation \<Rightarrow> jstring" where
  "written_to op = (if m_pathAlias (meta_of (o_mode op)) \<and> trim (o_to op) = [] then trim (o_path op) else trim (o_to op))"

definition reopened :: "ParamOverrideOperation \<Rightarrow> jstring \<Rightarrow> ParamOverrideCondition list \<Rightarrow> ParamOverrideOperation" where
  "reopened op i cs =
     (let meta = meta_of (o_mode op); filled = (List.map_filter buildConditionPayload (o_conditions op) \<noteq> []) in
      \<lparr>o_id = i, o_description = trim (o_description op),
       o_path = (if m_path meta \<or> m_pathOptional meta then trim (o_path op) else []),
       o_mode = o_mode op,
       o_from = (if m_from meta then written_from op else []),
       o_to = written_to op,
       o_value_text = (if m_value meta then toValueText (Some (parseLooseValue (o_value_text op))) else []),
       o_keep_origin = (m_keepOrigin meta \<and> o_keep_origin op),
       o_logic = (if filled \<and> o_logic op = js ''AND'' then js ''AND'' else js ''OR''),
       o_conditions = cs\<rparr>)"

lemma payload_fields:
  assumes "o_mode op \<noteq> []"
  shows "operation_payload op =
     (let meta = meta_of (o_mode op); conditions = List.map_filter buildConditionPayload (o_conditions op) in
      assign_fields
        [(True, js ''mode'', JStr (o_mode op)),
         (trim (o_description op) \<noteq> [], js ''description'', JStr (trim (o_description op))),
         (m_path meta \<or> m_pathOptional meta \<and> trim (o_path op) \<noteq> [], js ''path'', JStr (trim (o_path op))),
         (m_value meta, js ''value'', parseLooseValue (o_value_text op)),
         (m_keepOrigin meta \<and> o_keep_origin op, js ''keep_origin'', JBool True),
         (m_from meta, js ''from'', JStr (written_from op)),
         (m_to meta \<or> trim (o_to op) \<noteq> [], js ''to'', JStr (written_to op)),
         (conditions \<noteq> [], js ''conditions'', JArr (map JObj conditions)),
         (conditions \<noteq> [], js ''logic'', JStr (if o_logic op = js ''AND'' then js ''AND'' else js ''OR''))])"
  using assms by (simp add: operation_payload_def written_from_def written_to_def Let_def)

lemma written_to_empty: "\<not> m_to (meta_of (o_mode op)) \<Longrightarrow> trim (o_to op) = [] \<Longrightarrow> written_to op = []"
  using alias_fields(2) by (auto simp: written_to_def)

lemma trim_written [simp]: "trim (written_from op) = written_from op" "trim (written_to op) = written_to op"
  by (simp_all add: written_from_def written_to_def)

lemma to_upper_logic [simp]: "to_upper (js ''AND'') = js ''AND''" "to_upper (js ''OR'') = js ''OR''"
  by (simp_all add: to_upper_def js_def)

lemma logic_text [simp]:
  "json_truthy (JStr (if b then js ''AND'' else js ''OR''))"
  "json_to_str (JStr s) = s"
  by (simp_all add: json_truthy_def js_def)

lemma normalize_payload:
  assumes "rule_ok op"
  shows "\<exists>cs s'. normalizeOperation clk seed (operation_payload op) = Some (reopened op (local_id clk seed) cs, s') \<and>
    List.map_filter buildConditionPayload cs = List.map_filter buildConditionPayload (o_conditions op)"
proof -
  let ?ps = "List.map_filter buildConditionPayload (o_conditions op)"
  have m: "o_mode op \<in> set OPERATION_MODE_VALUES" "o_mode op \<noteq> []"
    using assms mode_ne(1) by (auto simp: rule_ok_def)
  obtain cs s' where cs: "normalizeConditions clk (Suc seed) (map JObj ?ps) = Some (cs, s')"
    "List.map_filter buildConditionPayload cs = ?ps"
    using conditions_reopen assms unfolding rule_ok_def by blast
  show ?thesis
  proof (cases "?ps = []")
    case True
    then have "normalizeOperation clk seed (operation_payload op) = Some (reopened op (local_id clk seed) [], Suc seed)"
      using m written_to_empty [of op]
      by (simp add: payload_fields normalizeOperation_def nextLocalId_eq Let_def reopened_def mode_or_def
          string_or_empty_def toValueText_def)
    then show ?thesis using True by (auto simp: map_filter_simps)
  next
    case False
    then have "normalizeOperation clk seed (operation_payload op) = Some (reopened op (local_id clk seed) cs, s')"
      using m written_to_empty [of op] cs(1)
      by (simp add: payload_fields normalizeOperation_def nextLocalId_eq Let_def reopened_def mode_or_def
          string_or_empty_def toValueText_def)
    then show ?thesis using cs by blast
  qed
qed

lemma assign_fields_cong:
  "list_all2 (\<lambda>f g. fst f = fst g \<and> (fst f \<longrightarrow> snd f = snd g)) fs gs \<Longrightarrow> assign_fields fs = assign_fields gs"
  by (induction rule: list_all2_induct) (auto simp: assign_fields_def)

lemma reopened_payload:
  assumes "rule_ok op" and "List.map_filter buildConditionPayload cs = List.map_filter buildConditionPayload (o_conditions op)"
  shows "operation_payload (reopened op i cs) = operation_payload op"
proof -
  let ?r = "reopened op i cs"
  have m: "o_mode op \<noteq> []" and v: "value_ok (o_value_text op)"
    using assms mode_ne(1) by (auto simp: rule_ok_def)
  have f: "m_from (meta_of (o_mode op)) \<Longrightarrow> written_from ?r = written_from op"
    "m_to (meta_of (o_mode op)) \<or> trim (o_to op) \<noteq> [] \<Longrightarrow> written_to ?r = written_to op"
    "trim (o_to ?r) \<noteq> [] \<Longrightarrow> m_to (meta_of (o_mode op)) \<or> trim (o_to op) \<noteq> []"
    using alias_fields [of "o_mode op"]
    by (auto simp: reopened_def Let_def written_from_def written_to_def split: if_splits)
  have g: "m_to (meta_of (o_mode op)) \<or> trim (o_to ?r) \<noteq> [] \<longleftrightarrow> m_to (meta_of (o_mode op)) \<or> trim (o_to op) \<noteq> []"
    using f(2) f(3) by (auto simp: reopened_def Let_def written_to_def)
  have r: "o_mode ?r = o_mode op" "trim (o_description ?r) = trim (o_description op)"
    "m_path (meta_of (o_mode op)) \<or> m_pathOptional (meta_of (o_mode op)) \<Longrightarrow> trim (o_path ?r) = trim (o_path op)"
    "m_value (meta_of (o_mode op)) \<Longrightarrow> parseLooseValue (o_value_text ?r) = parseLooseValue (o_value_text op)"
    "m_keepOrigin (meta_of (o_mode op)) \<and> o_keep_origin ?r \<longleftrightarrow> m_keepOrigin (meta_of (o_mode op)) \<and> o_keep_origin op"
    "List.map_filter buildConditionPayload (o_conditions ?r) = List.map_filter buildConditionPayload (o_conditions op)"
    "List.map_filter buildConditionPayload (o_conditions op) \<noteq> [] \<Longrightarrow> o_logic ?r = js ''AND'' \<longleftrightarrow> o_logic op = js ''AND''"
    using assms(2) value_ok_stable [OF v] by (auto simp: reopened_def Let_def)
  have h: "m_path (meta_of (o_mode op)) \<or> m_pathOptional (meta_of (o_mode op)) \<and> trim (o_path ?r) \<noteq> [] \<longleftrightarrow>
     m_path (meta_of (o_mode op)) \<or> m_pathOptional (meta_of (o_mode op)) \<and> trim (o_path op) \<noteq> []"
    using r(3) by auto
  show ?thesis
    unfolding payload_fields [OF m] payload_fields [of ?r, unfolded r(1), OF m] Let_def r(1,2,5,6) g h
    by (rule assign_fields_cong) (use r(3,4,7) f(1,2) in auto)
qed

lemma validate_fields:
  assumes "o_mode op \<noteq> []"
  shows "validate_operation op = None \<longleftrightarrow>
    (let m = o_mode op; meta = meta_of m; raw = trim (o_value_text op); aliased = m_pathAlias meta \<and> trim (o_path op) \<noteq> [] in
     (m_path meta \<longrightarrow> trim (o_path op) \<noteq> []) \<and>
     (m \<in> set FROM_REQUIRED_MODES \<longrightarrow> trim (o_from op) \<noteq> [] \<or> aliased) \<and>
     (m \<in> set TO_REQUIRED_MODES \<longrightarrow> trim (o_to op) \<noteq> [] \<or> aliased) \<and>
     (m \<in> set VALUE_REQUIRED_MODES \<longrightarrow> raw \<noteq> []) \<and>
     (m = js ''return_error'' \<longrightarrow> (\<forall>p. parseLooseValue raw = JObj p \<longrightarrow> trim (str_or_empty (obj_get (js ''message'') p)) \<noteq> [])) \<and>
     (m = js ''pass_headers'' \<longrightarrow> parsePassHeaderNames (parseLooseValue raw) \<noteq> []))"
  using assms value_required_special
  by (auto simp: validate_operation_def Let_def loose_object simp del: loose_trim split: option.splits json.splits)

lemma reopened_valid:
  assumes ok: "rule_ok op" and valid: "validate_operation op = None"
  shows "validate_operation (reopened op i cs) = None" and "\<not> isOperationBlank (reopened op i cs)"
proof -
  let ?r = "reopened op i cs" and ?m = "o_mode op"
  have m: "?m \<noteq> []" and v: "value_ok (o_value_text op)"
    and s: "?m \<in> set VALUE_REQUIRED_MODES \<Longrightarrow> parseLooseValue (o_value_text op) \<noteq> JStr []"
    using ok mode_ne(1) by (auto simp: rule_ok_def)
  note valid = valid [unfolded validate_fields [OF m] Let_def loose_trim]
  have r: "o_mode ?r = ?m" "m_path (meta_of ?m) \<Longrightarrow> o_path ?r = trim (o_path op)"
    "o_to ?r = written_to op" "m_from (meta_of ?m) \<Longrightarrow> o_from ?r = written_from op"
    "m_value (meta_of ?m) \<Longrightarrow> o_value_text ?r = toValueText (Some (parseLooseValue (o_value_text op)))"
    by (simp_all add: reopened_def Let_def)
  have w: "?m \<in> set FROM_REQUIRED_MODES \<Longrightarrow> written_from op \<noteq> []" "?m \<in> set TO_REQUIRED_MODES \<Longrightarrow> written_to op \<noteq> []"
    using valid by (auto simp: written_from_def written_to_def)
  have vr: "trim (o_value_text ?r) \<noteq> []" "parseLooseValue (o_value_text ?r) = parseLooseValue (o_value_text op)"
    if "?m \<in> set VALUE_REQUIRED_MODES"
    using r(5) [OF value_required [OF that]] toValueText_blank [OF v] s [OF that] value_ok_stable [OF v] by auto
  have m': "o_mode ?r \<noteq> []" using m r(1) by simp
  show "validate_operation ?r = None"
    unfolding validate_fields [OF m'] Let_def loose_trim r(1,3)
    using valid w r(2) r(4) [OF from_required] vr(1,2) value_required_special by auto
  show "\<not> isOperationBlank ?r"
    using valid r(1,2) set_fields(1) by (auto simp: isOperationBlank_def)
qed

lemma payload_wf:
  assumes "rule_ok op"
  shows "wf_json (JObj (operation_payload op))"
proof -
  have m: "o_mode op \<noteq> []" "units (o_mode op)" and u: "units (o_description op)" "units (written_from op)" "units (written_to op)" "units (o_path op)"
    and v: "wf_json (parseLooseValue (o_value_text op))"
    using assms mode_ne(1) units_mode(1) value_ok_wf by (auto simp: rule_ok_def written_from_def written_to_def)
  have c: "\<forall>p \<in> set (List.map_filter buildConditionPayload (o_conditions op)). wf_json (JObj p)"
    using assms condition_reopen(2) by (fastforce simp: rule_ok_def list_all_iff set_map_filter)
  show ?thesis
    unfolding payload_fields [OF m(1)] Let_def
    by (intro wf_assign_fields) (use m u v c in \<open>auto simp: is_digit_def\<close>)
qed


lemma operations_reopen:
  "list_all (\<lambda>op. rule_ok op \<and> validate_operation op = None) ops \<Longrightarrow>
    \<exists>ops' s'. normalizeOperations clk seed (map (JObj \<circ> operation_payload) ops) = Some (ops', s') \<and>
      map operation_payload ops' = map operation_payload ops \<and>
      list_all (\<lambda>op. validate_operation op = None \<and> \<not> isOperationBlank op) ops'"
proof (induction ops arbitrary: seed)
  case (Cons op ops)
  then have ok: "rule_ok op" "validate_operation op = None" by simp_all
  from normalize_payload [OF ok(1)] obtain cs s where n: "normalizeOperation clk seed (operation_payload op) = Some (reopened op (local_id clk seed) cs, s)"
    "List.map_filter buildConditionPayload cs = List.map_filter buildConditionPayload (o_conditions op)" by blast
  from Cons obtain ops' s' where "normalizeOperations clk s (map (JObj \<circ> operation_payload) ops) = Some (ops', s')"
      "map operation_payload ops' = map operation_payload ops"
      "list_all (\<lambda>op. validate_operation op = None \<and> \<not> isOperationBlank op) ops'" by fastforce
  then show ?case using n(1) reopened_payload [OF ok(1) n(2)] reopened_valid [OF ok]
    by (intro exI [of _ "reopened op (local_id clk seed) cs # ops'"] exI [of _ s']) (simp add: as_record_def comp_def)
qed simp

definition rules_json :: "ParamOverrideOperation list \<Rightarrow> json" where
  "rules_json ops = JObj [(js ''operations'', JArr (map (JObj \<circ> operation_payload) ops))]"

lemma rules_json_wf: "list_all rule_ok ops \<Longrightarrow> wf_json (rules_json ops)"
  using payload_wf canon_keys_words [of "[js ''operations'']"]
  by (auto simp: rules_json_def list_all_iff is_digit_def)

lemma build_valid:
  assumes "list_all (\<lambda>op. validate_operation op = None \<and> \<not> isOperationBlank op) ops" and "ops \<noteq> []"
  shows "buildOperationsJson ops v t = Inr (JSON_pretty (rules_json ops))"
proof -
  have f: "filter (\<lambda>x. \<not> isOperationBlank x) ops = ops" using assms(1) by (induction ops) auto
  have "validate_from t n ops = []" for n using assms(1) by (induction ops arbitrary: n) auto
  then show ?thesis using assms(2) by (simp add: buildOperationsJson_def f validateOperations_def rules_json_def Let_def)
qed

lemma build_Inr:
  assumes "\<And>k n. t k n \<noteq> []" and "buildOperationsJson ops True t = Inr text"
  defines "nb \<equiv> filter (\<lambda>x. \<not> isOperationBlank x) ops"
  shows "nb = [] \<and> text = [] \<or> nb \<noteq> [] \<and> list_all (\<lambda>op. validate_operation op = None) nb \<and> text = JSON_pretty (rules_json nb)"
  using assms validate_from_empty [of t 1 nb]
  by (auto simp: buildOperationsJson_def validateOperations_def rules_json_def Let_def split: if_splits)

lemma saved_text_reopens:
  assumes "\<And>k n. t k n \<noteq> []" and "list_all rule_ok ops"
    and "buildOperationsJson ops True t = Inr text" and "text \<noteq> []"
  shows "\<exists>vs ops' s'. vs \<noteq> [] \<and> trim text = text \<and>
    text = JSON_pretty (JObj [(js ''operations'', JArr vs)]) \<and>
    JSON_parse text = Some (JObj [(js ''operations'', JArr vs)]) \<and>
    normalizeOperations clk seed vs = Some (ops', s') \<and> buildOperationsJson ops' True t = Inr text"
proof -
  let ?nb = "filter (\<lambda>x. \<not> isOperationBlank x) ops" and ?vs = "map (JObj \<circ> operation_payload)"
  have b: "?nb \<noteq> []" "list_all (\<lambda>op. validate_operation op = None) ?nb" "text = JSON_pretty (rules_json ?nb)"
    using build_Inr [OF assms(1,3)] assms(4) by auto
  have ok: "list_all rule_ok ?nb" using assms(2) by (auto simp: list_all_iff)
  with b have "list_all (\<lambda>op. rule_ok op \<and> validate_operation op = None) ?nb" by (simp add: list_all_iff)
  from operations_reopen [OF this] obtain ops' s' where o: "normalizeOperations clk seed (?vs ?nb) = Some (ops', s')"
    "map operation_payload ops' = map operation_payload ?nb"
    "list_all (\<lambda>op. validate_operation op = None \<and> \<not> isOperationBlank op) ops'" by metis
  have ne: "ops' \<noteq> []" using o(2) b(1) by auto
  have eq: "rules_json ops' = rules_json ?nb" using o(2) by (simp add: rules_json_def flip: map_map)
  note w = rules_json_wf [OF ok]
  show ?thesis
    using pretty_trimmed [OF w] parse_pretty [OF w] build_valid [OF o(3) ne] eq b o(1)
    by (intro exI [of _ "?vs ?nb"] exI [of _ ops'] exI [of _ s']) (simp add: rules_json_def)
qed

lemma default_is_blank: "createDefaultOperation clk seed = (d, s) \<Longrightarrow> isOperationBlank d"
  by (auto simp: createDefaultOperation_def nextLocalId_eq isOperationBlank_def)

text \<open>
  C11. Saving is stable: the text that saving produced, opened again, gives rules whose text is the
  same. It holds for rules whose modes are of the tables and whose values are read back as they were
  written, with the translations of messages not empty.
\<close>

theorem saved_rules_reopen:
  assumes "\<And>k n. t k n \<noteq> []" and "list_all rule_ok ops"
    and "buildOperationsJson ops True t = Inr text"
  shows "\<exists>st s. parseInitialState clk seed text = Some (st, s) \<and> editMode st = Visual \<and>
    visualMode st = Operations \<and> buildOperationsJson (operations st) True t = Inr text"
proof (cases "text = []")
  case True
  obtain d s where d: "createDefaultOperation clk seed = (d, s)" by fastforce
  then show ?thesis
    using True default_is_blank [OF d] by (simp add: parseInitialState_def buildOperationsJson_def)
next
  case False
  from saved_text_reopens [OF assms False] obtain vs ops' s' where
    "vs \<noteq> []" "trim text = text" "JSON_parse text = Some (JObj [(js ''operations'', JArr vs)])"
    "normalizeOperations clk seed vs = Some (ops', s')" "buildOperationsJson ops' True t = Inr text" by metis
  then show ?thesis
    using False by (simp add: parseInitialState_def Let_def split: prod.split)
qed

text \<open>A rule that every condition of the hypotheses admits, used by the witnesses.\<close>

definition sample_rule :: ParamOverrideOperation where
  "sample_rule = \<lparr>o_id = js ''a'', o_description = js '' d '', o_path = js ''temperature'', o_mode = js ''set'', o_from = [],
     o_to = [], o_value_text = js '' true'', o_keep_origin = True, o_logic = js ''AND'',
     o_conditions = [\<lparr>c_id = js ''b'', c_path = js ''model'', c_mode = js ''prefix'', c_value_text = js ''gpt'',
       c_invert = True, c_pass_missing_key = False\<rparr>]\<rparr>"

definition sample_t :: translate where
  "sample_t k n = nat_to_js n @ js '': '' @ k"

lemma sample_t_ne: "sample_t k n \<noteq> []"
  by (simp add: sample_t_def js_def)

lemma sample_ok: "list_all rule_ok [sample_rule]"
  by code_simp

lemma sample_built: "\<exists>x. buildOperationsJson [sample_rule] True sample_t = Inr x \<and> x \<noteq> []"
proof -
  have "case buildOperationsJson [sample_rule] True sample_t of Inr x \<Rightarrow> x \<noteq> [] | Inl e \<Rightarrow> False" by code_simp
  then show ?thesis by (auto split: sum.splits)
qed

theorem saved_rules_reopen_witness:
  "\<exists>text st s. buildOperationsJson [sample_rule] True sample_t = Inr text \<and>
     parseInitialState (\<lambda>n. 5) 0 text = Some (st, s) \<and>
     buildOperationsJson (operations st) True sample_t = Inr text"
  using sample_built saved_rules_reopen [of sample_t "[sample_rule]", OF sample_t_ne sample_ok] by metis

definition has_text :: "jstring \<Rightarrow> jobject \<Rightarrow> bool" where
  "has_text k p = (case obj_get k p of Some (JStr s) \<Rightarrow> s \<noteq> [] | _ \<Rightarrow> False)"

text \<open>What the relay needs of a rule: the fields its mode requires.\<close>

definition payload_complete :: "jobject \<Rightarrow> bool" where
  "payload_complete p =
     (case obj_get (js ''mode'') p of
        Some (JStr m) \<Rightarrow>
          m \<in> set OPERATION_MODE_VALUES \<and>
          (m_path (meta_of m) \<longrightarrow> has_text (js ''path'') p) \<and>
          (m \<in> set FROM_REQUIRED_MODES \<longrightarrow> has_text (js ''from'') p) \<and>
          (m \<in> set TO_REQUIRED_MODES \<longrightarrow> has_text (js ''to'') p) \<and>
          (m_value (meta_of m) \<longrightarrow> obj_get (js ''value'') p \<noteq> None)
      | _ \<Rightarrow> False)"

lemma valid_payload_complete:
  assumes "o_mode op \<in> set OPERATION_MODE_VALUES" and "validate_operation op = None"
  shows "payload_complete (operation_payload op)"
proof -
  have m: "o_mode op \<noteq> []" using assms(1) mode_ne(1) by blast
  note v = assms(2) [unfolded validate_fields [OF m] Let_def]
  have "o_mode op \<in> set FROM_REQUIRED_MODES \<Longrightarrow> written_from op \<noteq> []" "o_mode op \<in> set TO_REQUIRED_MODES \<Longrightarrow> written_to op \<noteq> []"
    using v by (auto simp: written_from_def written_to_def)
  then show ?thesis
    using v assms(1) from_required [of "o_mode op"] to_required [of "o_mode op"]
    by (simp add: payload_complete_def has_text_def payload_fields [OF m] Let_def)
qed

text \<open>
  C35. What saving writes is complete: the text parses to an object whose \<open>operations\<close> are one rule
  for each rule of the editor that is not blank, in order, each with every field its mode requires.
\<close>

theorem saved_rules_complete:
  assumes "\<And>k n. t k n \<noteq> []" and "list_all rule_ok ops"
    and "buildOperationsJson ops True t = Inr text" and "text \<noteq> []"
  shows "\<exists>ps. JSON_parse text = Some (JObj [(js ''operations'', JArr (map JObj ps))]) \<and>
    ps = map operation_payload (filter (\<lambda>op. \<not> isOperationBlank op) ops) \<and> list_all payload_complete ps"
proof -
  let ?nb = "filter (\<lambda>x. \<not> isOperationBlank x) ops"
  from build_Inr [OF assms(1,3)] assms(4) have b: "list_all (\<lambda>op. validate_operation op = None) ?nb"
    "text = JSON_pretty (rules_json ?nb)" by auto
  have ok: "list_all rule_ok ?nb" using assms(2) by (auto simp: list_all_iff)
  have "JSON_parse text = Some (rules_json ?nb)" using parse_pretty [OF rules_json_wf [OF ok]] b(2) by simp
  moreover have "list_all payload_complete (map operation_payload ?nb)"
    using b(1) ok valid_payload_complete by (fastforce simp: list_all_iff rule_ok_def)
  ultimately show ?thesis by (auto simp: rules_json_def)
qed

theorem saved_rules_complete_witness:
  "\<exists>text. buildOperationsJson [sample_rule] True sample_t = Inr text \<and>
     JSON_parse text = Some (JObj [(js ''operations'', JArr [JObj (operation_payload sample_rule)])])"
proof -
  have f: "filter (\<lambda>op. \<not> isOperationBlank op) [sample_rule] = [sample_rule]"
    by (simp add: isOperationBlank_def sample_rule_def js_def trim_eq_Nil is_ws_def)
  show ?thesis
    using sample_built saved_rules_complete [of sample_t "[sample_rule]", OF sample_t_ne sample_ok, unfolded f] by auto
qed

text \<open>
  A refused save names a rule: the message is that of the first rule, blank ones not counted,
  that fails validation, with its line number, and every rule before it is valid.
\<close>

theorem refused_save_first_error:
  assumes "buildOperationsJson ops True t = Inl message"
  shows "\<exists>i key. i < length (filter (\<lambda>x. \<not> isOperationBlank x) ops) \<and>
     validate_operation (filter (\<lambda>x. \<not> isOperationBlank x) ops ! i) = Some key \<and> message = t key (i + 1) \<and>
     list_all (\<lambda>op. validate_operation op = None) (take i (filter (\<lambda>x. \<not> isOperationBlank x) ops))"
proof -
  let ?nb = "filter (\<lambda>x. \<not> isOperationBlank x) ops"
  have "validate_from t 1 ?nb = message" "message \<noteq> []"
    using assms by (auto simp: buildOperationsJson_def validateOperations_def Let_def split: if_splits)
  then show ?thesis using validate_from_first [of t 1 ?nb] by (auto simp: add.commute)
qed

theorem refused_save_first_error_witness:
  "\<exists>key. buildOperationsJson [sample_rule, sample_rule\<lparr>o_path := []\<rparr>] True sample_t = Inl (sample_t key 2)"
proof -
  let ?ops = "[sample_rule, sample_rule\<lparr>o_path := []\<rparr>]"
  have "case buildOperationsJson ?ops True sample_t of Inl m \<Rightarrow> True | Inr x \<Rightarrow> False" by code_simp
  then obtain m where m: "buildOperationsJson ?ops True sample_t = Inl m" by (auto split: sum.splits)
  have f: "filter (\<lambda>x. \<not> isOperationBlank x) ?ops = ?ops" by code_simp
  have v: "validate_operation sample_rule = None" by code_simp
  from refused_save_first_error [OF m, unfolded f] obtain i key where i: "i < length ?ops"
    "validate_operation (?ops ! i) = Some key" "m = sample_t key (i + 1)" by blast
  have "i \<noteq> 0" using i(2) v by (metis nth_Cons_0 option.distinct(1))
  then have "i = 1" using i(1) by simp
  then show ?thesis using m i(3) by (auto simp: numeral_2_eq_2)
qed


theorem reorder_moves_witness:
  "reorderOperations [sample_rule, sample_rule\<lparr>o_id := js ''b''\<rparr>, sample_rule\<lparr>o_id := js ''c''\<rparr>] (js ''a'') (js ''c'') False =
     [sample_rule\<lparr>o_id := js ''b''\<rparr>, sample_rule, sample_rule\<lparr>o_id := js ''c''\<rparr>]"
  using reorder_moves [of "[]" sample_rule "[sample_rule\<lparr>o_id := js ''b''\<rparr>, sample_rule\<lparr>o_id := js ''c''\<rparr>]"
      "[sample_rule\<lparr>o_id := js ''b''\<rparr>]" "sample_rule\<lparr>o_id := js ''c''\<rparr>" "[]" False]
  by (simp add: sample_rule_def js_def)

theorem return_error_roundtrip_witness:
  "parseReturnErrorDraft (buildReturnErrorValueText
      \<lparr>re_message = js '' no '', re_statusCode = Fin 99, re_code = [], re_type = js ''x'', re_skipRetry = False, re_simpleMode = False\<rparr>) =
   \<lparr>re_message = js ''no'', re_statusCode = Fin 400, re_code = [], re_type = js ''x'', re_skipRetry = False, re_simpleMode = False\<rparr>"
proof -
  have "trim (js '' no '') = js ''no''" "trim (js ''x'') = js ''x''" by code_simp+
  moreover have "\<not> valid_status (Fin 99)" by (simp add: valid_status_def num_le_def num_eq_def)
  ultimately show ?thesis
    using return_error_roundtrip [of "\<lparr>re_message = js '' no '', re_statusCode = Fin 99, re_code = [], re_type = js ''x'',
        re_skipRetry = False, re_simpleMode = False\<rparr>"] units_js [of "[]"] by simp
qed

lemma index_of_colon: "58 \<notin> set p \<Longrightarrow> index_of (js '':'') (p @ 58 # k) = Some (length p)"
  by (induction p) (auto simp: js_def starts_with_def)

lemma sync_spec_trimmed:
  assumes "trimmed key" and "key \<noteq> []" and "ty \<in> {js ''header'', js ''json''}"
  shows "trim (ty @ 58 # key) = ty @ 58 # key"
proof (rule trim_id)
  have "\<not> is_ws (last key)" using assms(1,2) by (simp add: trimmed_def)
  moreover have "ty \<noteq> []" "\<not> is_ws (hd ty)" using assms(3) by (auto simp: js_def is_ws_def)
  ultimately show "trimmed (ty @ 58 # key)" using assms(2) by (simp add: trimmed_def)
qed

text \<open>
  A field of \<open>sync_fields\<close> round-trips through its text: the target is read back with its key
  trimmed, and with its type when it has a key.
\<close>

lemma sync_target_roundtrip:
  "parseSyncTargetSpec (buildSyncTargetSpec type key) =
     \<lparr>st_type = (if type = js ''header'' \<and> trim key \<noteq> [] then js ''header'' else js ''json''), st_key = trim key\<rparr>"
proof (cases "trim key = []")
  case True
  then show ?thesis by (simp add: buildSyncTargetSpec_def parseSyncTargetSpec_def)
next
  case False
  define ty where "ty = (if type = js ''header'' then js ''header'' else js ''json'')"
  have ty: "ty \<in> {js ''header'', js ''json''}" "58 \<notin> set ty" "to_lower (trim ty) = ty"
    by (auto simp: ty_def js_def is_ws_def to_lower_def trim_no_ws)
  have b: "buildSyncTargetSpec type key = ty @ 58 # trim key"
    using False by (simp add: buildSyncTargetSpec_def ty_def js_def)
  have "trim (ty @ 58 # trim key) = ty @ 58 # trim key" using sync_spec_trimmed [OF _ False ty(1)] by simp
  then have "parseSyncTargetSpec (ty @ 58 # trim key) =
      \<lparr>st_type = (if ty = js ''header'' then js ''header'' else js ''json''), st_key = trim key\<rparr>"
    using index_of_colon [OF ty(2), of "trim key"] ty(3) by (simp add: parseSyncTargetSpec_def)
  then show ?thesis using False unfolding b by (simp add: ty_def)
qed

text \<open>
  A string value that reads as another JSON value changes its type when a saved rule is opened and
  saved again, or duplicated.
\<close>

lemma string_value_retyped:
  "parseLooseValue [34, 116, 114, 117, 101, 34] = JStr (js ''true'')"
  "parseLooseValue (toValueText (Some (JStr (js ''true'')))) = JBool True"
  by code_simp+

text \<open>
  Switching a \<open>prune_objects\<close> value with a type to its advanced form has no effect on the mode: the
  written object has none of the fields by which the advanced form is recognised.
\<close>

lemma prune_advanced_lost:
  "p_simpleMode (fst (parsePruneObjectsDraft clk seed
     (buildPruneObjectsValueText (prune_defaults\<lparr>p_simpleMode := False, p_typeText := js ''redacted''\<rparr>))))"
proof -
  have "buildPruneObjectsValueText (prune_defaults\<lparr>p_simpleMode := False, p_typeText := js ''redacted''\<rparr>) =
      JSON_stringify (JObj [(js ''type'', JStr (js ''redacted''))])" by code_simp
  moreover have "wf_json (JObj [(js ''type'', JStr (js ''redacted''))])" by code_simp
  ultimately show ?thesis
    by (simp add: parsePruneObjectsDraft_def Let_def ser_trimmed stringify_ne prune_rule_records_def)
qed

text \<open>An empty string saved as a required value is refused when the rule is opened and saved again.\<close>

lemma empty_value_refused:
  "validate_operation (sample_rule\<lparr>o_mode := js ''trim_prefix'', o_value_text := [34, 34]\<rparr>) = None"
  "obj_get (js ''value'') (operation_payload (sample_rule\<lparr>o_mode := js ''trim_prefix'', o_value_text := [34, 34]\<rparr>)) = Some (JStr [])"
  "validate_operation (sample_rule\<lparr>o_mode := js ''trim_prefix'', o_value_text := toValueText (Some (JStr []))\<rparr>) \<noteq> None"
  by code_simp+

text \<open>An entry that is null makes opening throw.\<close>

lemma null_rule_throws:
  "parseInitialState clk seed (JSON_pretty (JObj [(js ''operations'', JArr [JNull])])) = None"
proof -
  have "wf_json (JObj [(js ''operations'', JArr [JNull])])" by code_simp
  then show ?thesis
    by (simp add: parseInitialState_def Let_def pretty_trimmed pretty_ne as_record_def split: prod.split)
qed

end
