(* ===== verification/Param_Editor.thy ===== *)
theory Param_Editor
  imports Param_Override
begin

text \<open>
  The parameter-override dialog as a machine (\<open>ParamOverrideEditorDialog\<close> of
  \<open>src/web/default/src/features/channels/components/dialogs/param-override-editor-dialog.tsx\<close>): its
  labels and templates, its state variables as a record, one definition for each callback, and the
  steps it can make. The invariant \<open>editor_inv\<close> holds in every reachable state: identifiers are
  unique, there is always a rule, the selected rule is one of the list, and modes are of the tables.

  A callback sees the state of the last render, and the callbacks of one event are the whole update.
  Translations without a line number are \<open>t key 0\<close>.
\<close>

section \<open>Labels\<close>

definition MODE_DESCRIPTIONS :: "(jstring \<times> jstring) list" where
  "MODE_DESCRIPTIONS =
    [(js ''set'', js ''Write value to the target field''),
     (js ''delete'', js ''Remove the target field''),
     (js ''append'', js ''Append value to array / string / object end''),
     (js ''prepend'', js ''Prepend value to array / string / object start''),
     (js ''copy'', js ''Copy source field to target field''),
     (js ''move'', js ''Move source field to target field''),
     (js ''replace'', js ''Do string replacement in the target field''),
     (js ''regex_replace'', js ''Do regex replacement in the target field''),
     (js ''trim_prefix'', js ''Remove string prefix''),
     (js ''trim_suffix'', js ''Remove string suffix''),
     (js ''ensure_prefix'', js ''Ensure the string has a specified prefix''),
     (js ''ensure_suffix'', js ''Ensure the string has a specified suffix''),
     (js ''trim_space'', js ''Trim leading/trailing whitespace''),
     (js ''to_lower'', js ''Convert string to lowercase''),
     (js ''to_upper'', js ''Convert string to uppercase''),
     (js ''return_error'', js ''Return a custom error immediately''),
     (js ''prune_objects'', js ''Prune object items by conditions''),
     (js ''pass_headers'', js ''Pass specified request headers to upstream''),
     (js ''sync_fields'', js ''Auto-fill when one field exists and another is missing''),
     (js ''set_header'', js ''Set runtime request header: override entire value, or manipulate comma-separated tokens''),
     (js ''delete_header'', js ''Delete a runtime request header''),
     (js ''copy_header'', js ''Copy a request header''),
     (js ''move_header'', js ''Move a request header'')]"

definition SYNC_TARGET_TYPE_OPTIONS :: "(jstring \<times> jstring) list" where
  "SYNC_TARGET_TYPE_OPTIONS =
    [(js ''Request Body Field'', js ''json''), (js ''Request Header Field'', js ''header'')]"

definition getModeTagTailwind :: "jstring \<Rightarrow> jstring" where
  "getModeTagTailwind mode =
     (if str_includes (js ''header'') mode
      then js ''bg-cyan-500/15 text-cyan-700 dark:text-cyan-300 border-cyan-500/20''
      else if str_includes (js ''replace'') mode \<or> str_includes (js ''trim'') mode
      then js ''bg-violet-500/15 text-violet-700 dark:text-violet-300 border-violet-500/20''
      else if str_includes (js ''copy'') mode \<or> str_includes (js ''move'') mode
      then js ''bg-blue-500/15 text-blue-700 dark:text-blue-300 border-blue-500/20''
      else if str_includes (js ''error'') mode \<or> str_includes (js ''prune'') mode
      then js ''bg-red-500/15 text-red-700 dark:text-red-300 border-red-500/20''
      else if str_includes (js ''sync'') mode
      then js ''bg-green-500/15 text-green-700 dark:text-green-300 border-green-500/20''
      else js ''bg-muted text-muted-foreground'')"

definition getModePathLabel :: "jstring \<Rightarrow> jstring" where
  "getModePathLabel mode =
     (if mode = js ''set_header'' \<or> mode = js ''delete_header'' then js ''Header Name''
      else if mode = js ''prune_objects'' then js ''Target Path (optional)''
      else js ''Target Field Path'')"

definition getModePathPlaceholder :: "jstring \<Rightarrow> jstring" where
  "getModePathPlaceholder mode =
     (if mode = js ''set_header'' then js ''Authorization''
      else if mode = js ''delete_header'' then js ''X-Debug-Mode''
      else if mode = js ''prune_objects'' then js ''messages''
      else js ''temperature'')"

definition getModeFromLabel :: "jstring \<Rightarrow> jstring" where
  "getModeFromLabel mode =
     (if mode = js ''replace'' then js ''Match Text''
      else if mode = js ''regex_replace'' then js ''Regex Pattern''
      else if mode = js ''copy_header'' \<or> mode = js ''move_header'' then js ''Source Header''
      else js ''Source Field'')"

definition getModeFromPlaceholder :: "jstring \<Rightarrow> jstring" where
  "getModeFromPlaceholder mode =
     (if mode = js ''replace'' then js ''openai/''
      else if mode = js ''regex_replace'' then js ''^gpt-''
      else if mode = js ''copy_header'' \<or> mode = js ''move_header'' then js ''Authorization''
      else js ''model'')"

definition getModeToLabel :: "jstring \<Rightarrow> jstring" where
  "getModeToLabel mode =
     (if mode = js ''replace'' \<or> mode = js ''regex_replace'' then js ''Replace With''
      else if mode = js ''copy_header'' \<or> mode = js ''move_header'' then js ''Target Header''
      else js ''Target Field'')"

definition getModeToPlaceholder :: "jstring \<Rightarrow> jstring" where
  "getModeToPlaceholder mode =
     (if mode = js ''replace'' then js ''(leave empty to delete)''
      else if mode = js ''regex_replace'' then js ''openai/gpt-''
      else if mode = js ''copy_header'' \<or> mode = js ''move_header'' then js ''X-Upstream-Auth''
      else js ''original_model'')"

definition affix_mode :: "jstring \<Rightarrow> bool" where
  "affix_mode mode \<longleftrightarrow> mode = js ''trim_prefix'' \<or> mode = js ''trim_suffix'' \<or> mode = js ''ensure_prefix'' \<or>
     mode = js ''ensure_suffix''"

definition getModeValueLabel :: "jstring \<Rightarrow> jstring" where
  "getModeValueLabel mode =
     (if mode = js ''set_header'' then js ''Header Value (supports string or JSON mapping)''
      else if mode = js ''pass_headers'' then js ''Pass-through Headers (comma-separated or JSON array)''
      else if affix_mode mode then js ''Prefix/Suffix Text''
      else if mode = js ''prune_objects'' then js ''Prune Rule (string or JSON object)''
      else js ''Value (supports JSON or plain text)'')"

text \<open>The placeholder of \<open>prune_objects\<close> has double quotes, code unit 34.\<close>

definition getModeValuePlaceholder :: "jstring \<Rightarrow> jstring" where
  "getModeValuePlaceholder mode =
     (if mode = js ''set_header'' then js ''Bearer sk-xxx''
      else if mode = js ''pass_headers'' then js ''Authorization, X-Request-Id''
      else if affix_mode mode then js ''openai/''
      else if mode = js ''prune_objects''
      then js ''{'' @ [34] @ js ''type'' @ [34] @ js '':'' @ [34] @ js ''redacted_thinking'' @ [34] @ js ''}''
      else js ''0.7'')"

section \<open>Templates\<close>

definition LEGACY_TEMPLATE :: jobject where
  "LEGACY_TEMPLATE = [(js ''temperature'', JNum (Fin 0)), (js ''max_tokens'', JNum (Fin 1000))]"

definition condition_json :: "jstring \<Rightarrow> jstring \<Rightarrow> jstring \<Rightarrow> json" where
  "condition_json path mode value =
     JObj [(js ''path'', JStr path), (js ''mode'', JStr mode), (js ''value'', JStr value)]"

text \<open>A decimal literal of the source is the nearest double.\<close>

definition OPERATION_TEMPLATE :: jobject where
  "OPERATION_TEMPLATE =
    [(js ''operations'', JArr
      [JObj
        [(js ''description'', JStr (js ''Set default temperature for openai/* models.'')),
         (js ''path'', JStr (js ''temperature'')), (js ''mode'', JStr (js ''set'')),
         (js ''value'', JNum (f64 (7 / 10))),
         (js ''conditions'', JArr [condition_json (js ''model'') (js ''prefix'') (js ''openai/'')]),
         (js ''logic'', JStr (js ''AND''))]])]"

definition HEADER_PASSTHROUGH_TEMPLATE :: jobject where
  "HEADER_PASSTHROUGH_TEMPLATE =
    [(js ''operations'', JArr
      [JObj
        [(js ''description'', JStr (js ''Pass through X-Request-Id header to upstream.'')),
         (js ''mode'', JStr (js ''pass_headers'')), (js ''value'', JArr [JStr (js ''X-Request-Id'')]),
         (js ''keep_origin'', JBool True)]])]"

definition GEMINI_IMAGE_4K_TEMPLATE :: jobject where
  "GEMINI_IMAGE_4K_TEMPLATE =
    [(js ''operations'', JArr
      [JObj
        [(js ''description'', JStr (js ''Set imageSize to 4K when model contains gemini/image and ends with 4k.'')),
         (js ''mode'', JStr (js ''set'')),
         (js ''path'', JStr (js ''generationConfig.imageConfig.imageSize'')),
         (js ''value'', JStr (js ''4K'')),
         (js ''conditions'', JArr
           [condition_json (js ''original_model'') (js ''contains'') (js ''gemini''),
            condition_json (js ''original_model'') (js ''contains'') (js ''image''),
            condition_json (js ''original_model'') (js ''suffix'') (js ''4k'')]),
         (js ''logic'', JStr (js ''AND''))]])]"

definition CODEX_CLI_HEADER_PASSTHROUGH_HEADERS :: "jstring list" where
  "CODEX_CLI_HEADER_PASSTHROUGH_HEADERS =
    [js ''Originator'', js ''Session_id'', js ''User-Agent'', js ''X-Codex-Beta-Features'',
     js ''X-Codex-Turn-Metadata'']"

definition CLAUDE_CLI_HEADER_PASSTHROUGH_HEADERS :: "jstring list" where
  "CLAUDE_CLI_HEADER_PASSTHROUGH_HEADERS =
    [js ''X-Stainless-Arch'', js ''X-Stainless-Lang'', js ''X-Stainless-Os'',
     js ''X-Stainless-Package-Version'', js ''X-Stainless-Retry-Count'', js ''X-Stainless-Runtime'',
     js ''X-Stainless-Runtime-Version'', js ''X-Stainless-Timeout'', js ''User-Agent'', js ''X-App'',
     js ''Anthropic-Beta'', js ''Anthropic-Dangerous-Direct-Browser-Access'', js ''Anthropic-Version'']"

definition buildPassHeadersTemplate :: "jstring list \<Rightarrow> jobject" where
  "buildPassHeadersTemplate headers =
    [(js ''operations'', JArr
      [JObj [(js ''mode'', JStr (js ''pass_headers'')), (js ''value'', JArr (map JStr headers)),
             (js ''keep_origin'', JBool True)]])]"

definition CODEX_CLI_HEADER_PASSTHROUGH_TEMPLATE :: jobject where
  "CODEX_CLI_HEADER_PASSTHROUGH_TEMPLATE = buildPassHeadersTemplate CODEX_CLI_HEADER_PASSTHROUGH_HEADERS"

definition CLAUDE_CLI_HEADER_PASSTHROUGH_TEMPLATE :: jobject where
  "CLAUDE_CLI_HEADER_PASSTHROUGH_TEMPLATE = buildPassHeadersTemplate CLAUDE_CLI_HEADER_PASSTHROUGH_HEADERS"

definition AWS_BEDROCK_ANTHROPIC_COMPAT_TEMPLATE :: jobject where
  "AWS_BEDROCK_ANTHROPIC_COMPAT_TEMPLATE =
    [(js ''operations'', JArr
      [JObj
        [(js ''description'', JStr (js ''Normalize anthropic-beta header tokens for Bedrock compatibility.'')),
         (js ''mode'', JStr (js ''set_header'')), (js ''path'', JStr (js ''anthropic-beta'')),
         (js ''value'', JObj
         [(js ''advanced-tool-use-2025-11-20'', JStr (js ''tool-search-tool-2025-10-19'')),
          (js ''bash_20241022'', JNull),
          (js ''bash_20250124'', JNull),
          (js ''code-execution-2025-08-25'', JNull),
          (js ''compact-2026-01-12'', JStr (js ''compact-2026-01-12'')),
          (js ''computer-use-2025-01-24'', JStr (js ''computer-use-2025-01-24'')),
          (js ''computer-use-2025-11-24'', JStr (js ''computer-use-2025-11-24'')),
          (js ''context-1m-2025-08-07'', JStr (js ''context-1m-2025-08-07'')),
          (js ''context-management-2025-06-27'', JStr (js ''context-management-2025-06-27'')),
          (js ''effort-2025-11-24'', JNull),
          (js ''fast-mode-2026-02-01'', JNull),
          (js ''files-api-2025-04-14'', JNull),
          (js ''fine-grained-tool-streaming-2025-05-14'', JNull),
          (js ''interleaved-thinking-2025-05-14'', JStr (js ''interleaved-thinking-2025-05-14'')),
          (js ''mcp-client-2025-11-20'', JNull),
          (js ''mcp-client-2025-04-04'', JNull),
          (js ''mcp-servers-2025-12-04'', JNull),
          (js ''output-128k-2025-02-19'', JNull),
          (js ''structured-output-2024-03-01'', JNull),
          (js ''prompt-caching-scope-2026-01-05'', JNull),
          (js ''skills-2025-10-02'', JNull),
          (js ''structured-outputs-2025-11-13'', JNull),
          (js ''text_editor_20241022'', JNull),
          (js ''text_editor_20250124'', JNull),
          (js ''token-efficient-tools-2025-02-19'', JNull),
          (js ''tool-search-tool-2025-10-19'', JStr (js ''tool-search-tool-2025-10-19'')),
          (js ''web-fetch-2025-09-10'', JNull),
          (js ''web-search-2025-03-05'', JNull),
          (js ''oauth-2025-04-20'', JNull)])],
       JObj
        [(js ''description'', JStr (js ''Remove all tools[*].custom.input_examples before upstream relay.'')),
         (js ''mode'', JStr (js ''delete'')), (js ''path'', JStr (js ''tools.*.custom.input_examples''))]])]"

datatype preset_kind = OperationsKind | LegacyKind

record TemplatePresetConfig =
  t_label :: jstring
  t_kind :: preset_kind
  t_payload :: jobject

definition operations_default :: TemplatePresetConfig where
  "operations_default =
     \<lparr>t_label = js ''New Format Template'', t_kind = OperationsKind, t_payload = OPERATION_TEMPLATE\<rparr>"

definition TEMPLATE_PRESET_CONFIG :: "(jstring \<times> TemplatePresetConfig) list" where
  "TEMPLATE_PRESET_CONFIG =
    [(js ''operations_default'', operations_default),
     (js ''legacy_default'',
      \<lparr>t_label = js ''Legacy Format Template'', t_kind = LegacyKind, t_payload = LEGACY_TEMPLATE\<rparr>),
     (js ''pass_headers_auth'',
      \<lparr>t_label = js ''Header Passthrough (X-Request-Id)'', t_kind = OperationsKind, t_payload = HEADER_PASSTHROUGH_TEMPLATE\<rparr>),
     (js ''gemini_image_4k'',
      \<lparr>t_label = js ''Gemini Image 4K'', t_kind = OperationsKind, t_payload = GEMINI_IMAGE_4K_TEMPLATE\<rparr>),
     (js ''claude_cli_headers_passthrough'',
      \<lparr>t_label = js ''Claude CLI Header Passthrough'', t_kind = OperationsKind,
       t_payload = CLAUDE_CLI_HEADER_PASSTHROUGH_TEMPLATE\<rparr>),
     (js ''codex_cli_headers_passthrough'',
      \<lparr>t_label = js ''Codex CLI Header Passthrough'', t_kind = OperationsKind,
       t_payload = CODEX_CLI_HEADER_PASSTHROUGH_TEMPLATE\<rparr>),
     (js ''aws_bedrock_anthropic_beta_override'',
      \<lparr>t_label = js ''AWS Bedrock Claude Compat'', t_kind = OperationsKind,
       t_payload = AWS_BEDROCK_ANTHROPIC_COMPAT_TEMPLATE\<rparr>)]"

definition preset_of :: "jstring \<Rightarrow> TemplatePresetConfig" where
  "preset_of key = (case obj_get key TEMPLATE_PRESET_CONFIG of Some c \<Rightarrow> c | None \<Rightarrow> operations_default)"

definition templatePresetOptions :: "(jstring \<times> jstring) list" where
  "templatePresetOptions = map (\<lambda>(value, config). (value, t_label config)) TEMPLATE_PRESET_CONFIG"


section \<open>State of the dialog\<close>

text \<open>
  The state variables of the component, the module's identifier counter, whether the dialog is open,
  the values given to \<open>props.onSave\<close> and the error messages shown, the latest last.
\<close>

record editor = EditorState +
  operationSearch :: jstring
  selectedOperationId :: jstring
  expandedConditions :: "(jstring \<times> bool) list"
  draggedOperationId :: jstring
  dragOverOperationId :: jstring
  dragOverAfter :: bool
  templatePresetKey :: jstring
  localIdSeed :: nat
  dialogOpen :: bool
  savedValues :: "jstring list"
  toasts :: "jstring list"

definition initial_editor :: "clock \<Rightarrow> nat \<Rightarrow> editor" where
  "initial_editor clk seed =
     (let (d, seed') = createDefaultOperation clk seed in
      \<lparr>editMode = Visual, visualMode = Operations, legacyValue = [], operations = [d], jsonText = [],
       jsonError = [], operationSearch = [], selectedOperationId = [], expandedConditions = [],
       draggedOperationId = [], dragOverOperationId = [], dragOverAfter = False,
       templatePresetKey = js ''operations_default'', localIdSeed = seed', dialogOpen = False,
       savedValues = [], toasts = []\<rparr>)"

definition first_id :: "ParamOverrideOperation list \<Rightarrow> jstring" where
  "first_id ops = (case ops of [] \<Rightarrow> [] | op # _ \<Rightarrow> o_id op)"

text \<open>The effect that runs when the dialog opens or its value changes; \<open>None\<close> when it throws.\<close>

definition open_dialog :: "clock \<Rightarrow> jstring \<Rightarrow> editor \<Rightarrow> editor option" where
  "open_dialog clk value s =
     map_option
       (\<lambda>(st, seed).
         s\<lparr>editMode := editMode st, visualMode := visualMode st, legacyValue := legacyValue st,
           operations := operations st, jsonText := jsonText st, jsonError := jsonError st,
           operationSearch := [], selectedOperationId := first_id (operations st), expandedConditions := [],
           draggedOperationId := [], dragOverOperationId := [], dragOverAfter := False,
           templatePresetKey :=
             (if visualMode st = Legacy then js ''legacy_default'' else js ''operations_default''),
           localIdSeed := seed, dialogOpen := True\<rparr>)
       (parseInitialState clk (localIdSeed s) value)"

text \<open>The effect that keeps the selected rule one of the list.\<close>

definition keep_selected :: "editor \<Rightarrow> editor" where
  "keep_selected s =
     (if operations s = [] then s\<lparr>selectedOperationId := []\<rparr>
      else if \<not> list_ex (\<lambda>op. o_id op = selectedOperationId s) (operations s)
      then s\<lparr>selectedOperationId := o_id (hd (operations s))\<rparr>
      else s)"

section \<open>Derived values\<close>

definition operationCount :: "editor \<Rightarrow> nat" where
  "operationCount s = length (filter (\<lambda>op. \<not> isOperationBlank op) (operations s))"

definition filteredOperations :: "editor \<Rightarrow> ParamOverrideOperation list" where
  "filteredOperations s =
     (let keyword = to_lower (trim (operationSearch s)) in
      if keyword = [] then operations s
      else filter
        (\<lambda>op. str_includes keyword
          (to_lower (join_with (js '' '')
            (filter_truthy [o_description op, o_mode op, o_path op, o_from op, o_to op, o_value_text op]))))
        (operations s))"

definition selectedOperation :: "editor \<Rightarrow> ParamOverrideOperation option" where
  "selectedOperation s = find (\<lambda>op. o_id op = selectedOperationId s) (operations s)"

definition selectedOperationIndex :: "editor \<Rightarrow> nat option" where
  "selectedOperationIndex s = find_index (\<lambda>op. o_id op = selectedOperationId s) (operations s)"

definition returnErrorDraft :: "editor \<Rightarrow> ReturnErrorDraft option" where
  "returnErrorDraft s =
     (case selectedOperation s of
        Some op \<Rightarrow> if o_mode op = js ''return_error'' then Some (parseReturnErrorDraft (o_value_text op)) else None
      | None \<Rightarrow> None)"

text \<open>Computing it takes identifiers for the rules it shows.\<close>

definition pruneObjectsDraft :: "clock \<Rightarrow> editor \<Rightarrow> (PruneObjectsDraft \<times> nat) option" where
  "pruneObjectsDraft clk s =
     (case selectedOperation s of
        Some op \<Rightarrow>
          if o_mode op = js ''prune_objects''
          then Some (parsePruneObjectsDraft clk (localIdSeed s) (o_value_text op)) else None
      | None \<Rightarrow> None)"

definition mode_counts :: "ParamOverrideOperation list \<Rightarrow> (jstring \<times> nat) list" where
  "mode_counts ops =
     foldl (\<lambda>counts op.
        let mode = (if o_mode op = [] then js ''set'' else o_mode op) in
        obj_put mode ((case obj_get mode counts of Some n \<Rightarrow> n | None \<Rightarrow> 0) + 1) counts) [] ops"

text \<open>\<open>sort\<close> is stable: decreasing counts, equal ones in order of appearance.\<close>

definition topOperationModes :: "editor \<Rightarrow> (jstring \<times> nat) list" where
  "topOperationModes s = take 4 (rev (sort_key snd (rev (mode_counts (operations s)))))"

section \<open>Rules\<close>

text \<open>A patch is the list of the fields it has; no caller passes an identifier or the conditions.\<close>

datatype operation_field =
    ODescription jstring | OPath jstring | OMode jstring | OFrom jstring | OTo jstring
  | OValueText jstring | OKeepOrigin bool | OLogic jstring

primrec put_operation_field :: "operation_field \<Rightarrow> ParamOverrideOperation \<Rightarrow> ParamOverrideOperation" where
  "put_operation_field (ODescription x) op = op\<lparr>o_description := x\<rparr>"
| "put_operation_field (OPath x) op = op\<lparr>o_path := x\<rparr>"
| "put_operation_field (OMode x) op = op\<lparr>o_mode := x\<rparr>"
| "put_operation_field (OFrom x) op = op\<lparr>o_from := x\<rparr>"
| "put_operation_field (OTo x) op = op\<lparr>o_to := x\<rparr>"
| "put_operation_field (OValueText x) op = op\<lparr>o_value_text := x\<rparr>"
| "put_operation_field (OKeepOrigin b) op = op\<lparr>o_keep_origin := b\<rparr>"
| "put_operation_field (OLogic x) op = op\<lparr>o_logic := x\<rparr>"

text \<open>\<open>prev.map((o) => (o.id === operationId ? f(o) : o))\<close>.\<close>

definition map_operation ::
  "jstring \<Rightarrow> (ParamOverrideOperation \<Rightarrow> ParamOverrideOperation) \<Rightarrow> ParamOverrideOperation list \<Rightarrow> ParamOverrideOperation list" where
  "map_operation operationId f ops = map (\<lambda>op. if o_id op = operationId then f op else op) ops"

definition updateOperation :: "jstring \<Rightarrow> operation_field list \<Rightarrow> editor \<Rightarrow> editor" where
  "updateOperation operationId patch s =
     s\<lparr>operations := map_operation operationId (fold put_operation_field patch) (operations s)\<rparr>"

definition addOperation :: "clock \<Rightarrow> editor \<Rightarrow> editor" where
  "addOperation clk s =
     (let (created, seed) = createDefaultOperation clk (localIdSeed s) in
      s\<lparr>operations := operations s @ [created], selectedOperationId := o_id created, localIdSeed := seed\<rparr>)"

definition clone_condition :: "ParamOverrideCondition \<Rightarrow> jobject" where
  "clone_condition c =
     [(js ''path'', JStr (c_path c)), (js ''mode'', JStr (c_mode c)),
      (js ''value'', parseLooseValue (c_value_text c)), (js ''invert'', JBool (c_invert c)),
      (js ''pass_missing_key'', JBool (c_pass_missing_key c))]"

definition clone_operation :: "ParamOverrideOperation \<Rightarrow> jobject" where
  "clone_operation source =
     [(js ''description'', JStr (o_description source)), (js ''path'', JStr (o_path source)),
      (js ''mode'', JStr (o_mode source)), (js ''value'', parseLooseValue (o_value_text source)),
      (js ''keep_origin'', JBool (o_keep_origin source)), (js ''from'', JStr (o_from source)),
      (js ''to'', JStr (o_to source)), (js ''logic'', JStr (o_logic source)),
      (js ''conditions'', JArr (map (JObj \<circ> clone_condition) (o_conditions source)))]"

text \<open>
  The new identifier is selected only when React runs the updater before the handler goes on
  (\<open>eager\<close>, which it does when no other update is pending).
\<close>

definition duplicateOperation :: "clock \<Rightarrow> bool \<Rightarrow> jstring \<Rightarrow> editor \<Rightarrow> editor" where
  "duplicateOperation clk eager operationId s =
     (case find_index (\<lambda>op. o_id op = operationId) (operations s) of
        None \<Rightarrow> s
      | Some idx \<Rightarrow>
          (case normalizeOperation clk (localIdSeed s) (clone_operation (operations s ! idx)) of
             None \<Rightarrow> s
           | Some (cloned, seed) \<Rightarrow>
               s\<lparr>operations := take (idx + 1) (operations s) @ [cloned] @ drop (idx + 1) (operations s),
                 selectedOperationId := (if eager then o_id cloned else selectedOperationId s),
                 localIdSeed := seed\<rparr>))"

definition removeOperation :: "clock \<Rightarrow> jstring \<Rightarrow> editor \<Rightarrow> editor" where
  "removeOperation clk operationId s =
     (if length (operations s) \<le> 1
      then let (d, seed) = createDefaultOperation clk (localIdSeed s) in s\<lparr>operations := [d], localIdSeed := seed\<rparr>
      else s\<lparr>operations := filter (\<lambda>op. o_id op \<noteq> operationId) (operations s)\<rparr>)"

section \<open>Conditions\<close>

datatype condition_field =
    CPath jstring | CMode jstring | CValueText jstring | CInvert bool | CPassMissingKey bool

primrec put_condition_field :: "condition_field \<Rightarrow> ParamOverrideCondition \<Rightarrow> ParamOverrideCondition" where
  "put_condition_field (CPath x) c = c\<lparr>c_path := x\<rparr>"
| "put_condition_field (CMode x) c = c\<lparr>c_mode := x\<rparr>"
| "put_condition_field (CValueText x) c = c\<lparr>c_value_text := x\<rparr>"
| "put_condition_field (CInvert b) c = c\<lparr>c_invert := b\<rparr>"
| "put_condition_field (CPassMissingKey b) c = c\<lparr>c_pass_missing_key := b\<rparr>"

definition addCondition :: "clock \<Rightarrow> jstring \<Rightarrow> editor \<Rightarrow> editor" where
  "addCondition clk operationId s =
     (let (created, seed) = createDefaultCondition clk (localIdSeed s) in
      s\<lparr>operations := map_operation operationId (\<lambda>op. op\<lparr>o_conditions := o_conditions op @ [created]\<rparr>) (operations s),
        expandedConditions := obj_put (c_id created) True (expandedConditions s),
        localIdSeed := seed\<rparr>)"

definition updateCondition :: "jstring \<Rightarrow> jstring \<Rightarrow> condition_field list \<Rightarrow> editor \<Rightarrow> editor" where
  "updateCondition operationId conditionId patch s =
     s\<lparr>operations := map_operation operationId
         (\<lambda>op. op\<lparr>o_conditions :=
            map (\<lambda>c. if c_id c = conditionId then fold put_condition_field patch c else c) (o_conditions op)\<rparr>)
         (operations s)\<rparr>"

definition removeCondition :: "jstring \<Rightarrow> jstring \<Rightarrow> editor \<Rightarrow> editor" where
  "removeCondition operationId conditionId s =
     s\<lparr>operations := map_operation operationId
         (\<lambda>op. op\<lparr>o_conditions := filter (\<lambda>c. c_id c \<noteq> conditionId) (o_conditions op)\<rparr>) (operations s)\<rparr>"

definition setExpanded :: "jstring \<Rightarrow> bool \<Rightarrow> editor \<Rightarrow> editor" where
  "setExpanded conditionId b s = s\<lparr>expandedConditions := obj_put conditionId b (expandedConditions s)\<rparr>"

definition set_all_expanded :: "bool \<Rightarrow> editor \<Rightarrow> editor" where
  "set_all_expanded b s =
     (case selectedOperation s of None \<Rightarrow> s
      | Some op \<Rightarrow>
          s\<lparr>expandedConditions := foldl (\<lambda>m c. obj_put (c_id c) b m) (expandedConditions s) (o_conditions op)\<rparr>)"

definition expandAllConditions :: "editor \<Rightarrow> editor" where
  "expandAllConditions s = set_all_expanded True s"

definition collapseAllConditions :: "editor \<Rightarrow> editor" where
  "collapseAllConditions s = set_all_expanded False s"

section \<open>Drafts of structured values\<close>

datatype return_error_field =
    REMessage jstring | REStatusCode jnum | RECode jstring | REType jstring | RESkipRetry bool | RESimpleMode bool

primrec put_return_error_field :: "return_error_field \<Rightarrow> ReturnErrorDraft \<Rightarrow> ReturnErrorDraft" where
  "put_return_error_field (REMessage x) d = d\<lparr>re_message := x\<rparr>"
| "put_return_error_field (REStatusCode n) d = d\<lparr>re_statusCode := n\<rparr>"
| "put_return_error_field (RECode x) d = d\<lparr>re_code := x\<rparr>"
| "put_return_error_field (REType x) d = d\<lparr>re_type := x\<rparr>"
| "put_return_error_field (RESkipRetry b) d = d\<lparr>re_skipRetry := b\<rparr>"
| "put_return_error_field (RESimpleMode b) d = d\<lparr>re_simpleMode := b\<rparr>"

definition updateReturnErrorDraft :: "jstring \<Rightarrow> return_error_field list \<Rightarrow> editor \<Rightarrow> editor" where
  "updateReturnErrorDraft operationId draftPatch s =
     s\<lparr>operations := map_operation operationId
         (\<lambda>op. op\<lparr>o_value_text :=
            buildReturnErrorValueText (fold put_return_error_field draftPatch (parseReturnErrorDraft (o_value_text op)))\<rparr>)
         (operations s)\<rparr>"

text \<open>The updater of a \<open>prune_objects\<close> draft may itself take identifiers.\<close>

fun prune_updates ::
  "clock \<Rightarrow> (nat \<Rightarrow> PruneObjectsDraft \<Rightarrow> PruneObjectsDraft \<times> nat) \<Rightarrow> jstring \<Rightarrow> nat \<Rightarrow>
   ParamOverrideOperation list \<Rightarrow> ParamOverrideOperation list \<times> nat" where
  "prune_updates clk updater operationId seed [] = ([], seed)"
| "prune_updates clk updater operationId seed (op # ops) =
     (if o_id op \<noteq> operationId then apfst (Cons op) (prune_updates clk updater operationId seed ops)
      else
        let (draft, seed1) = parsePruneObjectsDraft clk seed (o_value_text op);
            (nextDraft, seed2) = updater seed1 draft in
        apfst (Cons (op\<lparr>o_value_text := buildPruneObjectsValueText nextDraft\<rparr>))
          (prune_updates clk updater operationId seed2 ops))"

definition updatePruneObjectsDraft ::
  "clock \<Rightarrow> jstring \<Rightarrow> (nat \<Rightarrow> PruneObjectsDraft \<Rightarrow> PruneObjectsDraft \<times> nat) \<Rightarrow> editor \<Rightarrow> editor" where
  "updatePruneObjectsDraft clk operationId updater s =
     (let (ops, seed) = prune_updates clk updater operationId (localIdSeed s) (operations s) in
      s\<lparr>operations := ops, localIdSeed := seed\<rparr>)"

datatype prune_field = PSimpleMode bool | PTypeText jstring | PLogic jstring | PRecursive bool

primrec put_prune_field :: "prune_field \<Rightarrow> PruneObjectsDraft \<Rightarrow> PruneObjectsDraft" where
  "put_prune_field (PSimpleMode b) d = d\<lparr>p_simpleMode := b\<rparr>"
| "put_prune_field (PTypeText x) d = d\<lparr>p_typeText := x\<rparr>"
| "put_prune_field (PLogic x) d = d\<lparr>p_logic := x\<rparr>"
| "put_prune_field (PRecursive b) d = d\<lparr>p_recursive := b\<rparr>"

definition patch_prune :: "prune_field list \<Rightarrow> nat \<Rightarrow> PruneObjectsDraft \<Rightarrow> PruneObjectsDraft \<times> nat" where
  "patch_prune patch seed draft = (fold put_prune_field patch draft, seed)"

definition addPruneRule :: "clock \<Rightarrow> jstring \<Rightarrow> editor \<Rightarrow> editor" where
  "addPruneRule clk operationId s =
     updatePruneObjectsDraft clk operationId
       (\<lambda>seed draft. let (rule, seed') = normalizePruneRule clk seed [] in
          (draft\<lparr>p_simpleMode := False, p_rules := p_rules draft @ [rule]\<rparr>, seed')) s"

datatype prune_rule_field =
    RPath jstring | RMode jstring | RValueText jstring | RInvert bool | RPassMissingKey bool

primrec put_prune_rule_field :: "prune_rule_field \<Rightarrow> PruneRule \<Rightarrow> PruneRule" where
  "put_prune_rule_field (RPath x) r = r\<lparr>r_path := x\<rparr>"
| "put_prune_rule_field (RMode x) r = r\<lparr>r_mode := x\<rparr>"
| "put_prune_rule_field (RValueText x) r = r\<lparr>r_value_text := x\<rparr>"
| "put_prune_rule_field (RInvert b) r = r\<lparr>r_invert := b\<rparr>"
| "put_prune_rule_field (RPassMissingKey b) r = r\<lparr>r_pass_missing_key := b\<rparr>"

definition updatePruneRule :: "clock \<Rightarrow> jstring \<Rightarrow> jstring \<Rightarrow> prune_rule_field list \<Rightarrow> editor \<Rightarrow> editor" where
  "updatePruneRule clk operationId ruleId patch s =
     updatePruneObjectsDraft clk operationId
       (\<lambda>seed draft.
         (draft\<lparr>p_rules := map (\<lambda>r. if r_id r = ruleId then fold put_prune_rule_field patch r else r) (p_rules draft)\<rparr>,
          seed)) s"

definition removePruneRule :: "clock \<Rightarrow> jstring \<Rightarrow> jstring \<Rightarrow> editor \<Rightarrow> editor" where
  "removePruneRule clk operationId ruleId s =
     updatePruneObjectsDraft clk operationId
       (\<lambda>seed draft. (draft\<lparr>p_rules := filter (\<lambda>r. r_id r \<noteq> ruleId) (p_rules draft)\<rparr>, seed)) s"


section \<open>Drag and drop\<close>

definition resetDragState :: "editor \<Rightarrow> editor" where
  "resetDragState s = s\<lparr>draggedOperationId := [], dragOverOperationId := [], dragOverAfter := False\<rparr>"

definition handleDragStart :: "jstring \<Rightarrow> editor \<Rightarrow> editor" where
  "handleDragStart operationId s = s\<lparr>draggedOperationId := operationId, selectedOperationId := operationId\<rparr>"

text \<open>\<open>lower\<close>: the pointer is in the lower half of the rule.\<close>

definition handleDragOver :: "jstring \<Rightarrow> bool \<Rightarrow> editor \<Rightarrow> editor" where
  "handleDragOver operationId lower s =
     (if draggedOperationId s = [] \<or> draggedOperationId s = operationId then s
      else s\<lparr>dragOverOperationId := operationId, dragOverAfter := lower\<rparr>)"

text \<open>\<open>transfer\<close>: the text of the event's data transfer.\<close>

definition handleDrop :: "jstring \<Rightarrow> jstring \<Rightarrow> editor \<Rightarrow> editor" where
  "handleDrop operationId transfer s =
     (let sourceId = (if draggedOperationId s = [] then transfer else draggedOperationId s);
          after = (dragOverOperationId s = operationId \<and> dragOverAfter s) in
      resetDragState
        (if sourceId \<noteq> [] \<and> operationId \<noteq> [] \<and> sourceId \<noteq> operationId
         then s\<lparr>operations := reorderOperations (operations s) sourceId operationId after,
                selectedOperationId := sourceId\<rparr>
         else s))"

section \<open>Mode switching\<close>

definition buildVisualJson :: "translate \<Rightarrow> editor \<Rightarrow> jstring + jstring" where
  "buildVisualJson t s =
     (if visualMode s = Legacy then
        let trimmed = trim (legacyValue s) in
        if trimmed = [] then Inr []
        else case JSON_parse trimmed of
          None \<Rightarrow> Inl (t (js ''Parameter override must be valid JSON format'') 0)
        | Some (JObj kvs) \<Rightarrow> Inr (JSON_pretty (JObj kvs))
        | Some _ \<Rightarrow> Inl (t (js ''Legacy format must be a JSON object'') 0)
      else buildOperationsJson (operations s) True t)"

definition toast_error :: "jstring \<Rightarrow> editor \<Rightarrow> editor" where
  "toast_error message s = s\<lparr>toasts := toasts s @ [message]\<rparr>"

text \<open>Without validation \<open>buildOperationsJson\<close> does not throw (\<open>build_unvalidated\<close>).\<close>

definition switchToJsonMode :: "translate \<Rightarrow> editor \<Rightarrow> editor" where
  "switchToJsonMode t s =
     (if editMode s = Json then s
      else
        (case buildVisualJson t s of
           Inr text \<Rightarrow> s\<lparr>jsonText := text, jsonError := []\<rparr>
         | Inl message \<Rightarrow>
             (toast_error message s)
               \<lparr>jsonText :=
                  (if visualMode s = Legacy then legacyValue s
                   else case buildOperationsJson (operations s) False t of Inr text \<Rightarrow> text | Inl _ \<Rightarrow> jsonText s),
                jsonError := (if message = [] then t (js ''Parameter configuration error'') 0 else message)\<rparr>)
        \<lparr>editMode := Json\<rparr>)"

text \<open>
  A \<open>TypeError\<close> in the handler leaves the state as it was.
\<close>

definition switchToVisualMode :: "clock \<Rightarrow> translate \<Rightarrow> editor \<Rightarrow> editor" where
  "switchToVisualMode clk t s =
     (let trimmed = trim (jsonText s); (fallback, seed) = createDefaultOperation clk (localIdSeed s) in
      if editMode s = Visual then s
      else if trimmed = [] then
        s\<lparr>visualMode := Operations, operations := [fallback], selectedOperationId := o_id fallback,
          legacyValue := [], jsonError := [], editMode := Visual, localIdSeed := seed\<rparr>
      else case JSON_parse trimmed of
        None \<Rightarrow> toast_error (t (js ''Parameter override must be valid JSON format'') 0) s
      | Some (JObj kvs) \<Rightarrow>
          (case obj_get (js ''operations'') kvs of
             Some (JArr vs) \<Rightarrow>
               (case (if length vs > 0 then normalizeOperations clk (localIdSeed s) vs else Some ([fallback], seed)) of
                  None \<Rightarrow> s
                | Some (nextOps, seed') \<Rightarrow>
                    s\<lparr>visualMode := Operations, operations := nextOps, selectedOperationId := first_id nextOps,
                      legacyValue := [], jsonError := [], editMode := Visual,
                      templatePresetKey := js ''operations_default'', localIdSeed := seed'\<rparr>)
           | _ \<Rightarrow>
               s\<lparr>visualMode := Legacy, legacyValue := JSON_pretty (JObj kvs), operations := [fallback],
                 selectedOperationId := o_id fallback, jsonError := [], editMode := Visual,
                 templatePresetKey := js ''legacy_default'', localIdSeed := seed\<rparr>)
      | Some _ \<Rightarrow> toast_error (t (js ''Parameter override must be a valid JSON object'') 0) s)"

section \<open>Templates\<close>

definition show_legacy :: "clock \<Rightarrow> jstring \<Rightarrow> editor \<Rightarrow> editor" where
  "show_legacy clk text s =
     (let (d, seed) = createDefaultOperation clk (localIdSeed s) in
      s\<lparr>visualMode := Legacy, legacyValue := text, operations := [d], jsonText := text, jsonError := [],
        editMode := Visual, localIdSeed := seed\<rparr>)"

definition fillTemplate :: "clock \<Rightarrow> translate \<Rightarrow> bool \<Rightarrow> editor \<Rightarrow> editor" where
  "fillTemplate clk t appending s =
     (let preset = preset_of (templatePresetKey s); payload = t_payload preset;
          operationsPayload = (case obj_get (js ''operations'') payload of Some (JArr vs) \<Rightarrow> vs | _ \<Rightarrow> []) in
      if t_kind preset = LegacyKind then
        if appending \<and> visualMode s = Legacy then
          let trimmed = trim (legacyValue s) in
          (case (if trimmed = [] then Some (JObj []) else JSON_parse trimmed) of
             None \<Rightarrow> toast_error (t (js ''Current legacy JSON is invalid, cannot append'') 0) s
           | Some parsedCurrent \<Rightarrow>
               show_legacy clk (JSON_pretty (JObj (obj_of (payload @ spread parsedCurrent)))) s)
        else show_legacy clk (JSON_pretty (JObj payload)) s
      else
        case normalizeOperations clk (localIdSeed s) operationsPayload of
          None \<Rightarrow> s
        | Some (loaded, seed) \<Rightarrow>
            if appending then
              let existing = (if visualMode s = Operations
                              then filter (\<lambda>op. \<not> isOperationBlank op) (operations s) else []);
                  nextOps = existing @ loaded in
              s\<lparr>visualMode := Operations, operations := nextOps, selectedOperationId := first_id nextOps,
                legacyValue := [], jsonError := [], editMode := Visual, jsonText := [], localIdSeed := seed\<rparr>
            else
              let (d, seed') = createDefaultOperation clk seed;
                  finalOps = (if loaded \<noteq> [] then loaded else [d]) in
              s\<lparr>visualMode := Operations, operations := finalOps, selectedOperationId := first_id finalOps,
                jsonText := JSON_pretty (JObj [(js ''operations'', JArr operationsPayload)]), jsonError := [],
                editMode := Visual, localIdSeed := (if loaded \<noteq> [] then seed else seed')\<rparr>)"

definition resetEditorState :: "clock \<Rightarrow> editor \<Rightarrow> editor" where
  "resetEditorState clk s =
     (let (fallback, seed) = createDefaultOperation clk (localIdSeed s) in
      s\<lparr>visualMode := Operations, legacyValue := [], operations := [fallback],
        selectedOperationId := o_id fallback, jsonText := [], jsonError := [],
        templatePresetKey := js ''operations_default'', editMode := Visual, localIdSeed := seed\<rparr>)"

section \<open>JSON mode and saving\<close>

definition handleJsonChange :: "translate \<Rightarrow> jstring \<Rightarrow> editor \<Rightarrow> editor" where
  "handleJsonChange t nextValue s =
     (let trimmed = trim nextValue in
      s\<lparr>jsonText := nextValue,
        jsonError := (if trimmed = [] \<or> verifyJSON trimmed then [] else t (js ''JSON format error'') 0)\<rparr>)"

definition formatJson :: "translate \<Rightarrow> editor \<Rightarrow> editor" where
  "formatJson t s =
     (let trimmed = trim (jsonText s) in
      if trimmed = [] then s
      else case JSON_parse trimmed of
        None \<Rightarrow> toast_error (t (js ''Parameter override must be valid JSON format'') 0) s
      | Some v \<Rightarrow> s\<lparr>jsonText := JSON_pretty v, jsonError := []\<rparr>)"

definition visualValidationError :: "translate \<Rightarrow> editor \<Rightarrow> jstring" where
  "visualValidationError t s =
     (if editMode s \<noteq> Visual then []
      else case buildVisualJson t s of Inr _ \<Rightarrow> []
      | Inl message \<Rightarrow> if message = [] then t (js ''Parameter configuration error'') 0 else message)"

definition handleSave :: "translate \<Rightarrow> editor \<Rightarrow> editor" where
  "handleSave t s =
     (case (if editMode s = Json then
              let trimmed = trim (jsonText s) in
              if trimmed = [] then Inr []
              else case JSON_parse trimmed of
                None \<Rightarrow> Inl (t (js ''Parameter override must be valid JSON format'') 0)
              | Some v \<Rightarrow> Inr (JSON_pretty v)
            else buildVisualJson t s) of
        Inr result \<Rightarrow> s\<lparr>savedValues := savedValues s @ [result], dialogOpen := False\<rparr>
      | Inl message \<Rightarrow> toast_error message s)"

section \<open>The dialog as a machine\<close>

text \<open>One constructor for each callback of the interface.\<close>

datatype editor_event =
    Open jstring | Update jstring "operation_field list" | Add | Duplicate bool jstring | Remove jstring
  | CondAdd jstring | CondUpdate jstring jstring "condition_field list" | CondRemove jstring jstring
  | CondExpand jstring bool | ExpandAll | CollapseAll
  | ReturnErrorUpdate jstring "return_error_field list" | PruneUpdate jstring "prune_field list"
  | PruneRuleAdd jstring | PruneRuleUpdate jstring jstring "prune_rule_field list" | PruneRuleRemove jstring jstring
  | Search jstring | Select jstring
  | DragStart jstring | DragOver jstring bool | Drop jstring jstring | DragEnd
  | ToJson | ToVisual | ChoosePreset jstring | Fill bool | Reset
  | EditLegacy jstring | EditJson jstring | Format | Save | Close

definition setTemplatePreset :: "jstring \<Rightarrow> editor \<Rightarrow> editor" where
  "setTemplatePreset v s = s\<lparr>templatePresetKey := (if v = [] then js ''operations_default'' else v)\<rparr>"

fun handle :: "clock \<Rightarrow> translate \<Rightarrow> editor_event \<Rightarrow> editor \<Rightarrow> editor option" where
  "handle clk t (Open value) s = open_dialog clk value s"
| "handle clk t (Update i patch) s = Some (updateOperation i patch s)"
| "handle clk t Add s = Some (addOperation clk s)"
| "handle clk t (Duplicate eager i) s = Some (duplicateOperation clk eager i s)"
| "handle clk t (Remove i) s = Some (removeOperation clk i s)"
| "handle clk t (CondAdd i) s = Some (addCondition clk i s)"
| "handle clk t (CondUpdate i c patch) s = Some (updateCondition i c patch s)"
| "handle clk t (CondRemove i c) s = Some (removeCondition i c s)"
| "handle clk t (CondExpand c b) s = Some (setExpanded c b s)"
| "handle clk t ExpandAll s = Some (expandAllConditions s)"
| "handle clk t CollapseAll s = Some (collapseAllConditions s)"
| "handle clk t (ReturnErrorUpdate i patch) s = Some (updateReturnErrorDraft i patch s)"
| "handle clk t (PruneUpdate i patch) s = Some (updatePruneObjectsDraft clk i (patch_prune patch) s)"
| "handle clk t (PruneRuleAdd i) s = Some (addPruneRule clk i s)"
| "handle clk t (PruneRuleUpdate i r patch) s = Some (updatePruneRule clk i r patch s)"
| "handle clk t (PruneRuleRemove i r) s = Some (removePruneRule clk i r s)"
| "handle clk t (Search x) s = Some (s\<lparr>operationSearch := x\<rparr>)"
| "handle clk t (Select i) s = Some (s\<lparr>selectedOperationId := i\<rparr>)"
| "handle clk t (DragStart i) s = Some (handleDragStart i s)"
| "handle clk t (DragOver i lower) s = Some (handleDragOver i lower s)"
| "handle clk t (Drop i transfer) s = Some (handleDrop i transfer s)"
| "handle clk t DragEnd s = Some (resetDragState s)"
| "handle clk t ToJson s = Some (switchToJsonMode t s)"
| "handle clk t ToVisual s = Some (switchToVisualMode clk t s)"
| "handle clk t (ChoosePreset v) s = Some (setTemplatePreset v s)"
| "handle clk t (Fill b) s = Some (fillTemplate clk t b s)"
| "handle clk t Reset s = Some (resetEditorState clk s)"
| "handle clk t (EditLegacy x) s = Some (s\<lparr>legacyValue := x\<rparr>)"
| "handle clk t (EditJson x) s = Some (handleJsonChange t x s)"
| "handle clk t Format s = Some (formatJson t s)"
| "handle clk t Save s = Some (handleSave t s)"
| "handle clk t Close s = Some (s\<lparr>dialogOpen := False\<rparr>)"

text \<open>The selects offer the modes of the tables and the two ways to combine conditions.\<close>

fun field_offered :: "operation_field \<Rightarrow> bool" where
  "field_offered (OMode m) \<longleftrightarrow> m \<in> set OPERATION_MODE_VALUES"
| "field_offered (OLogic l) \<longleftrightarrow> l = js ''AND'' \<or> l = js ''OR''"
| "field_offered _ \<longleftrightarrow> True"

fun condition_field_offered :: "condition_field \<Rightarrow> bool" where
  "condition_field_offered (CMode m) \<longleftrightarrow> m \<in> set CONDITION_MODE_VALUES"
| "condition_field_offered _ \<longleftrightarrow> True"

fun offered :: "editor_event \<Rightarrow> bool" where
  "offered (Update i patch) \<longleftrightarrow> list_all field_offered patch"
| "offered (CondUpdate i c patch) \<longleftrightarrow> list_all condition_field_offered patch"
| "offered _ \<longleftrightarrow> True"

text \<open>
  A step is an event followed by the effect that keeps the selection, or a render: every render
  evaluates \<open>createDefaultOperation()\<close> for the state's initial value, and the memo of the
  \<open>prune_objects\<close> draft, so it takes some identifiers.
\<close>

inductive editor_step :: "clock \<Rightarrow> translate \<Rightarrow> editor \<Rightarrow> editor \<Rightarrow> bool" for clk t where
  event: "offered e \<Longrightarrow> handle clk t e s = Some s' \<Longrightarrow> editor_step clk t s (keep_selected s')"
| render: "editor_step clk t s (s\<lparr>localIdSeed := localIdSeed s + k\<rparr>)"

definition editor_reachable :: "clock \<Rightarrow> translate \<Rightarrow> editor \<Rightarrow> bool" where
  "editor_reachable clk t s \<longleftrightarrow> (\<exists>seed. (editor_step clk t)\<^sup>*\<^sup>* (keep_selected (initial_editor clk seed)) s)"

inductive_cases editor_stepE: "editor_step clk t s s'"


section \<open>The invariant\<close>

definition op_ids :: "ParamOverrideOperation \<Rightarrow> jstring list" where
  "op_ids op = o_id op # map c_id (o_conditions op)"

definition all_ids :: "ParamOverrideOperation list \<Rightarrow> jstring list" where
  "all_ids ops = concat (map op_ids ops)"

lemma all_ids_simps [simp]:
  "all_ids [] = []" "all_ids (op # ops) = op_ids op @ all_ids ops" "all_ids (xs @ ys) = all_ids xs @ all_ids ys"
  by (simp_all add: all_ids_def)

lemma o_id_in_op_ids [simp]: "o_id op \<in> set (op_ids op)"
  by (simp add: op_ids_def)

lemma o_id_in_all_ids: "op \<in> set ops \<Longrightarrow> o_id op \<in> set (all_ids ops)"
  by (induction ops) auto

lemma distinct_all_ids: "distinct (all_ids ops) \<Longrightarrow> distinct (map o_id ops)"
proof (induction ops)
  case (Cons op ops)
  have "o_id op \<notin> set (all_ids ops)" using Cons.prems by (auto simp: disjoint_iff)
  then have "o_id op \<notin> o_id ` set ops" using o_id_in_all_ids by force
  then show ?case using Cons by simp
qed simp

definition typed_operation :: "ParamOverrideOperation \<Rightarrow> bool" where
  "typed_operation op \<longleftrightarrow> o_mode op \<in> set OPERATION_MODE_VALUES \<and> (o_logic op = js ''AND'' \<or> o_logic op = js ''OR'') \<and>
     list_all (\<lambda>c. c_mode c \<in> set CONDITION_MODE_VALUES) (o_conditions op)"

definition rules_inv :: "clock \<Rightarrow> nat \<Rightarrow> ParamOverrideOperation list \<Rightarrow> bool" where
  "rules_inv clk seed ops \<longleftrightarrow> ops \<noteq> [] \<and> distinct (all_ids ops) \<and> set (all_ids ops) \<subseteq> minted clk 0 seed \<and>
     list_all typed_operation ops"

definition editor_inv :: "clock \<Rightarrow> editor \<Rightarrow> bool" where
  "editor_inv clk s \<longleftrightarrow> rules_inv clk (localIdSeed s) (operations s) \<and>
     selectedOperationId s \<in> o_id ` set (operations s)"

lemma minted_subset: "lo' \<le> lo \<Longrightarrow> hi \<le> hi' \<Longrightarrow> minted clk lo hi \<subseteq> minted clk lo' hi'"
  by (auto simp: minted_def)

lemma minted_Int: "b \<le> c \<Longrightarrow> minted clk a b \<inter> minted clk c d = {}"
  by (auto simp: minted_def)

lemma rules_inv_mono: "rules_inv clk seed ops \<Longrightarrow> seed \<le> seed' \<Longrightarrow> rules_inv clk seed' ops"
  using minted_subset [of 0 0 seed seed' clk] by (auto simp: rules_inv_def)

section \<open>Reading rules takes fresh identifiers\<close>

lemma mode_or_in: "dflt \<in> set values \<Longrightarrow> mode_or values dflt v \<in> set values"
  by (auto simp: mode_or_def split: option.split json.split)

lemma full_mode: "js ''full'' \<in> set CONDITION_MODE_VALUES"
  by (simp add: CONDITION_MODE_VALUES_def CONDITION_MODE_OPTIONS_def)

lemma normalizeConditions_ids:
  "normalizeConditions clk seed vs = Some (cs, seed') \<Longrightarrow>
     seed \<le> seed' \<and> distinct (map c_id cs) \<and> c_id ` set cs \<subseteq> minted clk seed seed' \<and>
     list_all (\<lambda>c. c_mode c \<in> set CONDITION_MODE_VALUES) cs"
proof (induction vs arbitrary: seed cs)
  case (Cons v vs)
  from Cons.prems obtain r cs' where r: "as_record v = Some r"
    and cs': "normalizeConditions clk (Suc seed) vs = Some (cs', seed')"
    and c: "cs = fst (normalizeCondition clk seed r) # cs'"
    by (auto simp: normalizeCondition_def nextLocalId_eq Let_def split: option.splits)
  have i: "c_id (fst (normalizeCondition clk seed r)) = local_id clk seed"
    "c_mode (fst (normalizeCondition clk seed r)) \<in> set CONDITION_MODE_VALUES"
    using mode_or_in [OF full_mode] by (simp_all add: normalizeCondition_def nextLocalId_eq)
  have ih: "Suc seed \<le> seed'" "distinct (map c_id cs')" "c_id ` set cs' \<subseteq> minted clk (Suc seed) seed'"
    "list_all (\<lambda>c. c_mode c \<in> set CONDITION_MODE_VALUES) cs'" using Cons.IH [OF cs'] by auto
  have "local_id clk seed \<notin> minted clk (Suc seed) seed'" by simp
  then have "local_id clk seed \<notin> c_id ` set cs'" using ih(3) by blast
  moreover have "c_id ` set cs' \<subseteq> minted clk seed seed'"
    by (rule subset_trans [OF ih(3) minted_subset]) simp_all
  ultimately show ?case using i ih c by auto
qed simp

lemma normalizeOperation_ids:
  assumes "normalizeOperation clk seed r = Some (op, seed')"
  shows "seed < seed' \<and> distinct (op_ids op) \<and> set (op_ids op) \<subseteq> minted clk seed seed' \<and> typed_operation op"
proof -
  obtain cs where cs: "(case obj_get (js ''conditions'') r of Some (JArr vs) \<Rightarrow> normalizeConditions clk (Suc seed) vs
      | _ \<Rightarrow> Some ([], Suc seed)) = Some (cs, seed')"
    and op: "o_id op = local_id clk seed" "o_conditions op = cs" "o_logic op = js ''AND'' \<or> o_logic op = js ''OR''"
      "o_mode op = mode_or OPERATION_MODE_VALUES (js ''set'') (obj_get (js ''mode'') r)"
    using assms by (auto simp: normalizeOperation_def nextLocalId_eq Let_def)
  have c: "Suc seed \<le> seed'" "distinct (map c_id cs)" "c_id ` set cs \<subseteq> minted clk (Suc seed) seed'"
    "list_all (\<lambda>c. c_mode c \<in> set CONDITION_MODE_VALUES) cs"
    using cs normalizeConditions_ids [of clk "Suc seed"] by (auto split: option.splits json.splits)
  have "local_id clk seed \<notin> minted clk (Suc seed) seed'" by simp
  then have "local_id clk seed \<notin> c_id ` set cs" using c(3) by blast
  moreover have "c_id ` set cs \<subseteq> minted clk seed seed'"
    by (rule subset_trans [OF c(3) minted_subset]) simp_all
  ultimately show ?thesis
    using c op mode_or_in [OF set_fields(2)] by (auto simp: op_ids_def typed_operation_def)
qed

lemma normalizeOperations_all_ids:
  "normalizeOperations clk seed vs = Some (ops, seed') \<Longrightarrow>
     seed \<le> seed' \<and> distinct (all_ids ops) \<and> set (all_ids ops) \<subseteq> minted clk seed seed' \<and>
     list_all typed_operation ops \<and> length ops = length vs"
proof (induction vs arbitrary: seed ops)
  case (Cons v vs)
  from Cons.prems obtain r op s ops' where "as_record v = Some r"
    and op: "normalizeOperation clk seed r = Some (op, s)"
    and ops': "normalizeOperations clk s vs = Some (ops', seed')" and o: "ops = op # ops'"
    by (auto split: option.splits)
  note i = normalizeOperation_ids [OF op] and ih = Cons.IH [OF ops']
  have "set (op_ids op) \<inter> set (all_ids ops') = {}" using i ih minted_Int [of s s clk seed seed'] by blast
  moreover have "set (op_ids op) \<subseteq> minted clk seed seed'" "set (all_ids ops') \<subseteq> minted clk seed seed'"
    using i ih minted_subset [of seed seed s seed' clk] minted_subset [of seed s seed' seed' clk] by auto
  ultimately show ?case using i ih o by auto
qed simp

lemma rules_inv_normalize:
  assumes "normalizeOperations clk seed vs = Some (ops, seed')" and "vs \<noteq> []"
  shows "rules_inv clk seed' ops"
  using normalizeOperations_all_ids [OF assms(1)] assms(2) minted_subset [of 0 seed seed' seed' clk]
  by (auto simp: rules_inv_def)

lemma createDefaultOperation_ids:
  "createDefaultOperation clk seed = (d, seed') \<Longrightarrow>
     seed' = Suc seed \<and> op_ids d = [local_id clk seed] \<and> typed_operation d"
  using set_fields(2) by (auto simp: createDefaultOperation_def nextLocalId_eq op_ids_def typed_operation_def)

lemma rules_inv_default: "createDefaultOperation clk seed = (d, seed') \<Longrightarrow> rules_inv clk seed' [d]"
  using createDefaultOperation_ids [of clk seed d seed'] by (auto simp: rules_inv_def)

lemma rules_inv_append:
  assumes "list_all typed_operation xs" and "distinct (all_ids xs)" and "set (all_ids xs) \<subseteq> minted clk 0 seed"
    and "list_all typed_operation ys" and "distinct (all_ids ys)" and "set (all_ids ys) \<subseteq> minted clk seed seed'"
    and "seed \<le> seed'" and "xs @ ys \<noteq> []"
  shows "rules_inv clk seed' (xs @ ys)"
  using assms minted_Int [of seed seed clk 0 seed'] minted_subset [of 0 0 seed seed' clk]
    minted_subset [of 0 seed seed' seed' clk] by (auto simp: rules_inv_def)


section \<open>Every callback keeps the invariant\<close>

lemma rules_inv_same_ids:
  assumes "map op_ids ops' = map op_ids ops" and "list_all typed_operation ops'" and "rules_inv clk seed ops"
  shows "rules_inv clk seed ops'"
  using assms by (auto simp: rules_inv_def all_ids_def)

lemma rules_inv_map_operation:
  assumes "rules_inv clk seed ops" and "\<And>op. op_ids (f op) = op_ids op"
    and "\<And>op. typed_operation op \<Longrightarrow> typed_operation (f op)"
  shows "rules_inv clk seed (map_operation i f ops)"
  by (rule rules_inv_same_ids [OF _ _ assms(1)])
    (use assms in \<open>auto simp: map_operation_def rules_inv_def list_all_iff\<close>)

lemma put_operation_fields:
  "op_ids (fold put_operation_field patch op) = op_ids op"
  "list_all field_offered patch \<Longrightarrow> typed_operation op \<Longrightarrow> typed_operation (fold put_operation_field patch op)"
proof -
  have f: "op_ids (put_operation_field x op) = op_ids op" for x op by (cases x) (simp_all add: op_ids_def)
  have t: "field_offered x \<Longrightarrow> typed_operation op \<Longrightarrow> typed_operation (put_operation_field x op)" for x op
    by (cases x) (simp_all add: typed_operation_def)
  show "op_ids (fold put_operation_field patch op) = op_ids op"
    by (induction patch arbitrary: op) (simp_all add: f)
  show "list_all field_offered patch \<Longrightarrow> typed_operation op \<Longrightarrow> typed_operation (fold put_operation_field patch op)"
    by (induction patch arbitrary: op) (simp_all add: t)
qed

lemma put_condition_fields:
  "c_id (fold put_condition_field patch c) = c_id c"
  "list_all condition_field_offered patch \<Longrightarrow> c_mode c \<in> set CONDITION_MODE_VALUES \<Longrightarrow>
    c_mode (fold put_condition_field patch c) \<in> set CONDITION_MODE_VALUES"
proof -
  have f: "c_id (put_condition_field x c) = c_id c" for x c by (cases x) simp_all
  have t: "condition_field_offered x \<Longrightarrow> c_mode c \<in> set CONDITION_MODE_VALUES \<Longrightarrow>
      c_mode (put_condition_field x c) \<in> set CONDITION_MODE_VALUES" for x c by (cases x) simp_all
  show "c_id (fold put_condition_field patch c) = c_id c"
    by (induction patch arbitrary: c) (simp_all add: f)
  show "list_all condition_field_offered patch \<Longrightarrow> c_mode c \<in> set CONDITION_MODE_VALUES \<Longrightarrow>
    c_mode (fold put_condition_field patch c) \<in> set CONDITION_MODE_VALUES"
    by (induction patch arbitrary: c) (simp_all add: t)
qed

lemma updateOperation_inv:
  "list_all field_offered patch \<Longrightarrow> rules_inv clk seed (operations s) \<Longrightarrow>
    rules_inv clk seed (operations (updateOperation i patch s))"
  by (simp add: updateOperation_def rules_inv_map_operation put_operation_fields)

lemma updateCondition_inv:
  assumes "list_all condition_field_offered patch" and "rules_inv clk seed (operations s)"
  shows "rules_inv clk seed (operations (updateCondition i c patch s))"
proof -
  let ?f = "\<lambda>op. op\<lparr>o_conditions := map (\<lambda>x. if c_id x = c then fold put_condition_field patch x else x) (o_conditions op)\<rparr>"
  have "op_ids (?f op) = op_ids op" for op by (auto simp: op_ids_def put_condition_fields)
  moreover have "typed_operation op \<Longrightarrow> typed_operation (?f op)" for op
    using assms(1) put_condition_fields(2) by (auto simp: typed_operation_def list_all_iff)
  ultimately show ?thesis using assms(2) by (simp add: updateCondition_def rules_inv_map_operation)
qed

lemma updateReturnErrorDraft_inv:
  "rules_inv clk seed (operations s) \<Longrightarrow> rules_inv clk seed (operations (updateReturnErrorDraft i patch s))"
  by (auto intro!: rules_inv_map_operation simp: updateReturnErrorDraft_def op_ids_def typed_operation_def)

text \<open>Dropping rules or conditions keeps a subset of the identifiers.\<close>

lemma all_ids_filter:
  assumes "\<And>op. set (op_ids (f op)) \<subseteq> set (op_ids op)" and "\<And>op. distinct (op_ids op) \<Longrightarrow> distinct (op_ids (f op))"
  shows "set (all_ids (map f (filter P ops))) \<subseteq> set (all_ids ops)"
    and "distinct (all_ids ops) \<Longrightarrow> distinct (all_ids (map f (filter P ops)))"
proof -
  show s: "set (all_ids (map f (filter P ops))) \<subseteq> set (all_ids ops)" for ops
    by (induction ops) (use assms(1) in auto)
  show "distinct (all_ids ops) \<Longrightarrow> distinct (all_ids (map f (filter P ops)))"
  proof (induction ops)
    case (Cons op ops)
    then have "set (op_ids (f op)) \<inter> set (all_ids (map f (filter P ops))) = {}"
      using assms(1) [of op] s [of ops] by auto
    then show ?case using Cons assms(2) by simp
  qed simp
qed

lemmas all_ids_sub = all_ids_filter [of id, simplified]

lemma removeCondition_inv:
  assumes "rules_inv clk seed (operations s)"
  shows "rules_inv clk seed (operations (removeCondition i c s))"
proof -
  let ?f = "\<lambda>op. if o_id op = i then op\<lparr>o_conditions := filter (\<lambda>x. c_id x \<noteq> c) (o_conditions op)\<rparr> else op"
  have "set (op_ids (?f op)) \<subseteq> set (op_ids op)" "distinct (op_ids op) \<Longrightarrow> distinct (op_ids (?f op))" for op
    by (auto simp: op_ids_def distinct_map_filter)
  note m = all_ids_filter [where f = ?f and P = "\<lambda>_. True" and ops = "operations s", OF this]
  have "typed_operation op \<Longrightarrow> typed_operation (op\<lparr>o_conditions := filter (\<lambda>x. c_id x \<noteq> c) (o_conditions op)\<rparr>)" for op
    by (auto simp: typed_operation_def list_all_iff)
  then show ?thesis
    using assms m by (auto simp: removeCondition_def map_operation_def rules_inv_def list_all_iff)
qed

lemma map_operation_other: "i \<notin> o_id ` set ops \<Longrightarrow> map_operation i f ops = ops"
  by (induction ops) (auto simp: map_operation_def)

lemma addCondition_ids:
  assumes "distinct (all_ids ops)" and "c_id c \<notin> set (all_ids ops)"
  defines "f \<equiv> \<lambda>op. op\<lparr>o_conditions := o_conditions op @ [c]\<rparr>"
  shows "distinct (all_ids (map_operation i f ops)) \<and> set (all_ids (map_operation i f ops)) \<subseteq> insert (c_id c) (set (all_ids ops))"
  using assms(1,2)
proof (induction ops)
  case (Cons op ops)
  have m: "map_operation i f (op # ops) = (if o_id op = i then f op # ops else op # map_operation i f ops)"
    using map_operation_other [of i ops f] distinct_all_ids [OF Cons.prems(1)] by (auto simp: map_operation_def)
  have "op_ids (f op) = op_ids op @ [c_id c]" by (simp add: f_def op_ids_def)
  then show ?case using Cons unfolding m by auto
qed (simp add: map_operation_def)

lemma addCondition_inv:
  assumes "rules_inv clk (localIdSeed s) (operations s)"
  shows "rules_inv clk (localIdSeed (addCondition clk i s)) (operations (addCondition clk i s))"
proof -
  obtain c where c: "createDefaultCondition clk (localIdSeed s) = (c, Suc (localIdSeed s))"
    "c_id c = local_id clk (localIdSeed s)" "c_mode c \<in> set CONDITION_MODE_VALUES"
    using mode_or_in [OF full_mode] by (auto simp: createDefaultCondition_def normalizeCondition_def nextLocalId_eq)
  let ?f = "\<lambda>op. op\<lparr>o_conditions := o_conditions op @ [c]\<rparr>"
  have n: "c_id c \<notin> set (all_ids (operations s))" using assms c(2) by (auto simp: rules_inv_def)
  have a: "distinct (all_ids (map_operation i ?f (operations s)))"
    "set (all_ids (map_operation i ?f (operations s))) \<subseteq> insert (c_id c) (set (all_ids (operations s)))"
    using addCondition_ids [OF _ n, of i] assms by (auto simp: rules_inv_def)
  have "typed_operation op \<Longrightarrow> typed_operation (?f op)" for op
    using c(3) by (simp add: typed_operation_def)
  then have "list_all typed_operation (map_operation i ?f (operations s))"
    using assms by (auto simp: rules_inv_def map_operation_def list_all_iff)
  moreover have "set (all_ids (map_operation i ?f (operations s))) \<subseteq> minted clk 0 (Suc (localIdSeed s))"
  proof -
    have "local_id clk (localIdSeed s) \<in> minted clk 0 (Suc (localIdSeed s))" by simp
    moreover have "set (all_ids (operations s)) \<subseteq> minted clk 0 (Suc (localIdSeed s))"
      using assms minted_subset [of 0 0 "localIdSeed s" "Suc (localIdSeed s)" clk] by (auto simp: rules_inv_def)
    ultimately show ?thesis using a c(2) by auto
  qed
  ultimately show ?thesis
    using assms c(1) a by (auto simp: addCondition_def rules_inv_def map_operation_def)
qed


lemma addOperation_inv:
  assumes "rules_inv clk (localIdSeed s) (operations s)"
  shows "rules_inv clk (localIdSeed (addOperation clk s)) (operations (addOperation clk s))"
proof -
  obtain d seed where d: "createDefaultOperation clk (localIdSeed s) = (d, seed)" by fastforce
  have "rules_inv clk seed (operations s @ [d])"
    using createDefaultOperation_ids [OF d] assms by (intro rules_inv_append) (auto simp: rules_inv_def)
  then show ?thesis by (simp add: addOperation_def d)
qed

lemma mset_all_ids: "mset xs = mset ys \<Longrightarrow> mset (all_ids xs) = mset (all_ids ys)"
proof -
  have "mset (all_ids ops) = \<Sum>\<^sub># (image_mset (\<lambda>op. mset (op_ids op)) (mset ops))" for ops
    by (induction ops) simp_all
  then show "mset xs = mset ys \<Longrightarrow> mset (all_ids xs) = mset (all_ids ys)" by simp
qed

lemma rules_inv_perm: "mset xs = mset ys \<Longrightarrow> rules_inv clk seed xs \<Longrightarrow> rules_inv clk seed ys"
  using mset_eq_setD [of xs ys] mset_eq_setD [OF mset_all_ids, of xs ys] mset_eq_imp_distinct_iff [OF mset_all_ids, of xs ys]
  by (auto simp: rules_inv_def list_all_iff)

lemma handleDrop_inv: "rules_inv clk seed (operations s) \<Longrightarrow> rules_inv clk seed (operations (handleDrop i x s))"
  using rules_inv_perm [OF reorder_perm [symmetric]] by (simp add: handleDrop_def resetDragState_def Let_def)

lemma removeOperation_inv:
  assumes "rules_inv clk (localIdSeed s) (operations s)"
  shows "rules_inv clk (localIdSeed (removeOperation clk i s)) (operations (removeOperation clk i s))"
proof (cases "length (operations s) \<le> 1")
  case True
  obtain d seed where d: "createDefaultOperation clk (localIdSeed s) = (d, seed)" by fastforce
  then show ?thesis using True rules_inv_default [OF d] by (simp add: removeOperation_def)
next
  case False
  then obtain a b ops where o: "operations s = a # b # ops"
    by (cases "operations s"; cases "tl (operations s)") auto
  have "distinct (map o_id (operations s))" using assms distinct_all_ids by (auto simp: rules_inv_def)
  then have "filter (\<lambda>op. o_id op \<noteq> i) (operations s) \<noteq> []" by (auto simp: o)
  then show ?thesis
    using assms False all_ids_sub [where P = "\<lambda>op. o_id op \<noteq> i" and ops = "operations s"]
    by (auto simp: removeOperation_def rules_inv_def list_all_iff)
qed

lemma duplicateOperation_inv:
  assumes "rules_inv clk (localIdSeed s) (operations s)"
  shows "rules_inv clk (localIdSeed (duplicateOperation clk eager i s)) (operations (duplicateOperation clk eager i s))"
proof -
  have "rules_inv clk seed (take (Suc idx) (operations s) @ cloned # drop (Suc idx) (operations s))"
    if "normalizeOperation clk (localIdSeed s) r = Some (cloned, seed)" for r cloned seed idx
  proof (rule rules_inv_perm)
    show "mset (operations s @ [cloned]) = mset (take (Suc idx) (operations s) @ cloned # drop (Suc idx) (operations s))"
      using mset_take_drop [of "Suc idx" "operations s"] by simp
    show "rules_inv clk seed (operations s @ [cloned])"
      using normalizeOperation_ids [OF that] assms by (intro rules_inv_append) (auto simp: rules_inv_def)
  qed
  then show ?thesis using assms by (auto simp: duplicateOperation_def split: option.splits)
qed

lemma normalizePruneRules_seed: "normalizePruneRules clk seed rs = (xs, seed') \<Longrightarrow> seed \<le> seed'"
proof (induction rs arbitrary: seed xs)
  case (Cons r rs)
  then show ?case
    by (fastforce simp: normalizePruneRule_def nextLocalId_eq Let_def split: prod.splits)
qed simp

lemma parsePruneObjectsDraft_seed: "parsePruneObjectsDraft clk seed x = (d, seed') \<Longrightarrow> seed \<le> seed'"
  using normalizePruneRules_seed
  by (fastforce simp: parsePruneObjectsDraft_def Let_def split: if_splits option.splits json.splits prod.splits)

lemma prune_updates_ids:
  assumes "\<And>n d d' m. upd n d = (d', m) \<Longrightarrow> n \<le> m"
  shows "prune_updates clk upd i seed ops = (ops', seed') \<Longrightarrow>
    seed \<le> seed' \<and> map op_ids ops' = map op_ids ops \<and> (list_all typed_operation ops \<longrightarrow> list_all typed_operation ops')"
proof (induction ops arbitrary: seed ops' seed')
  case (Cons op ops)
  show ?case
  proof (cases "o_id op = i")
    case False
    then show ?thesis using Cons by (cases "prune_updates clk upd i seed ops") auto
  next
    case True
    obtain d s1 where d: "parsePruneObjectsDraft clk seed (o_value_text op) = (d, s1)" by fastforce
    obtain d' s2 where d': "upd s1 d = (d', s2)" by fastforce
    obtain rest s3 where rest: "prune_updates clk upd i s2 ops = (rest, s3)" by fastforce
    show ?thesis
      using Cons.prems Cons.IH [OF rest] parsePruneObjectsDraft_seed [OF d] assms [OF d'] d d' rest True
      by (auto simp: op_ids_def typed_operation_def)
  qed
qed simp

lemma updatePruneObjectsDraft_inv:
  assumes "\<And>n d d' m. upd n d = (d', m) \<Longrightarrow> n \<le> m" and "rules_inv clk (localIdSeed s) (operations s)"
  shows "rules_inv clk (localIdSeed (updatePruneObjectsDraft clk i upd s)) (operations (updatePruneObjectsDraft clk i upd s))"
proof -
  obtain ops seed where u: "prune_updates clk upd i (localIdSeed s) (operations s) = (ops, seed)" by fastforce
  have p: "localIdSeed s \<le> seed" "map op_ids ops = map op_ids (operations s)" "list_all typed_operation ops"
    using prune_updates_ids [OF assms(1) u] assms(2) by (auto simp: rules_inv_def)
  show ?thesis
    using rules_inv_mono [OF rules_inv_same_ids [OF p(2,3) assms(2)] p(1)] u by (simp add: updatePruneObjectsDraft_def)
qed

lemma parseInitialState_inv:
  assumes "parseInitialState clk seed x = Some (st, seed')"
  shows "rules_inv clk seed' (operations st)"
proof -
  obtain d n where d: "createDefaultOperation clk seed = (d, n)" by fastforce
  show ?thesis
    using assms rules_inv_default [OF d] rules_inv_normalize d
    by (auto simp: parseInitialState_def Let_def split: if_splits option.splits json.splits)
qed

lemma switchToVisualMode_inv:
  assumes "rules_inv clk (localIdSeed s) (operations s)"
  shows "rules_inv clk (localIdSeed (switchToVisualMode clk t s)) (operations (switchToVisualMode clk t s))"
proof -
  obtain d n where d: "createDefaultOperation clk (localIdSeed s) = (d, n)" by fastforce
  show ?thesis
    using assms rules_inv_default [OF d] rules_inv_normalize d
    by (auto simp: switchToVisualMode_def toast_error_def Let_def split: option.split json.split)
qed

lemma switchToJsonMode_rules:
  "operations (switchToJsonMode t s) = operations s" "localIdSeed (switchToJsonMode t s) = localIdSeed s"
  by (auto simp: switchToJsonMode_def toast_error_def split: sum.split)

lemma show_legacy_inv: "rules_inv clk (localIdSeed (show_legacy clk x s)) (operations (show_legacy clk x s))"
proof -
  obtain d n where d: "createDefaultOperation clk (localIdSeed s) = (d, n)" by fastforce
  show ?thesis using rules_inv_default [OF d] d by (simp add: show_legacy_def)
qed

definition preset_rules :: "jstring \<Rightarrow> json list" where
  "preset_rules k = (case obj_get (js ''operations'') (t_payload (preset_of k)) of Some (JArr vs) \<Rightarrow> vs | _ \<Rightarrow> [])"

lemma preset_cases: "preset_of k \<in> insert operations_default (snd ` set TEMPLATE_PRESET_CONFIG)"
  by (auto simp: preset_of_def obj_get_def split: option.split dest!: map_of_SomeD intro: rev_image_eqI)

lemmas template_defs = TEMPLATE_PRESET_CONFIG_def operations_default_def OPERATION_TEMPLATE_def HEADER_PASSTHROUGH_TEMPLATE_def
  GEMINI_IMAGE_4K_TEMPLATE_def CODEX_CLI_HEADER_PASSTHROUGH_TEMPLATE_def CLAUDE_CLI_HEADER_PASSTHROUGH_TEMPLATE_def
  buildPassHeadersTemplate_def AWS_BEDROCK_ANTHROPIC_COMPAT_TEMPLATE_def

lemma preset_rules_ne: "t_kind (preset_of k) \<noteq> LegacyKind \<Longrightarrow> preset_rules k \<noteq> []"
  using preset_cases [of k] by (auto simp: preset_rules_def template_defs)

lemma fillTemplate_inv:
  assumes "rules_inv clk (localIdSeed s) (operations s)"
  shows "rules_inv clk (localIdSeed (fillTemplate clk t b s)) (operations (fillTemplate clk t b s))"
proof (cases "t_kind (preset_of (templatePresetKey s)) = LegacyKind")
  case True
  then show ?thesis
    using assms show_legacy_inv by (auto simp: fillTemplate_def Let_def toast_error_def split: option.split)
next
  case False
  let ?vs = "preset_rules (templatePresetKey s)" and ?e = "filter (\<lambda>op. \<not> isOperationBlank op) (operations s)"
  note v = preset_rules_ne [OF False]
  show ?thesis
  proof (cases "normalizeOperations clk (localIdSeed s) ?vs")
    case None
    then show ?thesis using False assms by (simp add: fillTemplate_def Let_def preset_rules_def)
  next
    case (Some p)
    obtain ops seed where p: "p = (ops, seed)" by fastforce
    note n = normalizeOperations_all_ids [OF Some [unfolded p]]
    have ne: "ops \<noteq> []" using n v by auto
    have a: "rules_inv clk seed (?e @ ops)"
      using assms n ne all_ids_sub [where P = "\<lambda>op. \<not> isOperationBlank op" and ops = "operations s"]
      by (intro rules_inv_append) (auto simp: rules_inv_def list_all_iff)
    show ?thesis
      using False Some p ne a rules_inv_normalize [OF Some [unfolded p] v]
      by (auto simp: fillTemplate_def Let_def preset_rules_def split: prod.split)
  qed
qed


section \<open>Reachable states\<close>

lemma handle_rules_inv:
  assumes "offered e" and "handle clk t e s = Some s'" and "rules_inv clk (localIdSeed s) (operations s)"
  shows "rules_inv clk (localIdSeed s') (operations s')"
proof (cases e)
  case (Open x)
  then show ?thesis using assms(2) parseInitialState_inv by (auto simp: open_dialog_def)
next
  case (Update i patch)
  then show ?thesis using assms updateOperation_inv [of patch] by (auto simp: updateOperation_def)
next
  case (CondUpdate i c patch)
  then show ?thesis using assms updateCondition_inv [of patch] by (auto simp: updateCondition_def)
next
  case (CondRemove i c)
  then show ?thesis using assms removeCondition_inv by (auto simp: removeCondition_def)
next
  case (ReturnErrorUpdate i patch)
  then show ?thesis using assms updateReturnErrorDraft_inv by (auto simp: updateReturnErrorDraft_def)
next
  case (PruneUpdate i patch)
  then show ?thesis using assms by (auto simp: patch_prune_def intro!: updatePruneObjectsDraft_inv)
next
  case (PruneRuleAdd i)
  then show ?thesis
    using assms by (auto simp: addPruneRule_def normalizePruneRule_def nextLocalId_eq intro!: updatePruneObjectsDraft_inv)
next
  case (PruneRuleUpdate i r patch)
  then show ?thesis using assms by (auto simp: updatePruneRule_def intro!: updatePruneObjectsDraft_inv)
next
  case (PruneRuleRemove i r)
  then show ?thesis using assms by (auto simp: removePruneRule_def intro!: updatePruneObjectsDraft_inv)
next
  case (Drop i x)
  have "localIdSeed (handleDrop i x s) = localIdSeed s" by (simp add: handleDrop_def resetDragState_def Let_def)
  then show ?thesis using assms Drop handleDrop_inv by auto
next
  case Reset
  obtain d n where d: "createDefaultOperation clk (localIdSeed s) = (d, n)" by fastforce
  then show ?thesis using assms Reset rules_inv_default [OF d] by (auto simp: resetEditorState_def)
qed (use assms addOperation_inv duplicateOperation_inv removeOperation_inv addCondition_inv switchToVisualMode_inv
    fillTemplate_inv switchToJsonMode_rules in
    \<open>auto simp: setExpanded_def expandAllConditions_def collapseAllConditions_def set_all_expanded_def handleDragStart_def
      handleDragOver_def resetDragState_def setTemplatePreset_def handleJsonChange_def formatJson_def handleSave_def
      toast_error_def Let_def split: option.splits sum.splits\<close>)

lemma keep_selected_inv: "rules_inv clk (localIdSeed s) (operations s) \<Longrightarrow> editor_inv clk (keep_selected s)"
  by (auto simp: editor_inv_def keep_selected_def rules_inv_def list_ex_iff image_iff) (metis)+

lemma editor_step_inv: "editor_inv clk s \<Longrightarrow> editor_step clk t s s' \<Longrightarrow> editor_inv clk s'"
proof (erule editor_stepE)
  fix e s'' assume "editor_inv clk s" "offered e" "handle clk t e s = Some s''" "s' = keep_selected s''"
  then show "editor_inv clk s'" using keep_selected_inv handle_rules_inv unfolding editor_inv_def by metis
next
  fix k assume "editor_inv clk s" "s' = s\<lparr>localIdSeed := localIdSeed s + k\<rparr>"
  then show "editor_inv clk s'" using rules_inv_mono [of clk "localIdSeed s" "operations s" "localIdSeed s + k"] by (simp add: editor_inv_def)
qed

lemma initial_editor_inv: "editor_inv clk (keep_selected (initial_editor clk seed))"
proof -
  obtain d n where d: "createDefaultOperation clk seed = (d, n)" by fastforce
  then show ?thesis using rules_inv_default [OF d] by (intro keep_selected_inv) (simp add: initial_editor_def)
qed

interpretation param_dialog: machine_invariant
  "\<lambda>s. \<exists>seed. s = keep_selected (initial_editor clk seed)" "editor_step clk t" "editor_inv clk" for clk t
  by unfold_locales (auto intro: initial_editor_inv editor_step_inv)

lemma editor_reachable_inv: "editor_reachable clk t s \<Longrightarrow> editor_inv clk s"
  using param_dialog.reachable_inv unfolding editor_reachable_def by blast

text \<open>
  C29. In every state the dialog can reach, by any sequence of its callbacks and renders, there is a
  rule, the selected rule is one of the list, the identifiers of all rules and conditions are different,
  and every mode is one of the tables.
\<close>

theorem editor_states_well_formed:
  assumes "editor_reachable clk t s"
  shows "operations s \<noteq> [] \<and> selectedOperation s \<noteq> None \<and>
    distinct (concat (map (\<lambda>op. o_id op # map c_id (o_conditions op)) (operations s))) \<and>
    list_all (\<lambda>op. o_mode op \<in> set OPERATION_MODE_VALUES \<and>
      list_all (\<lambda>c. c_mode c \<in> set CONDITION_MODE_VALUES) (o_conditions op)) (operations s)"
proof -
  have i: "editor_inv clk s" by (rule editor_reachable_inv [OF assms])
  then have "selectedOperation s \<noteq> None"
    by (auto simp: editor_inv_def selectedOperation_def find_None_iff)
  with i show ?thesis
    by (auto simp: editor_inv_def rules_inv_def all_ids_def op_ids_def [abs_def] typed_operation_def list_all_iff)
qed

theorem editor_states_well_formed_witness:
  "\<exists>s. editor_reachable (\<lambda>n. 5) sample_t s \<and> length (operations s) = 2 \<and> distinct (map o_id (operations s))"
proof -
  let ?i = "keep_selected (initial_editor (\<lambda>n. 5) 0)"
  let ?s = "keep_selected (addOperation (\<lambda>n. 5) ?i)"
  have "editor_step (\<lambda>n. 5) sample_t ?i ?s" by (rule event [of Add]) simp_all
  then have r: "editor_reachable (\<lambda>n. 5) sample_t ?s" unfolding editor_reachable_def by blast
  have "length (operations ?s) = 2 \<and> distinct (map o_id (operations ?s))"
    using editor_states_well_formed [OF r] distinct_all_ids [of "operations ?s"]
    by (simp add: all_ids_def op_ids_def [abs_def] keep_selected_def addOperation_def initial_editor_def
        createDefaultOperation_def nextLocalId_eq)
  with r show ?thesis by blast
qed

section \<open>Switching between the two modes\<close>

lemma build_unvalidated: "\<exists>text. buildOperationsJson ops False t = Inr text"
  by (simp add: buildOperationsJson_def Let_def)

lemma json_mode_saves:
  assumes "text = [] \<or> trim text = text \<and> (\<exists>v. text = JSON_pretty v \<and> JSON_parse text = Some v)"
    and "editMode s = Json" and "jsonText s = text"
  shows "savedValues (handleSave t s) = savedValues s @ [text]"
  using assms by (auto simp: handleSave_def Let_def)

text \<open>
  C30. Switching modes does not change what is saved: for valid rules whose values are read back as they were
  written, edited as rules in the visual mode, saving from the JSON mode, or after going to the JSON mode and
  back, gives the text that saving directly gives.
\<close>

theorem mode_switch_saves_same:
  assumes "\<And>k n. t k n \<noteq> []" and "editMode s = Visual" and "visualMode s = Operations"
    and "list_all rule_ok (operations s)" and "buildOperationsJson (operations s) True t = Inr text"
  shows "savedValues (handleSave t s) = savedValues s @ [text] \<and>
    savedValues (handleSave t (switchToJsonMode t s)) = savedValues s @ [text] \<and>
    savedValues (handleSave t (switchToVisualMode clk t (switchToJsonMode t s))) = savedValues s @ [text]"
proof (intro conjI)
  show "savedValues (handleSave t s) = savedValues s @ [text]"
    using assms by (simp add: handleSave_def buildVisualJson_def)
  let ?j = "switchToJsonMode t s"
  have j: "editMode ?j = Json" "jsonText ?j = text" "savedValues ?j = savedValues s"
    using assms by (simp_all add: switchToJsonMode_def buildVisualJson_def)
  show "savedValues (handleSave t ?j) = savedValues s @ [text]"
    using json_mode_saves [OF _ j(1,2)] saved_text_reopens [OF assms(1,4,5)] j(3) by metis
  show "savedValues (handleSave t (switchToVisualMode clk t ?j)) = savedValues s @ [text]"
  proof (cases "text = []")
    case True
    obtain d n where d: "createDefaultOperation clk (localIdSeed ?j) = (d, n)" by fastforce
    then show ?thesis
      using True j default_is_blank [OF d]
      by (simp add: switchToVisualMode_def handleSave_def buildVisualJson_def buildOperationsJson_def)
  next
    case False
    from saved_text_reopens [OF assms(1,4,5) False] obtain vs ops' s' where
      "vs \<noteq> []" "trim text = text" "JSON_parse text = Some (JObj [(js ''operations'', JArr vs)])"
      "normalizeOperations clk (localIdSeed ?j) vs = Some (ops', s')" "buildOperationsJson ops' True t = Inr text" by metis
    then show ?thesis
      using False j by (simp add: switchToVisualMode_def handleSave_def buildVisualJson_def split: prod.split)
  qed
qed

theorem mode_switch_saves_same_witness:
  "\<exists>text. text \<noteq> [] \<and>
     savedValues (handleSave sample_t (switchToVisualMode (\<lambda>n. 5) sample_t (switchToJsonMode sample_t
       ((initial_editor (\<lambda>n. 5) 0)\<lparr>operations := [sample_rule]\<rparr>)))) = [text]"
  using sample_built mode_switch_saves_same [of sample_t "(initial_editor (\<lambda>n. 5) 0)\<lparr>operations := [sample_rule]\<rparr>",
      OF sample_t_ne _ _ _] sample_ok
  by (auto simp: initial_editor_def createDefaultOperation_def nextLocalId_eq)


section \<open>Duplicating a rule\<close>

lemma clone_condition_payload:
  "condition_ok c \<Longrightarrow> buildConditionPayload (fst (normalizeCondition clk seed (clone_condition c))) = buildConditionPayload c"
  using mode_ne(2) [of "c_mode c"]
  by (auto simp: condition_ok_def normalizeCondition_def nextLocalId_eq clone_condition_def buildConditionPayload_def
      string_or_empty_def mode_or_def value_ok_stable Let_def)

lemma clone_conditions:
  "list_all condition_ok cs \<Longrightarrow>
    \<exists>cs' s'. normalizeConditions clk seed (map (JObj \<circ> clone_condition) cs) = Some (cs', s') \<and>
      List.map_filter buildConditionPayload cs' = List.map_filter buildConditionPayload cs"
proof (induction cs arbitrary: seed)
  case (Cons c cs)
  let ?n = "normalizeCondition clk seed (clone_condition c)"
  from Cons obtain cs' s' where i: "normalizeConditions clk (snd ?n) (map (JObj \<circ> clone_condition) cs) = Some (cs', s')"
    "List.map_filter buildConditionPayload cs' = List.map_filter buildConditionPayload cs" by fastforce
  have "buildConditionPayload (fst ?n) = buildConditionPayload c" using Cons.prems clone_condition_payload by simp
  then show ?case using i
    by (cases ?n) (auto simp: as_record_def comp_def map_filter_simps split: option.split)
qed simp

lemma clone_payload:
  assumes "rule_ok op" and "typed_operation op"
  shows "\<exists>cl s'. normalizeOperation clk seed (clone_operation op) = Some (cl, s') \<and> operation_payload cl = operation_payload op"
proof -
  obtain cs s' where cs: "normalizeConditions clk (Suc seed) (map (JObj \<circ> clone_condition) (o_conditions op)) = Some (cs, s')"
    "List.map_filter buildConditionPayload cs = List.map_filter buildConditionPayload (o_conditions op)"
    using clone_conditions assms(1) unfolding rule_ok_def by blast
  let ?cl = "op\<lparr>o_id := local_id clk seed, o_value_text := toValueText (Some (parseLooseValue (o_value_text op))), o_conditions := cs\<rparr>"
  have l: "json_truthy (JStr (o_logic op))" "(if to_upper (o_logic op) = js ''AND'' then js ''AND'' else js ''OR'') = o_logic op"
    using assms(2) by (auto simp: typed_operation_def json_truthy_def js_def to_upper_def)
  have n: "normalizeOperation clk seed (clone_operation op) = Some (?cl, s')"
    using assms(2) cs(1) l
    by (simp add: normalizeOperation_def nextLocalId_eq clone_operation_def string_or_empty_def mode_or_def typed_operation_def)
  have m: "o_mode op \<noteq> []" and v: "value_ok (o_value_text op)" using assms(1) mode_ne(1) by (auto simp: rule_ok_def)
  have "operation_payload ?cl = operation_payload op"
    using m by (simp add: payload_fields cs(2) value_ok_stable [OF v] written_from_def written_to_def Let_def)
  with n show ?thesis by blast
qed

lemma find_index_unique:
  assumes "distinct (map o_id ops)" and "op \<in> set ops"
  shows "\<exists>pre post. ops = pre @ [op] @ post \<and> find_index (\<lambda>x. o_id x = o_id op) ops = Some (length pre)"
proof -
  from assms(2) obtain pre post where o: "ops = pre @ op # post" by (meson split_list)
  have "\<forall>y \<in> set pre. o_id y \<noteq> o_id op" using assms(1) unfolding o by (auto simp: image_iff)
  then have "find_index (\<lambda>x. o_id x = o_id op) ops = Some (length pre)"
    unfolding o by (rule find_index_append) simp
  with o show ?thesis by auto
qed

text \<open>
  Duplicating a rule of a reachable dialog puts right after it a rule that is saved the same way,
  under an identifier that no rule had; the other rules stay.
\<close>

theorem duplicate_rule:
  assumes "editor_reachable clk t s" and "op \<in> set (operations s)" and "rule_ok op"
  shows "\<exists>pre post cl. operations s = pre @ [op] @ post \<and>
    operations (duplicateOperation clk eager (o_id op) s) = pre @ [op, cl] @ post \<and>
    operation_payload cl = operation_payload op \<and> o_id cl \<notin> o_id ` set (operations s)"
proof -
  have i: "rules_inv clk (localIdSeed s) (operations s)"
    using editor_reachable_inv [OF assms(1)] by (simp add: editor_inv_def)
  have "distinct (map o_id (operations s))" using i distinct_all_ids by (auto simp: rules_inv_def)
  from find_index_unique [OF this assms(2)] obtain pre post where o: "operations s = pre @ [op] @ post"
    "find_index (\<lambda>x. o_id x = o_id op) (operations s) = Some (length pre)" by blast
  have "typed_operation op" using assms(2) i by (auto simp: rules_inv_def list_all_iff)
  then obtain cl s' where c: "normalizeOperation clk (localIdSeed s) (clone_operation op) = Some (cl, s')"
    "operation_payload cl = operation_payload op"
    using clone_payload [OF assms(3)] by blast
  have "o_id cl \<in> minted clk (localIdSeed s) s'" using normalizeOperation_ids [OF c(1)] by auto
  moreover have "o_id ` set (operations s) \<subseteq> minted clk 0 (localIdSeed s)"
    using i o_id_in_all_ids by (fastforce simp: rules_inv_def)
  ultimately have "o_id cl \<notin> o_id ` set (operations s)" using minted_Int [of "localIdSeed s" "localIdSeed s" clk 0 s'] by blast
  moreover have "operations (duplicateOperation clk eager (o_id op) s) = pre @ [op, cl] @ post"
    using o c(1) by (simp add: duplicateOperation_def)
  ultimately show ?thesis using o(1) c(2) by blast
qed

theorem duplicate_rule_witness:
  "\<exists>s op. editor_reachable (\<lambda>n. 5) sample_t s \<and> op \<in> set (operations s) \<and>
     length (operations (duplicateOperation (\<lambda>n. 5) True (o_id op) s)) = 2"
proof -
  let ?s = "keep_selected (initial_editor (\<lambda>n. 5) 0)" and ?op = "fst (createDefaultOperation (\<lambda>n. 5) 0)"
  have r: "editor_reachable (\<lambda>n. 5) sample_t ?s" by (auto simp: editor_reachable_def)
  have o: "operations ?s = [?op]" by (simp add: keep_selected_def initial_editor_def createDefaultOperation_def nextLocalId_eq)
  have k: "rule_ok ?op" by code_simp
  have m: "?op \<in> set (operations ?s)" using o by simp
  from duplicate_rule [OF r m k, of True] obtain pre post cl where "operations ?s = pre @ [?op] @ post"
    "operations (duplicateOperation (\<lambda>n. 5) True (o_id ?op) ?s) = pre @ [?op, cl] @ post" by blast
  moreover from this(1) have "pre = [] \<and> post = []" unfolding o by (cases pre) auto
  ultimately have "length (operations (duplicateOperation (\<lambda>n. 5) True (o_id ?op) ?s)) = 2" by simp
  with r m show ?thesis by blast
qed

section \<open>Saving\<close>

text \<open>
  C36. Pressing save with rules: when every rule that is not blank passes its validation, the dialog hands over
  the printed object of these rules, in order (or the empty text when there is none), and closes. Otherwise it
  hands over nothing and stays open with one message, that of the first rule that fails, with its number
  among the rules that are not blank. The translations of messages are not empty.
\<close>

theorem save_outcome:
  assumes "\<And>k n. t k n \<noteq> []" and "editMode s = Visual" and "visualMode s = Operations"
  defines "rules \<equiv> filter (\<lambda>op. \<not> isOperationBlank op) (operations s)"
  shows "if list_all (\<lambda>op. validate_operation op = None) rules
    then handleSave t s = s\<lparr>dialogOpen := False, savedValues := savedValues s @
      [if rules = [] then [] else JSON_pretty (JObj [(js ''operations'', JArr (map (\<lambda>op. JObj (operation_payload op)) rules))])]\<rparr>
    else \<exists>i key. i < length rules \<and> validate_operation (rules ! i) = Some key \<and>
      list_all (\<lambda>op. validate_operation op = None) (take i rules) \<and>
      handleSave t s = s\<lparr>toasts := toasts s @ [t key (i + 1)]\<rparr>"
proof (cases "buildOperationsJson (operations s) True t")
  case (Inl message)
  from refused_save_first_error [OF Inl] obtain i key where k: "i < length rules" "validate_operation (rules ! i) = Some key"
    "message = t key (i + 1)" "list_all (\<lambda>op. validate_operation op = None) (take i rules)" unfolding rules_def by blast
  then have n: "\<not> list_all (\<lambda>op. validate_operation op = None) rules" by (auto simp: list_all_iff dest: nth_mem)
  have "handleSave t s = s\<lparr>toasts := toasts s @ [message]\<rparr>"
    using Inl assms(2,3) by (simp add: handleSave_def buildVisualJson_def toast_error_def)
  then show ?thesis unfolding if_not_P [OF n] using k by blast
next
  case (Inr x)
  have "list_all (\<lambda>op. validate_operation op = None) rules \<and>
      x = (if rules = [] then [] else JSON_pretty (JObj [(js ''operations'', JArr (map (\<lambda>op. JObj (operation_payload op)) rules))]))"
    using build_Inr [OF assms(1) Inr] by (auto simp: rules_def rules_json_def comp_def)
  moreover have "handleSave t s = s\<lparr>savedValues := savedValues s @ [x], dialogOpen := False\<rparr>"
    using Inr assms(2,3) by (simp add: handleSave_def buildVisualJson_def)
  ultimately show ?thesis by simp
qed

theorem save_outcome_witness:
  "\<exists>key. toasts (handleSave sample_t ((initial_editor (\<lambda>n. 5) 0)\<lparr>operations := [sample_rule, sample_rule\<lparr>o_path := []\<rparr>]\<rparr>)) = [sample_t key 2]"
proof -
  let ?ops = "[sample_rule, sample_rule\<lparr>o_path := []\<rparr>]"
  let ?s = "(initial_editor (\<lambda>n. 5) 0)\<lparr>operations := ?ops\<rparr>"
  have f: "filter (\<lambda>op. \<not> isOperationBlank op) (operations ?s) = ?ops" by code_simp
  have v: "validate_operation sample_rule = None" "validate_operation (sample_rule\<lparr>o_path := []\<rparr>) \<noteq> None" by code_simp+
  have m: "editMode ?s = Visual" "visualMode ?s = Operations" "toasts ?s = []"
    by (simp_all add: initial_editor_def createDefaultOperation_def nextLocalId_eq)
  have n: "\<not> list_all (\<lambda>op. validate_operation op = None) ?ops" using v(2) by simp
  from save_outcome [of sample_t ?s, OF sample_t_ne m(1,2), unfolded f if_not_P [OF n]] obtain i key where
    i: "i < length ?ops" "validate_operation (?ops ! i) = Some key" "handleSave sample_t ?s = ?s\<lparr>toasts := toasts ?s @ [sample_t key (i + 1)]\<rparr>"
    by blast
  then have "i = 1" using v(1) by (cases i) auto
  then show ?thesis using i(3) m(3) by (auto simp: numeral_2_eq_2)
qed

section \<open>Rules of a \<open>prune_objects\<close> value\<close>

lemma normalizePruneRules_ids: "normalizePruneRules clk seed rs = (xs, seed') \<Longrightarrow> r_id ` set xs \<subseteq> minted clk seed seed'"
proof (induction rs arbitrary: seed xs)
  case (Cons r rs)
  obtain ys where y: "normalizePruneRules clk (Suc seed) rs = (ys, seed')" "xs = fst (normalizePruneRule clk seed r) # ys"
    using Cons.prems by (auto simp: normalizePruneRule_def nextLocalId_eq Let_def split: prod.splits)
  have "Suc seed \<le> seed'" using normalizePruneRules_seed [OF y(1)] .
  moreover have "r_id ` set ys \<subseteq> minted clk seed seed'"
    by (rule subset_trans [OF Cons.IH [OF y(1)] minted_subset]) simp_all
  ultimately show ?case using y(2) by (auto simp: normalizePruneRule_def nextLocalId_eq)
qed simp

lemma parsed_prune_ids:
  "parsePruneObjectsDraft clk seed x = (d, seed') \<Longrightarrow> r_id ` set (p_rules d) \<subseteq> minted clk seed seed'"
  using normalizePruneRules_ids
  by (fastforce simp: parsePruneObjectsDraft_def prune_defaults_def Let_def split: if_splits option.splits json.splits prod.splits)

lemma prune_updates_cong:
  assumes "\<And>n x d m. n \<ge> seed \<Longrightarrow> parsePruneObjectsDraft clk n x = (d, m) \<Longrightarrow> f m d = g m d"
    and "\<And>n d d' m. g n d = (d', m) \<Longrightarrow> n \<le> m"
  shows "prune_updates clk f i seed ops = prune_updates clk g i seed ops"
proof -
  have "n \<ge> seed \<Longrightarrow> prune_updates clk f i n ops = prune_updates clk g i n ops" for n
  proof (induction ops arbitrary: n)
    case (Cons op ops)
    obtain d m where d: "parsePruneObjectsDraft clk n (o_value_text op) = (d, m)" by fastforce
    obtain d' m' where d': "g m d = (d', m')" by fastforce
    have "n \<le> m" "m \<le> m'" using parsePruneObjectsDraft_seed [OF d] assms(2) [OF d'] by auto
    then show ?case using Cons.IH Cons.prems assms(1) [OF Cons.prems d] d d' by simp
  qed simp
  then show ?thesis by simp
qed

text \<open>
  Editing or removing a rule of a \<open>prune_objects\<close> value has no effect: the identifiers the interface
  shows were taken when it was rendered, and the callback reads the value again under new ones. Each
  is the callback with an empty patch.
\<close>

lemma prune_rule_update_lost:
  assumes "ruleId \<in> minted clk 0 (localIdSeed s)"
  shows "updatePruneRule clk i ruleId patch s = updatePruneObjectsDraft clk i (patch_prune []) s"
    and "removePruneRule clk i ruleId s = updatePruneObjectsDraft clk i (patch_prune []) s"
proof -
  have n: "list_all (\<lambda>r. r_id r \<noteq> ruleId) (p_rules d)"
    if "n \<ge> localIdSeed s" "parsePruneObjectsDraft clk n x = (d, m)" for n x d m
    using parsed_prune_ids [OF that(2)] minted_disjoint [OF assms, of n m] that(1) by (auto simp: list_all_iff)
  have m: "map (\<lambda>r. if r_id r = ruleId then fold put_prune_rule_field patch r else r) rs = rs"
    if "list_all (\<lambda>r. r_id r \<noteq> ruleId) rs" for rs
    using that by (induction rs) auto
  have f: "filter (\<lambda>r. r_id r \<noteq> ruleId) rs = rs" if "list_all (\<lambda>r. r_id r \<noteq> ruleId) rs" for rs
    using that by (induction rs) auto
  show "updatePruneRule clk i ruleId patch s = updatePruneObjectsDraft clk i (patch_prune []) s"
    unfolding updatePruneRule_def updatePruneObjectsDraft_def
    by (subst prune_updates_cong [where g = "patch_prune []"]) (auto simp: patch_prune_def dest!: n m)
  show "removePruneRule clk i ruleId s = updatePruneObjectsDraft clk i (patch_prune []) s"
    unfolding removePruneRule_def updatePruneObjectsDraft_def
    by (subst prune_updates_cong [where g = "patch_prune []"]) (auto simp: patch_prune_def dest!: n f)
qed

text \<open>Adding a rule has no effect either: the new rule has no path, and rules without one are not written.\<close>

lemma prune_rule_add_lost:
  "buildPruneObjectsValueText (d\<lparr>p_simpleMode := False, p_rules := p_rules d @ [fst (normalizePruneRule clk n [])]\<rparr>) =
   buildPruneObjectsValueText (d\<lparr>p_simpleMode := False\<rparr>)"
  by (cases d) (simp add: buildPruneObjectsValueText_def normalizePruneRule_def nextLocalId_eq string_or_empty_def Let_def)


end
