(* ===== verification/Channel_Utils.thy ===== *)
theory Channel_Utils
  imports JS_Json
begin

text \<open>
  The helpers of the channel list, \<open>src/web/default/src/features/channels/lib/channel-utils.ts\<close>: labels
  and icons of the channel types, display of keys, parsing of model and group lists and of settings, the
  checks of a channel, the aggregation of channels by tag and the removal of duplicate keys. A value that
  may be null or undefined is a \<open>nullish\<close>. The formatters of money and dates belong to other modules.
\<close>

section \<open>Channels\<close>

datatype 'a nullish = Undefined | Null | Val 'a

record ChannelInfo =
  is_multi_key :: bool
  multi_key_size :: jnum
  multi_key_status_list :: "(jstring \<times> jnum) list option"
  info_multi_key_mode :: jstring

record Channel =
  ch_id :: jnum
  ch_type :: jnum
  ch_key :: jstring
  ch_status :: jnum
  ch_name :: jstring
  ch_weight :: "jnum nullish"
  ch_response_time :: jnum
  ch_balance :: jnum
  ch_models :: jstring
  ch_group :: jstring
  ch_used_quota :: jnum
  ch_priority :: "jnum nullish"
  ch_tag :: "jstring nullish"
  ch_info :: "ChannelInfo option"
  ch_openai_organization :: "jstring nullish"
  ch_test_model :: "jstring nullish"
  ch_base_url :: "jstring nullish"
  ch_other :: jstring
  ch_model_mapping :: "jstring nullish"
  ch_status_code_mapping :: "jstring nullish"
  ch_auto_ban :: "jnum nullish"
  ch_setting :: "jstring nullish"
  ch_param_override :: "jstring nullish"
  ch_header_override :: "jstring nullish"
  ch_remark :: jstring
  ch_settings :: jstring

section \<open>Types, status and keys\<close>
definition CHANNEL_TYPES :: "(int \<times> jstring) list" where
  "CHANNEL_TYPES =
     [(0, js ''Unknown''), (1, js ''OpenAI''), (2, js ''Midjourney''), (3, js ''Azure''), (4, js ''Ollama''),
      (5, js ''MidjourneyPlus''), (6, js ''OpenAIMax''), (7, js ''OhMyGPT''), (8, js ''Custom''),
      (9, js ''AILS''), (10, js ''AI Proxy''), (11, js ''PaLM''), (12, js ''API2GPT''), (13, js ''AIGC2D''),
      (14, js ''Anthropic''), (15, js ''Baidu''), (16, js ''Zhipu''), (17, js ''Ali''), (18, js ''Xunfei''),
      (19, js ''360''), (20, js ''OpenRouter''), (21, js ''AI Proxy Library''), (22, js ''FastGPT''),
      (23, js ''Tencent''), (24, js ''Gemini''), (25, js ''Moonshot''), (26, js ''Zhipu V4''),
      (27, js ''Perplexity''), (31, js ''LingYiWanWu''), (33, js ''AWS''), (34, js ''Cohere''),
      (35, js ''MiniMax''), (36, js ''SunoAPI''), (37, js ''Dify''), (38, js ''Jina''),
      (39, js ''Cloudflare''), (40, js ''SiliconFlow''), (41, js ''Vertex AI''), (42, js ''Mistral''),
      (43, js ''DeepSeek''), (44, js ''MokaAI''), (45, js ''VolcEngine''), (46, js ''Baidu V2''),
      (47, js ''Xinference''), (48, js ''xAI''), (49, js ''Coze''), (50, js ''Kling''), (51, js ''Jimeng''),
      (52, js ''Vidu''), (53, js ''Submodel''), (54, js ''DoubaoVideo''), (55, js ''Sora''),
      (56, js ''Replicate''), (57, js ''Codex'')]"

definition TYPE_TO_ICON :: "(int \<times> jstring) list" where
  "TYPE_TO_ICON =
     [(1, js ''OpenAI''), (6, js ''OpenAI''), (7, js ''OpenAI''), (8, js ''OpenAI''), (3, js ''Azure''),
      (14, js ''Claude''), (24, js ''Gemini''), (11, js ''Google''), (41, js ''Gemini''), (33, js ''Aws''),
      (39, js ''Cloudflare''), (15, js ''Baidu''), (46, js ''Baidu''), (16, js ''Zhipu''),
      (26, js ''Zhipu''), (17, js ''Qwen''), (18, js ''Spark''), (23, js ''Hunyuan''), (19, js ''Ai360''),
      (25, js ''Moonshot''), (31, js ''Yi''), (35, js ''Minimax''), (45, js ''Volcengine''),
      (4, js ''Ollama''), (27, js ''Perplexity''), (34, js ''Cohere''), (42, js ''Mistral''),
      (43, js ''DeepSeek''), (48, js ''XAI''), (49, js ''Coze''), (40, js ''SiliconCloud''),
      (44, js ''OpenAI''), (20, js ''OpenRouter''), (2, js ''Midjourney''), (5, js ''Midjourney''),
      (50, js ''Kling''), (51, js ''Jimeng''), (52, js ''Vidu''), (36, js ''Suno''), (55, js ''OpenAI''),
      (54, js ''Doubao''), (56, js ''Replicate''), (37, js ''Dify''), (38, js ''Jina''),
      (22, js ''FastGPT''), (47, js ''Xinference''), (53, js ''OpenAI''), (10, js ''OpenAI''),
      (21, js ''OpenAI''), (12, js ''OpenAI''), (13, js ''OpenAI''), (9, js ''OpenAI'')]"
definition getChannelTypeLabel :: "int \<Rightarrow> jstring" where
  "getChannelTypeLabel t = (case map_of CHANNEL_TYPES t of Some l \<Rightarrow> l | None \<Rightarrow> js ''Unknown'')"

definition getChannelTypeIcon :: "int \<Rightarrow> jstring" where
  "getChannelTypeIcon t = (case map_of TYPE_TO_ICON t of Some l \<Rightarrow> l | None \<Rightarrow> js ''OpenAI'')"

definition isChannelEnabled :: "Channel \<Rightarrow> bool" where
  "isChannelEnabled c \<longleftrightarrow> num_eq (ch_status c) (Fin 1)"

definition isMultiKeyChannel :: "Channel \<Rightarrow> bool" where
  "isMultiKeyChannel c \<longleftrightarrow> (case ch_info c of None \<Rightarrow> False | Some i \<Rightarrow> is_multi_key i)"

definition countKeys :: "jstring \<Rightarrow> nat" where
  "countKeys k = (if k = [] then 0 else length (filter (\<lambda>l. trim l \<noteq> []) (split_on 10 k)))"

definition formatChannelKey :: "jstring \<Rightarrow> bool \<Rightarrow> jstring" where
  "formatChannelKey k isMultiKey =
     (if k = [] then []
      else if isMultiKey then nat_to_js (length (filter (\<lambda>l. trim l \<noteq> []) (split_on 10 k))) @ js '' keys''
      else if length k \<le> 16 then slice_to 4 k @ js ''...'' @ slice_last 4 k
      else slice_to 8 k @ js ''...'' @ slice_last 8 k)"

definition formatKeyPreview :: "jstring \<Rightarrow> nat \<Rightarrow> jstring" where
  "formatKeyPreview k maxLength =
     (if k = [] then [] else if length k \<le> maxLength then k else slice_to maxLength k @ js ''...'')"

section \<open>Lists and settings\<close>

definition parseModelsList :: "jstring \<Rightarrow> jstring list" where
  "parseModelsList models = (if models = [] then [] else split_trim 44 models)"

text \<open>
  \<open>list.sort(compare)\<close>, a stable sort; \<open>lt a b\<close> says that the comparison of \<open>a\<close> with \<open>b\<close> is negative.
  The order of other names is that of \<open>localeCompare\<close>, a parameter.
\<close>

fun insert_by :: "('a \<Rightarrow> 'a \<Rightarrow> bool) \<Rightarrow> 'a \<Rightarrow> 'a list \<Rightarrow> 'a list" where
  "insert_by lt x [] = [x]"
| "insert_by lt x (y # ys) = (if lt y x then y # insert_by lt x ys else x # y # ys)"

definition sort_by :: "('a \<Rightarrow> 'a \<Rightarrow> bool) \<Rightarrow> 'a list \<Rightarrow> 'a list" where
  "sort_by lt xs = foldr (insert_by lt) xs []"

definition group_less :: "(jstring \<Rightarrow> jstring \<Rightarrow> bool) \<Rightarrow> jstring \<Rightarrow> jstring \<Rightarrow> bool" where
  "group_less localeLess a b =
     (if a = js ''default'' then True else if b = js ''default'' then False else localeLess a b)"

definition parseGroupsList :: "(jstring \<Rightarrow> jstring \<Rightarrow> bool) \<Rightarrow> jstring \<Rightarrow> jstring list" where
  "parseGroupsList localeLess groups =
     (if groups = [] then [] else sort_by (group_less localeLess) (split_trim 44 groups))"

definition formatModelsString :: "jstring list \<Rightarrow> jstring" where
  "formatModelsString models = join_with (js '','') models"

definition formatGroupsString :: "jstring list \<Rightarrow> jstring" where
  "formatGroupsString groups = join_with (js '','') groups"

definition parseChannelSettings :: "jstring nullish \<Rightarrow> json" where
  "parseChannelSettings settingStr =
     (case settingStr of
        Val s \<Rightarrow> if s = [] then JObj [] else (case JSON_parse s of Some v \<Rightarrow> v | None \<Rightarrow> JObj [])
      | _ \<Rightarrow> JObj [])"

definition parseChannelOtherSettings :: "jstring nullish \<Rightarrow> json" where
  "parseChannelOtherSettings settingsStr =
     (case settingsStr of
        Val s \<Rightarrow> if s = [] \<or> s = js ''{}'' then JObj [] else (case JSON_parse s of Some v \<Rightarrow> v | None \<Rightarrow> JObj [])
      | _ \<Rightarrow> JObj [])"

definition validateChannelSettings :: "jstring \<Rightarrow> bool" where
  "validateChannelSettings settings \<longleftrightarrow> settings = [] \<or> trim settings = [] \<or> JSON_parse settings \<noteq> None"

section \<open>Checks of a channel\<close>

datatype balance_variant = Success | Warning | Danger | Neutral

definition getBalanceVariant :: "jnum \<Rightarrow> balance_variant" where
  "getBalanceVariant balance =
     (if num_eq balance (Fin 0) then Neutral
      else if num_less balance (Fin 1) then Danger
      else if num_less balance (Fin 10) then Warning
      else Success)"

datatype response_rating = EXCELLENT | GOOD | FAIR | POOR | UNKNOWN

definition RESPONSE_TIME_THRESHOLDS :: "response_rating \<Rightarrow> jnum" where
  "RESPONSE_TIME_THRESHOLDS r =
     (case r of EXCELLENT \<Rightarrow> Fin 500 | GOOD \<Rightarrow> Fin 1000 | FAIR \<Rightarrow> Fin 2000 | POOR \<Rightarrow> Fin 5000 | UNKNOWN \<Rightarrow> NaN)"

definition getResponseTimeConfig :: "jnum \<Rightarrow> response_rating" where
  "getResponseTimeConfig timeMs =
     (if num_eq timeMs (Fin 0) then UNKNOWN
      else if num_le timeMs (RESPONSE_TIME_THRESHOLDS EXCELLENT) then EXCELLENT
      else if num_le timeMs (RESPONSE_TIME_THRESHOLDS GOOD) then GOOD
      else if num_le timeMs (RESPONSE_TIME_THRESHOLDS FAIR) then FAIR
      else if num_le timeMs (RESPONSE_TIME_THRESHOLDS POOR) then POOR
      else POOR)"

definition getPriorityDisplay :: "jnum nullish \<Rightarrow> jstring" where
  "getPriorityDisplay priority = (case priority of Val p \<Rightarrow> num_to_str p | _ \<Rightarrow> js ''0'')"

definition getWeightDisplay :: "jnum nullish \<Rightarrow> jstring" where
  "getWeightDisplay weight = (case weight of Val w \<Rightarrow> num_to_str w | _ \<Rightarrow> js ''0'')"

definition validateChannelName :: "jstring \<Rightarrow> bool" where
  "validateChannelName name \<longleftrightarrow> length (trim name) > 0"

definition validateApiKey :: "jstring \<Rightarrow> bool" where
  "validateApiKey key \<longleftrightarrow> length (trim key) > 0"

definition validateModels :: "jstring \<Rightarrow> bool" where
  "validateModels models \<longleftrightarrow> length (parseModelsList models) > 0"

definition validateGroups :: "(jstring \<Rightarrow> jstring \<Rightarrow> bool) \<Rightarrow> jstring \<Rightarrow> bool" where
  "validateGroups localeLess groups \<longleftrightarrow> length (parseGroupsList localeLess groups) > 0"

text \<open>The test of a multi-key channel whose keys are all disabled.\<close>

definition all_keys_disabled :: "Channel \<Rightarrow> bool" where
  "all_keys_disabled c \<longleftrightarrow>
     (case ch_info c of
        None \<Rightarrow> False
      | Some i \<Rightarrow> is_multi_key i \<and>
          (case multi_key_status_list i of None \<Rightarrow> False | Some l \<Rightarrow> num_le (multi_key_size i) (num_of_nat (length l))))"

definition channelNeedsAttention :: "Channel \<Rightarrow> bool" where
  "channelNeedsAttention c \<longleftrightarrow>
     num_eq (ch_status c) (Fin 3) \<or> num_less (Fin 0) (ch_balance c) \<and> num_less (ch_balance c) (Fin 1) \<or> all_keys_disabled c"

definition getAttentionReason :: "Channel \<Rightarrow> jstring option" where
  "getAttentionReason c =
     (if num_eq (ch_status c) (Fin 3) then Some (js ''Auto-disabled'')
      else if num_less (Fin 0) (ch_balance c) \<and> num_less (ch_balance c) (Fin 1) then Some (js ''Low balance'')
      else if all_keys_disabled c then Some (js ''All keys disabled'')
      else None)"

section \<open>Channels by tag\<close>

text \<open>A row for a tag. \<open>tr_spread\<close> is the channel whose other properties the row copies.\<close>

record TagRow =
  tr_spread :: Channel
  tr_key :: jstring
  tr_id :: jstring
  tr_tag :: jstring
  tr_name :: jstring
  tr_type :: jnum
  tr_status :: "jnum option"
  tr_group :: jstring
  tr_used_quota :: jnum
  tr_response_time :: jnum
  tr_priority :: "jnum nullish"
  tr_weight :: "jnum nullish"
  tr_balance :: jnum
  tr_models :: jstring
  tr_children :: "Channel list"

definition new_tag_row :: "jstring \<Rightarrow> Channel \<Rightarrow> TagRow" where
  "new_tag_row tag c =
     \<lparr>tr_spread = c, tr_key = tag, tr_id = tag, tr_tag = tag, tr_name = tag, tr_type = Fin 0, tr_status = None, tr_group = [],
      tr_used_quota = Fin 0, tr_response_time = Fin 0, tr_priority = Val (Fin (- 1)), tr_weight = Val (Fin (- 1)),
      tr_balance = Fin 0, tr_models = [], tr_children = []\<rparr>"

text \<open>\<open>===\<close> on values that may be missing\<close>

fun nullish_eq :: "jnum nullish \<Rightarrow> jnum nullish \<Rightarrow> bool" where
  "nullish_eq (Val x) (Val y) = num_eq x y"
| "nullish_eq Null Null = True"
| "nullish_eq Undefined Undefined = True"
| "nullish_eq _ _ = False"

definition same_or_null :: "jnum nullish \<Rightarrow> jnum nullish \<Rightarrow> jnum nullish" where
  "same_or_null old v = (if nullish_eq old (Val (Fin (- 1))) then v else if \<not> nullish_eq old v then Null else old)"

definition running_average :: "jnum \<Rightarrow> nat \<Rightarrow> jnum \<Rightarrow> jnum" where
  "running_average old childCount t = num_div (num_add (num_mul old (num_of_nat (childCount - 1))) t) (num_of_nat childCount)"

text \<open>The set of the groups of the row is built once, before the groups of the channel are added.\<close>

definition merge_groups :: "jstring \<Rightarrow> jstring \<Rightarrow> jstring" where
  "merge_groups old g =
     (if old = [] then g
      else let existingGroups = set (filter_truthy (split_on 44 old)) in
        foldl (\<lambda>acc n. if n \<in> existingGroups then acc else acc @ js '','' @ n) old (filter_truthy (split_on 44 g)))"

definition merge_status :: "jnum option \<Rightarrow> jnum \<Rightarrow> jnum option" where
  "merge_status old v = (if num_eq v (Fin 1) then Some (Fin 1) else if old = None then Some v else old)"

definition add_child :: "TagRow \<Rightarrow> Channel \<Rightarrow> TagRow" where
  "add_child row c =
     (let children = tr_children row @ [c]; childCount = length children in
      row\<lparr>tr_children := children,
          tr_used_quota := num_add (tr_used_quota row) (ch_used_quota c),
          tr_response_time := running_average (tr_response_time row) childCount (ch_response_time c),
          tr_priority := same_or_null (tr_priority row) (ch_priority c),
          tr_weight := same_or_null (tr_weight row) (ch_weight c),
          tr_group := merge_groups (tr_group row) (ch_group c),
          tr_status := merge_status (tr_status row) (ch_status c)\<rparr>)"

definition tag_of :: "Channel \<Rightarrow> jstring" where
  "tag_of c = (case ch_tag c of Val t \<Rightarrow> t | _ \<Rightarrow> [])"

text \<open>The rows of \<open>tagMap\<close> are those of \<open>result\<close>, found by their tag.\<close>

definition aggregate_step :: "TagRow list \<Rightarrow> Channel \<Rightarrow> TagRow list" where
  "aggregate_step rows c =
     (let tag = tag_of c;
          rows1 = (if tag \<in> tr_tag ` set rows then rows else rows @ [new_tag_row tag c]) in
      map (\<lambda>row. if tr_tag row = tag then add_child row c else row) rows1)"

definition aggregateChannelsByTag :: "Channel list \<Rightarrow> TagRow list" where
  "aggregateChannelsByTag channels = foldl aggregate_step [] channels"

section \<open>Duplicate keys\<close>

record DeduplicatedKeys =
  deduplicatedText :: jstring
  beforeCount :: nat
  afterCount :: nat
  removedCount :: nat

definition dedup_step :: "jstring list \<Rightarrow> jstring \<Rightarrow> jstring list" where
  "dedup_step keys line = (let trimmedLine = trim line in if trimmedLine \<noteq> [] \<and> trimmedLine \<notin> set keys then keys @ [trimmedLine] else keys)"

definition deduplicateKeys :: "jstring \<Rightarrow> DeduplicatedKeys" where
  "deduplicateKeys keysText =
     (if keysText = [] \<or> trim keysText = [] then \<lparr>deduplicatedText = [], beforeCount = 0, afterCount = 0, removedCount = 0\<rparr>
      else let keyLines = split_on 10 keysText; keys = foldl dedup_step [] keyLines in
        \<lparr>deduplicatedText = join_with [10] keys, beforeCount = length keyLines, afterCount = length keys,
         removedCount = length keyLines - length keys\<rparr>)"
section \<open>The rows show the channels of each tag\<close>

lemma uniq_snoc: "uniq (xs @ [x]) = (if x \<in> set xs then uniq xs else uniq xs @ [x])"
  by (induction xs) auto

lemma new_row_tag [simp]: "tr_tag (new_tag_row t c) = t"
  by (simp add: new_tag_row_def)

lemma add_child_tag [simp]: "tr_tag (add_child row c) = tr_tag row"
  by (simp add: add_child_def Let_def)

lemma add_children_tag [simp]: "tr_tag (foldl add_child row cs) = tr_tag row"
  by (induction cs arbitrary: row) simp_all

definition tagged :: "jstring \<Rightarrow> Channel list \<Rightarrow> Channel list" where
  "tagged t cs = filter (\<lambda>c. tag_of c = t) cs"

lemma tagged_ne: "t \<in> tag_of ` set cs \<longleftrightarrow> tagged t cs \<noteq> []"
  by (auto simp: tagged_def filter_empty_conv)

lemma aggregate_rows:
  "aggregateChannelsByTag cs =
     map (\<lambda>t. foldl add_child (new_tag_row t (hd (tagged t cs))) (tagged t cs)) (uniq (map tag_of cs))"
proof (induction cs rule: rev_induct)
  case Nil
  then show ?case by (simp add: aggregateChannelsByTag_def)
next
  case (snoc c cs)
  let ?row = "\<lambda>cs t. foldl add_child (new_tag_row t (hd (tagged t cs))) (tagged t cs)" and ?t = "tag_of c"
  have tag: "tr_tag (?row cs t) = t" for cs t by simp
  have other: "t \<noteq> ?t \<Longrightarrow> ?row (cs @ [c]) t = ?row cs t" for t by (simp add: tagged_def)
  have same: "tagged ?t cs \<noteq> [] \<Longrightarrow> ?row (cs @ [c]) ?t = add_child (?row cs ?t) c" by (simp add: tagged_def)
  have fresh: "tagged ?t cs = [] \<Longrightarrow> ?row (cs @ [c]) ?t = add_child (new_tag_row ?t c) c" by (simp add: tagged_def)
  have rows: "aggregateChannelsByTag (cs @ [c]) = aggregate_step (map (?row cs) (uniq (map tag_of cs))) c"
    using snoc by (simp add: aggregateChannelsByTag_def)
  have tags: "tr_tag ` set (map (?row cs) (uniq (map tag_of cs))) = tag_of ` set cs" by (auto simp: image_iff)
  show ?case
  proof (cases "?t \<in> tag_of ` set cs")
    case True
    then show ?thesis unfolding rows aggregate_step_def Let_def tags
      using other same tagged_ne [of ?t cs] by (simp add: tag uniq_snoc)
  next
    case False
    then have "?t \<notin> set (uniq (map tag_of cs))" by simp
    then have "\<forall>t \<in> set (uniq (map tag_of cs)). t \<noteq> ?t" by blast
    then show ?thesis unfolding rows aggregate_step_def Let_def tags
      using False other fresh tagged_ne [of ?t cs] by (simp add: tag uniq_snoc)
  qed
qed

text \<open>The common value of the children, or null.\<close>

definition common :: "jnum nullish list \<Rightarrow> jnum nullish" where
  "common vs = (if list_all (\<lambda>v. v = hd vs) vs then hd vs else Null)"

definition plain_value :: "jnum nullish \<Rightarrow> bool" where
  "plain_value v \<longleftrightarrow> v \<noteq> Val (Fin (- 1)) \<and> v \<noteq> Val NaN"

lemma nullish_eq_plain: "plain_value v \<Longrightarrow> nullish_eq v w \<longleftrightarrow> v = w"
  by (cases v; cases w) (auto simp: plain_value_def num_eq_def)

lemma nullish_unset: "nullish_eq v (Val (Fin (- 1))) \<longleftrightarrow> v = Val (Fin (- 1))"
  by (cases v) (auto simp: num_eq_def)

lemma same_or_null_plain: "plain_value v \<Longrightarrow> same_or_null v w = (if v = w then v else Null)"
  using nullish_eq_plain [of v w] nullish_unset [of v] by (simp add: same_or_null_def plain_value_def)

lemma same_or_null_fold: "plain_value v \<Longrightarrow> foldl same_or_null v ws = (if list_all (\<lambda>w. w = v) ws then v else Null)"
proof (induction ws arbitrary: v)
  case (Cons w ws)
  have "foldl same_or_null Null ws = Null" using Cons.IH [of Null] by (simp add: plain_value_def split: if_splits)
  then show ?case using Cons.IH [OF Cons.prems] Cons.prems by (cases "v = w") (simp_all add: same_or_null_plain)
qed simp

lemma common_fold: "list_all plain_value vs \<Longrightarrow> vs \<noteq> [] \<Longrightarrow> foldl same_or_null (Val (Fin (- 1))) vs = common vs"
proof (cases vs)
  case (Cons v ws)
  assume "list_all plain_value vs"
  moreover have "same_or_null (Val (Fin (- 1))) v = v" by (simp add: same_or_null_def num_eq_def)
  ultimately show ?thesis using Cons by (simp add: same_or_null_fold common_def)
qed simp

lemma status_fold:
  "foldl merge_status (Some a) vs = (if list_ex (\<lambda>v. num_eq v (Fin 1)) vs then Some (Fin 1) else Some a)"
proof (induction vs arbitrary: a)
  case (Cons v vs)
  have "foldl merge_status (Some (Fin 1)) vs = Some (Fin 1)" using Cons [of "Fin 1"] by simp
  then show ?case using Cons by (simp add: merge_status_def)
qed simp

text \<open>What a row shows of the channels of its tag.\<close>

definition tag_summary :: "Channel list \<Rightarrow> jstring \<Rightarrow> TagRow" where
  "tag_summary cs t =
     (let ks = tagged t cs in
      (new_tag_row t (hd ks))
        \<lparr>tr_children := ks,
         tr_used_quota := foldl num_add (Fin 0) (map ch_used_quota ks),
         tr_response_time := snd (foldl (\<lambda>(n, avg) x. (Suc n, running_average avg (Suc n) x)) (0, Fin 0) (map ch_response_time ks)),
         tr_priority := common (map ch_priority ks),
         tr_weight := common (map ch_weight ks),
         tr_group := foldl merge_groups [] (map ch_group ks),
         tr_status := Some (if list_ex isChannelEnabled ks then Fin 1 else ch_status (hd ks))\<rparr>)"

lemma children_fields:
  "foldl add_child row ks =
     row\<lparr>tr_children := tr_children row @ ks,
         tr_used_quota := foldl num_add (tr_used_quota row) (map ch_used_quota ks),
         tr_response_time := snd (foldl (\<lambda>(n, avg) x. (Suc n, running_average avg (Suc n) x))
           (length (tr_children row), tr_response_time row) (map ch_response_time ks)),
         tr_priority := foldl same_or_null (tr_priority row) (map ch_priority ks),
         tr_weight := foldl same_or_null (tr_weight row) (map ch_weight ks),
         tr_group := foldl merge_groups (tr_group row) (map ch_group ks),
         tr_status := foldl merge_status (tr_status row) (map ch_status ks)\<rparr>"
  by (induction ks arbitrary: row) (simp_all add: add_child_def Let_def)

lemma row_summary:
  assumes "tagged t cs \<noteq> []" "list_all (\<lambda>c. plain_value (ch_priority c) \<and> plain_value (ch_weight c)) cs"
  shows "foldl add_child (new_tag_row t (hd (tagged t cs))) (tagged t cs) = tag_summary cs t"
proof -
  let ?ks = "tagged t cs"
  have "list_all plain_value (map ch_priority ?ks)" "list_all plain_value (map ch_weight ?ks)"
    using assms(2) by (auto simp: list_all_iff tagged_def)
  then have "foldl same_or_null (Val (Fin (- 1))) (map ch_priority ?ks) = common (map ch_priority ?ks)"
    "foldl same_or_null (Val (Fin (- 1))) (map ch_weight ?ks) = common (map ch_weight ?ks)"
    using common_fold assms(1) by simp_all
  moreover have "foldl merge_status None (map ch_status ?ks) = Some (if list_ex isChannelEnabled ?ks then Fin 1 else ch_status (hd ?ks))"
  proof (cases ?ks)
    case (Cons k ks)
    have "merge_status None (ch_status k) = Some (ch_status k)" by (auto simp: merge_status_def num_eq_def)
    moreover have "list_ex (\<lambda>v. num_eq v (Fin 1)) (map ch_status ks) = list_ex isChannelEnabled ks"
      by (simp add: list_ex_iff isChannelEnabled_def)
    ultimately show ?thesis using Cons by (simp add: status_fold) (simp add: isChannelEnabled_def num_eq_def)
  qed (use assms in simp)
  ultimately show ?thesis by (simp add: children_fields tag_summary_def Let_def new_tag_row_def)
qed

lemma split_on_comma: "split_on 44 (s @ 44 # t) = split_on 44 s @ split_on 44 t"
  by (induction s) (auto split: list.splits)

definition group_names :: "jstring \<Rightarrow> jstring set" where
  "group_names g = set (filter_truthy (split_on 44 g))"

lemma added_names:
  "\<forall>n \<in> set ns. n \<noteq> [] \<and> 44 \<notin> set n \<Longrightarrow>
   group_names (foldl (\<lambda>acc n. if n \<in> known then acc else acc @ js '','' @ n) acc ns) = group_names acc \<union> (set ns - known)"
proof (induction ns arbitrary: acc)
  case (Cons n ns)
  have "split_on 44 (acc @ js '','' @ n) = split_on 44 acc @ [n]"
    using Cons.prems by (simp add: js_def split_on_comma split_on_notin)
  then have "group_names (acc @ js '','' @ n) = insert n (group_names acc)" using Cons.prems by (auto simp: group_names_def)
  then show ?case using Cons by auto
qed simp

lemma merge_group_names: "group_names (merge_groups old g) = group_names old \<union> group_names g"
proof -
  have "\<forall>n \<in> set (filter_truthy (split_on 44 g)). n \<noteq> [] \<and> 44 \<notin> set n" using split_on_parts by auto
  then have "group_names (merge_groups old g) = group_names old \<union> (group_names g - group_names old)" if "old \<noteq> []"
    using that added_names [of "filter_truthy (split_on 44 g)" "group_names old" old]
    by (simp only: merge_groups_def Let_def if_False group_names_def)
  then show ?thesis by (cases "old = []") (auto simp: merge_groups_def group_names_def)
qed

lemma summary_groups: "group_names (tr_group (tag_summary cs t)) = \<Union> (group_names ` ch_group ` set (tagged t cs))"
proof -
  have "group_names (foldl merge_groups acc gs) = group_names acc \<union> \<Union> (group_names ` set gs)" for acc gs
    by (induction gs arbitrary: acc) (auto simp: merge_group_names)
  then show ?thesis by (simp add: tag_summary_def Let_def group_names_def)
qed
text \<open>
  C24. The table of tags is the table of channels grouped by tag: there is one row per tag, in the order in
  which the tags first occur, and each row holds the channels of its tag in their order, the sum of their
  used quota, the running average of their response times, their common priority and weight or null, the
  status enabled if one of them is enabled and the status of the first otherwise, and exactly the groups of
  these channels. A channel whose priority or weight is the number -1, which stands for a value not set
  yet, is excluded.
\<close>

theorem tag_rows_refine_grouping:
  assumes "list_all (\<lambda>c. plain_value (ch_priority c) \<and> plain_value (ch_weight c)) cs"
  shows "aggregateChannelsByTag cs = map (tag_summary cs) (uniq (map tag_of cs)) \<and>
    (\<forall>t. group_names (tr_group (tag_summary cs t)) = \<Union> (group_names ` ch_group ` set (tagged t cs)))"
proof -
  have "t \<in> tag_of ` set cs \<Longrightarrow> foldl add_child (new_tag_row t (hd (tagged t cs))) (tagged t cs) = tag_summary cs t" for t
    using row_summary [OF _ assms] tagged_ne by blast
  then show ?thesis using summary_groups by (simp add: aggregate_rows)
qed

definition sample_channel :: "string \<Rightarrow> string \<Rightarrow> rat \<Rightarrow> rat \<Rightarrow> Channel" where
  "sample_channel tag g status priority =
     \<lparr>ch_id = Fin 1, ch_type = Fin 1, ch_key = [], ch_status = Fin status, ch_name = js ''c'', ch_weight = Null,
      ch_response_time = Fin 0, ch_balance = Fin 0, ch_models = [], ch_group = js g, ch_used_quota = Fin 0,
      ch_priority = Val (Fin priority), ch_tag = Val (js tag), ch_info = None, ch_openai_organization = Null,
      ch_test_model = Null, ch_base_url = Null, ch_other = [], ch_model_mapping = Null, ch_status_code_mapping = Null,
      ch_auto_ban = Null, ch_setting = Null, ch_param_override = Null, ch_header_override = Null, ch_remark = [], ch_settings = js ''{}''\<rparr>"

theorem tag_rows_refine_grouping_witness:
  "\<exists>cs. list_all (\<lambda>c. plain_value (ch_priority c) \<and> plain_value (ch_weight c)) cs \<and>
     map tr_tag (aggregateChannelsByTag cs) = [js ''a'', js ''b''] \<and>
     map tr_status (aggregateChannelsByTag cs) = [Some (Fin 1), Some (Fin 2)] \<and>
     map tr_priority (aggregateChannelsByTag cs) = [Null, Val (Fin 3)]"
proof -
  let ?cs = "[sample_channel ''a'' ''x'' 2 0, sample_channel ''b'' ''y'' 2 3, sample_channel ''a'' ''x,z'' 1 5]"
  have ok: "list_all (\<lambda>c. plain_value (ch_priority c) \<and> plain_value (ch_weight c)) ?cs"
    by (simp add: sample_channel_def plain_value_def)
  show ?thesis using tag_rows_refine_grouping [OF ok] ok
    by (intro exI [of _ ?cs]) (simp add: tag_summary_def Let_def tagged_def new_tag_row_def common_def isChannelEnabled_def
      num_eq_def sample_channel_def tag_of_def)
qed

text \<open>With a priority of -1 the row depends on the order of the channels, and repeated groups of one channel stay repeated.\<close>

lemma unset_priority_order:
  "tr_priority (foldl add_child (new_tag_row t c) [sample_channel ''a'' ''x'' 1 (- 1), sample_channel ''a'' ''x'' 1 5]) = Val (Fin 5)"
  "tr_priority (foldl add_child (new_tag_row t c) [sample_channel ''a'' ''x'' 1 5, sample_channel ''a'' ''x'' 1 (- 1)]) = Null"
  by (simp_all add: add_child_def Let_def new_tag_row_def sample_channel_def same_or_null_def num_eq_def)

lemma repeated_groups: "merge_groups (js ''a'') (js ''b,b'') = js ''a,b,b''"
  by code_simp

section \<open>Duplicate keys are removed\<close>

lemma dedup_fold:
  "distinct ks \<Longrightarrow> foldl dedup_step ks ls = ks @ filter (\<lambda>k. k \<notin> set ks) (uniq (filter_truthy (map trim ls)))"
proof (induction ls arbitrary: ks)
  case (Cons l ls)
  show ?case
  proof (cases "trim l = [] \<or> trim l \<in> set ks")
    case True
    then have "dedup_step ks l = ks" by (auto simp: dedup_step_def Let_def)
    then show ?thesis using True Cons by (auto simp: filter_truthy_Cons intro!: filter_cong)
  next
    case False
    then have "dedup_step ks l = ks @ [trim l]" "distinct (ks @ [trim l])" using Cons.prems by (simp_all add: dedup_step_def Let_def)
    then show ?thesis using False Cons.IH [of "ks @ [trim l]"]
      by (auto simp: filter_truthy_Cons intro!: filter_cong)
  qed
qed simp

lemma dedup_lines: "foldl dedup_step [] (split_on 10 s) = uniq (split_trim 10 s)"
  using dedup_fold [of "[]" "split_on 10 s"] by (simp add: split_trim_def)

lemma uniq_clean: "clean_items c xs \<Longrightarrow> clean_items c (uniq xs)"
  by (simp add: clean_items_def)

lemma countKeys_trim: "countKeys s = length (split_trim 10 s)"
  by (simp add: countKeys_def split_trim_def filter_truthy_def filter_map comp_def)

lemma blank_no_lines: "trim s = [] \<Longrightarrow> split_trim 10 s = []"
proof -
  assume "trim s = []"
  then have ws: "\<forall>c \<in> set s. is_ws c" by (simp add: trim_eq_Nil)
  have "set l \<subseteq> set s" if "l \<in> set (split_on 10 s)" for l
    using that by (induction s arbitrary: l) (fastforce split: list.splits if_splits)+
  then have "\<forall>l \<in> set (split_on 10 s). trim l = []" using ws by (auto simp: trim_eq_Nil)
  then show ?thesis by (auto simp: split_trim_def filter_truthy_def filter_empty_conv)
qed

lemma dedup_text: "deduplicatedText (deduplicateKeys s) = join_with [10] (uniq (split_trim 10 s))"
  "afterCount (deduplicateKeys s) = length (uniq (split_trim 10 s))"
  using blank_no_lines [of s] by (auto simp: deduplicateKeys_def Let_def dedup_lines)

text \<open>
  Removing duplicate keys keeps the first of each group of equal keys, in order: the lines of the
  result are the distinct trimmed lines of the input that are not blank; the count after is the number of
  keys in the result, and with the removed ones it makes the count before; removing duplicates again gives
  the same text and removes nothing.
\<close>

theorem keys_deduplicated:
  "split_trim 10 (deduplicatedText (deduplicateKeys s)) = uniq (split_trim 10 s) \<and>
   countKeys (deduplicatedText (deduplicateKeys s)) = afterCount (deduplicateKeys s) \<and>
   afterCount (deduplicateKeys s) + removedCount (deduplicateKeys s) = beforeCount (deduplicateKeys s) \<and>
   deduplicatedText (deduplicateKeys (deduplicatedText (deduplicateKeys s))) = deduplicatedText (deduplicateKeys s) \<and>
   removedCount (deduplicateKeys (deduplicatedText (deduplicateKeys s))) = 0"
proof -
  let ?ks = "uniq (split_trim 10 s)" and ?t = "deduplicatedText (deduplicateKeys s)"
  have clean: "clean_items 10 ?ks" by (rule uniq_clean [OF split_trim_clean])
  have lines: "split_trim 10 ?t = ?ks" using split_trim_join [OF clean] by (simp add: dedup_text)
  have "length ?ks \<le> length (split_on 10 s)"
    using length_uniq_le [of "split_trim 10 s"] by (simp add: split_trim_def filter_truthy_def) (meson le_trans length_filter_le length_map order_trans)
  then have counts: "afterCount (deduplicateKeys s) + removedCount (deduplicateKeys s) = beforeCount (deduplicateKeys s)"
    by (simp add: deduplicateKeys_def Let_def dedup_lines)
  have "removedCount (deduplicateKeys ?t) = 0"
  proof (cases "?ks = []")
    case False
    then have "split_on 10 ?t = ?ks" using clean by (simp add: dedup_text split_join clean_items_def)
    moreover have "foldl dedup_step [] (split_on 10 ?t) = ?ks" using dedup_lines [of ?t] lines by simp
    ultimately show ?thesis by (simp add: deduplicateKeys_def [of ?t] Let_def)
  qed (simp add: dedup_text deduplicateKeys_def [of "[]"])
  then show ?thesis using lines counts by (simp add: dedup_text countKeys_trim)
qed

section \<open>A channel that needs attention has a reason\<close>

lemma attention_has_reason: "channelNeedsAttention c \<longleftrightarrow> getAttentionReason c \<noteq> None"
  by (simp add: channelNeedsAttention_def getAttentionReason_def)

section \<open>Keys are masked\<close>

text \<open>
  The display of a single key of more than sixteen characters depends on nothing but its first and
  last eight characters, and that of a key of nine to sixteen characters on nothing but its first and last
  four: keys that agree there are shown alike.
\<close>

theorem key_middle_hidden:
  assumes "length a = n" "length b = n" "n = 4 \<and> length (a @ m @ b) \<le> 16 \<or> n = 8 \<and> 16 < length (a @ m @ b)" "length m' = length m"
  shows "formatChannelKey (a @ m @ b) False = a @ js ''...'' @ b \<and>
    formatChannelKey (a @ m' @ b) False = formatChannelKey (a @ m @ b) False"
proof -
  have "slice_to n (a @ k @ b) = a" "slice_last n (a @ k @ b) = b" for k
    using assms(1,2) by (simp_all add: slice_to_def slice_last_def)
  moreover have "a \<noteq> []" using assms(1,3) by auto
  ultimately show ?thesis using assms(3,4) assms(1,2) by (elim disjE) (simp_all add: formatChannelKey_def)
qed

theorem key_middle_hidden_witness:
  "formatChannelKey (js ''sk-12345'' @ js ''secret'' @ js ''90abcdef'') False = js ''sk-12345...90abcdef''"
proof -
  have "length (js ''sk-12345'') = 8" "length (js ''90abcdef'') = 8" "length (js ''secret'') = 6" by (simp_all add: js_def)
  then show ?thesis using key_middle_hidden [of "js ''sk-12345''" 8 "js ''90abcdef''" "js ''secret''" "js ''secret''"] by (simp add: js_def)
qed

text \<open>A key of at most eight characters is shown whole.\<close>

lemma short_key_shown: "formatChannelKey (js ''password'') False = js ''pass...word''"
  by code_simp

end
