(* ===== verification/Channel_Form.thy ===== *)
theory Channel_Form
  imports Channel_Utils
begin

text \<open>
  The channel form, \<open>src/web/default/src/features/channels/lib/channel-form.ts\<close>: its default values, the
  form for a channel, and the payloads that create or update a channel. The two settings columns of a
  channel are JSON texts. What the form reads from them may be any JSON value, so these fields hold JSON
  values; a flag that the code compares with \<open>true\<close> is a bool. \<open>None\<close> as a result is an exception.
\<close>

section \<open>The form\<close>

record ChannelFormValues =
  f_name :: jstring
  f_type :: jnum
  f_base_url :: "jstring option"
  f_key :: jstring
  f_openai_organization :: "jstring option"
  f_models :: jstring
  f_group :: "jstring list"
  f_model_mapping :: "jstring option"
  f_priority :: "jnum option"
  f_weight :: "jnum option"
  f_test_model :: "jstring option"
  f_auto_ban :: "jnum option"
  f_status :: jnum
  f_status_code_mapping :: "jstring option"
  f_tag :: "jstring option"
  f_remark :: "jstring option"
  f_setting :: "jstring option"
  f_param_override :: "jstring option"
  f_header_override :: "jstring option"
  f_settings :: "jstring option"
  f_other :: "jstring option"
  f_multi_key_mode :: "jstring option"
  f_multi_key_type :: "jstring option"
  f_batch_prefix :: "bool option"
  f_key_mode :: "jstring option"
  f_force_format :: "json option"
  f_thinking_to_content :: "json option"
  f_proxy :: "json option"
  f_pass_through_body_enabled :: "json option"
  f_system_prompt :: "json option"
  f_system_prompt_override :: "json option"
  f_is_enterprise_account :: bool
  f_vertex_key_type :: "json option"
  f_aws_key_type :: "json option"
  f_azure_responses_version :: "json option"
  f_allow_service_tier :: bool
  f_disable_store :: bool
  f_allow_safety_identifier :: bool
  f_allow_include_obfuscation :: bool
  f_allow_inference_geo :: bool
  f_allow_speed :: bool
  f_claude_beta_query :: bool
  f_check_enabled :: bool
  f_auto_sync_enabled :: bool
  f_ignored_models :: "jstring option"

definition CHANNEL_FORM_DEFAULT_VALUES :: ChannelFormValues where
  "CHANNEL_FORM_DEFAULT_VALUES =
     \<lparr>f_name = [], f_type = Fin 1, f_base_url = Some [], f_key = [], f_openai_organization = Some [], f_models = [],
      f_group = [js ''default''], f_model_mapping = Some [], f_priority = Some (Fin 0), f_weight = Some (Fin 0),
      f_test_model = Some [], f_auto_ban = Some (Fin 1), f_status = Fin 1, f_status_code_mapping = Some [], f_tag = Some [],
      f_remark = Some [], f_setting = Some [], f_param_override = Some [], f_header_override = Some [],
      f_settings = Some (js ''{}''), f_other = Some [], f_multi_key_mode = Some (js ''single''),
      f_multi_key_type = Some (js ''random''), f_batch_prefix = Some False, f_key_mode = Some (js ''append''),
      f_force_format = Some (JBool False), f_thinking_to_content = Some (JBool False), f_proxy = Some (JStr []),
      f_pass_through_body_enabled = Some (JBool False), f_system_prompt = Some (JStr []),
      f_system_prompt_override = Some (JBool False), f_is_enterprise_account = False,
      f_vertex_key_type = Some (JStr (js ''json'')), f_aws_key_type = Some (JStr (js ''ak_sk'')),
      f_azure_responses_version = Some (JStr []), f_allow_service_tier = False, f_disable_store = False,
      f_allow_safety_identifier = False, f_allow_include_obfuscation = False, f_allow_inference_geo = False,
      f_allow_speed = False, f_claude_beta_query = False, f_check_enabled = False, f_auto_sync_enabled = False,
      f_ignored_models = Some []\<rparr>"

section \<open>Lists and validation\<close>

definition parseModels :: "jstring \<Rightarrow> jstring list" where
  "parseModels models = (if models = [] then [] else split_trim 44 models)"

definition parseGroups :: "jstring \<Rightarrow> jstring list" where
  "parseGroups groups = (if groups = [] then [] else split_trim 44 groups)"

definition formatModels :: "jstring list \<Rightarrow> jstring" where
  "formatModels models = join_with [44] models"

definition formatGroups :: "jstring list \<Rightarrow> jstring" where
  "formatGroups groups = join_with [44] groups"

definition validateJSON :: "jstring \<Rightarrow> bool" where
  "validateJSON v \<longleftrightarrow> v = [] \<or> trim v = [] \<or> JSON_parse v \<noteq> None"

definition validateModelMapping :: "jstring \<Rightarrow> bool" where
  "validateModelMapping v \<longleftrightarrow> v = [] \<or> trim v = [] \<or> validateJSON v"

section \<open>The form of a channel\<close>

text \<open>\<open>v || d\<close> for a JSON value, for a text and for a text of a channel\<close>

definition json_or :: "json option \<Rightarrow> json \<Rightarrow> json" where
  "json_or v d = (case v of Some w \<Rightarrow> if json_truthy w then w else d | None \<Rightarrow> d)"

definition str_or :: "jstring option \<Rightarrow> jstring \<Rightarrow> jstring" where
  "str_or v d = (case v of Some s \<Rightarrow> if s = [] then d else s | None \<Rightarrow> d)"

definition text_of :: "jstring nullish \<Rightarrow> jstring" where
  "text_of v = (case v of Val s \<Rightarrow> s | _ \<Rightarrow> [])"

text \<open>\<open>parsed.k\<close> of a value that is not null\<close>

definition prop_of :: "json \<Rightarrow> jstring \<Rightarrow> json option" where
  "prop_of v k = (case v of JObj kvs \<Rightarrow> obj_get k kvs | _ \<Rightarrow> None)"

definition is_true :: "json option \<Rightarrow> bool" where
  "is_true v \<longleftrightarrow> v = Some (JBool True)"

text \<open>The value of a settings column, when reading its properties does not throw.\<close>

definition read_column :: "jstring \<Rightarrow> json option" where
  "read_column s =
     (if s = [] then None else case JSON_parse s of None \<Rightarrow> None | Some v \<Rightarrow> if v = JNull then None else Some v)"

definition extra_settings :: "jstring \<Rightarrow> ChannelFormValues \<Rightarrow> ChannelFormValues" where
  "extra_settings setting form =
     (case read_column setting of
        None \<Rightarrow>
          form\<lparr>f_force_format := Some (JBool False), f_thinking_to_content := Some (JBool False), f_proxy := Some (JStr []),
               f_pass_through_body_enabled := Some (JBool False), f_system_prompt := Some (JStr []),
               f_system_prompt_override := Some (JBool False)\<rparr>
      | Some parsed \<Rightarrow>
          form\<lparr>f_force_format := Some (json_or (prop_of parsed (js ''force_format'')) (JBool False)),
               f_thinking_to_content := Some (json_or (prop_of parsed (js ''thinking_to_content'')) (JBool False)),
               f_proxy := Some (json_or (prop_of parsed (js ''proxy'')) (JStr [])),
               f_pass_through_body_enabled := Some (json_or (prop_of parsed (js ''pass_through_body_enabled'')) (JBool False)),
               f_system_prompt := Some (json_or (prop_of parsed (js ''system_prompt'')) (JStr [])),
               f_system_prompt_override := Some (json_or (prop_of parsed (js ''system_prompt_override'')) (JBool False))\<rparr>)"

definition type_settings :: "jstring \<Rightarrow> ChannelFormValues \<Rightarrow> ChannelFormValues" where
  "type_settings settings form =
     (case read_column settings of
        None \<Rightarrow>
          form\<lparr>f_vertex_key_type := Some (JStr (js ''json'')), f_azure_responses_version := Some (JStr []),
               f_is_enterprise_account := False, f_aws_key_type := Some (JStr (js ''ak_sk'')), f_allow_service_tier := False,
               f_disable_store := False, f_allow_safety_identifier := False, f_allow_include_obfuscation := False,
               f_allow_inference_geo := False, f_allow_speed := False, f_claude_beta_query := False, f_check_enabled := False,
               f_auto_sync_enabled := False, f_ignored_models := Some []\<rparr>
      | Some parsed \<Rightarrow>
          form\<lparr>f_vertex_key_type := Some (json_or (prop_of parsed (js ''vertex_key_type'')) (JStr (js ''json''))),
               f_azure_responses_version := Some (json_or (prop_of parsed (js ''azure_responses_version'')) (JStr [])),
               f_is_enterprise_account := is_true (prop_of parsed (js ''openrouter_enterprise'')),
               f_aws_key_type := Some (json_or (prop_of parsed (js ''aws_key_type'')) (JStr (js ''ak_sk''))),
               f_allow_service_tier := is_true (prop_of parsed (js ''allow_service_tier'')),
               f_disable_store := is_true (prop_of parsed (js ''disable_store'')),
               f_allow_safety_identifier := is_true (prop_of parsed (js ''allow_safety_identifier'')),
               f_allow_include_obfuscation := is_true (prop_of parsed (js ''allow_include_obfuscation'')),
               f_allow_inference_geo := is_true (prop_of parsed (js ''allow_inference_geo'')),
               f_allow_speed := is_true (prop_of parsed (js ''allow_speed'')),
               f_claude_beta_query := is_true (prop_of parsed (js ''claude_beta_query'')),
               f_check_enabled := is_true (prop_of parsed (js ''upstream_model_update_check_enabled'')),
               f_auto_sync_enabled := is_true (prop_of parsed (js ''upstream_model_update_auto_sync_enabled'')),
               f_ignored_models :=
                 Some (case prop_of parsed (js ''upstream_model_update_ignored_models'') of
                         Some (JArr vs) \<Rightarrow> json_to_str (JArr vs) | _ \<Rightarrow> [])\<rparr>)"

text \<open>The values that do not come from the settings columns. A channel without \<open>channel_info\<close> makes the function throw.\<close>

definition transformChannelToFormDefaults :: "Channel \<Rightarrow> ChannelFormValues option" where
  "transformChannelToFormDefaults channel =
     (case ch_info channel of
        None \<Rightarrow> None
      | Some info \<Rightarrow>
          Some (type_settings (ch_settings channel) (extra_settings (text_of (ch_setting channel))
            (CHANNEL_FORM_DEFAULT_VALUES
              \<lparr>f_name := ch_name channel, f_type := ch_type channel, f_base_url := Some (text_of (ch_base_url channel)), f_key := [],
               f_openai_organization := Some (text_of (ch_openai_organization channel)), f_models := ch_models channel,
               f_group := parseGroups (if ch_group channel = [] then js ''default'' else ch_group channel),
               f_model_mapping := Some (text_of (ch_model_mapping channel)),
               f_priority := Some (case ch_priority channel of Val p \<Rightarrow> num_or0 p | _ \<Rightarrow> Fin 0),
               f_weight := Some (case ch_weight channel of Val p \<Rightarrow> num_or0 p | _ \<Rightarrow> Fin 0),
               f_test_model := Some (text_of (ch_test_model channel)),
               f_auto_ban := Some (case ch_auto_ban channel of Val p \<Rightarrow> p | _ \<Rightarrow> Fin 1),
               f_status := ch_status channel, f_status_code_mapping := Some (text_of (ch_status_code_mapping channel)),
               f_tag := Some (text_of (ch_tag channel)), f_remark := Some (ch_remark channel),
               f_setting := Some (text_of (ch_setting channel)), f_param_override := Some (text_of (ch_param_override channel)),
               f_header_override := Some (text_of (ch_header_override channel)),
               f_settings := Some (if ch_settings channel = [] then js ''{}'' else ch_settings channel),
               f_other := Some (ch_other channel), f_multi_key_mode := Some (js ''single''),
               f_multi_key_type := Some (if info_multi_key_mode info = [] then js ''random'' else info_multi_key_mode info),
               f_batch_prefix := Some False, f_key_mode := Some (js ''append'')\<rparr>))))"

section \<open>The settings columns of a form\<close>

definition buildSettingJSON :: "ChannelFormValues \<Rightarrow> jstring" where
  "buildSettingJSON formData =
     JSON_stringify (JObj
       [(js ''force_format'', json_or (f_force_format formData) (JBool False)),
        (js ''thinking_to_content'', json_or (f_thinking_to_content formData) (JBool False)),
        (js ''proxy'', json_or (f_proxy formData) (JStr [])),
        (js ''pass_through_body_enabled'', json_or (f_pass_through_body_enabled formData) (JBool False)),
        (js ''system_prompt'', json_or (f_system_prompt formData) (JStr [])),
        (js ''system_prompt_override'', json_or (f_system_prompt_override formData) (JBool False))])"

definition obj_delete :: "jstring \<Rightarrow> (jstring \<times> 'v) list \<Rightarrow> (jstring \<times> 'v) list" where
  "obj_delete k kvs = filter (\<lambda>kv. fst kv \<noteq> k) kvs"

text \<open>\<open>if (b) o.k = v else if (k in o) delete o.k\<close>\<close>

definition put_or_delete :: "bool \<Rightarrow> jstring \<Rightarrow> json \<Rightarrow> jobject \<Rightarrow> jobject" where
  "put_or_delete b k v kvs = (if b then obj_put k v kvs else obj_delete k kvs)"

definition has_type :: "ChannelFormValues \<Rightarrow> nat \<Rightarrow> bool" where
  "has_type formData n \<longleftrightarrow> num_eq (f_type formData) (Fin (of_nat n))"

definition MODEL_FETCHABLE_TYPES :: "nat list" where
  "MODEL_FETCHABLE_TYPES = [1, 4, 14, 17, 20, 23, 24, 25, 26, 27, 31, 34, 35, 40, 42, 43, 47, 48]"

definition provider_fields :: "ChannelFormValues \<Rightarrow> jobject \<Rightarrow> jobject" where
  "provider_fields d o1 =
     (let o2 = put_or_delete (has_type d 41) (js ''vertex_key_type'') (json_or (f_vertex_key_type d) (JStr (js ''json''))) o1;
          o3 = put_or_delete (has_type d 3 \<and> opt_truthy (f_azure_responses_version d)) (js ''azure_responses_version'')
                 (json_or (f_azure_responses_version d) (JStr [])) o2;
          o4 = put_or_delete (has_type d 20) (js ''openrouter_enterprise'') (JBool (f_is_enterprise_account d)) o3 in
      put_or_delete (has_type d 33) (js ''aws_key_type'') (json_or (f_aws_key_type d) (JStr (js ''ak_sk''))) o4)"

definition passthrough_fields :: "ChannelFormValues \<Rightarrow> jobject \<Rightarrow> jobject" where
  "passthrough_fields d o1 =
     (let o2 = put_or_delete (has_type d 1 \<or> has_type d 14) (js ''allow_service_tier'') (JBool (f_allow_service_tier d)) o1;
          o3 = (if has_type d 1
                then obj_put (js ''allow_inference_geo'') (JBool (f_allow_inference_geo d))
                      (obj_put (js ''allow_include_obfuscation'') (JBool (f_allow_include_obfuscation d))
                        (obj_put (js ''allow_safety_identifier'') (JBool (f_allow_safety_identifier d))
                          (obj_put (js ''disable_store'') (JBool (f_disable_store d)) o2)))
                else let o' = obj_delete (js ''allow_include_obfuscation'')
                                (obj_delete (js ''allow_safety_identifier'') (obj_delete (js ''disable_store'') o2)) in
                  if \<not> has_type d 14 then obj_delete (js ''allow_inference_geo'') o' else o') in
      if has_type d 14
      then obj_put (js ''claude_beta_query'') (JBool (f_claude_beta_query d))
            (obj_put (js ''allow_speed'') (JBool (f_allow_speed d))
              (obj_put (js ''allow_inference_geo'') (JBool (f_allow_inference_geo d)) o3))
      else obj_delete (js ''claude_beta_query'') (obj_delete (js ''allow_speed'') o3))"

definition ignored_models :: "ChannelFormValues \<Rightarrow> jstring list" where
  "ignored_models d = uniq (split_trim 44 (str_or (f_ignored_models d) []))"

definition upstream_fields :: "ChannelFormValues \<Rightarrow> jobject \<Rightarrow> jobject" where
  "upstream_fields d o1 =
     (if list_ex (has_type d) MODEL_FETCHABLE_TYPES
      then
        (let o2 = obj_put (js ''upstream_model_update_check_enabled'') (JBool (f_check_enabled d)) o1;
             o3 = obj_put (js ''upstream_model_update_auto_sync_enabled'') (JBool (f_check_enabled d \<and> f_auto_sync_enabled d)) o2;
             o4 = obj_put (js ''upstream_model_update_ignored_models'') (JArr (map JStr (ignored_models d))) o3;
             o5 = (if \<not> (case obj_get (js ''upstream_model_update_last_detected_models'') o4 of Some (JArr _) \<Rightarrow> True | _ \<Rightarrow> False) \<or>
                      \<not> f_check_enabled d
                   then obj_put (js ''upstream_model_update_last_detected_models'') (JArr []) o4 else o4) in
         if \<not> (case obj_get (js ''upstream_model_update_last_check_time'') o5 of Some (JNum _) \<Rightarrow> True | _ \<Rightarrow> False)
         then obj_put (js ''upstream_model_update_last_check_time'') (JNum (Fin 0)) o5 else o5)
      else o1)"

text \<open>
  The object that the text of the form holds; text that cannot be read counts as an empty one. Setting or
  looking up a property of null or of a primitive throws; a named property of an array is not written.
\<close>

definition existing_settings :: "ChannelFormValues \<Rightarrow> json" where
  "existing_settings formData =
     (let s = str_or (f_settings formData) [] in
      if s \<noteq> [] \<and> s \<noteq> js ''{}'' then (case JSON_parse s of Some v \<Rightarrow> v | None \<Rightarrow> JObj []) else JObj [])"

definition buildSettingsJSON :: "ChannelFormValues \<Rightarrow> jstring option" where
  "buildSettingsJSON formData =
     (case existing_settings formData of
        JObj kvs \<Rightarrow> Some (JSON_stringify (JObj (upstream_fields formData (passthrough_fields formData (provider_fields formData kvs)))))
      | JArr vs \<Rightarrow> Some (JSON_stringify (JArr vs))
      | _ \<Rightarrow> None)"

section \<open>Payloads\<close>

definition str_or_null :: "jstring option \<Rightarrow> json" where
  "str_or_null v = (case v of Some s \<Rightarrow> if s = [] then JNull else JStr s | None \<Rightarrow> JNull)"

definition num_or_null :: "jnum option \<Rightarrow> json" where
  "num_or_null v = (case v of Some x \<Rightarrow> if num_truthy x then JNum x else JNull | None \<Rightarrow> JNull)"

definition empty_to_null :: "jobject \<Rightarrow> jobject" where
  "empty_to_null kvs = map (\<lambda>(k, v). (k, if v = JStr [] then JNull else v)) kvs"

text \<open>The properties that both payloads take from the form, in front of and behind the key.\<close>

definition channel_fields :: "ChannelFormValues \<Rightarrow> jstring \<Rightarrow> jobject" where
  "channel_fields d settings =
     [(js ''openai_organization'', str_or_null (f_openai_organization d)), (js ''models'', JStr (f_models d)),
      (js ''group'', JStr (formatGroups (f_group d))), (js ''model_mapping'', str_or_null (f_model_mapping d)),
      (js ''priority'', num_or_null (f_priority d)), (js ''weight'', num_or_null (f_weight d)),
      (js ''test_model'', str_or_null (f_test_model d)),
      (js ''auto_ban'', JNum (case f_auto_ban d of Some x \<Rightarrow> x | None \<Rightarrow> Fin 1)), (js ''status'', JNum (f_status d)),
      (js ''status_code_mapping'', str_or_null (f_status_code_mapping d)), (js ''tag'', str_or_null (f_tag d)),
      (js ''remark'', JStr (str_or (f_remark d) [])), (js ''setting'', JStr (buildSettingJSON d)),
      (js ''param_override'', str_or_null (f_param_override d)), (js ''header_override'', str_or_null (f_header_override d)),
      (js ''settings'', JStr settings), (js ''other'', JStr (str_or (f_other d) []))]"

record CreatePayload =
  create_mode :: jstring
  create_multi_key_mode :: "jstring option"
  create_batch_prefix :: "bool option"
  create_channel :: jobject

definition transformFormDataToCreatePayload :: "ChannelFormValues \<Rightarrow> CreatePayload option" where
  "transformFormDataToCreatePayload formData =
     map_option (\<lambda>settings.
        (let mode = str_or (f_multi_key_mode formData) (js ''single'');
             channel =
               [(js ''name'', JStr (f_name formData)), (js ''type'', JNum (f_type formData)),
                (js ''base_url'', str_or_null (f_base_url formData)), (js ''key'', JStr (f_key formData))] @
               channel_fields formData settings in
         \<lparr>create_mode = mode,
          create_multi_key_mode = (if mode = js ''multi_to_single'' then f_multi_key_type formData else None),
          create_batch_prefix = (if mode = js ''batch'' then f_batch_prefix formData else None),
          create_channel = empty_to_null channel\<rparr>))
       (buildSettingsJSON formData)"

definition transformFormDataToUpdatePayload :: "ChannelFormValues \<Rightarrow> jnum \<Rightarrow> jobject option" where
  "transformFormDataToUpdatePayload formData channelId =
     map_option (\<lambda>settings.
        (let payload =
               [(js ''id'', JNum channelId), (js ''name'', JStr (f_name formData)), (js ''type'', JNum (f_type formData)),
                (js ''base_url'', str_or_null (f_base_url formData))] @
               channel_fields formData settings;
             payload1 = (if f_key formData \<noteq> [] \<and> trim (f_key formData) \<noteq> []
                         then obj_put (js ''key'') (JStr (f_key formData)) payload else payload);
             payload2 = empty_to_null payload1 in
         obj_put (js ''header_override'') (JStr (str_or (f_header_override formData) []))
          (obj_put (js ''param_override'') (JStr (str_or (f_param_override formData) []))
           (obj_put (js ''status_code_mapping'') (JStr (str_or (f_status_code_mapping formData) []))
            (obj_put (js ''model_mapping'') (JStr (str_or (f_model_mapping formData) [])) payload2)))))
       (buildSettingsJSON formData)"

section \<open>Settings of other channel types do not stay\<close>

lemma obj_get_delete [simp]: "obj_get k (obj_delete k' kvs) = (if k = k' then None else obj_get k kvs)"
  unfolding obj_get_def obj_delete_def by (induction kvs) auto

lemma obj_get_put_or_delete [simp]:
  "obj_get k (put_or_delete b k' v kvs) = (if k = k' then if b then Some v else None else obj_get k kvs)"
  by (simp add: put_or_delete_def)

text \<open>
  The properties that the form sets for some channel types and removes for the others, with these types;
  and the properties of the check for new models, which it sets for some types and otherwise leaves alone.
\<close>

definition setting_types :: "(jstring \<times> nat list) list" where
  "setting_types =
     [(js ''vertex_key_type'', [41]), (js ''azure_responses_version'', [3]), (js ''openrouter_enterprise'', [20]),
      (js ''aws_key_type'', [33]), (js ''allow_service_tier'', [1, 14]), (js ''disable_store'', [1]),
      (js ''allow_safety_identifier'', [1]), (js ''allow_include_obfuscation'', [1]), (js ''allow_inference_geo'', [1, 14]),
      (js ''allow_speed'', [14]), (js ''claude_beta_query'', [14])]"

definition upstream_keys :: "jstring list" where
  "upstream_keys =
     [js ''upstream_model_update_check_enabled'', js ''upstream_model_update_auto_sync_enabled'',
      js ''upstream_model_update_ignored_models'', js ''upstream_model_update_last_detected_models'',
      js ''upstream_model_update_last_check_time'']"

definition saved_fields :: "ChannelFormValues \<Rightarrow> jobject \<Rightarrow> jobject" where
  "saved_fields d kvs = upstream_fields d (passthrough_fields d (provider_fields d kvs))"

lemma provider_get:
  "obj_get k (provider_fields d kvs) =
     (if k = js ''vertex_key_type'' then if has_type d 41 then Some (json_or (f_vertex_key_type d) (JStr (js ''json''))) else None
      else if k = js ''azure_responses_version'' then
        if has_type d 3 \<and> opt_truthy (f_azure_responses_version d) then Some (json_or (f_azure_responses_version d) (JStr [])) else None
      else if k = js ''openrouter_enterprise'' then if has_type d 20 then Some (JBool (f_is_enterprise_account d)) else None
      else if k = js ''aws_key_type'' then if has_type d 33 then Some (json_or (f_aws_key_type d) (JStr (js ''ak_sk''))) else None
      else obj_get k kvs)"
  by (simp add: provider_fields_def Let_def)

lemma type_one: "has_type d m \<Longrightarrow> has_type d n \<Longrightarrow> m = n"
  by (auto simp: has_type_def num_eq_def)

lemma passthrough_get:
  "obj_get k (passthrough_fields d kvs) =
     (if k = js ''allow_service_tier'' then if has_type d 1 \<or> has_type d 14 then Some (JBool (f_allow_service_tier d)) else None
      else if k = js ''disable_store'' then if has_type d 1 then Some (JBool (f_disable_store d)) else None
      else if k = js ''allow_safety_identifier'' then if has_type d 1 then Some (JBool (f_allow_safety_identifier d)) else None
      else if k = js ''allow_include_obfuscation'' then if has_type d 1 then Some (JBool (f_allow_include_obfuscation d)) else None
      else if k = js ''allow_inference_geo'' then if has_type d 1 \<or> has_type d 14 then Some (JBool (f_allow_inference_geo d)) else None
      else if k = js ''allow_speed'' then if has_type d 14 then Some (JBool (f_allow_speed d)) else None
      else if k = js ''claude_beta_query'' then if has_type d 14 then Some (JBool (f_claude_beta_query d)) else None
      else obj_get k kvs)"
proof -
  have "\<not> (has_type d 1 \<and> has_type d 14)" using type_one [of d 1 14] by auto
  then show ?thesis by (cases "has_type d 1"; cases "has_type d 14") (simp_all add: passthrough_fields_def Let_def)
qed

lemma upstream_other: "k \<notin> set upstream_keys \<Longrightarrow> obj_get k (upstream_fields d kvs) = obj_get k kvs"
  by (simp add: upstream_fields_def upstream_keys_def Let_def)

lemma upstream_get:
  "obj_get (js ''upstream_model_update_check_enabled'') (upstream_fields d kvs) =
     (if list_ex (has_type d) MODEL_FETCHABLE_TYPES then Some (JBool (f_check_enabled d))
      else obj_get (js ''upstream_model_update_check_enabled'') kvs)"
  "obj_get (js ''upstream_model_update_auto_sync_enabled'') (upstream_fields d kvs) =
     (if list_ex (has_type d) MODEL_FETCHABLE_TYPES then Some (JBool (f_check_enabled d \<and> f_auto_sync_enabled d))
      else obj_get (js ''upstream_model_update_auto_sync_enabled'') kvs)"
  "obj_get (js ''upstream_model_update_ignored_models'') (upstream_fields d kvs) =
     (if list_ex (has_type d) MODEL_FETCHABLE_TYPES then Some (JArr (map JStr (ignored_models d)))
      else obj_get (js ''upstream_model_update_ignored_models'') kvs)"
  by (simp_all add: upstream_fields_def Let_def)

lemmas saved_get = saved_fields_def upstream_get upstream_other upstream_keys_def passthrough_get provider_get

section \<open>The saved object is a JSON value\<close>

definition word_key :: "jstring \<Rightarrow> bool" where
  "word_key k \<longleftrightarrow> units k \<and> \<not> is_array_index k"

lemma word_keys: "list_all word_key (map fst setting_types @ upstream_keys)"
  by code_simp

lemmas word_key_names = word_keys [unfolded setting_types_def upstream_keys_def, simplified]

lemma wf_put: "wf_json (JObj kvs) \<Longrightarrow> word_key k \<Longrightarrow> wf_json v \<Longrightarrow> wf_json (JObj (obj_put k v kvs))"
proof -
  assume wf: "wf_json (JObj kvs)" "word_key k" "wf_json v"
  show ?thesis
  proof (cases "k \<in> fst ` set kvs")
    case True
    let ?r = "map (\<lambda>(k', v'). if k' = k then (k, v) else (k', v')) kvs"
    have "map fst ?r = map fst kvs" by (induction kvs) auto
    then have "canon_keys (map fst ?r)" using wf(1) by (simp only: wf_json.simps)
    moreover have "\<forall>kv \<in> set ?r. units (fst kv) \<and> wf_json (snd kv)"
    proof
      fix kv assume "kv \<in> set ?r"
      then obtain k' v' where "(k', v') \<in> set kvs" "kv = (if k' = k then (k, v) else (k', v'))" by auto
      then show "units (fst kv) \<and> wf_json (snd kv)" using wf by (auto simp: word_key_def)
    qed
    ultimately show ?thesis unfolding obj_put_def if_P [OF True] by (simp only: wf_json.simps simp_thms)
  next
    case False
    then have "canon_keys (map fst kvs @ [k])" using wf by (auto simp: canon_keys_def sorted_wrt_append word_key_def)
    then show ?thesis using False wf by (auto simp: obj_put_def word_key_def)
  qed
qed

lemma wf_delete: "wf_json (JObj kvs) \<Longrightarrow> wf_json (JObj (obj_delete k kvs))"
proof -
  assume wf: "wf_json (JObj kvs)"
  have "map fst (obj_delete k kvs) = filter (\<lambda>a. a \<noteq> k) (map fst kvs)"
    by (simp add: obj_delete_def filter_map comp_def)
  then have "canon_keys (map fst (obj_delete k kvs))" using wf by (simp add: canon_keys_def sorted_wrt_filter)
  then show ?thesis using wf by (auto simp: obj_delete_def)
qed

lemma wf_put_or_delete: "wf_json (JObj kvs) \<Longrightarrow> word_key k \<Longrightarrow> wf_json v \<Longrightarrow> wf_json (JObj (put_or_delete b k v kvs))"
  unfolding put_or_delete_def by (cases b) (simp_all only: if_True if_False wf_put wf_delete)

text \<open>The JSON values of the form can be written and read without loss.\<close>

definition form_wf :: "ChannelFormValues \<Rightarrow> bool" where
  "form_wf d \<longleftrightarrow>
     list_all (\<lambda>v. case v of None \<Rightarrow> True | Some w \<Rightarrow> wf_json w)
       [f_force_format d, f_thinking_to_content d, f_proxy d, f_pass_through_body_enabled d, f_system_prompt d,
        f_system_prompt_override d, f_vertex_key_type d, f_aws_key_type d, f_azure_responses_version d] \<and>
     units (str_or (f_ignored_models d) [])"

lemma wf_json_or: "(case v of None \<Rightarrow> True | Some w \<Rightarrow> wf_json w) \<Longrightarrow> wf_json d \<Longrightarrow> wf_json (json_or v d)"
  by (simp add: json_or_def split: option.splits)

lemma wf_ignored: "form_wf d \<Longrightarrow> wf_json (JArr (map JStr (ignored_models d)))"
proof -
  assume "form_wf d"
  then have u: "units (str_or (f_ignored_models d) [])" by (simp add: form_wf_def)
  have "units x" if x: "x \<in> set (split_trim 44 s)" "units s" for x s
  proof -
    obtain p where p: "p \<in> set (split_on 44 s)" "x = trim p" using x(1) by (auto simp: split_trim_def)
    have "set p \<subseteq> set s" using p(1) by (induction s arbitrary: p) (fastforce split: list.splits if_splits)+
    then show ?thesis using x(2) p(2) set_trim [of p] by (auto simp: units_def)
  qed
  then show ?thesis using u by (auto simp: ignored_models_def)
qed

lemma if_wf: "wf_json (JObj x) \<Longrightarrow> wf_json (JObj y) \<Longrightarrow> wf_json (JObj (if b then x else y))"
  by (cases b) (simp_all only: if_True if_False)

lemma saved_wf:
  assumes "form_wf d" "wf_json (JObj kvs)" shows "wf_json (JObj (saved_fields d kvs))"
proof -
  have v: "wf_json (json_or (f_vertex_key_type d) (JStr (js ''json'')))" "wf_json (json_or (f_azure_responses_version d) (JStr []))"
    "wf_json (json_or (f_aws_key_type d) (JStr (js ''ak_sk'')))"
    using assms(1) by (auto intro!: wf_json_or simp: form_wf_def js_def)
  have "wf_json (JObj (provider_fields d kvs))"
    unfolding provider_fields_def Let_def
    by (intro wf_put_or_delete) (rule assms(2) v | simp add: word_key_names)+
  then have "wf_json (JObj (passthrough_fields d (provider_fields d kvs)))"
    unfolding passthrough_fields_def Let_def
    by (intro if_wf wf_put wf_delete wf_put_or_delete) (assumption | simp add: word_key_names)+
  moreover have "wf_json (JNum (Fin 0))" using num_ok_nat [of 0] by (simp add: num_of_nat_exact)
  ultimately show ?thesis using wf_ignored [OF assms(1)] unfolding saved_fields_def upstream_fields_def Let_def
    by (intro if_wf wf_put) (assumption | simp add: word_key_names)+
qed

lemma saved_text:
  assumes "existing_settings d = JObj kvs" "form_wf d" "wf_json (JObj kvs)"
  shows "buildSettingsJSON d = Some (JSON_stringify (JObj (saved_fields d kvs)))"
    "JSON_parse (JSON_stringify (JObj (saved_fields d kvs))) = Some (JObj (saved_fields d kvs))"
    "read_column (JSON_stringify (JObj (saved_fields d kvs))) = Some (JObj (saved_fields d kvs))"
  using assms(1) saved_wf [OF assms(2,3)] stringify_ne [OF saved_wf [OF assms(2,3)]]
  by (simp_all add: buildSettingsJSON_def saved_fields_def read_column_def del: wf_json.simps)

text \<open>The value that the form has for a property of the table of types; without a version, the form has none.\<close>

definition form_value :: "ChannelFormValues \<Rightarrow> jstring \<Rightarrow> json option" where
  "form_value d k =
     Option.bind (map_of [(js ''vertex_key_type'', Some (json_or (f_vertex_key_type d) (JStr (js ''json'')))),
       (js ''azure_responses_version'',
         if opt_truthy (f_azure_responses_version d) then Some (json_or (f_azure_responses_version d) (JStr [])) else None),
       (js ''openrouter_enterprise'', Some (JBool (f_is_enterprise_account d))),
       (js ''aws_key_type'', Some (json_or (f_aws_key_type d) (JStr (js ''ak_sk'')))),
       (js ''allow_service_tier'', Some (JBool (f_allow_service_tier d))), (js ''disable_store'', Some (JBool (f_disable_store d))),
       (js ''allow_safety_identifier'', Some (JBool (f_allow_safety_identifier d))),
       (js ''allow_include_obfuscation'', Some (JBool (f_allow_include_obfuscation d))),
       (js ''allow_inference_geo'', Some (JBool (f_allow_inference_geo d))), (js ''allow_speed'', Some (JBool (f_allow_speed d))),
       (js ''claude_beta_query'', Some (JBool (f_claude_beta_query d)))] k) (\<lambda>v. v)"

text \<open>
  The five properties of the check for new models: the first three are those of the form, the detected
  models are kept while the check is enabled, and so is the time of the last check.
\<close>

definition upstream_values :: "ChannelFormValues \<Rightarrow> jobject \<Rightarrow> json list" where
  "upstream_values d kvs =
     [JBool (f_check_enabled d), JBool (f_check_enabled d \<and> f_auto_sync_enabled d), JArr (map JStr (ignored_models d)),
      (case obj_get (js ''upstream_model_update_last_detected_models'') kvs of
         Some (JArr xs) \<Rightarrow> if f_check_enabled d then JArr xs else JArr [] | _ \<Rightarrow> JArr []),
      (case obj_get (js ''upstream_model_update_last_check_time'') kvs of Some (JNum n) \<Rightarrow> JNum n | _ \<Rightarrow> JNum (Fin 0))]"

lemma upstream_kept:
  "obj_get (js ''upstream_model_update_last_detected_models'') (upstream_fields d kvs) =
     (if list_ex (has_type d) MODEL_FETCHABLE_TYPES then Some (upstream_values d kvs ! 3)
      else obj_get (js ''upstream_model_update_last_detected_models'') kvs)" (is ?models)
  "obj_get (js ''upstream_model_update_last_check_time'') (upstream_fields d kvs) =
     (if list_ex (has_type d) MODEL_FETCHABLE_TYPES then Some (upstream_values d kvs ! 4)
      else obj_get (js ''upstream_model_update_last_check_time'') kvs)" (is ?time)
proof -
  show ?models
    by (cases "obj_get (js ''upstream_model_update_last_detected_models'') kvs")
      (simp_all add: upstream_fields_def upstream_values_def Let_def split: json.split)
  show ?time
    by (cases "obj_get (js ''upstream_model_update_last_check_time'') kvs")
      (simp_all add: upstream_fields_def upstream_values_def Let_def split: json.split)
qed

lemma upstream_keys_elim:
  assumes "k \<in> set upstream_keys"
    and "P (js ''upstream_model_update_check_enabled'')" "P (js ''upstream_model_update_auto_sync_enabled'')"
      "P (js ''upstream_model_update_ignored_models'')" "P (js ''upstream_model_update_last_detected_models'')"
      "P (js ''upstream_model_update_last_check_time'')"
  shows "P k"
  using assms unfolding upstream_keys_def list.set by (elim insertE emptyE; simp only:)

lemma provider_upstream: "k \<in> set upstream_keys \<Longrightarrow> obj_get k (provider_fields d kvs) = obj_get k kvs"
  by (erule upstream_keys_elim; subst provider_get; simp)

lemma passthrough_upstream: "k \<in> set upstream_keys \<Longrightarrow> obj_get k (passthrough_fields d kvs) = obj_get k kvs"
  by (erule upstream_keys_elim; subst passthrough_get; simp)

lemma saved_upstream_values:
  "map (\<lambda>k. obj_get k (saved_fields d kvs)) upstream_keys =
     (if list_ex (has_type d) MODEL_FETCHABLE_TYPES then map Some (upstream_values d kvs)
      else map (\<lambda>k. obj_get k kvs) upstream_keys)"
proof -
  let ?o = "passthrough_fields d (provider_fields d kvs)"
  have o: "obj_get k ?o = obj_get k kvs" if "k \<in> set upstream_keys" for k
    using that by (simp only: passthrough_upstream provider_upstream)
  have k: "js ''upstream_model_update_last_detected_models'' \<in> set upstream_keys" "js ''upstream_model_update_last_check_time'' \<in> set upstream_keys"
    by (simp_all add: upstream_keys_def)
  have v: "upstream_values d ?o = upstream_values d kvs" unfolding upstream_values_def o [OF k(1)] o [OF k(2)] by (rule refl)
  have "map (\<lambda>k. obj_get k (upstream_fields d ?o)) upstream_keys =
      (if list_ex (has_type d) MODEL_FETCHABLE_TYPES then map Some (upstream_values d ?o) else map (\<lambda>k. obj_get k ?o) upstream_keys)"
    by (simp add: upstream_keys_def upstream_get upstream_kept) (simp add: upstream_values_def)
  moreover have "map (\<lambda>k. obj_get k ?o) upstream_keys = map (\<lambda>k. obj_get k kvs) upstream_keys" by (rule map_cong [OF refl o])
  ultimately show ?thesis unfolding saved_fields_def v by (simp only:)
qed

text \<open>
  C22. The settings that a form saves: the saved text is one JSON object. A property that the form does not
  manage has the value it had before. A property of the table of types has the value of the form when the
  channel has one of its types, and is absent otherwise. The properties of the check for new models are
  those of the form when the models of the channel type can be fetched; otherwise they stay as they were.
\<close>

theorem settings_of_own_type:
  assumes "existing_settings d = JObj kvs" "form_wf d" "wf_json (JObj kvs)"
  shows "\<exists>t obj. buildSettingsJSON d = Some t \<and> JSON_parse t = Some (JObj obj) \<and>
    (\<forall>k. k \<notin> set (map fst setting_types @ upstream_keys) \<longrightarrow> obj_get k obj = obj_get k kvs) \<and>
    list_all (\<lambda>(k, types). obj_get k obj = (if list_ex (has_type d) types then form_value d k else None)) setting_types \<and>
    map (\<lambda>k. obj_get k obj) upstream_keys =
      (if list_ex (has_type d) MODEL_FETCHABLE_TYPES then map Some (upstream_values d kvs)
       else map (\<lambda>k. obj_get k kvs) upstream_keys)"
proof (intro exI conjI)
  show "buildSettingsJSON d = Some (JSON_stringify (JObj (saved_fields d kvs)))"
    "JSON_parse (JSON_stringify (JObj (saved_fields d kvs))) = Some (JObj (saved_fields d kvs))"
    using saved_text [OF assms] by simp_all
  show "\<forall>k. k \<notin> set (map fst setting_types @ upstream_keys) \<longrightarrow> obj_get k (saved_fields d kvs) = obj_get k kvs"
    by (auto simp: setting_types_def saved_get)
  show "list_all (\<lambda>(k, types). obj_get k (saved_fields d kvs) = (if list_ex (has_type d) types then form_value d k else None)) setting_types"
    by (simp add: setting_types_def saved_get form_value_def)
  show "map (\<lambda>k. obj_get k (saved_fields d kvs)) upstream_keys =
      (if list_ex (has_type d) MODEL_FETCHABLE_TYPES then map Some (upstream_values d kvs)
       else map (\<lambda>k. obj_get k kvs) upstream_keys)" by (rule saved_upstream_values)
qed

definition sample_form :: ChannelFormValues where
  "sample_form = CHANNEL_FORM_DEFAULT_VALUES
     \<lparr>f_type := Fin 14, f_settings := Some (js ''{\"disable_store\":true,\"note\":\"x\"}''), f_allow_speed := True\<rparr>"

lemma sample_settings: "existing_settings sample_form = JObj [(js ''disable_store'', JBool True), (js ''note'', JStr (js ''x''))]"
  by code_simp

lemma sample_form_wf: "form_wf sample_form \<and> wf_json (JObj [(js ''disable_store'', JBool True), (js ''note'', JStr (js ''x''))])"
  by code_simp

theorem settings_of_own_type_witness:
  "\<exists>t obj. buildSettingsJSON sample_form = Some t \<and> JSON_parse t = Some (JObj obj) \<and>
     obj_get (js ''note'') obj = Some (JStr (js ''x'')) \<and> obj_get (js ''disable_store'') obj = None"
proof -
  have "\<not> has_type sample_form 1" by (simp add: has_type_def sample_form_def num_eq_def)
  moreover have "js ''note'' \<notin> set (map fst setting_types @ upstream_keys)" by (simp add: setting_types_def upstream_keys_def)
  ultimately show ?thesis
    using settings_of_own_type [OF sample_settings] sample_form_wf by (fastforce simp: setting_types_def)
qed

section \<open>Saved settings are opened again\<close>

lemma json_or_idem: "json_or (Some (json_or v e)) e = json_or v e"
  by (simp add: json_or_def split: option.splits)

text \<open>The settings of a form as they are kept for its type; those of other types have their default.\<close>

definition kept_settings :: "ChannelFormValues \<Rightarrow> jobject \<Rightarrow> ChannelFormValues \<Rightarrow> ChannelFormValues" where
  "kept_settings d kvs g =
     (let fetchable = list_ex (has_type d) MODEL_FETCHABLE_TYPES in
      g\<lparr>f_force_format := Some (json_or (f_force_format d) (JBool False)),
        f_thinking_to_content := Some (json_or (f_thinking_to_content d) (JBool False)),
        f_proxy := Some (json_or (f_proxy d) (JStr [])),
        f_pass_through_body_enabled := Some (json_or (f_pass_through_body_enabled d) (JBool False)),
        f_system_prompt := Some (json_or (f_system_prompt d) (JStr [])),
        f_system_prompt_override := Some (json_or (f_system_prompt_override d) (JBool False)),
        f_vertex_key_type := Some (if has_type d 41 then json_or (f_vertex_key_type d) (JStr (js ''json'')) else JStr (js ''json'')),
        f_azure_responses_version := Some (if has_type d 3 then json_or (f_azure_responses_version d) (JStr []) else JStr []),
        f_is_enterprise_account := has_type d 20 \<and> f_is_enterprise_account d,
        f_aws_key_type := Some (if has_type d 33 then json_or (f_aws_key_type d) (JStr (js ''ak_sk'')) else JStr (js ''ak_sk'')),
        f_allow_service_tier := (has_type d 1 \<or> has_type d 14) \<and> f_allow_service_tier d,
        f_disable_store := has_type d 1 \<and> f_disable_store d,
        f_allow_safety_identifier := has_type d 1 \<and> f_allow_safety_identifier d,
        f_allow_include_obfuscation := has_type d 1 \<and> f_allow_include_obfuscation d,
        f_allow_inference_geo := (has_type d 1 \<or> has_type d 14) \<and> f_allow_inference_geo d,
        f_allow_speed := has_type d 14 \<and> f_allow_speed d,
        f_claude_beta_query := has_type d 14 \<and> f_claude_beta_query d,
        f_check_enabled := (if fetchable then f_check_enabled d
          else is_true (obj_get (js ''upstream_model_update_check_enabled'') kvs)),
        f_auto_sync_enabled := (if fetchable then f_check_enabled d \<and> f_auto_sync_enabled d
          else is_true (obj_get (js ''upstream_model_update_auto_sync_enabled'') kvs)),
        f_ignored_models := Some (if fetchable then join_with [44] (ignored_models d)
          else case obj_get (js ''upstream_model_update_ignored_models'') kvs of Some (JArr vs) \<Rightarrow> json_to_str (JArr vs) | _ \<Rightarrow> [])\<rparr>)"

lemma join_strings: "json_to_str (JArr (map JStr xs)) = join_with [44] xs"
proof -
  have "map (\<lambda>v. if v = JNull then [] else json_to_str v) (map JStr xs) = xs" by (induction xs) simp_all
  then show ?thesis by (simp add: js_def)
qed

lemma saved_props:
  "obj_get (js ''vertex_key_type'') (saved_fields d kvs) =
     (if has_type d 41 then Some (json_or (f_vertex_key_type d) (JStr (js ''json''))) else None)"
  "obj_get (js ''azure_responses_version'') (saved_fields d kvs) =
     (if has_type d 3 \<and> opt_truthy (f_azure_responses_version d) then Some (json_or (f_azure_responses_version d) (JStr [])) else None)"
  "obj_get (js ''openrouter_enterprise'') (saved_fields d kvs) = (if has_type d 20 then Some (JBool (f_is_enterprise_account d)) else None)"
  "obj_get (js ''aws_key_type'') (saved_fields d kvs) =
     (if has_type d 33 then Some (json_or (f_aws_key_type d) (JStr (js ''ak_sk''))) else None)"
  "obj_get (js ''allow_service_tier'') (saved_fields d kvs) =
     (if has_type d 1 \<or> has_type d 14 then Some (JBool (f_allow_service_tier d)) else None)"
  "obj_get (js ''disable_store'') (saved_fields d kvs) = (if has_type d 1 then Some (JBool (f_disable_store d)) else None)"
  "obj_get (js ''allow_safety_identifier'') (saved_fields d kvs) =
     (if has_type d 1 then Some (JBool (f_allow_safety_identifier d)) else None)"
  "obj_get (js ''allow_include_obfuscation'') (saved_fields d kvs) =
     (if has_type d 1 then Some (JBool (f_allow_include_obfuscation d)) else None)"
  "obj_get (js ''allow_inference_geo'') (saved_fields d kvs) =
     (if has_type d 1 \<or> has_type d 14 then Some (JBool (f_allow_inference_geo d)) else None)"
  "obj_get (js ''allow_speed'') (saved_fields d kvs) = (if has_type d 14 then Some (JBool (f_allow_speed d)) else None)"
  "obj_get (js ''claude_beta_query'') (saved_fields d kvs) = (if has_type d 14 then Some (JBool (f_claude_beta_query d)) else None)"
  by (simp_all add: saved_get)

lemma saved_upstream:
  "obj_get (js ''upstream_model_update_check_enabled'') (saved_fields d kvs) =
     (if list_ex (has_type d) MODEL_FETCHABLE_TYPES then Some (JBool (f_check_enabled d))
      else obj_get (js ''upstream_model_update_check_enabled'') kvs)"
  "obj_get (js ''upstream_model_update_auto_sync_enabled'') (saved_fields d kvs) =
     (if list_ex (has_type d) MODEL_FETCHABLE_TYPES then Some (JBool (f_check_enabled d \<and> f_auto_sync_enabled d))
      else obj_get (js ''upstream_model_update_auto_sync_enabled'') kvs)"
  "obj_get (js ''upstream_model_update_ignored_models'') (saved_fields d kvs) =
     (if list_ex (has_type d) MODEL_FETCHABLE_TYPES then Some (JArr (map JStr (ignored_models d)))
      else obj_get (js ''upstream_model_update_ignored_models'') kvs)"
  by (simp_all add: saved_fields_def upstream_get passthrough_get provider_get)

lemma is_true_simps: "is_true (Some (JBool b)) = b" "is_true None = False" "is_true (if c then x else y) = (if c then is_true x else is_true y)"
  by (simp_all add: is_true_def)

lemma json_or_simps:
  "json_or None e = e" "json_or (if c then x else y) e = (if c then json_or x e else json_or y e)" "\<not> opt_truthy v \<Longrightarrow> json_or v e = e"
  by (simp_all add: json_or_def opt_truthy_def split: option.splits)

lemma extra_settings_saved:
  assumes "form_wf d"
  shows "extra_settings (buildSettingJSON d) g =
    g\<lparr>f_force_format := Some (json_or (f_force_format d) (JBool False)),
      f_thinking_to_content := Some (json_or (f_thinking_to_content d) (JBool False)),
      f_proxy := Some (json_or (f_proxy d) (JStr [])),
      f_pass_through_body_enabled := Some (json_or (f_pass_through_body_enabled d) (JBool False)),
      f_system_prompt := Some (json_or (f_system_prompt d) (JStr [])),
      f_system_prompt_override := Some (json_or (f_system_prompt_override d) (JBool False))\<rparr>"
proof -
  let ?o = "[(js ''force_format'', json_or (f_force_format d) (JBool False)),
        (js ''thinking_to_content'', json_or (f_thinking_to_content d) (JBool False)),
        (js ''proxy'', json_or (f_proxy d) (JStr [])),
        (js ''pass_through_body_enabled'', json_or (f_pass_through_body_enabled d) (JBool False)),
        (js ''system_prompt'', json_or (f_system_prompt d) (JStr [])),
        (js ''system_prompt_override'', json_or (f_system_prompt_override d) (JBool False))]"
  have "list_all word_key (map fst ?o)" by code_simp
  then have "canon_keys (map fst ?o)" "\<forall>kv \<in> set ?o. units (fst kv)"
    by (auto intro!: canon_keys_words simp: word_key_def)
  moreover have "\<forall>kv \<in> set ?o. wf_json (snd kv)" using assms by (auto intro!: wf_json_or simp: form_wf_def)
  ultimately have "wf_json (JObj ?o)" by (simp only: wf_json.simps) blast
  then have "read_column (buildSettingJSON d) = Some (JObj ?o)"
    using stringify_ne [of "JObj ?o"] unfolding buildSettingJSON_def read_column_def by (simp del: wf_json.simps)
  then show ?thesis by (simp add: extra_settings_def prop_of_def json_or_idem)
qed

text \<open>
  C23. What a form saves in the settings columns of a channel, the form of that channel shows again: for a
  channel with the columns that a form wrote, the form opened on it has the extra settings of the first
  form and the settings of its channel type, and the default values for the settings of other types. The
  settings of upstream updates are those of the first form for types whose models can be fetched, and
  those of the column before for the others.
\<close>

theorem form_settings_reopen:
  assumes "existing_settings d = JObj kvs" "form_wf d" "wf_json (JObj kvs)" "ch_info c \<noteq> None"
    "ch_setting c = Val (buildSettingJSON d)" "buildSettingsJSON d = Some (ch_settings c)"
  shows "\<exists>g. transformChannelToFormDefaults c = Some g \<and> kept_settings d kvs g = g"
proof -
  have t: "read_column (ch_settings c) = Some (JObj (saved_fields d kvs))" using saved_text [OF assms(1-3)] assms(6) by simp
  have p: "prop_of (JObj (saved_fields d kvs)) k = obj_get k (saved_fields d kvs)" for k by (simp add: prop_of_def)
  obtain info where i: "ch_info c = Some info" using assms(4) by blast
  obtain g0 where g: "transformChannelToFormDefaults c = Some (type_settings (ch_settings c) (extra_settings (buildSettingJSON d) g0))"
    using i assms(5) by (simp add: transformChannelToFormDefaults_def text_of_def)
  have "kept_settings d kvs (type_settings (ch_settings c) (extra_settings (buildSettingJSON d) g0)) =
      type_settings (ch_settings c) (extra_settings (buildSettingJSON d) g0)"
    unfolding type_settings_def t option.case p saved_props saved_upstream is_true_simps json_or_simps(1,2) json_or_idem
      extra_settings_saved [OF assms(2)] kept_settings_def Let_def
    using json_or_simps(3) by (simp add: join_strings del: json_to_str.simps)
  then show ?thesis using g by blast
qed

definition saved_channel :: Channel where
  "saved_channel = (sample_channel ''a'' ''x'' 1 0)
     \<lparr>ch_info := Some \<lparr>is_multi_key = False, multi_key_size = Fin 0, multi_key_status_list = None, info_multi_key_mode = js ''random''\<rparr>,
      ch_setting := Val (buildSettingJSON sample_form), ch_settings := the (buildSettingsJSON sample_form)\<rparr>"

theorem form_settings_reopen_witness:
  "\<exists>g. transformChannelToFormDefaults saved_channel = Some g \<and> f_allow_speed g \<and> \<not> f_disable_store g"
proof -
  have "buildSettingsJSON sample_form = Some (ch_settings saved_channel)"
    using saved_text(1) [OF sample_settings] sample_form_wf by (simp add: saved_channel_def)
  moreover have "ch_info saved_channel \<noteq> None" "ch_setting saved_channel = Val (buildSettingJSON sample_form)"
    by (simp_all add: saved_channel_def)
  ultimately obtain g where g: "transformChannelToFormDefaults saved_channel = Some g"
    "kept_settings sample_form [(js ''disable_store'', JBool True), (js ''note'', JStr (js ''x''))] g = g"
    using form_settings_reopen [OF sample_settings] sample_form_wf by blast
  have "f_allow_speed (kept_settings sample_form kvs h)" "\<not> f_disable_store (kept_settings sample_form kvs h)" for kvs h
    by (simp_all add: kept_settings_def Let_def sample_form_def has_type_def num_eq_def CHANNEL_FORM_DEFAULT_VALUES_def)
  then show ?thesis using g by metis
qed

text \<open>A settings column that holds the JSON text null passes the validation of the form, and saving throws.\<close>

lemma null_settings_throw:
  "validateJSON (js ''null'') \<and> buildSettingsJSON (CHANNEL_FORM_DEFAULT_VALUES\<lparr>f_settings := Some (js ''null'')\<rparr>) = None"
  by code_simp

lemma groups_reopen: "clean_items 44 gs \<Longrightarrow> gs \<noteq> [] \<Longrightarrow> parseGroups (formatGroups gs) = gs"
  using split_trim_join [of 44 gs] by (cases "join_with [44] gs = []") (auto simp: parseGroups_def formatGroups_def split_trim_def filter_truthy_def)


text \<open>Updating a channel sends a key exactly when one was typed, and it is that key.\<close>

lemma update_key:
  assumes "transformFormDataToUpdatePayload d n = Some p"
  shows "obj_get (js ''key'') p = (if trim (f_key d) = [] then None else Some (JStr (f_key d)))"
proof -
  have e: "obj_get k (empty_to_null kvs) = map_option (\<lambda>v. if v = JStr [] then JNull else v) (obj_get k kvs)" for k kvs
    by (induction kvs) (auto simp: empty_to_null_def)
  have t: "trim (f_key d) \<noteq> [] \<Longrightarrow> f_key d \<noteq> []" by auto
  show ?thesis using assms t unfolding transformFormDataToUpdatePayload_def Let_def
    by (auto simp: e channel_fields_def)
qed

end
