(* ===== verification/Playground_Messages.thy ===== *)
theory Playground_Messages
  imports JS_Json
begin

text \<open>
  The messages of the playground: \<open>types.ts\<close>, \<open>constants.ts\<close>, \<open>lib/message-utils.ts\<close> and
  \<open>lib/payload-builder.ts\<close> under \<open>src/web/default/src/features/playground\<close>. Reading and writing
  of messages, the separation of reasoning from visible text by \<open>think\<close> tags, what streaming makes of
  a message, the cleaning of stored messages and the payload of a request.

  \<open>nanoid\<close> is a parameter: \<open>nano n\<close> is the result of its n-th call, and the number of calls is passed
  through the functions that make one. A configuration is the object itself, since it is read from
  storage without a check.
\<close>

section \<open>Data\<close>

datatype MessageRole = User | Assistant | System
datatype MessageStatus = Loading | Streaming | Complete | Error

record MessageVersion =
  v_id :: jstring
  v_content :: jstring

record Reasoning =
  rs_content :: jstring
  rs_duration :: jnum

text \<open>An optional field is \<open>None\<close> when undefined; \<open>errorCode\<close> may be null.\<close>

record Message =
  msg_key :: jstring
  msg_from :: MessageRole
  msg_versions :: "MessageVersion list"
  msg_sources :: "(jstring \<times> jstring) list option"
  msg_reasoning :: "Reasoning option"
  isReasoningStreaming :: "bool option"
  isReasoningComplete :: "bool option"
  isContentComplete :: "bool option"
  msg_status :: "MessageStatus option"
  errorCode :: "json option"

datatype ContentPart = TextPart jstring | ImagePart jstring
datatype message_content = PlainText jstring | Parts "ContentPart list"

type_synonym nano = "nat \<Rightarrow> jstring"

section \<open>Constants\<close>

definition MESSAGE_ROLES :: "MessageRole \<Rightarrow> jstring" where
  "MESSAGE_ROLES r = (case r of User \<Rightarrow> js ''user'' | Assistant \<Rightarrow> js ''assistant'' | System \<Rightarrow> js ''system'')"

definition MESSAGE_STATUS :: "MessageStatus \<Rightarrow> jstring" where
  "MESSAGE_STATUS s =
     (case s of Loading \<Rightarrow> js ''loading'' | Streaming \<Rightarrow> js ''streaming'' | Complete \<Rightarrow> js ''complete''
      | Error \<Rightarrow> js ''error'')"

definition DEFAULT_CONFIG :: jobject where
  "DEFAULT_CONFIG =
    [(js ''model'', JStr (js ''gpt-4o'')), (js ''group'', JStr (js ''default'')),
     (js ''temperature'', JNum (f64 (7 / 10))), (js ''top_p'', JNum (Fin 1)), (js ''max_tokens'', JNum (Fin 4096)),
     (js ''frequency_penalty'', JNum (Fin 0)), (js ''presence_penalty'', JNum (Fin 0)), (js ''seed'', JNull),
     (js ''stream'', JBool True)]"

definition DEFAULT_PARAMETER_ENABLED :: jobject where
  "DEFAULT_PARAMETER_ENABLED =
    [(js ''temperature'', JBool True), (js ''top_p'', JBool True), (js ''max_tokens'', JBool False),
     (js ''frequency_penalty'', JBool True), (js ''presence_penalty'', JBool True), (js ''seed'', JBool False)]"

definition API_REQUEST_ERROR :: jstring where
  "API_REQUEST_ERROR = js ''Request error occurred''"

definition PARSE_ERROR :: jstring where
  "PARSE_ERROR = js ''Error parsing response data''"

definition STREAM_START_ERROR :: jstring where
  "STREAM_START_ERROR = js ''Error establishing connection''"

definition CONNECTION_CLOSED :: jstring where
  "CONNECTION_CLOSED = js ''Connection closed''"

definition INTERRUPTED :: jstring where
  "INTERRUPTED = js ''Generation was interrupted''"

section \<open>Creating and reading messages\<close>

definition createMessageVersion :: "nano \<Rightarrow> nat \<Rightarrow> jstring \<Rightarrow> MessageVersion \<times> nat" where
  "createMessageVersion nano n content = (\<lparr>v_id = nano n, v_content = content\<rparr>, n + 1)"

definition getCurrentVersion :: "Message \<Rightarrow> MessageVersion" where
  "getCurrentVersion message =
     (case msg_versions message of v # _ \<Rightarrow> v | [] \<Rightarrow> \<lparr>v_id = js ''default'', v_content = []\<rparr>)"

definition updateCurrentVersionContent :: "Message \<Rightarrow> jstring \<Rightarrow> Message" where
  "updateCurrentVersionContent message content =
     message\<lparr>msg_versions := [(getCurrentVersion message)\<lparr>v_content := content\<rparr>]\<rparr>"

definition createUserMessage :: "nano \<Rightarrow> nat \<Rightarrow> jstring \<Rightarrow> Message \<times> nat" where
  "createUserMessage nano n content =
     (let (v, n') = createMessageVersion nano (n + 1) content in
      (\<lparr>msg_key = nano n, msg_from = User, msg_versions = [v], msg_sources = None, msg_reasoning = None,
        isReasoningStreaming = None, isReasoningComplete = None, isContentComplete = None, msg_status = None,
        errorCode = None\<rparr>, n'))"

definition createLoadingAssistantMessage :: "nano \<Rightarrow> nat \<Rightarrow> Message \<times> nat" where
  "createLoadingAssistantMessage nano n =
     (let (v, n') = createMessageVersion nano (n + 1) [] in
      (\<lparr>msg_key = nano n, msg_from = Assistant, msg_versions = [v], msg_sources = None, msg_reasoning = None,
        isReasoningStreaming = Some False, isReasoningComplete = Some False, isContentComplete = Some False,
        msg_status = Some Loading, errorCode = None\<rparr>, n'))"

definition buildMessageContent :: "jstring \<Rightarrow> jstring list \<Rightarrow> message_content" where
  "buildMessageContent txt imageUrls =
     (let validImages = filter (\<lambda>url. trim url \<noteq> []) imageUrls in
      if validImages = [] then PlainText txt
      else Parts (TextPart txt # map (\<lambda>url. ImagePart (trim url)) validImages))"

fun getTextContent :: "message_content \<Rightarrow> jstring" where
  "getTextContent (PlainText txt) = txt"
| "getTextContent (Parts ps) =
     (case find (\<lambda>p. case p of TextPart _ \<Rightarrow> True | ImagePart _ \<Rightarrow> False) ps of Some (TextPart txt) \<Rightarrow> txt | _ \<Rightarrow> [])"

definition formatMessageForAPI :: "Message \<Rightarrow> jobject" where
  "formatMessageForAPI message =
     [(js ''role'', JStr (MESSAGE_ROLES (msg_from message))),
      (js ''content'', JStr (v_content (getCurrentVersion message)))]"

definition isValidMessage :: "Message \<Rightarrow> bool" where
  "isValidMessage message =
     (case msg_versions message of
        [] \<Rightarrow> False
      | v # _ \<Rightarrow> \<not> (msg_from message = Assistant \<and> trim (v_content v) = []))"

section \<open>Think tags\<close>

record think_parts =
  visibleContent :: jstring
  reasoning_text :: jstring
  hasUnclosedTag :: bool

text \<open>
  The loop, from the text after \<open>currentPos\<close>: the visible parts, the reasoning parts and whether a
  tag is left open.
\<close>

function think_loop :: "jstring \<Rightarrow> jstring list \<times> jstring list \<times> bool" where
  "think_loop rest =
     (case index_of (js ''<think>'') rest of
        None \<Rightarrow> (if rest \<noteq> [] then [rest] else [], [], False)
      | Some openPos \<Rightarrow>
          let visible = (if openPos > 0 then [take openPos rest] else []);
              body = drop (openPos + 7) rest in
          (case index_of (js ''</think>'') body of
             None \<Rightarrow> (visible, [body], True)
           | Some closePos \<Rightarrow>
               let (visibles, reasonings, unclosed) = think_loop (drop (closePos + 8) body) in
               (visible @ visibles, take closePos body # reasonings, unclosed)))"
  by pat_completeness auto
termination
  by (relation "measure length") (auto dest!: index_of_Some simp: js_def)

declare think_loop.simps [simp del]

definition parseThinkTags :: "jstring \<Rightarrow> think_parts" where
  "parseThinkTags content =
     (if \<not> str_includes (js ''<think>'') content
      then \<lparr>visibleContent = content, reasoning_text = [], hasUnclosedTag = False\<rparr>
      else let (visibleParts, reasoningParts, hasUnclosed) = think_loop content in
        \<lparr>visibleContent = trim (concat visibleParts), reasoning_text = trim (join_with [10, 10] reasoningParts),
         hasUnclosedTag = hasUnclosed\<rparr>)"

section \<open>Updating the last message\<close>

definition updateLastAssistantMessage :: "Message list \<Rightarrow> (Message \<Rightarrow> Message) \<Rightarrow> Message list" where
  "updateLastAssistantMessage ms updater =
     (if ms = [] then ms
      else if msg_from (last ms) \<noteq> Assistant then ms
      else butlast ms @ [updater (last ms)])"

definition updateAssistantMessageWithError :: "Message list \<Rightarrow> jstring \<Rightarrow> json option \<Rightarrow> Message list" where
  "updateAssistantMessageWithError ms errorMessage code =
     updateLastAssistantMessage ms
       (\<lambda>message. (updateCurrentVersionContent message (API_REQUEST_ERROR @ js '': '' @ errorMessage))
          \<lparr>msg_status := Some Error, isReasoningStreaming := Some False,
           errorCode := Some (case code of Some c \<Rightarrow> if json_truthy c then c else JNull | None \<Rightarrow> JNull)\<rparr>)"

text \<open>\<open>contentChunk\<close> is empty when missing: both leave the content as it is.\<close>

definition processStreamingContent :: "Message \<Rightarrow> jstring \<Rightarrow> Message" where
  "processStreamingContent message contentChunk =
     (let fullContent = v_content (getCurrentVersion message) @ contentChunk;
          parts = parseThinkTags fullContent in
      (updateCurrentVersionContent message fullContent)
        \<lparr>msg_reasoning :=
           (if reasoning_text parts \<noteq> [] then Some \<lparr>rs_content = reasoning_text parts, rs_duration = Fin 0\<rparr>
            else msg_reasoning message),
         isReasoningStreaming := Some (hasUnclosedTag parts)\<rparr>)"

definition reasoning_content :: "Message \<Rightarrow> jstring" where
  "reasoning_content message = (case msg_reasoning message of Some r \<Rightarrow> rs_content r | None \<Rightarrow> [])"

definition finalizeMessage :: "Message \<Rightarrow> jstring \<Rightarrow> Message" where
  "finalizeMessage message apiReasoningContent =
     (let parts = parseThinkTags (v_content (getCurrentVersion message));
          finalReasoning =
            (if apiReasoningContent \<noteq> [] then apiReasoningContent
             else if reasoning_content message \<noteq> [] then reasoning_content message
             else reasoning_text parts) in
      (updateCurrentVersionContent message (visibleContent parts))
        \<lparr>msg_reasoning :=
           (if finalReasoning \<noteq> []
            then Some \<lparr>rs_content = finalReasoning,
                       rs_duration = (case msg_reasoning message of
                          Some r \<Rightarrow> if num_truthy (rs_duration r) then rs_duration r else Fin 0 | None \<Rightarrow> Fin 0)\<rparr>
            else None),
         isReasoningStreaming := Some False\<rparr>)"

definition pending :: "Message \<Rightarrow> bool" where
  "pending m \<longleftrightarrow> msg_from m = Assistant \<and> (msg_status m = Some Loading \<or> msg_status m = Some Streaming)"

fun last_index :: "('a \<Rightarrow> bool) \<Rightarrow> 'a list \<Rightarrow> nat option" where
  "last_index P [] = None"
| "last_index P (x # xs) =
     (case last_index P xs of Some i \<Rightarrow> Some (Suc i) | None \<Rightarrow> if P x then Some 0 else None)"

definition sanitize_message :: "Message \<Rightarrow> Message" where
  "sanitize_message m =
     (let finalized = finalizeMessage m [] in
      if trim (v_content (getCurrentVersion finalized)) \<noteq> [] \<or> trim (reasoning_content finalized) \<noteq> []
      then finalized\<lparr>msg_status := Some Complete, isReasoningStreaming := Some False\<rparr>
      else (updateCurrentVersionContent finalized (API_REQUEST_ERROR @ js '': '' @ INTERRUPTED))
        \<lparr>msg_status := Some Error, isReasoningStreaming := Some False\<rparr>)"

definition sanitizeMessagesOnLoad :: "Message list \<Rightarrow> Message list" where
  "sanitizeMessagesOnLoad ms =
     (case last_index pending ms of None \<Rightarrow> ms | Some i \<Rightarrow> ms[i := sanitize_message (ms ! i)])"

section \<open>The payload\<close>

definition parameterKeys :: "jstring list" where
  "parameterKeys =
    [js ''temperature'', js ''top_p'', js ''max_tokens'', js ''frequency_penalty'', js ''presence_penalty'', js ''seed'']"

text \<open>A property whose value is undefined is not sent.\<close>

definition sent_field :: "jstring \<Rightarrow> jobject \<Rightarrow> jobject" where
  "sent_field k cfg = (case obj_get k cfg of Some v \<Rightarrow> [(k, v)] | None \<Rightarrow> [])"

definition buildChatCompletionPayload :: "Message list \<Rightarrow> jobject \<Rightarrow> jobject \<Rightarrow> jobject" where
  "buildChatCompletionPayload ms cfg enabled =
     (let processedMessages = map formatMessageForAPI (filter isValidMessage ms) in
      sent_field (js ''model'') cfg @ sent_field (js ''group'') cfg @
      [(js ''messages'', JArr (map JObj processedMessages))] @ sent_field (js ''stream'') cfg @
      concat (map (\<lambda>key.
        if opt_truthy (obj_get key enabled) \<and> obj_get key cfg \<noteq> Some JNull then sent_field key cfg else [])
        parameterKeys))"

section \<open>Separating reasoning from visible text\<close>

lemma starts_with_Cons: "starts_with (c # q) s \<Longrightarrow> s \<noteq> [] \<and> hd s = c"
  by (auto simp: starts_with_iff)

lemma index_of_skip: "c \<notin> set v \<Longrightarrow> index_of (c # q) (v @ (c # q) @ b) = Some (length v)"
proof (induction v)
  case Nil
  then show ?case by (simp add: starts_with_iff)
next
  case (Cons x v)
  then have "\<not> starts_with (c # q) (x # v @ (c # q) @ b)" using starts_with_Cons by fastforce
  then show ?case using Cons by simp
qed

lemma index_of_absent: "c \<notin> set v \<Longrightarrow> index_of (c # q) v = None"
proof (induction v)
  case (Cons x v)
  then have "\<not> starts_with (c # q) (x # v)" using starts_with_Cons by fastforce
  then show ?case using Cons by simp
qed (simp add: starts_with_iff)

definition think_open :: jstring where "think_open = js ''<think>''"
definition think_close :: jstring where "think_close = js ''</think>''"

lemma think_tags: "think_open = 60 # js ''think>''" "think_close = 60 # js ''/think>''"
  "length think_open = 7" "length think_close = 8"
  by (simp_all add: think_open_def think_close_def js_def)

lemma think_loop_segment:
  assumes "60 \<notin> set v" and "60 \<notin> set r"
  shows "think_loop (v @ think_open @ r @ think_close @ rest) =
    (case think_loop rest of (vs, rs, u) \<Rightarrow> ((if v = [] then [] else [v]) @ vs, r # rs, u))"
proof -
  have a: "index_of think_open (v @ think_open @ r @ think_close @ rest) = Some (length v)"
    using index_of_skip [OF assms(1), of "js ''think>''" "r @ think_close @ rest"] by (simp add: think_tags)
  have b: "index_of think_close (r @ think_close @ rest) = Some (length r)"
    using index_of_skip [OF assms(2), of "js ''/think>''" rest] by (simp add: think_tags)
  show ?thesis
    using a b think_tags(3,4)
    by (subst think_loop.simps) (simp add: Let_def split: prod.split flip: think_open_def think_close_def)
qed

lemma think_loop_end:
  assumes "60 \<notin> set w"
  shows "think_loop w = (if w = [] then [] else [w], [], False)"
  using index_of_absent [OF assms, of "js ''think>''"]
  by (subst think_loop.simps) (simp add: think_tags flip: think_open_def)

lemma think_loop_unclosed:
  assumes "60 \<notin> set w" and "60 \<notin> set r"
  shows "think_loop (w @ think_open @ r) = (if w = [] then [] else [w], [r], True)"
proof -
  have a: "index_of think_open (w @ think_open @ r) = Some (length w)"
    using index_of_skip [OF assms(1), of "js ''think>''" r] by (simp add: think_tags)
  have b: "index_of think_close r = None" using index_of_absent [OF assms(2)] by (simp add: think_tags)
  show ?thesis
    using a b think_tags(3)
    by (subst think_loop.simps) (simp add: Let_def flip: think_open_def think_close_def)
qed

text \<open>A response with its reasoning marked: pairs of visible text and reasoning, then the rest.\<close>

fun think_text :: "(jstring \<times> jstring) list \<Rightarrow> jstring \<Rightarrow> jstring" where
  "think_text [] rest = rest"
| "think_text ((v, r) # segs) rest = v @ think_open @ r @ think_close @ think_text segs rest"

definition open_text :: "jstring \<Rightarrow> jstring option \<Rightarrow> jstring" where
  "open_text w unclosed = (case unclosed of None \<Rightarrow> w | Some r \<Rightarrow> w @ think_open @ r)"

lemma think_loop_text:
  assumes "list_all (\<lambda>(v, r). 60 \<notin> set v \<and> 60 \<notin> set r) segs" and "60 \<notin> set w"
    and "case unclosed of None \<Rightarrow> True | Some r \<Rightarrow> 60 \<notin> set r"
  shows "\<exists>vs. think_loop (think_text segs (open_text w unclosed)) =
      (vs, map snd segs @ (case unclosed of None \<Rightarrow> [] | Some r \<Rightarrow> [r]), unclosed \<noteq> None) \<and>
      concat vs = concat (map fst segs) @ w"
  using assms(1)
proof (induction segs)
  case Nil
  then show ?case
    using assms(2,3) think_loop_end think_loop_unclosed by (cases unclosed) (auto simp: open_text_def)
next
  case (Cons seg segs)
  then show ?case by (cases seg) (auto simp: think_loop_segment split: prod.splits)
qed

lemma includes_think_text:
  "segs \<noteq> [] \<or> unclosed \<noteq> None \<Longrightarrow> str_includes think_open (think_text segs (open_text w unclosed))"
  by (cases segs; cases unclosed) (auto simp: includes_iff open_text_def, blast+)

text \<open>
  C37. Reasoning is separated from visible text: of a response whose parts have no markup of their own,
  the visible text is the parts outside the tags in order, and the reasoning the parts inside, an
  unclosed last one included; a tag left open is reported.
\<close>

theorem think_tags_separate:
  assumes "list_all (\<lambda>(v, r). 60 \<notin> set v \<and> 60 \<notin> set r) segs" and "60 \<notin> set w"
    and "case unclosed of None \<Rightarrow> True | Some r \<Rightarrow> 60 \<notin> set r" and "segs \<noteq> [] \<or> unclosed \<noteq> None"
  shows "parseThinkTags (think_text segs (open_text w unclosed)) =
    \<lparr>visibleContent = trim (concat (map fst segs) @ w),
     reasoning_text = trim (join_with [10, 10] (map snd segs @ (case unclosed of None \<Rightarrow> [] | Some r \<Rightarrow> [r]))),
     hasUnclosedTag = (unclosed \<noteq> None)\<rparr>"
  using think_loop_text [OF assms(1-3)] includes_think_text [OF assms(4), of w]
  by (auto simp: parseThinkTags_def simp flip: think_open_def)

theorem think_tags_separate_witness:
  "parseThinkTags (js ''<think>plan</think>Hi <think>more'') =
     \<lparr>visibleContent = js ''Hi'', reasoning_text = js ''plan'' @ [10, 10] @ js ''more'', hasUnclosedTag = True\<rparr>"
proof -
  have "think_text [([], js ''plan'')] (open_text (js ''Hi '') (Some (js ''more''))) = js ''<think>plan</think>Hi <think>more''"
    by (simp add: open_text_def think_open_def think_close_def js_def)
  moreover have "trim (js ''Hi '') = js ''Hi''" by code_simp
  moreover have "trim (join_with [10, 10] [js ''plan'', js ''more'']) = js ''plan'' @ [10, 10] @ js ''more''" by code_simp
  ultimately show ?thesis
    using think_tags_separate [of "[([], js ''plan'')]" "js ''Hi ''" "Some (js ''more'')"] by (simp add: js_def)
qed

section \<open>Streaming\<close>

definition stream_chunks :: "Message \<Rightarrow> jstring list \<Rightarrow> Message" where
  "stream_chunks m chunks = foldl processStreamingContent m chunks"

lemma current_update [simp]:
  "getCurrentVersion (updateCurrentVersionContent m c) = (getCurrentVersion m)\<lparr>v_content := c\<rparr>"
  by (simp add: updateCurrentVersionContent_def getCurrentVersion_def)

lemma current_frame [simp]:
  "getCurrentVersion (m\<lparr>msg_reasoning := r\<rparr>) = getCurrentVersion m"
  "getCurrentVersion (m\<lparr>isReasoningStreaming := b\<rparr>) = getCurrentVersion m"
  "getCurrentVersion (m\<lparr>msg_status := st\<rparr>) = getCurrentVersion m"
  "getCurrentVersion (m\<lparr>errorCode := e\<rparr>) = getCurrentVersion m"
  by (simp_all add: getCurrentVersion_def)

lemma stream_content: "v_content (getCurrentVersion (stream_chunks m cs)) = v_content (getCurrentVersion m) @ concat cs"
  by (induction cs arbitrary: m) (simp_all add: stream_chunks_def processStreamingContent_def Let_def)

lemma finalize_frame:
  assumes "\<exists>v b r. m = m'\<lparr>msg_versions := v, isReasoningStreaming := b, msg_reasoning := r\<rparr>"
    and "getCurrentVersion m = getCurrentVersion m'" and "reasoning_content m = reasoning_content m' \<or>
      reasoning_content m = reasoning_text (parseThinkTags (v_content (getCurrentVersion m))) \<and> reasoning_content m' = []"
    and "\<forall>r. msg_reasoning m = Some r \<longrightarrow> \<not> num_truthy (rs_duration r)" and "\<forall>r. msg_reasoning m' = Some r \<longrightarrow> \<not> num_truthy (rs_duration r)"
  shows "finalizeMessage m [] = finalizeMessage m' []"
proof -
  have d: "(case msg_reasoning x of Some r \<Rightarrow> if num_truthy (rs_duration r) then rs_duration r else Fin 0 | None \<Rightarrow> Fin 0) = Fin 0"
    if "\<forall>r. msg_reasoning x = Some r \<longrightarrow> \<not> num_truthy (rs_duration r)" for x
    using that by (auto split: option.split)
  from assms(1) obtain v b r where m: "m = m'\<lparr>msg_versions := v, isReasoningStreaming := b, msg_reasoning := r\<rparr>" by blast
  show ?thesis
    using assms(2,3) unfolding finalizeMessage_def Let_def d [OF assms(4)] d [OF assms(5)] updateCurrentVersionContent_def assms(2)
    by (auto simp: m)
qed

lemma stream_shape:
  "\<exists>v b r. stream_chunks m cs = m\<lparr>msg_versions := v, isReasoningStreaming := b, msg_reasoning := r\<rparr>"
proof (induction cs rule: rev_induct)
  case Nil
  show ?case unfolding stream_chunks_def by (rule exI [of _ "msg_versions m"], rule exI [of _ "isReasoningStreaming m"], rule exI [of _ "msg_reasoning m"]) simp
next
  case (snoc c cs)
  then obtain v b r where m: "stream_chunks m cs = m\<lparr>msg_versions := v, isReasoningStreaming := b, msg_reasoning := r\<rparr>" by blast
  have s: "stream_chunks m (cs @ [c]) = processStreamingContent (stream_chunks m cs) c" by (simp add: stream_chunks_def)
  show ?case unfolding s m processStreamingContent_def Let_def updateCurrentVersionContent_def by (cases m) auto
qed

lemma stream_current:
  "cs \<noteq> [] \<Longrightarrow> getCurrentVersion (stream_chunks m cs) = (getCurrentVersion m)\<lparr>v_content := v_content (getCurrentVersion m) @ concat cs\<rparr>"
proof (induction cs rule: rev_induct)
  case (snoc c cs)
  then show ?case
    by (cases "cs = []") (auto simp: stream_chunks_def processStreamingContent_def Let_def)
qed simp

lemma stream_duration:
  assumes "\<forall>r. msg_reasoning m = Some r \<longrightarrow> \<not> num_truthy (rs_duration r)"
  shows "\<forall>r. msg_reasoning (stream_chunks m cs) = Some r \<longrightarrow> \<not> num_truthy (rs_duration r)"
proof (induction cs rule: rev_induct)
  case (snoc c cs)
  then show ?case by (auto simp: stream_chunks_def processStreamingContent_def Let_def num_truthy_def)
qed (use assms in \<open>simp add: stream_chunks_def\<close>)

lemma includes_prefix: "str_includes p a \<Longrightarrow> str_includes p (a @ b)"
  by (auto simp: includes_iff) blast

lemma no_think_reasoning: "\<not> str_includes think_open x \<Longrightarrow> reasoning_text (parseThinkTags x) = []"
  by (simp add: parseThinkTags_def flip: think_open_def)

lemma stream_reasoning:
  assumes "msg_reasoning m = None" and "v_content (getCurrentVersion m) = []" and "cs \<noteq> []"
    and "reasoning_text (parseThinkTags (concat cs)) \<noteq> [] \<or> \<not> str_includes think_open (concat cs)"
  shows "reasoning_content (stream_chunks m cs) = reasoning_text (parseThinkTags (concat cs))"
  using assms(3,4)
proof (induction cs rule: rev_induct)
  case (snoc c cs)
  have s: "stream_chunks m (cs @ [c]) = processStreamingContent (stream_chunks m cs) c" by (simp add: stream_chunks_def)
  have f: "v_content (getCurrentVersion (stream_chunks m cs)) @ c = concat (cs @ [c])" using stream_content assms(2) by simp
  show ?case
  proof (cases "reasoning_text (parseThinkTags (concat (cs @ [c]))) = []")
    case True
    then have n: "\<not> str_includes think_open (concat cs)" using snoc.prems includes_prefix by auto
    have "reasoning_content (stream_chunks m cs) = []"
    proof (cases "cs = []")
      case False
      then show ?thesis using snoc.IH n no_think_reasoning by simp
    qed (simp add: stream_chunks_def reasoning_content_def assms(1))
    then show ?thesis unfolding s processStreamingContent_def Let_def f using True by (simp add: reasoning_content_def)
  qed (simp add: s processStreamingContent_def Let_def f reasoning_content_def)
qed simp

text \<open>
  C15. Streaming gives what the whole response gives: however a response is cut into chunks, a
  placeholder that received them and is finalized is the placeholder that received the whole response
  at once, when the response has reasoning or no think tag.
\<close>

theorem stream_equals_whole:
  assumes "msg_reasoning m = None" and "v_content (getCurrentVersion m) = []" and "chunks \<noteq> []"
    and "reasoning_text (parseThinkTags (concat chunks)) \<noteq> [] \<or> \<not> str_includes (js ''<think>'') (concat chunks)"
  shows "finalizeMessage (foldl processStreamingContent m chunks) [] =
    finalizeMessage (updateCurrentVersionContent m (concat chunks)) []"
proof -
  let ?s = "stream_chunks m chunks" and ?w = "updateCurrentVersionContent m (concat chunks)"
  have "\<exists>v b r. ?s = ?w\<lparr>msg_versions := v, isReasoningStreaming := b, msg_reasoning := r\<rparr>"
    using stream_shape [of m chunks] by (simp add: updateCurrentVersionContent_def)
  moreover have c: "getCurrentVersion ?s = getCurrentVersion ?w" using stream_current [OF assms(3)] assms(2) by simp
  moreover have "reasoning_content ?s = reasoning_text (parseThinkTags (v_content (getCurrentVersion ?s)))"
    using stream_reasoning [OF assms(1-3)] assms(4) stream_content [of m chunks] assms(2) by (simp add: think_open_def)
  moreover have "reasoning_content ?w = []" "msg_reasoning ?w = None"
    using assms(1) by (simp_all add: updateCurrentVersionContent_def reasoning_content_def)
  ultimately have "finalizeMessage ?s [] = finalizeMessage ?w []"
    using stream_duration [of m chunks] assms(1) by (intro finalize_frame) auto
  then show ?thesis by (simp add: stream_chunks_def)
qed

definition sample_placeholder :: Message where
  "sample_placeholder = fst (createLoadingAssistantMessage nat_to_js 0)"

theorem stream_equals_whole_witness:
  "finalizeMessage (foldl processStreamingContent sample_placeholder [js ''<thi'', js ''nk>a</th'', js ''ink>b'']) [] =
     finalizeMessage (updateCurrentVersionContent sample_placeholder (js ''<think>a</think>b'')) []"
proof -
  have c: "concat [js ''<thi'', js ''nk>a</th'', js ''ink>b''] = js ''<think>a</think>b''" by (simp add: js_def)
  have "reasoning_text (parseThinkTags (js ''<think>a</think>b'')) = js ''a''" by code_simp
  then show ?thesis
    using stream_equals_whole [of sample_placeholder "[js ''<thi'', js ''nk>a</th'', js ''ink>b'']", unfolded c]
    by (simp add: sample_placeholder_def createLoadingAssistantMessage_def createMessageVersion_def getCurrentVersion_def js_def)
qed

text \<open>
  Without reasoning the chunks matter: a closing tag cut in two, after an empty \<open>think\<close> element,
  leaves the first half of the tag as the reasoning of the message.
\<close>

lemma empty_think_leaks_tag:
  "reasoning_content (finalizeMessage (foldl processStreamingContent sample_placeholder [js ''<think></th'', js ''ink>b'']) []) = js ''</th''"
  "reasoning_content (finalizeMessage (updateCurrentVersionContent sample_placeholder (js ''<think></think>b'')) []) = []"
  by code_simp+

section \<open>Cleaning stored messages\<close>

lemma last_index_Some: "last_index P xs = Some i \<Longrightarrow> i < length xs \<and> P (xs ! i)"
  by (induction xs arbitrary: i) (auto split: option.splits if_splits)

lemma last_index_None: "last_index P xs = None \<longleftrightarrow> list_all (\<lambda>x. \<not> P x) xs"
  by (induction xs) (auto split: option.splits)

lemma filter_update:
  assumes "i < length xs" and "P (xs ! i)" and "\<not> P y"
  shows "length (filter P xs) = Suc (length (filter P (xs[i := y])))"
  using assms by (induction xs arbitrary: i) (auto simp: nth_Cons split: nat.splits)

lemma sanitize_message_settled: "\<not> pending (sanitize_message m)" "msg_key (sanitize_message m) = msg_key m"
  by (auto simp: pending_def sanitize_message_def finalizeMessage_def updateCurrentVersionContent_def Let_def)

text \<open>What becomes of a message that was left: with text or reasoning it is complete, otherwise an error.\<close>

lemma sanitize_message_result:
  "let f = finalizeMessage m [] in
   if trim (v_content (getCurrentVersion f)) \<noteq> [] \<or> trim (reasoning_content f) \<noteq> []
   then msg_status (sanitize_message m) = Some Complete \<and> msg_versions (sanitize_message m) = msg_versions f \<and>
     msg_reasoning (sanitize_message m) = msg_reasoning f
   else msg_status (sanitize_message m) = Some Error \<and>
     v_content (getCurrentVersion (sanitize_message m)) = API_REQUEST_ERROR @ js '': '' @ INTERRUPTED"
  by (auto simp: sanitize_message_def Let_def updateCurrentVersionContent_def getCurrentVersion_def)

lemma last_index_after: "last_index P xs = Some i \<Longrightarrow> list_all (\<lambda>x. \<not> P x) (drop (Suc i) xs)"
  by (induction xs arbitrary: i) (auto simp: last_index_None split: option.splits if_splits)

text \<open>
  Cleaning stored messages settles one message that was left loading or streaming, the last one,
  and touches no other; so when at most one was left, none is after it.
\<close>

theorem sanitize_settles_last:
  "length (filter pending (sanitizeMessagesOnLoad ms)) = length (filter pending ms) - 1 \<and>
   map msg_key (sanitizeMessagesOnLoad ms) = map msg_key ms \<and>
   (\<exists>i m. sanitizeMessagesOnLoad ms = ms[i := m] \<and> list_all (\<lambda>x. \<not> pending x) (drop i (sanitizeMessagesOnLoad ms)))"

proof (cases "last_index pending ms")
  case None
  then have "list_all (\<lambda>x. \<not> pending x) ms" by (simp add: last_index_None)
  moreover from this have "filter pending ms = []" by (induction ms) auto
  moreover have "sanitizeMessagesOnLoad ms = ms" using None by (simp add: sanitizeMessagesOnLoad_def)
  ultimately show ?thesis
    by (intro conjI exI [of _ "length ms"] exI [of _ "hd ms"]) (simp_all add: list_update_beyond)
next
  case (Some i)
  note i = last_index_Some [OF Some]
  let ?m = "sanitize_message (ms ! i)"
  have s: "sanitizeMessagesOnLoad ms = ms[i := ?m]" using Some by (simp add: sanitizeMessagesOnLoad_def)
  have "list_all (\<lambda>x. \<not> pending x) (drop i (ms[i := ?m]))"
    using i last_index_after [OF Some] sanitize_message_settled(1) [of "ms ! i"] by (simp add: upd_conv_take_nth_drop)
  moreover have "map msg_key (ms[i := ?m]) = map msg_key ms"
    using i sanitize_message_settled(2) [of "ms ! i"] by (simp add: map_update) (metis list_update_id length_map nth_map)
  ultimately show ?thesis
    using filter_update [of i ms pending ?m] i sanitize_message_settled(1) [of "ms ! i"] unfolding s by fastforce
qed

end
