(* ===== verification/Playground_Chat.thy ===== *)
theory Playground_Chat
  imports Playground_Messages
begin

text \<open>
  The playground page as a machine: \<open>lib/storage.ts\<close>, \<open>hooks/use-playground-state.ts\<close>,
  \<open>hooks/use-stream-request.ts\<close>, \<open>hooks/use-chat-handler.ts\<close>, \<open>hooks/use-message-action-guard.ts\<close>
  and \<open>index.tsx\<close> under \<open>src/web/default/src/features/playground\<close>.

  The event source (\<open>sse.js\<close>) and the HTTP client are the environment: an open source may deliver any
  event at any time, a closed one none, and a request may be answered in any way its type allows.
  A callback sees the state of the last render, which is the state after the previous event.
\<close>

section \<open>Storage\<close>

text \<open>The items of the local storage; writing throws when it is full.\<close>

record storage =
  items :: "jstring \<Rightarrow> jstring option"
  full :: bool

definition STORAGE_CONFIG :: jstring where "STORAGE_CONFIG = js ''playground_config''"
definition STORAGE_MESSAGES :: jstring where "STORAGE_MESSAGES = js ''playground_messages''"
definition STORAGE_ENABLED :: jstring where "STORAGE_ENABLED = js ''playground_parameter_enabled''"

definition setItem :: "jstring \<Rightarrow> jstring \<Rightarrow> storage \<Rightarrow> storage" where
  "setItem k v st = (if full st then st else st\<lparr>items := (items st)(k := Some v)\<rparr>)"

definition removeItem :: "jstring \<Rightarrow> storage \<Rightarrow> storage" where
  "removeItem k st = st\<lparr>items := (items st)(k := None)\<rparr>"

definition load_object :: "jstring \<Rightarrow> storage \<Rightarrow> json" where
  "load_object k st =
     (case items st k of
        Some saved \<Rightarrow> if saved = [] then JObj [] else (case JSON_parse saved of Some v \<Rightarrow> v | None \<Rightarrow> JObj [])
      | None \<Rightarrow> JObj [])"

definition loadConfig :: "storage \<Rightarrow> json" where
  "loadConfig st = load_object STORAGE_CONFIG st"

definition saveConfig :: "jobject \<Rightarrow> storage \<Rightarrow> storage" where
  "saveConfig cfg st = setItem STORAGE_CONFIG (JSON_stringify (JObj cfg)) st"

definition loadParameterEnabled :: "storage \<Rightarrow> json" where
  "loadParameterEnabled st = load_object STORAGE_ENABLED st"

definition saveParameterEnabled :: "jobject \<Rightarrow> storage \<Rightarrow> storage" where
  "saveParameterEnabled enabled st = setItem STORAGE_ENABLED (JSON_stringify (JObj enabled)) st"

text \<open>What \<open>JSON.stringify\<close> makes of a message: undefined fields are left out.\<close>

definition opt_bool :: "bool option \<Rightarrow> json" where
  "opt_bool b = (case b of Some x \<Rightarrow> JBool x | None \<Rightarrow> JNull)"

definition version_json :: "MessageVersion \<Rightarrow> json" where
  "version_json v = JObj [(js ''id'', JStr (v_id v)), (js ''content'', JStr (v_content v))]"

definition source_json :: "jstring \<times> jstring \<Rightarrow> json" where
  "source_json x = JObj [(js ''href'', JStr (fst x)), (js ''title'', JStr (snd x))]"

definition message_fields :: "Message \<Rightarrow> jobject" where
  "message_fields m = assign_fields
     [(True, js ''key'', JStr (msg_key m)),
      (True, js ''from'', JStr (MESSAGE_ROLES (msg_from m))),
      (True, js ''versions'', JArr (map version_json (msg_versions m))),
      (msg_sources m \<noteq> None, js ''sources'', JArr (map source_json (case msg_sources m of Some xs \<Rightarrow> xs | None \<Rightarrow> []))),
      (msg_reasoning m \<noteq> None, js ''reasoning'',
        (case msg_reasoning m of
           Some r \<Rightarrow> JObj [(js ''content'', JStr (rs_content r)), (js ''duration'', JNum (rs_duration r))]
         | None \<Rightarrow> JNull)),
      (isReasoningComplete m \<noteq> None, js ''isReasoningComplete'', opt_bool (isReasoningComplete m)),
      (isContentComplete m \<noteq> None, js ''isContentComplete'', opt_bool (isContentComplete m)),
      (isReasoningStreaming m \<noteq> None, js ''isReasoningStreaming'', opt_bool (isReasoningStreaming m)),
      (msg_status m \<noteq> None, js ''status'', JStr (case msg_status m of Some st \<Rightarrow> MESSAGE_STATUS st | None \<Rightarrow> [])),
      (errorCode m \<noteq> None, js ''errorCode'', (case errorCode m of Some c \<Rightarrow> c | None \<Rightarrow> JNull))]"

definition message_json :: "Message \<Rightarrow> json" where
  "message_json m = JObj (message_fields m)"

text \<open>The message that a stored value is; \<open>None\<close> when it is not one, which the source does not check.\<close>

definition opt_field :: "(json \<Rightarrow> 'a option) \<Rightarrow> json option \<Rightarrow> 'a option option" where
  "opt_field f v = (case v of None \<Rightarrow> Some None | Some x \<Rightarrow> map_option Some (f x))"

definition as_string :: "json option \<Rightarrow> jstring option" where
  "as_string v = (case v of Some (JStr s) \<Rightarrow> Some s | _ \<Rightarrow> None)"

definition as_bool :: "json \<Rightarrow> bool option" where
  "as_bool v = (case v of JBool b \<Rightarrow> Some b | _ \<Rightarrow> None)"

definition as_role :: "json option \<Rightarrow> MessageRole option" where
  "as_role v = find (\<lambda>r. v = Some (JStr (MESSAGE_ROLES r))) [User, Assistant, System]"

definition as_status :: "json \<Rightarrow> MessageStatus option" where
  "as_status v = find (\<lambda>r. v = JStr (MESSAGE_STATUS r)) [Loading, Streaming, Complete, Error]"

definition as_list :: "(json \<Rightarrow> 'a option) \<Rightarrow> json \<Rightarrow> 'a list option" where
  "as_list f v = (case v of JArr vs \<Rightarrow> those (map f vs) | _ \<Rightarrow> None)"

definition as_version :: "json \<Rightarrow> MessageVersion option" where
  "as_version v =
     (case v of
        JObj kvs \<Rightarrow>
          (case (as_string (obj_get (js ''id'') kvs), as_string (obj_get (js ''content'') kvs)) of
             (Some i, Some c) \<Rightarrow> Some \<lparr>v_id = i, v_content = c\<rparr> | _ \<Rightarrow> None)
      | _ \<Rightarrow> None)"

definition as_source :: "json \<Rightarrow> (jstring \<times> jstring) option" where
  "as_source v =
     (case v of
        JObj kvs \<Rightarrow>
          (case (as_string (obj_get (js ''href'') kvs), as_string (obj_get (js ''title'') kvs)) of
             (Some h, Some t) \<Rightarrow> Some (h, t) | _ \<Rightarrow> None)
      | _ \<Rightarrow> None)"

definition as_reasoning :: "json \<Rightarrow> Reasoning option" where
  "as_reasoning v =
     (case v of
        JObj kvs \<Rightarrow>
          (case (as_string (obj_get (js ''content'') kvs), obj_get (js ''duration'') kvs) of
             (Some c, Some (JNum d)) \<Rightarrow> Some \<lparr>rs_content = c, rs_duration = d\<rparr> | _ \<Rightarrow> None)
      | _ \<Rightarrow> None)"

definition message_of_json :: "json \<Rightarrow> Message option" where
  "message_of_json v =
     (case v of
        JObj kvs \<Rightarrow>
          (case (as_string (obj_get (js ''key'') kvs), as_role (obj_get (js ''from'') kvs),
                 Option.bind (obj_get (js ''versions'') kvs) (as_list as_version),
                 opt_field (as_list as_source) (obj_get (js ''sources'') kvs),
                 opt_field as_reasoning (obj_get (js ''reasoning'') kvs),
                 opt_field as_bool (obj_get (js ''isReasoningStreaming'') kvs),
                 opt_field as_bool (obj_get (js ''isReasoningComplete'') kvs),
                 opt_field as_bool (obj_get (js ''isContentComplete'') kvs),
                 opt_field as_status (obj_get (js ''status'') kvs)) of
             (Some k, Some r, Some vs, Some ss, Some rs, Some a, Some b, Some c, Some st) \<Rightarrow>
               Some \<lparr>msg_key = k, msg_from = r, msg_versions = vs, msg_sources = ss, msg_reasoning = rs,
                     isReasoningStreaming = a, isReasoningComplete = b, isContentComplete = c, msg_status = st,
                     errorCode = obj_get (js ''errorCode'') kvs\<rparr>
           | _ \<Rightarrow> None)
      | _ \<Rightarrow> None)"

definition saveMessages :: "Message list \<Rightarrow> storage \<Rightarrow> storage" where
  "saveMessages ms st = setItem STORAGE_MESSAGES (JSON_stringify (JArr (map message_json ms))) st"

text \<open>\<open>Unchecked\<close>: the stored array has an entry that is not a message, which the source uses as one.\<close>

datatype loaded = NoMessages | Loaded "Message list" | Unchecked

definition loadMessages :: "storage \<Rightarrow> loaded \<times> storage" where
  "loadMessages st =
     (case items st STORAGE_MESSAGES of
        None \<Rightarrow> (NoMessages, st)
      | Some saved \<Rightarrow>
          if saved = [] then (NoMessages, st)
          else case JSON_parse saved of
            None \<Rightarrow> (NoMessages, st)
          | Some (JArr vs) \<Rightarrow>
              (case those (map message_of_json vs) of
                 None \<Rightarrow> (Unchecked, st)
               | Some ms \<Rightarrow>
                   let sanitized = sanitizeMessagesOnLoad ms in
                   (Loaded sanitized, if last_index pending ms = None then st else saveMessages sanitized st))
          | Some _ \<Rightarrow> (NoMessages, removeItem STORAGE_MESSAGES st))"

definition clearPlaygroundData :: "storage \<Rightarrow> storage" where
  "clearPlaygroundData st = removeItem STORAGE_MESSAGES (removeItem STORAGE_ENABLED (removeItem STORAGE_CONFIG st))"

section \<open>State of the page\<close>

record ModelOption =
  mo_label :: jstring
  mo_value :: jstring

record GroupOption =
  go_label :: jstring
  go_value :: jstring
  go_ratio :: jnum
  go_desc :: "jstring option"

text \<open>
  The state variables of the hooks and of the page, the references of the stream hook, and what the
  environment sees: the open sources, the requests sent, the requests without a source that are not
  answered, and the messages shown.
\<close>

record playground =
  config :: jobject
  parameterEnabled :: jobject
  messages :: "Message list"
  models :: "ModelOption list"
  groups :: "GroupOption list"
  editingMessageKey :: "jstring option"
  storage :: storage
  sseSource :: "nat option"
  isStreamComplete :: bool
  openSources :: "nat list"
  sourceCount :: nat
  nanoCount :: nat
  requests :: "jobject list"
  openPosts :: nat
  shown :: "jstring list"

definition usePlaygroundState :: "nat \<Rightarrow> storage \<Rightarrow> playground option" where
  "usePlaygroundState n st =
     (let (l, st') = loadMessages st;
          page = (\<lambda>ms. \<lparr>config = obj_of (DEFAULT_CONFIG @ spread (loadConfig st)),
            parameterEnabled = obj_of (DEFAULT_PARAMETER_ENABLED @ spread (loadParameterEnabled st)),
            messages = ms, models = [], groups = [], editingMessageKey = None, storage = st', sseSource = None,
            isStreamComplete = False, openSources = [], sourceCount = 0, nanoCount = n, requests = [], openPosts = 0,
            shown = []\<rparr>) in
      case l of NoMessages \<Rightarrow> Some (page []) | Loaded ms \<Rightarrow> Some (page ms) | Unchecked \<Rightarrow> None)"

definition updateConfig :: "jstring \<Rightarrow> json \<Rightarrow> playground \<Rightarrow> playground" where
  "updateConfig key value s =
     (let updated = obj_put key value (config s) in
      s\<lparr>config := updated, storage := saveConfig updated (storage s)\<rparr>)"

definition updateParameterEnabled :: "jstring \<Rightarrow> bool \<Rightarrow> playground \<Rightarrow> playground" where
  "updateParameterEnabled key value s =
     (let updated = obj_put key (JBool value) (parameterEnabled s) in
      s\<lparr>parameterEnabled := updated, storage := saveParameterEnabled updated (storage s)\<rparr>)"

definition updateMessages :: "(Message list \<Rightarrow> Message list) \<Rightarrow> playground \<Rightarrow> playground" where
  "updateMessages updater s =
     (let newMessages = updater (messages s) in
      s\<lparr>messages := newMessages, storage := saveMessages newMessages (storage s)\<rparr>)"

definition clearMessages :: "playground \<Rightarrow> playground" where
  "clearMessages s = updateMessages (\<lambda>_. []) s"

definition resetConfig :: "playground \<Rightarrow> playground" where
  "resetConfig s =
     s\<lparr>config := DEFAULT_CONFIG, parameterEnabled := DEFAULT_PARAMETER_ENABLED,
       storage := saveParameterEnabled DEFAULT_PARAMETER_ENABLED (saveConfig DEFAULT_CONFIG (storage s))\<rparr>"

section \<open>Stream callbacks of the chat handler\<close>

definition toast_error :: "jstring \<Rightarrow> playground \<Rightarrow> playground" where
  "toast_error x s = s\<lparr>shown := shown s @ [x]\<rparr>"

datatype update_type = ReasoningChunk | ContentChunk

definition stream_update :: "update_type \<Rightarrow> jstring \<Rightarrow> Message \<Rightarrow> Message" where
  "stream_update type chunk message =
     (if msg_status message = Some Error then message
      else case type of
        ReasoningChunk \<Rightarrow>
          message\<lparr>msg_reasoning := Some \<lparr>rs_content = reasoning_content message @ chunk, rs_duration = Fin 0\<rparr>,
                  isReasoningStreaming := Some True, msg_status := Some Streaming\<rparr>
      | ContentChunk \<Rightarrow> (processStreamingContent message chunk)\<lparr>msg_status := Some Streaming\<rparr>)"

definition handleStreamUpdate :: "update_type \<Rightarrow> jstring \<Rightarrow> playground \<Rightarrow> playground" where
  "handleStreamUpdate type chunk s =
     updateMessages (\<lambda>prev. updateLastAssistantMessage prev (stream_update type chunk)) s"

definition stream_complete :: "Message \<Rightarrow> Message" where
  "stream_complete message =
     (if msg_status message = Some Complete \<or> msg_status message = Some Error then message
      else (finalizeMessage message [])\<lparr>msg_status := Some Complete\<rparr>)"

definition handleStreamComplete :: "playground \<Rightarrow> playground" where
  "handleStreamComplete s = updateMessages (\<lambda>prev. updateLastAssistantMessage prev stream_complete) s"

definition handleStreamError :: "jstring \<Rightarrow> json option \<Rightarrow> playground \<Rightarrow> playground" where
  "handleStreamError err code s =
     updateMessages (\<lambda>prev. updateAssistantMessageWithError prev err code) (toast_error err s)"

section \<open>The stream request\<close>

definition closeSource :: "nat \<Rightarrow> playground \<Rightarrow> playground" where
  "closeSource i s = s\<lparr>openSources := removeAll i (openSources s), sseSource := None\<rparr>"

definition handleError :: "nat \<Rightarrow> jstring \<Rightarrow> json option \<Rightarrow> playground \<Rightarrow> playground" where
  "handleError i errorMessage code s =
     (if isStreamComplete s then s else closeSource i (handleStreamError errorMessage code s))"

text \<open>A property of a value that is neither null nor undefined.\<close>

definition json_prop :: "jstring \<Rightarrow> json \<Rightarrow> json option" where
  "json_prop k v = (case v of JObj kvs \<Rightarrow> obj_get k kvs | _ \<Rightarrow> None)"

definition json_first :: "json \<Rightarrow> json option" where
  "json_first v =
     (case v of JArr (x # _) \<Rightarrow> Some x | JObj kvs \<Rightarrow> obj_get (js ''0'') kvs | JStr (c # _) \<Rightarrow> Some (JStr [c]) | _ \<Rightarrow> None)"

text \<open>\<open>x?.f\<close>.\<close>

definition opt_chain :: "json option \<Rightarrow> (json \<Rightarrow> json option) \<Rightarrow> json option" where
  "opt_chain x f = (case x of None \<Rightarrow> None | Some JNull \<Rightarrow> None | Some v \<Rightarrow> f v)"

definition truthy_text :: "json option \<Rightarrow> jstring option" where
  "truthy_text v = (case v of Some x \<Rightarrow> if json_truthy x then Some (json_to_str x) else None | None \<Rightarrow> None)"

text \<open>
  The reasoning and the content of a chunk; \<open>None\<close> when reading it throws. They are only appended to
  strings, so a value that is not a string counts as its text.
\<close>

definition chunk_delta :: "jstring \<Rightarrow> (jstring option \<times> jstring option) option" where
  "chunk_delta data =
     (case JSON_parse data of
        None \<Rightarrow> None
      | Some JNull \<Rightarrow> None
      | Some chunk \<Rightarrow>
          let delta = opt_chain (opt_chain (json_prop (js ''choices'') chunk) json_first) (json_prop (js ''delta'')) in
          (case delta of
             Some d \<Rightarrow>
               if json_truthy d
               then Some (truthy_text (json_prop (js ''reasoning_content'') d), truthy_text (json_prop (js ''content'') d))
               else Some (None, None)
           | None \<Rightarrow> Some (None, None)))"

definition send_update :: "update_type \<Rightarrow> jstring option \<Rightarrow> playground \<Rightarrow> playground" where
  "send_update type chunk s = (case chunk of Some c \<Rightarrow> handleStreamUpdate type c s | None \<Rightarrow> s)"

definition on_message :: "nat \<Rightarrow> jstring \<Rightarrow> playground \<Rightarrow> playground" where
  "on_message i data s =
     (if data = js ''[DONE]'' then handleStreamComplete (closeSource i (s\<lparr>isStreamComplete := True\<rparr>))
      else case chunk_delta data of
        None \<Rightarrow> handleError i PARSE_ERROR None s
      | Some (reasoning, content) \<Rightarrow> send_update ContentChunk content (send_update ReasoningChunk reasoning s))"

text \<open>The message and the code of an error event.\<close>

definition error_details :: "jstring option \<Rightarrow> jstring \<times> json option" where
  "error_details data =
     (case data of
        None \<Rightarrow> (API_REQUEST_ERROR, None)
      | Some d \<Rightarrow>
          if d = [] then (API_REQUEST_ERROR, None)
          else case opt_chain (JSON_parse d) (json_prop (js ''error'')) of
            Some e \<Rightarrow>
              if json_truthy e
              then ((case truthy_text (json_prop (js ''message'') e) of Some m \<Rightarrow> m | None \<Rightarrow> d),
                    (case json_prop (js ''code'') e of Some c \<Rightarrow> if json_truthy c then Some c else None | None \<Rightarrow> None))
              else (d, None)
          | None \<Rightarrow> (d, None))"

definition on_error :: "nat \<Rightarrow> nat \<Rightarrow> jstring option \<Rightarrow> playground \<Rightarrow> playground" where
  "on_error i readyState data s =
     (if readyState \<noteq> 2 then let (m, c) = error_details data in handleError i m c s else s)"

definition on_readystatechange :: "nat \<Rightarrow> nat option \<Rightarrow> nat option \<Rightarrow> playground \<Rightarrow> playground" where
  "on_readystatechange i readyState status s =
     (case (readyState, status) of
        (Some r, Some st) \<Rightarrow>
          if r \<ge> 2 \<and> st \<noteq> 200 then handleError i (js ''HTTP '' @ nat_to_js st @ js '': '' @ CONNECTION_CLOSED) None s else s
      | _ \<Rightarrow> s)"

text \<open>\<open>starts\<close>: whether starting the stream does not throw.\<close>

definition sendStreamRequest :: "bool \<Rightarrow> jobject \<Rightarrow> playground \<Rightarrow> playground" where
  "sendStreamRequest starts payload s =
     (let i = sourceCount s;
          s1 = s\<lparr>sseSource := Some i, isStreamComplete := False, openSources := openSources s @ [i],
                 sourceCount := i + 1, requests := requests s @ [payload]\<rparr> in
      if starts then s1
      else (handleStreamError STREAM_START_ERROR None s1)\<lparr>sseSource := None, openSources := openSources s\<rparr>)"

definition stopStream :: "playground \<Rightarrow> playground" where
  "stopStream s =
     (case sseSource s of None \<Rightarrow> s
      | Some i \<Rightarrow> s\<lparr>openSources := removeAll i (openSources s), sseSource := None\<rparr>)"

definition isStreaming :: "playground \<Rightarrow> bool" where
  "isStreaming s \<longleftrightarrow> sseSource s \<noteq> None"

section \<open>Sending\<close>

definition sendStreamingChat :: "bool \<Rightarrow> Message list \<Rightarrow> playground \<Rightarrow> playground" where
  "sendStreamingChat starts ms s =
     sendStreamRequest starts (buildChatCompletionPayload ms (config s) (parameterEnabled s)) s"

text \<open>The part before the answer, and the answer: the first choice's content and reasoning, or an error.\<close>

definition sendNonStreamingChat :: "Message list \<Rightarrow> playground \<Rightarrow> playground" where
  "sendNonStreamingChat ms s =
     s\<lparr>requests := requests s @ [buildChatCompletionPayload ms (config s) (parameterEnabled s)],
       openPosts := openPosts s + 1\<rparr>"

text \<open>A missing identifier is the empty text.\<close>

definition set_first_version :: "jstring \<Rightarrow> Message \<Rightarrow> Message" where
  "set_first_version content m =
     m\<lparr>msg_versions :=
        [case msg_versions m of v # _ \<Rightarrow> v\<lparr>v_content := content\<rparr> | [] \<Rightarrow> \<lparr>v_id = [], v_content = content\<rparr>]\<rparr>"

definition post_answered :: "(jstring \<times> jstring) list \<Rightarrow> playground \<Rightarrow> playground" where
  "post_answered choices s =
     (case choices of
        [] \<Rightarrow> s
      | (content, apiReasoning) # _ \<Rightarrow>
          updateMessages (\<lambda>prev. updateLastAssistantMessage prev
            (\<lambda>message. (finalizeMessage (set_first_version content message) apiReasoning)\<lparr>msg_status := Some Complete\<rparr>)) s)"

text \<open>The texts that may be missing are empty.\<close>

definition post_failed :: "jstring \<Rightarrow> jstring \<Rightarrow> json option \<Rightarrow> playground \<Rightarrow> playground" where
  "post_failed dataMessage errMessage code s =
     handleStreamError
       (if dataMessage \<noteq> [] then dataMessage else if errMessage \<noteq> [] then errMessage else API_REQUEST_ERROR) code s"

definition sendChat :: "bool \<Rightarrow> Message list \<Rightarrow> playground \<Rightarrow> playground" where
  "sendChat starts ms s =
     (if opt_truthy (obj_get (js ''stream'') (config s)) then sendStreamingChat starts ms s
      else sendNonStreamingChat ms s)"

definition stop_message :: "Message \<Rightarrow> Message" where
  "stop_message message =
     (if msg_status message = Some Loading \<or> msg_status message = Some Streaming
      then (finalizeMessage message [])\<lparr>msg_status := Some Complete\<rparr> else message)"

definition stopGeneration :: "playground \<Rightarrow> playground" where
  "stopGeneration s = updateMessages (\<lambda>prev. updateLastAssistantMessage prev stop_message) (stopStream s)"

section \<open>The page\<close>

definition models_effect :: "ModelOption list option \<Rightarrow> playground \<Rightarrow> playground" where
  "models_effect modelsData s =
     (case modelsData of None \<Rightarrow> s
      | Some ms \<Rightarrow>
          let s1 = s\<lparr>models := ms\<rparr> in
          if ms \<noteq> [] \<and> \<not> list_ex (\<lambda>m. obj_get (js ''model'') (config s) = Some (JStr (mo_value m))) ms
          then updateConfig (js ''model'') (JStr (mo_value (hd ms))) s1 else s1)"

definition groups_effect :: "GroupOption list option \<Rightarrow> playground \<Rightarrow> playground" where
  "groups_effect groupsData s =
     (case groupsData of None \<Rightarrow> s
      | Some gs \<Rightarrow>
          let s1 = s\<lparr>groups := gs\<rparr> in
          if gs \<noteq> [] \<and> \<not> list_ex (\<lambda>g. obj_get (js ''group'') (config s) = Some (JStr (go_value g))) gs
          then updateConfig (js ''group'')
            (JStr (case find (\<lambda>g. go_value g = js ''default'') gs of Some g \<Rightarrow> go_value g | None \<Rightarrow> go_value (hd gs))) s1
          else s1)"

definition handleSendMessage :: "nano \<Rightarrow> bool \<Rightarrow> jstring \<Rightarrow> playground \<Rightarrow> playground" where
  "handleSendMessage nano starts txt s =
     (let (userMessage, n1) = createUserMessage nano (nanoCount s) txt;
          (assistantMessage, n2) = createLoadingAssistantMessage nano n1;
          newMessages = messages s @ [userMessage, assistantMessage] in
      sendChat starts newMessages (updateMessages (\<lambda>_. newMessages) (s\<lparr>nanoCount := n2\<rparr>)))"

definition handleRegenerateMessage :: "nano \<Rightarrow> bool \<Rightarrow> jstring \<Rightarrow> playground \<Rightarrow> playground" where
  "handleRegenerateMessage nano starts key s =
     (case find_index (\<lambda>m. msg_key m = key) (messages s) of
        None \<Rightarrow> s
      | Some messageIndex \<Rightarrow>
          let (loadingMessage, n) = createLoadingAssistantMessage nano (nanoCount s);
              newMessages = take messageIndex (messages s) @ [loadingMessage] in
          sendChat starts newMessages (updateMessages (\<lambda>_. newMessages) (s\<lparr>nanoCount := n\<rparr>)))"

definition handleEditMessage :: "jstring \<Rightarrow> playground \<Rightarrow> playground" where
  "handleEditMessage key s = s\<lparr>editingMessageKey := Some key\<rparr>"

definition handleEditOpenChange :: "bool \<Rightarrow> playground \<Rightarrow> playground" where
  "handleEditOpenChange opened s = (if \<not> opened then s\<lparr>editingMessageKey := None\<rparr> else s)"

definition applyEdit :: "nano \<Rightarrow> bool \<Rightarrow> jstring \<Rightarrow> bool \<Rightarrow> playground \<Rightarrow> playground" where
  "applyEdit nano starts newContent submit s =
     (case editingMessageKey s of
        None \<Rightarrow> s
      | Some key \<Rightarrow>
          if key = [] then s
          else case find_index (\<lambda>m. msg_key m = key) (messages s) of
            None \<Rightarrow> s
          | Some index \<Rightarrow>
              let updated = map (\<lambda>m. if msg_key m = key then set_first_version newContent m else m) (messages s);
                  s1 = s\<lparr>editingMessageKey := None\<rparr> in
              if \<not> submit \<or> msg_from (updated ! index) \<noteq> User then updateMessages (\<lambda>_. updated) s1
              else
                let (loadingMessage, n) = createLoadingAssistantMessage nano (nanoCount s);
                    toSubmit = take (index + 1) updated @ [loadingMessage] in
                sendChat starts toSubmit (updateMessages (\<lambda>_. toSubmit) (s1\<lparr>nanoCount := n\<rparr>)))"

definition handleDeleteMessage :: "jstring \<Rightarrow> playground \<Rightarrow> playground" where
  "handleDeleteMessage key s = updateMessages (filter (\<lambda>m. msg_key m \<noteq> key)) s"

text \<open>\<open>guardAction\<close> runs the action only when nothing is being generated.\<close>

definition WAIT_GENERATION :: jstring where
  "WAIT_GENERATION = js ''Please wait for the current generation to complete''"

definition guardAction :: "(playground \<Rightarrow> playground) \<Rightarrow> playground \<Rightarrow> playground" where
  "guardAction action s = (if isStreaming s then toast_error WAIT_GENERATION s else action s)"

section \<open>Events\<close>

text \<open>
  \<open>Submit\<close> is the form of the input, which does nothing while it is disabled or empty; \<open>Suggest\<close> is
  a click on a suggestion, which has no such test, as has the button of an edit.
\<close>

datatype playground_event =
    Submit bool jstring | Suggest bool jstring | Stop | Regenerate bool jstring | EditStart jstring
  | EditCancel | ApplyEdit bool jstring bool | Delete jstring | SetModel jstring | SetGroup jstring
  | ModelsLoaded "ModelOption list" | GroupsLoaded "GroupOption list"
  | SseMessage nat jstring | SseError nat nat "jstring option" | SseReady nat "nat option" "nat option"
  | PostAnswered "(jstring \<times> jstring) list" | PostFailed jstring jstring "json option"

text \<open>The effects run again when the model or the group changes; before the data is loaded the lists are empty.\<close>

definition handleSubmit :: "nano \<Rightarrow> bool \<Rightarrow> jstring \<Rightarrow> playground \<Rightarrow> playground" where
  "handleSubmit nano starts txt s =
     (if trim txt = [] \<or> isStreaming s then s else handleSendMessage nano starts txt s)"

fun react :: "nano \<Rightarrow> playground_event \<Rightarrow> playground \<Rightarrow> playground" where
  "react nano (Submit starts txt) s = handleSubmit nano starts txt s"
| "react nano (Suggest starts txt) s = handleSendMessage nano starts txt s"
| "react nano Stop s = stopGeneration s"
| "react nano (Regenerate starts key) s = guardAction (handleRegenerateMessage nano starts key) s"
| "react nano (EditStart key) s = guardAction (handleEditMessage key) s"
| "react nano EditCancel s = handleEditOpenChange False s"
| "react nano (ApplyEdit starts txt submit) s = applyEdit nano starts txt submit s"
| "react nano (Delete key) s = guardAction (handleDeleteMessage key) s"
| "react nano (SetModel v) s = models_effect (Some (models s)) (updateConfig (js ''model'') (JStr v) s)"
| "react nano (SetGroup v) s = groups_effect (Some (groups s)) (updateConfig (js ''group'') (JStr v) s)"
| "react nano (ModelsLoaded ms) s = models_effect (Some ms) s"
| "react nano (GroupsLoaded gs) s = groups_effect (Some gs) s"
| "react nano (SseMessage i data) s = on_message i data s"
| "react nano (SseError i r data) s = on_error i r data s"
| "react nano (SseReady i r st) s = on_readystatechange i r st s"
| "react nano (PostAnswered choices) s = post_answered choices (s\<lparr>openPosts := openPosts s - 1\<rparr>)"
| "react nano (PostFailed d e code) s = post_failed d e code (s\<lparr>openPosts := openPosts s - 1\<rparr>)"

text \<open>What the environment and the interface can do: the stop button shows while generating.\<close>

fun possible :: "playground_event \<Rightarrow> playground \<Rightarrow> bool" where
  "possible (SseMessage i data) s \<longleftrightarrow> i \<in> set (openSources s)"
| "possible (SseError i r data) s \<longleftrightarrow> i \<in> set (openSources s)"
| "possible (SseReady i r st) s \<longleftrightarrow> i \<in> set (openSources s)"
| "possible (PostAnswered choices) s \<longleftrightarrow> openPosts s > 0"
| "possible (PostFailed d e code) s \<longleftrightarrow> openPosts s > 0"
| "possible Stop s \<longleftrightarrow> isStreaming s"
| "possible _ s \<longleftrightarrow> True"

text \<open>The events without a test of their own, kept to the times the tested ones are.\<close>

fun orderly :: "playground_event \<Rightarrow> playground \<Rightarrow> bool" where
  "orderly (Suggest starts txt) s \<longleftrightarrow> \<not> isStreaming s"
| "orderly (ApplyEdit starts txt submit) s \<longleftrightarrow> \<not> isStreaming s"
| "orderly _ s \<longleftrightarrow> True"

inductive playground_step :: "nano \<Rightarrow> playground \<Rightarrow> playground \<Rightarrow> bool" for nano where
  "possible e s \<Longrightarrow> playground_step nano s (react nano e s)"

inductive orderly_step :: "nano \<Rightarrow> playground \<Rightarrow> playground \<Rightarrow> bool" for nano where
  "possible e s \<Longrightarrow> orderly e s \<Longrightarrow> orderly_step nano s (react nano e s)"

section \<open>What each update keeps\<close>

lemma updateMessages_fields [simp]:
  "messages (updateMessages f s) = f (messages s)" "config (updateMessages f s) = config s"
  "sseSource (updateMessages f s) = sseSource s" "openSources (updateMessages f s) = openSources s"
  "isStreamComplete (updateMessages f s) = isStreamComplete s" "openPosts (updateMessages f s) = openPosts s"
  "nanoCount (updateMessages f s) = nanoCount s" "parameterEnabled (updateMessages f s) = parameterEnabled s"
  "requests (updateMessages f s) = requests s" "sourceCount (updateMessages f s) = sourceCount s"
  by (simp_all add: updateMessages_def Let_def)

lemma toast_fields [simp]:
  "messages (toast_error x s) = messages s" "config (toast_error x s) = config s"
  "sseSource (toast_error x s) = sseSource s" "openSources (toast_error x s) = openSources s"
  "isStreamComplete (toast_error x s) = isStreamComplete s" "openPosts (toast_error x s) = openPosts s"
  "nanoCount (toast_error x s) = nanoCount s"
  by (simp_all add: toast_error_def)

lemma updateLast_shape:
  "butlast (updateLastAssistantMessage ms f) = butlast ms"
  "ms \<noteq> [] \<Longrightarrow> updateLastAssistantMessage ms f \<noteq> []"
  "ms \<noteq> [] \<Longrightarrow> msg_from (last ms) = Assistant \<Longrightarrow> last (updateLastAssistantMessage ms f) = f (last ms)"
  by (auto simp: updateLastAssistantMessage_def)

lemma updateLast_keys:
  assumes "\<And>m. msg_key (f m) = msg_key m"
  shows "map msg_key (updateLastAssistantMessage ms f) = map msg_key ms"
proof (cases "ms = []")
  case False
  then have "map msg_key ms = map msg_key (butlast ms @ [last ms])" by simp
  then show ?thesis using False assms unfolding updateLastAssistantMessage_def by (simp del: append_butlast_last_id)
qed (simp add: updateLastAssistantMessage_def)

lemma message_updates:
  "msg_key (updateCurrentVersionContent m c) = msg_key m" "msg_from (updateCurrentVersionContent m c) = msg_from m"
  "msg_status (updateCurrentVersionContent m c) = msg_status m"
  "msg_key (processStreamingContent m c) = msg_key m" "msg_from (processStreamingContent m c) = msg_from m"
  "msg_key (finalizeMessage m r) = msg_key m" "msg_from (finalizeMessage m r) = msg_from m"
  "msg_key (stream_update ty c m) = msg_key m" "msg_from (stream_update ty c m) = msg_from m"
  "msg_key (stream_complete m) = msg_key m" "msg_from (stream_complete m) = msg_from m"
  "msg_key (stop_message m) = msg_key m" "msg_from (stop_message m) = msg_from m"
  "msg_key (set_first_version c m) = msg_key m" "msg_from (set_first_version c m) = msg_from m"
  "msg_status (set_first_version c m) = msg_status m"
  by (simp_all add: updateCurrentVersionContent_def processStreamingContent_def finalizeMessage_def stream_update_def
      stream_complete_def stop_message_def set_first_version_def Let_def split: update_type.split)

lemma settled_updates:
  "\<not> pending (stream_complete m)" "\<not> pending (stop_message m)"
  "pending (set_first_version c m) \<longleftrightarrow> pending m"
  by (auto simp: pending_def stream_complete_def stop_message_def message_updates)

lemma error_keys: "map msg_key (updateAssistantMessageWithError ms e c) = map msg_key ms"
  unfolding updateAssistantMessageWithError_def by (rule updateLast_keys) (simp add: message_updates)

section \<open>Keys are unique\<close>

definition keys_inv :: "nano \<Rightarrow> playground \<Rightarrow> bool" where
  "keys_inv nano s \<longleftrightarrow> distinct (map msg_key (messages s)) \<and> set (map msg_key (messages s)) \<subseteq> nano ` {..<nanoCount s}"

lemma keys_inv_same:
  "keys_inv nano s \<Longrightarrow> map msg_key (messages s') = map msg_key (messages s) \<Longrightarrow> nanoCount s' = nanoCount s \<Longrightarrow> keys_inv nano s'"
  by (simp add: keys_inv_def)

lemma sendChat_fields:
  "map msg_key (messages (sendChat starts ms s)) = map msg_key (messages s)" "nanoCount (sendChat starts ms s) = nanoCount s"
  by (simp_all add: sendChat_def sendStreamingChat_def sendStreamRequest_def sendNonStreamingChat_def handleStreamError_def
      error_keys Let_def)

lemma keys_inv_send:
  assumes "inj nano" and "keys_inv nano s" and "set (map msg_key ms) \<subseteq> set (map msg_key (messages s))"
    and "distinct (map msg_key ms)" and "map msg_key new = map nano ns" and "distinct ns"
    and "\<And>n. n \<in> set ns \<Longrightarrow> nanoCount s \<le> n \<and> n < n'" and "nanoCount s \<le> n'"
  shows "keys_inv nano (sendChat starts (ms @ new) (updateMessages (\<lambda>_. ms @ new) (s\<lparr>nanoCount := n'\<rparr>)))"
proof -
  have s: "set (map msg_key ms) \<subseteq> nano ` {..<nanoCount s}" using assms(2,3) by (auto simp: keys_inv_def)
  have n: "set (map msg_key new) = nano ` set ns" using assms(5) by simp
  have "nano ` {..<nanoCount s} \<inter> nano ` set ns = {}"
    using assms(7) by (fastforce dest: injD [OF assms(1)])
  then have "set (map msg_key ms) \<inter> set (map msg_key new) = {}" using s n by blast
  moreover have "distinct (map msg_key new)" using assms(1,5,6) by (simp add: distinct_map inj_on_def inj_def)
  moreover have "nano ` set ns \<subseteq> nano ` {..<n'}" using assms(7) by auto
  moreover have "nano ` {..<nanoCount s} \<subseteq> nano ` {..<n'}" using assms(8) by auto
  ultimately show ?thesis
    using assms(4) s n unfolding keys_inv_def sendChat_fields by auto
qed


lemma new_message_keys:
  "createUserMessage nano n txt = (u, n') \<Longrightarrow> msg_key u = nano n \<and> msg_from u = User \<and> n' = n + 2"
  "createLoadingAssistantMessage nano n = (a, n') \<Longrightarrow>
     msg_key a = nano n \<and> msg_from a = Assistant \<and> msg_status a = Some Loading \<and> n' = n + 2"
  by (auto simp: createUserMessage_def createLoadingAssistantMessage_def createMessageVersion_def)

lemma handleSendMessage_keys:
  assumes "inj nano" and "keys_inv nano s"
  shows "keys_inv nano (handleSendMessage nano starts txt s)"
proof -
  obtain u n1 where u: "createUserMessage nano (nanoCount s) txt = (u, n1)" by fastforce
  obtain a n2 where a: "createLoadingAssistantMessage nano n1 = (a, n2)" by fastforce
  have k: "msg_key u = nano (nanoCount s)" "msg_key a = nano (nanoCount s + 2)" "n2 = nanoCount s + 4"
    using new_message_keys(1) [OF u] new_message_keys(2) [OF a] by auto
  have "keys_inv nano (sendChat starts (messages s @ [u, a]) (updateMessages (\<lambda>_. messages s @ [u, a]) (s\<lparr>nanoCount := n2\<rparr>)))"
    by (rule keys_inv_send [OF assms, where ns = "[nanoCount s, nanoCount s + 2]"])
      (use assms(2) k in \<open>auto simp: keys_inv_def\<close>)
  then show ?thesis by (simp add: handleSendMessage_def u a Let_def)
qed

lemma distinct_take_keys: "distinct (map msg_key ms) \<Longrightarrow> distinct (map msg_key (take n ms))"
  by (simp add: take_map [symmetric])

lemma set_take_keys: "set (map msg_key (take n ms)) \<subseteq> set (map msg_key ms)"
  by (metis set_take_subset take_map)

lemma placeholder_send_keys:
  assumes "inj nano" and "keys_inv nano s" and "map msg_key ms = map msg_key (messages s)"
    and "createLoadingAssistantMessage nano (nanoCount s) = (a, n)"
  shows "keys_inv nano (sendChat starts (take i ms @ [a]) (updateMessages (\<lambda>_. take i ms @ [a]) (s\<lparr>nanoCount := n\<rparr>)))"
  using new_message_keys(2) [OF assms(4)] assms(1-3) set_take_keys [of i ms] distinct_take_keys [of ms i]
  by (intro keys_inv_send [where ns = "[nanoCount s]"]) (auto simp: keys_inv_def)

lemma stream_update_keys: "map msg_key (updateLastAssistantMessage ms (stream_update ty c)) = map msg_key ms"
  by (rule updateLast_keys) (simp add: message_updates)

lemma react_keys:
  assumes "inj nano" and "keys_inv nano s"
  shows "keys_inv nano (react nano e s)"
proof (cases e)
  case (Submit starts x)
  then show ?thesis using assms handleSendMessage_keys by (simp add: handleSubmit_def)
next
  case (Suggest starts x)
  then show ?thesis using assms handleSendMessage_keys by simp
next
  case (Regenerate starts key)
  have "keys_inv nano (handleRegenerateMessage nano starts key s)"
    using placeholder_send_keys [OF assms, of "messages s"] assms(2)
    by (auto simp: handleRegenerateMessage_def Let_def split: option.split prod.split)
  then show ?thesis using assms(2) Regenerate by (simp add: guardAction_def keys_inv_def)
next
  case (ApplyEdit starts x submit)
  let ?e = "\<lambda>key. map (\<lambda>m. if msg_key m = key then set_first_version x m else m) (messages s)"
  have e: "map msg_key (?e key) = map msg_key (messages s)" for key by (simp add: message_updates)
  let ?s = "s\<lparr>editingMessageKey := None\<rparr>"
  have k: "keys_inv nano ?s" using assms(2) by (simp add: keys_inv_def)
  have "keys_inv nano (updateMessages (\<lambda>_. ?e key) ?s)" for key
    by (rule keys_inv_same [OF k]) (use e [of key] in \<open>simp_all del: map_map\<close>)
  then show ?thesis
    using assms(2) placeholder_send_keys [OF assms(1) k] e ApplyEdit
    by (auto simp: applyEdit_def Let_def split: option.split prod.split)
next
  case (Delete key)
  have "keys_inv nano (handleDeleteMessage key s)"
    using assms(2) by (auto simp: handleDeleteMessage_def keys_inv_def distinct_map_filter)
  then show ?thesis using assms(2) Delete by (simp add: guardAction_def keys_inv_def)
qed (use assms(2) in \<open>auto intro!: keys_inv_same [OF assms(2)] updateLast_keys
    simp: stopGeneration_def stopStream_def guardAction_def handleEditMessage_def handleEditOpenChange_def models_effect_def
      groups_effect_def updateConfig_def on_message_def on_error_def on_readystatechange_def handleError_def closeSource_def
      handleStreamError_def handleStreamComplete_def handleStreamUpdate_def send_update_def post_answered_def post_failed_def
      error_keys stream_update_keys message_updates Let_def split: option.split prod.split list.split\<close>)

interpretation playground_keys: machine_invariant "keys_inv nano" "playground_step nano"
  "\<lambda>s. inj nano \<longrightarrow> keys_inv nano s" for nano
  by unfold_locales (auto elim!: playground_step.cases intro: react_keys)

text \<open>
  C31. The keys of the messages stay different through every sequence of events, for identifiers that
  are never repeated: editing, regenerating and deleting always concern one message.
\<close>

theorem message_keys_unique:
  assumes "inj nano" and "distinct (map msg_key (messages s))" and "set (map msg_key (messages s)) \<subseteq> nano ` {..<nanoCount s}"
    and "(playground_step nano)\<^sup>*\<^sup>* s s'"
  shows "distinct (map msg_key (messages s'))"
  using playground_keys.reachable_inv [OF _ assms(4)] assms(1-3) by (simp add: keys_inv_def)

definition empty_storage :: storage where
  "empty_storage = \<lparr>items = (\<lambda>_. None), full = False\<rparr>"

definition fresh_page :: playground where
  "fresh_page = \<lparr>config = DEFAULT_CONFIG, parameterEnabled = DEFAULT_PARAMETER_ENABLED, messages = [], models = [],
     groups = [], editingMessageKey = None, storage = empty_storage, sseSource = None, isStreamComplete = False,
     openSources = [], sourceCount = 0, nanoCount = 0, requests = [], openPosts = 0, shown = []\<rparr>"

theorem message_keys_unique_witness:
  "\<exists>s'. (playground_step nat_to_js)\<^sup>*\<^sup>* fresh_page s' \<and> length (messages s') = 2 \<and> distinct (map msg_key (messages s'))"
proof -
  let ?s = "react nat_to_js (Suggest True (js ''hi'')) fresh_page"
  have st: "(playground_step nat_to_js)\<^sup>*\<^sup>* fresh_page ?s"
    by (rule r_into_rtranclp) (rule playground_step.intros, simp)
  have "inj nat_to_js" by (rule injI) simp
  then have "distinct (map msg_key (messages ?s))"
    by (rule message_keys_unique [OF _ _ _ st]) (simp_all add: fresh_page_def)
  moreover have "length (map msg_key (messages ?s)) = 2"
    unfolding react.simps handleSendMessage_def
    by (simp add: sendChat_fields createUserMessage_def createLoadingAssistantMessage_def createMessageVersion_def Let_def fresh_page_def del: length_map)
  ultimately show ?thesis using st by auto
qed

section \<open>Generation ends\<close>

definition streaming_on :: "playground \<Rightarrow> bool" where
  "streaming_on s \<longleftrightarrow> opt_truthy (obj_get (js ''stream'') (config s))"

definition settled :: "Message list \<Rightarrow> bool" where
  "settled ms \<longleftrightarrow> list_all (\<lambda>m. \<not> pending m) ms"

lemma settled_simps [simp]: "settled []" "settled (m # ms) \<longleftrightarrow> \<not> pending m \<and> settled ms" "settled (a @ b) \<longleftrightarrow> settled a \<and> settled b"
  by (simp_all add: settled_def)

definition chat_inv :: "playground \<Rightarrow> bool" where
  "chat_inv s \<longleftrightarrow> streaming_on s \<and> openPosts s = 0 \<and> settled (butlast (messages s)) \<and>
     (case sseSource s of
        None \<Rightarrow> openSources s = [] \<and> settled (messages s)
      | Some i \<Rightarrow> openSources s = [i] \<and> \<not> isStreamComplete s \<and> messages s \<noteq> [] \<and> msg_from (last (messages s)) = Assistant)"

lemma chat_inv_idle:
  "sseSource s = None \<Longrightarrow> chat_inv s \<longleftrightarrow> streaming_on s \<and> openPosts s = 0 \<and> openSources s = [] \<and> settled (messages s)"
  by (auto simp: chat_inv_def settled_def list_all_iff dest: in_set_butlastD)

lemma settled_last: "ms \<noteq> [] \<Longrightarrow> settled ms \<longleftrightarrow> settled (butlast ms) \<and> \<not> pending (last ms)"
  by (metis append_butlast_last_id settled_simps)

lemma error_settles:
  assumes "ms \<noteq> []" and "msg_from (last ms) = Assistant" and "settled (butlast ms)"
  shows "settled (updateAssistantMessageWithError ms e c)"
  using assms by (simp add: updateAssistantMessageWithError_def updateLastAssistantMessage_def pending_def)

lemma send_inv:
  assumes "chat_inv s" and "\<not> isStreaming s" and "settled ms" and "msg_from a = Assistant"
  shows "chat_inv (sendChat starts (ms @ [a]) (updateMessages (\<lambda>_. ms @ [a]) (s\<lparr>nanoCount := n\<rparr>)))"
proof -
  have s: "sseSource s = None" "openSources s = []" "streaming_on s" "openPosts s = 0"
    using assms(1,2) chat_inv_idle by (auto simp: isStreaming_def)
  have t: "opt_truthy (obj_get (js ''stream'') (config s))" using s(3) by (simp add: streaming_on_def)
  show ?thesis
  proof (cases starts)
    case True
    then show ?thesis
      using s t assms(3,4)
      by (simp add: chat_inv_def streaming_on_def sendChat_def sendStreamingChat_def sendStreamRequest_def Let_def)
  next
    case False
    then show ?thesis
      using s t assms(3,4) error_settles [of "ms @ [a]"]
      by (subst chat_inv_idle)
        (simp_all add: streaming_on_def sendChat_def sendStreamingChat_def sendStreamRequest_def handleStreamError_def Let_def)
  qed
qed

lemma idle_settled: "chat_inv s \<Longrightarrow> \<not> isStreaming s \<Longrightarrow> settled (messages s)"
  using chat_inv_idle by (auto simp: isStreaming_def)

lemma handleSendMessage_inv:
  assumes "chat_inv s" and "\<not> isStreaming s"
  shows "chat_inv (handleSendMessage nano starts x s)"
proof -
  obtain u n1 where u: "createUserMessage nano (nanoCount s) x = (u, n1)" by fastforce
  obtain a n2 where a: "createLoadingAssistantMessage nano n1 = (a, n2)" by fastforce
  have "settled (messages s @ [u])"
    using idle_settled [OF assms] new_message_keys(1) [OF u] by (simp add: pending_def)
  then show ?thesis
    using send_inv [OF assms, of "messages s @ [u]" a starts n2] new_message_keys(2) [OF a]
    by (simp add: handleSendMessage_def u a Let_def)
qed

lemma settled_take: "settled ms \<Longrightarrow> settled (take n ms)"
  by (metis append_take_drop_id settled_simps(3))

lemma handleRegenerateMessage_inv:
  assumes "chat_inv s" and "\<not> isStreaming s"
  shows "chat_inv (handleRegenerateMessage nano starts key s)"
proof -
  obtain a n where a: "createLoadingAssistantMessage nano (nanoCount s) = (a, n)" by fastforce
  show ?thesis
    using send_inv [OF assms settled_take [OF idle_settled [OF assms]]] new_message_keys(2) [OF a] assms(1)
    by (auto simp: handleRegenerateMessage_def a Let_def split: option.split)
qed

lemma applyEdit_inv:
  assumes "chat_inv s" and "\<not> isStreaming s"
  shows "chat_inv (applyEdit nano starts x submit s)"
proof -
  obtain a n where a: "createLoadingAssistantMessage nano (nanoCount s) = (a, n)" by fastforce
  let ?e = "\<lambda>key. map (\<lambda>m. if msg_key m = key then set_first_version x m else m) (messages s)"
  let ?s = "s\<lparr>editingMessageKey := None\<rparr>"
  have s: "chat_inv ?s" "\<not> isStreaming ?s" using assms by (auto simp: chat_inv_def streaming_on_def isStreaming_def)
  have e: "settled (?e key)" for key
    using idle_settled [OF assms] settled_updates(3) by (auto simp: settled_def list_all_iff)
  have "chat_inv (updateMessages (\<lambda>_. ?e key) ?s)" for key
    using s e [of key] chat_inv_idle [of ?s] by (subst chat_inv_idle) (auto simp: isStreaming_def streaming_on_def)
  then show ?thesis
    using send_inv [OF s settled_take [OF e]] new_message_keys(2) [OF a] assms(1)
    by (auto simp: applyEdit_def a Let_def split: option.split)
qed

lemma config_inv: "chat_inv s \<Longrightarrow> k \<noteq> js ''stream'' \<Longrightarrow> chat_inv (updateConfig k v s)"
  by (auto simp: chat_inv_def streaming_on_def updateConfig_def Let_def split: option.splits)

lemma stream_source:
  assumes "chat_inv s" and "i \<in> set (openSources s)"
  shows "sseSource s = Some i" "openSources s = [i]" "\<not> isStreamComplete s" "messages s \<noteq> []"
    "msg_from (last (messages s)) = Assistant" "settled (butlast (messages s))" "streaming_on s" "openPosts s = 0"
  using assms by (auto simp: chat_inv_def split: option.splits)

lemma handleError_inv:
  assumes "chat_inv s" and "i \<in> set (openSources s)"
  shows "chat_inv (handleError i m c s)"
  using stream_source [OF assms] error_settles
  by (simp add: handleError_def chat_inv_idle closeSource_def handleStreamError_def streaming_on_def)

lemma handleStreamUpdate_inv: "chat_inv s \<Longrightarrow> isStreaming s \<Longrightarrow> chat_inv (handleStreamUpdate ty c s)"
  by (auto simp: chat_inv_def isStreaming_def handleStreamUpdate_def streaming_on_def updateLast_shape message_updates split: option.splits)

lemma handleStreamUpdate_source: "sseSource (handleStreamUpdate ty c s) = sseSource s"
  by (simp add: handleStreamUpdate_def)

lemma on_message_inv:
  assumes "chat_inv s" and "i \<in> set (openSources s)"
  shows "chat_inv (on_message i data s)"
proof (cases "data = js ''[DONE]''")
  case True
  then show ?thesis
    using stream_source [OF assms] settled_updates(1)
    by (simp add: on_message_def chat_inv_idle closeSource_def handleStreamComplete_def streaming_on_def
        updateLastAssistantMessage_def)
next
  case False
  then show ?thesis
    using assms handleError_inv stream_source(1) [OF assms] handleStreamUpdate_inv handleStreamUpdate_source
    by (auto simp: on_message_def send_update_def isStreaming_def split: option.split)
qed

lemma stop_inv:
  assumes "chat_inv s"
  shows "chat_inv (stopGeneration s)" and "settled (messages (stopGeneration s))" and "\<not> isStreaming (stopGeneration s)"
proof -
  have s: "settled (messages (stopGeneration s)) \<and> sseSource (stopGeneration s) = None \<and> openSources (stopGeneration s) = []
      \<and> streaming_on (stopGeneration s) \<and> openPosts (stopGeneration s) = 0"
  proof (cases "sseSource s")
    case None
    then have "settled (messages s)" "openSources s = []" "streaming_on s" "openPosts s = 0"
      using assms chat_inv_idle by auto
    then show ?thesis
      using None settled_updates(2) settled_last [of "messages s"]
      by (auto simp: stopGeneration_def stopStream_def streaming_on_def updateLastAssistantMessage_def)
  next
    case (Some i)
    then have "i \<in> set (openSources s)" using assms by (auto simp: chat_inv_def)
    note f = stream_source [OF assms this]
    then show ?thesis
      using settled_updates(2)
      by (simp add: stopGeneration_def stopStream_def streaming_on_def updateLastAssistantMessage_def)
  qed
  then show "chat_inv (stopGeneration s)" using chat_inv_idle by blast
  show "settled (messages (stopGeneration s))" "\<not> isStreaming (stopGeneration s)" using s by (simp_all add: isStreaming_def)
qed

lemma delete_inv: "chat_inv s \<Longrightarrow> \<not> isStreaming s \<Longrightarrow> chat_inv (handleDeleteMessage key s)"
  using idle_settled [of s]
  by (auto simp: chat_inv_idle isStreaming_def handleDeleteMessage_def streaming_on_def settled_def list_all_iff)

lemma chat_inv_frame:
  "chat_inv s \<Longrightarrow> config s' = config s \<Longrightarrow> openPosts s' = openPosts s \<Longrightarrow> messages s' = messages s \<Longrightarrow>
   sseSource s' = sseSource s \<Longrightarrow> openSources s' = openSources s \<Longrightarrow> isStreamComplete s' = isStreamComplete s \<Longrightarrow> chat_inv s'"
  by (simp add: chat_inv_def streaming_on_def split: option.splits)

lemma effects_inv: "chat_inv s \<Longrightarrow> chat_inv (models_effect d s)" "chat_inv s \<Longrightarrow> chat_inv (groups_effect g s)"
proof -
  assume c: "chat_inv s"
  have "chat_inv (s\<lparr>models := ms\<rparr>)" for ms using c by (rule chat_inv_frame) simp_all
  then show "chat_inv (models_effect d s)" using c config_inv [of "s\<lparr>models := ms\<rparr>" for ms]
    by (auto simp: models_effect_def Let_def split: option.split)
  have "chat_inv (s\<lparr>groups := ms\<rparr>)" for ms using c by (rule chat_inv_frame) simp_all
  then show "chat_inv (groups_effect g s)" using c config_inv [of "s\<lparr>groups := ms\<rparr>" for ms]
    by (auto simp: groups_effect_def Let_def split: option.split)
qed

lemma chat_no_posts: "chat_inv s \<Longrightarrow> openPosts s = 0"
  by (simp add: chat_inv_def)

lemma react_chat_inv:
  assumes "chat_inv s" and "possible e s" and "orderly e s"
  shows "chat_inv (react nano e s)"
proof -
  have toast: "chat_inv (toast_error x s)" for x by (rule chat_inv_frame [OF assms(1)]) simp_all
  have edit: "chat_inv (s\<lparr>editingMessageKey := k\<rparr>)" for k by (rule chat_inv_frame [OF assms(1)]) simp_all
  show ?thesis
  proof (cases e)
    case (SseError i r d)
    then show ?thesis using assms handleError_inv by (auto simp: on_error_def split: prod.split)
  next
    case (SseReady i r st)
    then show ?thesis using assms handleError_inv by (auto simp: on_readystatechange_def split: option.split)
  qed (use assms toast edit handleSendMessage_inv handleRegenerateMessage_inv applyEdit_inv delete_inv on_message_inv stop_inv(1)
      effects_inv config_inv in \<open>auto simp: handleSubmit_def guardAction_def handleEditMessage_def handleEditOpenChange_def chat_no_posts\<close>)
qed

interpretation orderly_chat: machine_invariant chat_inv "orderly_step nano" chat_inv for nano
  by unfold_locales (auto elim!: orderly_step.cases intro: react_chat_inv)

lemma initial_chat_inv:
  assumes "streaming_on s" and "settled (messages s)" and "sseSource s = None" and "openSources s = []" and "openPosts s = 0"
  shows "chat_inv s"
  using assms by (simp add: chat_inv_idle)

text \<open>
  C14. At most the last message is being generated, and only while a source is open; when none is, no
  message is loading or streaming. It holds from a page that streams and has settled messages, for every
  sequence of events in which no suggestion is taken and no message edited during a stream: the page lets
  the user do both, while its other controls are blocked then.
\<close>

theorem only_last_message_pending:
  assumes "opt_truthy (obj_get (js ''stream'') (config s))" and "list_all (\<lambda>m. \<not> pending m) (messages s)"
    and "sseSource s = None" and "openSources s = []" and "openPosts s = 0" and "(orderly_step nano)\<^sup>*\<^sup>* s s'"
  shows "list_all (\<lambda>m. \<not> pending m) (butlast (messages s')) \<and> (isStreaming s' \<or> list_all (\<lambda>m. \<not> pending m) (messages s'))"
proof -
  have "chat_inv s'"
    using orderly_chat.reachable_inv [OF initial_chat_inv assms(6)] assms(1-5) by (simp add: streaming_on_def settled_def)
  then show ?thesis
    using idle_settled [of s'] by (auto simp: chat_inv_def settled_def)
qed

lemma fresh_streams: "opt_truthy (obj_get (js ''stream'') (config fresh_page))"
  by (simp add: fresh_page_def DEFAULT_CONFIG_def opt_truthy_def json_truthy_def)

theorem only_last_message_pending_witness:
  "\<exists>s'. (orderly_step nat_to_js)\<^sup>*\<^sup>* fresh_page s' \<and> list_all (\<lambda>m. \<not> pending m) (butlast (messages s'))"
proof -
  let ?s = "react nat_to_js (Suggest True (js ''hi'')) fresh_page"
  have st: "(orderly_step nat_to_js)\<^sup>*\<^sup>* fresh_page ?s"
    by (rule r_into_rtranclp) (rule orderly_step.intros, simp_all add: isStreaming_def fresh_page_def)
  show ?thesis
    using only_last_message_pending [OF fresh_streams _ _ _ _ st] st by (auto simp: fresh_page_def)
qed

text \<open>
  C38. Pressing stop, in every state of the page, closes the source of the current answer, settles the last
  message and leaves the other messages as they are. On a page that streams and started with settled
  messages, when no suggestion was taken and no message edited during a stream, this ends every
  generation: no source is open, and no message is loading or streaming.
\<close>

theorem stop_settles:
  "\<not> isStreaming (stopGeneration s') \<and>
   openSources (stopGeneration s') = (case sseSource s' of None \<Rightarrow> openSources s' | Some i \<Rightarrow> removeAll i (openSources s')) \<and>
   butlast (messages (stopGeneration s')) = butlast (messages s') \<and>
   map msg_key (messages (stopGeneration s')) = map msg_key (messages s') \<and>
   (messages s' \<noteq> [] \<longrightarrow> \<not> pending (last (messages (stopGeneration s')))) \<and>
   ((\<exists>s. opt_truthy (obj_get (js ''stream'') (config s)) \<and> list_all (\<lambda>m. \<not> pending m) (messages s) \<and>
       sseSource s = None \<and> openSources s = [] \<and> openPosts s = 0 \<and> (orderly_step nano)\<^sup>*\<^sup>* s s') \<longrightarrow>
     list_all (\<lambda>m. \<not> pending m) (messages (stopGeneration s')) \<and> openSources (stopGeneration s') = [])"
proof (intro conjI impI)
  show n: "\<not> isStreaming (stopGeneration s')"
    by (simp add: isStreaming_def stopGeneration_def stopStream_def split: option.split)
  show "openSources (stopGeneration s') = (case sseSource s' of None \<Rightarrow> openSources s' | Some i \<Rightarrow> removeAll i (openSources s'))"
    by (simp add: stopGeneration_def stopStream_def split: option.split)
  have m: "messages (stopGeneration s') = updateLastAssistantMessage (messages s') stop_message"
    by (simp add: stopGeneration_def stopStream_def split: option.split)
  show "butlast (messages (stopGeneration s')) = butlast (messages s')"
    unfolding m by (simp add: updateLastAssistantMessage_def)
  show "map msg_key (messages (stopGeneration s')) = map msg_key (messages s')"
    unfolding m by (rule updateLast_keys) (simp add: message_updates)
  show "\<not> pending (last (messages (stopGeneration s')))" if "messages s' \<noteq> []"
    unfolding m using that settled_updates(2) by (auto simp: updateLastAssistantMessage_def pending_def)
  assume "\<exists>s. opt_truthy (obj_get (js ''stream'') (config s)) \<and> list_all (\<lambda>m. \<not> pending m) (messages s) \<and>
       sseSource s = None \<and> openSources s = [] \<and> openPosts s = 0 \<and> (orderly_step nano)\<^sup>*\<^sup>* s s'"
  then have c: "chat_inv s'"
    using orderly_chat.reachable_inv initial_chat_inv unfolding streaming_on_def settled_def by blast
  show "list_all (\<lambda>m. \<not> pending m) (messages (stopGeneration s'))" using stop_inv(2) [OF c] by (simp add: settled_def)
  show "openSources (stopGeneration s') = []" using stop_inv(1) [OF c] n chat_inv_idle by (auto simp: isStreaming_def)
qed

theorem stop_settles_witness:
  "list_all (\<lambda>m. \<not> pending m) (messages (stopGeneration (react nat_to_js (Suggest True (js ''hi'')) fresh_page)))"
proof -
  let ?s = "react nat_to_js (Suggest True (js ''hi'')) fresh_page"
  have st: "(orderly_step nat_to_js)\<^sup>*\<^sup>* fresh_page ?s"
    by (rule r_into_rtranclp) (rule orderly_step.intros, simp_all add: isStreaming_def fresh_page_def)
  have "opt_truthy (obj_get (js ''stream'') (config fresh_page)) \<and> list_all (\<lambda>m. \<not> pending m) (messages fresh_page) \<and>
      sseSource fresh_page = None \<and> openSources fresh_page = [] \<and> openPosts fresh_page = 0 \<and> (orderly_step nat_to_js)\<^sup>*\<^sup>* fresh_page ?s"
    using fresh_streams st by (simp add: fresh_page_def)
  then show ?thesis using stop_settles [of ?s nat_to_js] by blast
qed

section \<open>Stored messages\<close>

lemma decode_parts [simp]:
  "as_version (version_json v) = Some v" "as_source (source_json x) = Some x"
  "as_role (Some (JStr (MESSAGE_ROLES r))) = Some r" "as_status (JStr (MESSAGE_STATUS st)) = Some st"
  by (simp_all add: as_version_def version_json_def as_string_def as_source_def source_json_def as_role_def as_status_def
      MESSAGE_ROLES_def MESSAGE_STATUS_def js_def split: MessageRole.split MessageStatus.split)

lemma those_decode: "(\<And>x. f (g x) = Some x) \<Longrightarrow> those (map f (map g xs)) = Some xs"
  by (induction xs) auto

lemma opt_bool_field: "opt_field as_bool None = Some None" "b = Some y \<Longrightarrow> opt_field as_bool (Some (opt_bool b)) = Some b"
  by (simp_all add: opt_field_def as_bool_def opt_bool_def)

lemma message_roundtrip [simp]: "message_of_json (message_json m) = Some m"
proof -
  have v: "as_list as_version (JArr (map version_json vs)) = Some vs" for vs
    unfolding as_list_def using those_decode [of as_version version_json vs] by simp
  have s: "as_list as_source (JArr (map source_json xs)) = Some xs" for xs
    unfolding as_list_def using those_decode [of as_source source_json xs] by simp
  have f: "as_string (obj_get (js ''key'') (message_fields m)) = Some (msg_key m)"
    "as_role (obj_get (js ''from'') (message_fields m)) = Some (msg_from m)"
    "Option.bind (obj_get (js ''versions'') (message_fields m)) (as_list as_version) = Some (msg_versions m)"
    by (simp_all add: message_fields_def as_string_def v)
  have g: "opt_field (as_list as_source) (obj_get (js ''sources'') (message_fields m)) = Some (msg_sources m)"
    by (cases "msg_sources m") (simp_all add: message_fields_def opt_field_def s)
  have h: "opt_field as_reasoning (obj_get (js ''reasoning'') (message_fields m)) = Some (msg_reasoning m)"
    by (cases "msg_reasoning m") (simp_all add: message_fields_def opt_field_def as_reasoning_def as_string_def)
  have b: "opt_field as_bool (obj_get (js ''isReasoningStreaming'') (message_fields m)) = Some (isReasoningStreaming m)"
    "opt_field as_bool (obj_get (js ''isReasoningComplete'') (message_fields m)) = Some (isReasoningComplete m)"
    "opt_field as_bool (obj_get (js ''isContentComplete'') (message_fields m)) = Some (isContentComplete m)"
    by (auto simp: message_fields_def opt_bool_field)
  have st: "opt_field as_status (obj_get (js ''status'') (message_fields m)) = Some (msg_status m)"
    by (cases "msg_status m") (simp_all add: message_fields_def opt_field_def)
  have e: "obj_get (js ''errorCode'') (message_fields m) = errorCode m"
    by (cases "errorCode m") (simp_all add: message_fields_def)
  show ?thesis by (simp add: message_of_json_def message_json_def f g h b st e)
qed

text \<open>
  C32. Saved messages are loaded back, when the storage is not full: all messages are the same but the last
  one that was still being generated, if there is one. That one is settled: with the text it has, its
  reasoning taken apart, it is complete; without any, it shows that the request was interrupted.
\<close>

theorem load_after_save:
  assumes "\<not> full st" and "list_all (\<lambda>m. wf_json (message_json m)) ms"
  shows "if list_all (\<lambda>m. \<not> pending m) ms then fst (loadMessages (saveMessages ms st)) = Loaded ms
    else \<exists>i m. i < length ms \<and> pending (ms ! i) \<and> list_all (\<lambda>m. \<not> pending m) (drop (Suc i) ms) \<and>
      fst (loadMessages (saveMessages ms st)) = Loaded (ms[i := m]) \<and> \<not> pending m \<and> msg_key m = msg_key (ms ! i) \<and>
      (let f = finalizeMessage (ms ! i) [] in
       if trim (v_content (getCurrentVersion f)) \<noteq> [] \<or> trim (reasoning_content f) \<noteq> []
       then msg_status m = Some Complete \<and> msg_versions m = msg_versions f \<and> msg_reasoning m = msg_reasoning f
       else msg_status m = Some Error \<and> v_content (getCurrentVersion m) = API_REQUEST_ERROR @ js '': '' @ INTERRUPTED)"
proof -
  have w: "wf_json (JArr (map message_json ms))" using assms(2) by (auto simp: list_all_iff)
  have d: "those (map message_of_json (map message_json ms)) = Some ms" by (rule those_decode) simp
  have l: "fst (loadMessages (saveMessages ms st)) = Loaded (sanitizeMessagesOnLoad ms)"
    using assms(1) stringify_ne [OF w] parse_stringify [OF w] d
    by (simp add: loadMessages_def saveMessages_def setItem_def Let_def)
  show ?thesis
  proof (cases "last_index pending ms")
    case None
    then have "sanitizeMessagesOnLoad ms = ms" by (simp add: sanitizeMessagesOnLoad_def)
    then show ?thesis using l None [unfolded last_index_None] by simp
  next
    case (Some i)
    note i = last_index_Some [OF Some] last_index_after [OF Some]
    have n: "\<not> list_all (\<lambda>m. \<not> pending m) ms" using i(1) by (auto simp: list_all_iff dest: nth_mem)
    have "fst (loadMessages (saveMessages ms st)) = Loaded (ms[i := sanitize_message (ms ! i)])"
      using l Some by (simp add: sanitizeMessagesOnLoad_def)
    then show ?thesis
      unfolding if_not_P [OF n] using i sanitize_message_settled [of "ms ! i"] sanitize_message_result [of "ms ! i"] by blast
  qed
qed

theorem load_after_save_witness:
  "\<exists>m. fst (loadMessages (saveMessages [sample_placeholder] empty_storage)) = Loaded [m] \<and> msg_status m = Some Error"
proof -
  have "list_all (\<lambda>m. wf_json (message_json m)) [sample_placeholder]" by code_simp
  moreover have "\<not> full empty_storage" by (simp add: empty_storage_def)
  moreover have "pending sample_placeholder" by code_simp
  moreover have "trim (v_content (getCurrentVersion (finalizeMessage sample_placeholder []))) = []"
    "trim (reasoning_content (finalizeMessage sample_placeholder [])) = []" by code_simp+
  ultimately show ?thesis using load_after_save [of empty_storage "[sample_placeholder]"] by auto
qed

section \<open>What is sent\<close>

lemma sent_messages:
  "obj_get (js ''messages'') (buildChatCompletionPayload ms cfg enabled) =
     Some (JArr (map (JObj \<circ> formatMessageForAPI) (filter isValidMessage ms)))"
  by (simp add: buildChatCompletionPayload_def sent_field_def obj_get_def Let_def split: option.split)

lemma sendChat_request:
  "requests (sendChat starts ms s) = requests s @ [buildChatCompletionPayload ms (config s) (parameterEnabled s)]"
  by (simp add: sendChat_def sendStreamingChat_def sendStreamRequest_def sendNonStreamingChat_def handleStreamError_def
      toast_error_def Let_def)

text \<open>
  Sending a message makes one request, with the valid messages before it and then the new one; the
  placeholder of the answer and blank answers are not sent.
\<close>

theorem send_request_messages:
  "\<exists>request. requests (handleSendMessage nano starts x s) = requests s @ [request] \<and>
     obj_get (js ''messages'') request =
       Some (JArr (map (JObj \<circ> formatMessageForAPI) (filter isValidMessage (messages s)) @
         [JObj [(js ''role'', JStr (js ''user'')), (js ''content'', JStr x)]]))"
proof -
  obtain u n1 where u: "createUserMessage nano (nanoCount s) x = (u, n1)" by fastforce
  obtain a n2 where a: "createLoadingAssistantMessage nano n1 = (a, n2)" by fastforce
  have v: "isValidMessage u" "\<not> isValidMessage a"
    "formatMessageForAPI u = [(js ''role'', JStr (js ''user'')), (js ''content'', JStr x)]"
    using u a by (auto simp: createUserMessage_def createLoadingAssistantMessage_def createMessageVersion_def
        isValidMessage_def formatMessageForAPI_def getCurrentVersion_def MESSAGE_ROLES_def)
  show ?thesis
    using sent_messages [of "messages s @ [u, a]"] v
    by (simp add: handleSendMessage_def u a Let_def sendChat_request)
qed

section \<open>Sends that are not guarded\<close>

text \<open>
  A suggestion clicked while an answer is streaming starts a second stream. Both streams write to the
  newest message, and the first answer stays loading with no source left that could end it.
\<close>

lemma suggestion_while_streaming:
  assumes "opt_truthy (obj_get (js ''stream'') (config s))" and "messages s = []" and "sseSource s = None"
    and "openSources s = []" and "sourceCount s = 0"
    and "s1 = react nano (Suggest True a) s"
    and "s2 = react nano (Suggest True b) s1"
    and "s4 = react nano (SseMessage 0 (js ''[DONE]'')) (react nano (SseMessage 1 (js ''[DONE]'')) s2)"
  shows "possible (SseMessage 1 (js ''[DONE]'')) s2 \<and> openSources s4 = [] \<and> \<not> isStreaming s4 \<and> pending (messages s4 ! 1)"
  using assms(1-5) unfolding assms(6-8)
  by (simp add: handleSendMessage_def sendChat_def sendStreamingChat_def sendStreamRequest_def on_message_def
      handleStreamComplete_def closeSource_def createUserMessage_def createLoadingAssistantMessage_def createMessageVersion_def
      isStreaming_def updateLastAssistantMessage_def pending_def Let_def)

text \<open>
  Without streaming nothing is guarded: two messages can be sent before the first is answered, and then
  both answers go to the second.
\<close>

lemma two_posts:
  assumes "\<not> opt_truthy (obj_get (js ''stream'') (config s))" and "messages s = []" and "sseSource s = None"
    and "openPosts s = 0" and "trim a \<noteq> []" and "trim b \<noteq> []"
    and "s2 = react nano (Submit True b) (react nano (Submit True a) s)"
    and "s4 = react nano (PostAnswered [c]) (react nano (PostAnswered [d]) s2)"
  shows "openPosts s2 = 2 \<and> openPosts s4 = 0 \<and> pending (messages s4 ! 1)"
  using assms(1-6) unfolding assms(7-8)
  by (cases c; cases d)
    (simp add: handleSubmit_def handleSendMessage_def sendChat_def sendNonStreamingChat_def post_answered_def
      createUserMessage_def createLoadingAssistantMessage_def createMessageVersion_def
      isStreaming_def updateLastAssistantMessage_def pending_def Let_def message_updates)

end
