(* ===== verification/JS_Regex.thy ===== *)
theory JS_Regex
  imports JS_Json
begin

text \<open>
  Regular expressions with the backtracking semantics of ECMA-262. A matcher maps a text to the list
  of all its matches at the start of the text, in the order in which the engine tries them; each match
  is paired with the text that is left, so a sequence of patterns is a list comprehension over the
  matchers, an alternation is an append, and the match the engine returns is the first of the list.
  \<open>rx_all\<close> is the loop over \<open>exec\<close> with the flag \<open>g\<close>.
\<close>

definition rx_lit :: "jstring \<Rightarrow> jstring \<Rightarrow> jstring list" where
  "rx_lit p s = (if starts_with p s then [drop (length p) s] else [])"

text \<open>\<open>[P]*\<close> and \<open>[P]+\<close>: the longest match first.\<close>

definition rx_many :: "(jchar \<Rightarrow> bool) \<Rightarrow> jstring \<Rightarrow> (jstring \<times> jstring) list" where
  "rx_many P s = map (\<lambda>n. (take n s, drop n s)) (rev [0..<Suc (length (takeWhile P s))])"

definition rx_some :: "(jchar \<Rightarrow> bool) \<Rightarrow> jstring \<Rightarrow> (jstring \<times> jstring) list" where
  "rx_some P s = map (\<lambda>n. (take n s, drop n s)) (rev [1..<Suc (length (takeWhile P s))])"

text \<open>\<open>\s*\<close>\<close>

definition rx_ws :: "jstring \<Rightarrow> jstring list" where
  "rx_ws s = map snd (rx_many is_ws s)"

text \<open>An optional group: taken if it can be, else skipped.\<close>

definition rx_opt :: "(jstring \<Rightarrow> ('a \<times> jstring) list) \<Rightarrow> jstring \<Rightarrow> ('a option \<times> jstring) list" where
  "rx_opt r s = map (apfst Some) (r s) @ [(None, s)]"

definition rx_first :: "'a list \<Rightarrow> 'a option" where
  "rx_first xs = (case xs of [] \<Rightarrow> None | x # _ \<Rightarrow> Some x)"

text \<open>\<open>.\<close> without the flag \<open>s\<close>, and the word characters of \<open>\b\<close>.\<close>

definition is_line_end :: "jchar \<Rightarrow> bool" where
  "is_line_end c \<longleftrightarrow> c = 10 \<or> c = 13 \<or> c = 8232 \<or> c = 8233"

definition is_word :: "jchar \<Rightarrow> bool" where
  "is_word c \<longleftrightarrow> is_digit c \<or> 97 \<le> c \<and> c \<le> 122 \<or> 65 \<le> c \<and> c \<le> 90 \<or> c = 95"

text \<open>
  \<open>while ((m = re.exec(s)) !== null)\<close>: the matches from left to right, each search from the end of
  the match before. The matcher also sees the character before the position, for \<open>\b\<close>. An empty match
  would repeat for ever; none of the patterns here has one, and the guard makes the loop total.
\<close>

function rx_all :: "(jchar option \<Rightarrow> jstring \<Rightarrow> ('a \<times> jstring) list) \<Rightarrow> jchar option \<Rightarrow> jstring \<Rightarrow> 'a list" where
  "rx_all r prev s =
     (case rx_first (r prev s) of
        Some (a, s') \<Rightarrow>
          if length s' < length s then a # rx_all r (Some (s ! (length s - length s' - 1))) s' else []
      | None \<Rightarrow> (case s of [] \<Rightarrow> [] | c # cs \<Rightarrow> rx_all r (Some c) cs))"
  by pat_completeness auto
termination
  by (relation "measure (\<lambda>(r, prev, s). length s)") auto

declare rx_all.simps [simp del]

section \<open>Laws\<close>

named_theorems rx \<open>evaluation of matchers\<close>

lemma rx_lit_append [simp]: "rx_lit p (p @ s) = [s]"
  by (simp add: rx_lit_def)

lemma rx_lit_self [simp]: "rx_lit p p = [[]]"
  by (simp add: rx_lit_def starts_with_def)

lemma rx_lit_Nil [simp]: "rx_lit [] s = [s]"
  by (simp add: rx_lit_def)

lemma rx_lit_Cons [simp]: "rx_lit (p # ps) (c # cs) = (if p = c then rx_lit ps cs else [])"
  by (simp add: rx_lit_def starts_with_code)

lemma rx_lit_empty [simp]: "rx_lit (p # ps) [] = []"
  by (simp add: rx_lit_def starts_with_code)

lemma rx_lit_ne: "s' \<in> set (rx_lit p s) \<longleftrightarrow> s = p @ s'"
  by (auto simp: rx_lit_def starts_with_iff)

lemma rx_lit_shorter: "rx_lit p s = r # rs \<Longrightarrow> p \<noteq> [] \<Longrightarrow> length r < length s"
  by (auto simp: rx_lit_def starts_with_iff split: if_splits)

lemma rx_first_simps [simp]: "rx_first [] = None" "rx_first (x # xs) = Some x" "rx_first (x # xs @ ys) = Some x"
  by (simp_all add: rx_first_def)

lemma rx_first_append: "rx_first (xs @ ys) = (case rx_first xs of None \<Rightarrow> rx_first ys | Some x \<Rightarrow> Some x)"
  by (cases xs) auto

lemma rx_first_set: "rx_first xs = Some x \<Longrightarrow> x \<in> set xs"
  by (cases xs) auto

lemma takeWhile_all: "list_all P xs \<Longrightarrow> takeWhile P (xs @ r) = xs @ takeWhile P r"
  by (induction xs) auto

text \<open>The longest match of a class that the next character ends.\<close>

definition stops :: "(jchar \<Rightarrow> bool) \<Rightarrow> jstring \<Rightarrow> bool" where
  "stops P r \<longleftrightarrow> (case r of [] \<Rightarrow> True | c # _ \<Rightarrow> \<not> P c)"

lemma stops_simps [simp]: "stops P []" "stops P (c # r) \<longleftrightarrow> \<not> P c"
  by (simp_all add: stops_def)

lemma takeWhile_stops: "list_all P xs \<Longrightarrow> stops P r \<Longrightarrow> takeWhile P (xs @ r) = xs"
  by (cases r) (auto simp: takeWhile_all list_all_iff)

lemma rx_some_longest:
  "list_all P xs \<Longrightarrow> xs \<noteq> [] \<Longrightarrow> stops P r \<Longrightarrow> \<exists>ms. rx_some P (xs @ r) = (xs, r) # ms"
  by (cases xs) (simp_all add: rx_some_def takeWhile_stops del: append_Cons upt_Suc, simp)

lemma rx_many_longest:
  "list_all P xs \<Longrightarrow> stops P r \<Longrightarrow> \<exists>ms. rx_many P (xs @ r) = (xs, r) # ms"
  by (simp add: rx_many_def takeWhile_stops)

lemma rx_some_split:
  "(a, s') \<in> set (rx_some P s) \<Longrightarrow> s = a @ s' \<and> a \<noteq> [] \<and> list_all P a"
proof -
  assume "(a, s') \<in> set (rx_some P s)"
  then obtain n where n: "1 \<le> n" "n \<le> length (takeWhile P s)" "a = take n s" "s' = drop n s"
    by (auto simp: rx_some_def)
  have "a = take n (takeWhile P s)" using n
    by (metis takeWhile_eq_take take_take min.absorb1)
  then have "list_all P a" by (metis in_set_takeD list_all_iff set_takeWhileD)
  moreover have "a \<noteq> []" using n by (metis length_greater_0_conv length_take length_takeWhile_le less_le_trans min_def not_one_le_zero take_eq_Nil le_zero_eq list.size(3))
  ultimately show ?thesis using n by simp
qed

lemma rx_some_none [simp]: "stops P s \<Longrightarrow> rx_some P s = []"
  by (cases s) (auto simp: rx_some_def)

lemma rx_many_none: "stops P s \<Longrightarrow> rx_many P s = [([], s)]"
  by (cases s) (auto simp: rx_many_def)

text \<open>The other matches are shorter and leave a character of the class behind.\<close>

lemma rx_some_shorter:
  assumes "list_all P xs" "xs \<noteq> []" "stops P r"
  obtains ms where "rx_some P (xs @ r) = (xs, r) # ms"
    "\<And>a s'. (a, s') \<in> set ms \<Longrightarrow> \<exists>c cs. s' = c # cs \<and> P c"
proof -
  define ms where "ms = map (\<lambda>n. (take n (xs @ r), drop n (xs @ r))) (rev [1..<length xs])"
  have "rx_some P (xs @ r) = (xs, r) # ms"
    using assms by (cases xs) (auto simp: rx_some_def takeWhile_stops ms_def simp del: append_Cons)
  moreover have "\<exists>c cs. s' = c # cs \<and> P c" if "(a, s') \<in> set ms" for a s'
  proof -
    from that obtain n where n: "n < length xs" "s' = drop n (xs @ r)" by (auto simp: ms_def)
    then have "s' = xs ! n # drop (Suc n) xs @ r" by (simp add: Cons_nth_drop_Suc)
    then show ?thesis using n assms(1) by (auto simp: list_all_length)
  qed
  ultimately show thesis using that by blast
qed

lemma rx_some_then:
  assumes "list_all P xs" "xs \<noteq> []" "stops P r" "\<And>a c cs. P c \<Longrightarrow> f a (c # cs) = []"
  shows "concat (map (\<lambda>(a, s'). f a s') (rx_some P (xs @ r))) = f xs r"
proof -
  obtain ms where ms: "rx_some P (xs @ r) = (xs, r) # ms"
    "\<And>a s'. (a, s') \<in> set ms \<Longrightarrow> \<exists>c cs. s' = c # cs \<and> P c"
    using rx_some_shorter [OF assms(1-3)] by blast
  have "concat (map (\<lambda>(a, s'). f a s') ms) = []" using ms(2) assms(4) by fastforce
  then show ?thesis by (simp add: ms(1))
qed

text \<open>A class up to the end matches as a whole or not at all.\<close>

lemma rx_some_end:
  "[g a. (a, s') \<leftarrow> rx_some P s, s' = []] = (if s \<noteq> [] \<and> list_all P s then [g s] else [])"
proof (cases "s \<noteq> [] \<and> list_all P s")
  case True
  then show ?thesis using rx_some_then [of P s "[]" "\<lambda>a s'. if s' = [] then [g a] else []"] by simp
next
  case False
  have "\<forall>(a, s') \<in> set (rx_some P s). s' \<noteq> []" using rx_some_split [of _ _ P s] False by fastforce
  then show ?thesis using False by (auto simp: concat_eq_Nil_conv)
qed

text \<open>A name and the character that ends it.\<close>

lemma rx_some_until:
  "list_all P xs \<Longrightarrow> xs \<noteq> [] \<Longrightarrow> \<not> P c \<Longrightarrow>
   [(a, s2). (a, s1) \<leftarrow> rx_some P (xs @ c # r), s2 \<leftarrow> rx_lit [c] s1] = [(xs, r)]"
  by (rule trans [OF rx_some_then]) auto


lemma rx_first_unique: "(\<And>y. y \<in> set L \<Longrightarrow> y = z) \<Longrightarrow> L \<noteq> [] \<Longrightarrow> rx_first L = Some z"
  by (cases L) auto


lemma rx_some_member: "a \<noteq> [] \<Longrightarrow> list_all P a \<Longrightarrow> (a, s) \<in> set (rx_some P (a @ s))"
proof -
  assume a: "a \<noteq> []" "list_all P a"
  have "(a, s) = (take (length a) (a @ s), drop (length a) (a @ s))" by simp
  moreover have "length a \<in> set [1..<Suc (length (takeWhile P (a @ s)))]"
    using a by (simp add: takeWhile_all Suc_le_eq less_Suc_eq_le del: upt_Suc)
  ultimately show ?thesis unfolding rx_some_def by (metis (mono_tags, lifting) imageI set_map set_rev)
qed

end
