(* ===== verification/Billing_Expr.thy ===== *)
theory Billing_Expr
  imports JS_Regex
begin

text \<open>
  The billing expressions of the price pages, \<open>features/pricing/lib/billing-expr.ts\<close>: the registry of
  variables, the parser of tiers, and the request rules, which multiply the price of a request when its
  conditions hold. A condition that is written and read is a value of \<open>RequestCondition\<close>; a function
  that may throw the \<open>SyntaxError\<close> of \<open>JSON.parse\<close> has \<open>None\<close> for it.
\<close>

section \<open>The variables\<close>

datatype billing_side = SideInput | SideOutput | SideCondition

record BillingVar =
  key :: jstring
  field :: "jstring option"
  tierField :: "jstring option"
  label :: jstring
  shortLabel :: jstring
  side :: billing_side
  isBase :: bool
  isConditionOnly :: bool
  var_group :: "jstring option"

definition BILLING_VARS :: "BillingVar list" where
  "BILLING_VARS =
    [\<lparr>key = js ''p'', field = Some (js ''inputPrice''), tierField = Some (js ''input_unit_cost''),
      label = js ''Input price'', shortLabel = js ''Input'', side = SideInput,
      isBase = True, isConditionOnly = False, var_group = None\<rparr>,
     \<lparr>key = js ''c'', field = Some (js ''outputPrice''), tierField = Some (js ''output_unit_cost''),
      label = js ''Completion price'', shortLabel = js ''Output'', side = SideOutput,
      isBase = True, isConditionOnly = False, var_group = None\<rparr>,
     \<lparr>key = js ''len'', field = None, tierField = None,
      label = js ''Input length'', shortLabel = js ''Length'', side = SideCondition,
      isBase = False, isConditionOnly = True, var_group = None\<rparr>,
     \<lparr>key = js ''cr'', field = Some (js ''cacheReadPrice''), tierField = Some (js ''cache_read_unit_cost''),
      label = js ''Cache read price'', shortLabel = js ''Cache Read'', side = SideInput,
      isBase = False, isConditionOnly = False, var_group = Some (js ''cache'')\<rparr>,
     \<lparr>key = js ''cc'', field = Some (js ''cacheCreatePrice''), tierField = Some (js ''cache_create_unit_cost''),
      label = js ''Cache create price'', shortLabel = js ''Cache Write'', side = SideInput,
      isBase = False, isConditionOnly = False, var_group = Some (js ''cache'')\<rparr>,
     \<lparr>key = js ''cc1h'', field = Some (js ''cacheCreate1hPrice''), tierField = Some (js ''cache_create_1h_unit_cost''),
      label = js ''Cache create (1h) price'', shortLabel = js ''Cache Write (1h)'', side = SideInput,
      isBase = False, isConditionOnly = False, var_group = Some (js ''cache'')\<rparr>,
     \<lparr>key = js ''img'', field = Some (js ''imagePrice''), tierField = Some (js ''image_unit_cost''),
      label = js ''Image input price'', shortLabel = js ''Image In'', side = SideInput,
      isBase = False, isConditionOnly = False, var_group = Some (js ''media'')\<rparr>,
     \<lparr>key = js ''img_o'', field = Some (js ''imageOutputPrice''), tierField = Some (js ''image_output_unit_cost''),
      label = js ''Image output price'', shortLabel = js ''Image Out'', side = SideOutput,
      isBase = False, isConditionOnly = False, var_group = Some (js ''media'')\<rparr>,
     \<lparr>key = js ''ai'', field = Some (js ''audioInputPrice''), tierField = Some (js ''audio_input_unit_cost''),
      label = js ''Audio input price'', shortLabel = js ''Audio In'', side = SideInput,
      isBase = False, isConditionOnly = False, var_group = Some (js ''media'')\<rparr>,
     \<lparr>key = js ''ao'', field = Some (js ''audioOutputPrice''), tierField = Some (js ''audio_output_unit_cost''),
      label = js ''Audio output price'', shortLabel = js ''Audio Out'', side = SideOutput,
      isBase = False, isConditionOnly = False, var_group = Some (js ''media'')\<rparr>]"

definition BILLING_PRICING_VARS :: "BillingVar list" where
  "BILLING_PRICING_VARS = filter (\<lambda>v. \<not> isConditionOnly v) BILLING_VARS"

definition BILLING_CONDITION_VARS :: "jstring list" where
  "BILLING_CONDITION_VARS = map key (filter (\<lambda>v. isBase v \<or> isConditionOnly v) BILLING_VARS)"

text \<open>The price fields by variable; every variable with a price has one.\<close>

definition BILLING_VAR_KEY_TO_FIELD :: "(jstring \<times> jstring) list" where
  "BILLING_VAR_KEY_TO_FIELD = obj_of (map (\<lambda>v. (key v, the (field v))) BILLING_PRICING_VARS)"

definition BILLING_EXTRA_VARS :: "BillingVar list" where
  "BILLING_EXTRA_VARS = filter (\<lambda>v. \<not> isBase v \<and> \<not> isConditionOnly v) BILLING_VARS"

text \<open>Pairs of the field of a tier and the variable of the expression.\<close>

definition BILLING_CACHE_VAR_MAP :: "(jstring \<times> jstring) list" where
  "BILLING_CACHE_VAR_MAP = map (\<lambda>v. (the (tierField v), key v)) BILLING_EXTRA_VARS"

text \<open>
  \<open>\b(p|c|cr|...)\s*\*\s*([\d.eE+-]+)\<close>: the variable and the text of its coefficient.
\<close>

definition BILLING_VAR_REGEX :: "jchar option \<Rightarrow> jstring \<Rightarrow> ((jstring \<times> jstring) \<times> jstring) list" where
  "BILLING_VAR_REGEX prev s =
     (if (case prev of None \<Rightarrow> False | Some c \<Rightarrow> is_word c) = (case s of [] \<Rightarrow> False | c # _ \<Rightarrow> is_word c) then []
      else [((v, n), s5). v \<leftarrow> map key BILLING_PRICING_VARS, s1 \<leftarrow> rx_lit v s, s2 \<leftarrow> rx_ws s1,
              s3 \<leftarrow> rx_lit (js ''*'') s2, s4 \<leftarrow> rx_ws s3, (n, s5) \<leftarrow> rx_some num_char s4])"

section \<open>Constants and types of the request rules\<close>

definition MATCH_EQ :: jstring where "MATCH_EQ = js ''eq''"
definition MATCH_CONTAINS :: jstring where "MATCH_CONTAINS = js ''contains''"
definition MATCH_GT :: jstring where "MATCH_GT = js ''gt''"
definition MATCH_GTE :: jstring where "MATCH_GTE = js ''gte''"
definition MATCH_LT :: jstring where "MATCH_LT = js ''lt''"
definition MATCH_LTE :: jstring where "MATCH_LTE = js ''lte''"
definition MATCH_EXISTS :: jstring where "MATCH_EXISTS = js ''exists''"
definition MATCH_RANGE :: jstring where "MATCH_RANGE = js ''range''"

lemmas match_defs = MATCH_EQ_def MATCH_CONTAINS_def MATCH_GT_def MATCH_GTE_def MATCH_LT_def MATCH_LTE_def
  MATCH_EXISTS_def MATCH_RANGE_def

definition SOURCE_PARAM :: jstring where "SOURCE_PARAM = js ''param''"
definition SOURCE_HEADER :: jstring where "SOURCE_HEADER = js ''header''"
definition SOURCE_TIME :: jstring where "SOURCE_TIME = js ''time''"

definition TIME_FUNCS :: "jstring list" where
  "TIME_FUNCS = [js ''hour'', js ''minute'', js ''weekday'', js ''month'', js ''day'']"

text \<open>\<open>/^-?(?:\d+\.?\d*|\.\d+)(?:[eE][+-]?\d+)?$/\<close>\<close>

definition NUMERIC_LITERAL_REGEX :: "jstring \<Rightarrow> bool" where
  "NUMERIC_LITERAL_REGEX t =
     (let u = (if take 1 t = js ''-'' then drop 1 t else t);
          ip = takeWhile is_digit u; r = dropWhile is_digit u;
          dot = (take 1 r = js ''.'');
          fp = (if dot then takeWhile is_digit (drop 1 r) else []);
          r' = (if dot then dropWhile is_digit (drop 1 r) else r) in
      \<not> (ip = [] \<and> fp = []) \<and>
      (case r' of [] \<Rightarrow> True
       | c # e \<Rightarrow>
           (c = 101 \<or> c = 69) \<and>
           (let ds = (if take 1 e = js ''+'' \<or> take 1 e = js ''-'' then drop 1 e else e) in
            ds \<noteq> [] \<and> list_all is_digit ds)))"

text \<open>A condition: its source is the constructor or, for the two sources with a path, a string.\<close>

datatype RequestCondition =
    is_TimeCondition: TimeCondition (timeFunc: jstring) (timezone: jstring) (cond_mode: jstring) (cond_value: jstring)
      (rangeStart: jstring) (rangeEnd: jstring)
  | ParamHeaderCondition (cond_source: jstring) (cond_path: jstring) (cond_mode: jstring) (cond_value: jstring)

record RequestRuleGroup =
  group_conditions :: "RequestCondition list"
  multiplier :: jstring

record TierCondition =
  tier_var :: jstring
  tier_op :: jstring
  tier_value :: jnum

record ParsedTier =
  tier_label :: jstring
  tier_conditions :: "TierCondition list"
  tier_prices :: "(jstring \<times> jnum) list"

definition complementTierCondition :: "TierCondition \<Rightarrow> TierCondition" where
  "complementTierCondition c =
     c\<lparr>tier_op :=
        (if tier_op c = js ''<'' then js ''>='' else if tier_op c = js ''<='' then js ''>''
         else if tier_op c = js ''>'' then js ''<='' else js ''<'')\<rparr>"

definition formatTierConditionHint :: "ParsedTier \<Rightarrow> jstring" where
  "formatTierConditionHint tier =
     join_with (js '' && '')
       (map (\<lambda>c. let v = (if num_le (Fin 1000000) (tier_value c)
                           then num_to_str (num_div (tier_value c) (Fin 1000000)) @ js ''M''
                           else num_to_str (num_div (tier_value c) (Fin 1000)) @ js ''K'') in
             tier_var c @ js '' '' @ tier_op c @ js '' '' @ v)
          (tier_conditions tier))"

section \<open>Tiers\<close>

text \<open>\<open>/^v(\d+):([\s\S]*)$/\<close>: the version number and the rest.\<close>

definition stripExprVersion :: "jstring \<Rightarrow> jnum \<times> jstring" where
  "stripExprVersion s =
     (if s = [] then (Fin 1, [])
      else case rx_first [(d, s3). s1 \<leftarrow> rx_lit (js ''v'') s, (d, s2) \<leftarrow> rx_some is_digit s1, s3 \<leftarrow> rx_lit (js '':'') s2] of
        Some (d, b) \<Rightarrow> (str_to_num d, b)
      | None \<Rightarrow> (Fin 1, s))"

text \<open>The first coefficient of every variable; a coefficient that is not a number counts as zero.\<close>

definition parseTierBody :: "jstring \<Rightarrow> (jstring \<times> jnum) list" where
  "parseTierBody bodyStr =
     (let coeffs = foldl (\<lambda>m (v, n). if obj_get v m = None then obj_put v (str_to_num n) m else m) []
                     (rx_all BILLING_VAR_REGEX None bodyStr) in
      obj_of (map (\<lambda>(v, f). (f, case obj_get v coeffs of None \<Rightarrow> Fin 0 | Some x \<Rightarrow> num_or0 x))
                BILLING_VAR_KEY_TO_FIELD))"

text \<open>\<open>[\d.eE+]\<close>: the numbers of conditions have no minus sign.\<close>

definition bound_char :: "jchar \<Rightarrow> bool" where
  "bound_char c \<longleftrightarrow> is_digit c \<or> c = 43 \<or> c = 46 \<or> c = 69 \<or> c = 101"

text \<open>\<open>(p|c|len)\s*(<|<=|>|>=)\s*([\d.eE+]+)\<close>\<close>

definition cond_regex :: "jstring \<Rightarrow> ((jstring \<times> jstring \<times> jstring) \<times> jstring) list" where
  "cond_regex s =
     [((v, oper, n), s5). v \<leftarrow> [js ''p'', js ''c'', js ''len''], s1 \<leftarrow> rx_lit v s, s2 \<leftarrow> rx_ws s1,
        oper \<leftarrow> [js ''<'', js ''<='', js ''>'', js ''>=''], s3 \<leftarrow> rx_lit oper s2, s4 \<leftarrow> rx_ws s3,
        (n, s5) \<leftarrow> rx_some bound_char s4]"

text \<open>\<open>(?:\s*&&\s*cond)*\<close>, greedy; a round consumes characters, so the length of the text bounds their number.\<close>

fun conds_tail :: "nat \<Rightarrow> jstring \<Rightarrow> jstring list" where
  "conds_tail 0 s = [s]"
| "conds_tail (Suc k) s =
     [r. s1 \<leftarrow> rx_ws s, s2 \<leftarrow> rx_lit (js ''&&'') s1, s3 \<leftarrow> rx_ws s2, (_, s4) \<leftarrow> cond_regex s3, r \<leftarrow> conds_tail k s4] @ [s]"

text \<open>The group of conditions in front of a tier, with the question mark: its text and the rest.\<close>

definition condGroup :: "jstring \<Rightarrow> (jstring \<times> jstring) list" where
  "condGroup s =
     [(take (length s - length s2) s, s5). (_, s1) \<leftarrow> cond_regex s, s2 \<leftarrow> conds_tail (length s1) s1,
        s3 \<leftarrow> rx_ws s2, s4 \<leftarrow> rx_lit (js ''?'') s3, s5 \<leftarrow> rx_ws s4]"

text \<open>\<open>(?:condGroup\s*\?\s*)?tier\("([^"]*)",\s*([^)]+)\)\<close>\<close>

definition tierRe :: "jchar option \<Rightarrow> jstring \<Rightarrow> ((jstring option \<times> jstring \<times> jstring) \<times> jstring) list" where
  "tierRe prev s =
     [((g, l, b), s7). (g, s1) \<leftarrow> rx_opt condGroup s, s2 \<leftarrow> rx_lit (js ''tier(\"'') s1,
        (l, s3) \<leftarrow> rx_many (\<lambda>c. c \<noteq> 34) s2, s4 \<leftarrow> rx_lit (js ''\",'') s3, s5 \<leftarrow> rx_ws s4,
        (b, s6) \<leftarrow> rx_some (\<lambda>c. c \<noteq> 41) s5, s7 \<leftarrow> rx_lit (js '')'') s6]"

text \<open>\<open>condStr.split(/\s*&&\s*/)\<close>\<close>

function split_conds :: "jstring \<Rightarrow> jstring \<Rightarrow> jstring list" where
  "split_conds cur [] = [cur]"
| "split_conds cur (c # cs) =
     (case rx_lit (js ''&&'') (dropWhile is_ws (c # cs)) of
        r # _ \<Rightarrow> cur # split_conds [] (dropWhile is_ws r)
      | [] \<Rightarrow> split_conds (cur @ [c]) cs)"
  by pat_completeness auto

termination
proof (relation "measure (\<lambda>(cur, s). length s)")
  fix cur c cs r rs
  assume *: "rx_lit (js ''&&'') (dropWhile is_ws (c # cs)) = r # rs"
  have "length (dropWhile is_ws (c # cs)) \<le> length (c # cs)" by (rule length_dropWhile_le)
  moreover have "length r < length (dropWhile is_ws (c # cs))" using * by (rule rx_lit_shorter) simp
  moreover have "length (dropWhile is_ws r) \<le> length r" by (rule length_dropWhile_le)
  ultimately show "(([], dropWhile is_ws r), (cur, c # cs)) \<in> measure (\<lambda>(cur, s). length s)" by simp
qed auto

text \<open>The conditions of the text of a group.\<close>

definition parse_cond :: "jstring \<Rightarrow> TierCondition option" where
  "parse_cond cp =
     map_option (\<lambda>(v, oper, n). \<lparr>tier_var = v, tier_op = oper, tier_value = str_to_num n\<rparr>)
       (rx_first [m. (m, s) \<leftarrow> cond_regex (trim cp), s = []])"

definition parseTiersFromExpr :: "jstring \<Rightarrow> ParsedTier list" where
  "parseTiersFromExpr exprStr =
     (if exprStr = [] then []
      else
        (let body = snd (stripExprVersion exprStr);
             tiers = map (\<lambda>(g, l, b).
                \<lparr>tier_label = l,
                 tier_conditions =
                   (case g of None \<Rightarrow> []
                    | Some condStr \<Rightarrow> if condStr = [] then [] else List.map_filter parse_cond (split_conds [] condStr)),
                 tier_prices = parseTierBody b\<rparr>) (rx_all tierRe None body) in
         case tiers of
           [t0, t1] \<Rightarrow>
             (if length (tier_conditions t0) = 1 \<and> tier_conditions t1 = []
              then [t0, t1\<lparr>tier_conditions := [complementTierCondition (hd (tier_conditions t0))]\<rparr>]
              else tiers)
         | _ \<Rightarrow> tiers))"

text \<open>
  \<open>replace(/a[=\<close>fullwidth \<open>=]?|b|f[=\<close>fullwidth \<open>=]?/g, a)\<close> for the sign \<open>a\<close>, its variant with a
  line \<open>b\<close> and its fullwidth form \<open>f\<close>.
\<close>

fun replace_sign :: "jchar \<Rightarrow> jchar \<Rightarrow> jchar \<Rightarrow> jstring \<Rightarrow> jstring" where
  "replace_sign a b f [] = []"
| "replace_sign a b f [c] = (if c = a \<or> c = b \<or> c = f then [a] else [c])"
| "replace_sign a b f (c # d # cs) =
     (if c = a \<or> c = f then
        (if d = 61 \<or> d = 65309 then a # replace_sign a b f cs else a # replace_sign a b f (d # cs))
      else if c = b then a # replace_sign a b f (d # cs) else c # replace_sign a b f (d # cs))"

definition normalizeTierLabel :: "jstring option \<Rightarrow> jstring" where
  "normalizeTierLabel lab =
     (case lab of None \<Rightarrow> []
      | Some l \<Rightarrow> to_lower (filter (\<lambda>c. \<not> is_ws c) (replace_sign 62 8805 65310 (replace_sign 60 8804 65308 l))))"

section \<open>Reading request rules\<close>

definition paren_depth :: "int \<Rightarrow> jchar \<Rightarrow> int" where
  "paren_depth d c = (if c = 40 then d + 1 else if c = 41 then d - 1 else d)"

text \<open>
  The loop of the two splitters: the current part is cut at a separator outside parentheses. The
  separator is not empty, and its other characters are skipped with the first.
\<close>

fun split_top :: "jstring \<Rightarrow> int \<Rightarrow> jstring \<Rightarrow> jstring \<Rightarrow> jstring list" where
  "split_top sep d cur [] = [trim cur]"
| "split_top sep d cur (c # cs) =
     (let d' = paren_depth d c in
      if d' = 0 \<and> starts_with sep (c # cs)
      then trim cur # split_top sep d' [] (drop (length sep - 1) cs)
      else split_top sep d' (cur @ [c]) cs)"

definition splitTopLevelMultiply :: "jstring \<Rightarrow> jstring list" where
  "splitTopLevelMultiply expr = filter_truthy (split_top (js '' * '') 0 [] expr)"

definition splitTopLevelAnd :: "jstring \<Rightarrow> jstring list" where
  "splitTopLevelAnd expr = filter_truthy (split_top (js '' && '') 0 [] expr)"

definition parseExprLiteral :: "jstring \<Rightarrow> json option" where
  "parseExprLiteral raw =
     (let t = trim raw in
      if t = js ''true'' \<or> t = js ''false'' then Some (JStr t)
      else if NUMERIC_LITERAL_REGEX t then Some (JStr t)
      else case JSON_parse t of None \<Rightarrow> None | Some v \<Rightarrow> if v = JNull then None else Some v)"

text \<open>\<open>"([^"]+)"\<close> and \<open>(hour|minute|weekday|month|day)\("([^"]+)"\)\<close>\<close>

definition quoted_name :: "jstring \<Rightarrow> (jstring \<times> jstring) list" where
  "quoted_name s =
     [(a, s3). s1 \<leftarrow> rx_lit [34] s, (a, s2) \<leftarrow> rx_some (\<lambda>c. c \<noteq> 34) s1, s3 \<leftarrow> rx_lit [34] s2]"

definition named_call :: "jstring list \<Rightarrow> jstring \<Rightarrow> ((jstring \<times> jstring) \<times> jstring) list" where
  "named_call fs s =
     [((f, a), s3). f \<leftarrow> fs, s1 \<leftarrow> rx_lit (f @ js ''('') s, (a, s2) \<leftarrow> quoted_name s1, s3 \<leftarrow> rx_lit (js '')'') s2]"

definition range_regex :: "jstring \<Rightarrow> ((jstring \<times> jstring \<times> jstring \<times> jstring) \<times> jstring) list" where
  "range_regex s =
     [((f, tz, a, b), s6). ((f, tz), s1) \<leftarrow> named_call TIME_FUNCS s, s2 \<leftarrow> rx_lit (js '' >= '') s1,
        (a, s3) \<leftarrow> rx_some num_char s2, s4 \<leftarrow> rx_lit (js '' || '') s3,
        s5 \<leftarrow> rx_lit (f @ js ''(\"'' @ tz @ js ''\") < '') s4, (b, s6) \<leftarrow> rx_some num_char s5]"

definition tryParseTimeCondition :: "jstring \<Rightarrow> RequestCondition option" where
  "tryParseTimeCondition expr =
     (case rx_first [m. (m, s) \<leftarrow> range_regex expr, s = []] of
        Some (f, tz, a, b) \<Rightarrow> Some (TimeCondition f tz MATCH_RANGE [] a b)
      | None \<Rightarrow>
     (case rx_first [m. s1 \<leftarrow> rx_lit (js ''('') expr, (m, s2) \<leftarrow> range_regex s1, s2 = js '')''] of
        Some (f, tz, a, b) \<Rightarrow> Some (TimeCondition f tz MATCH_RANGE [] a b)
      | None \<Rightarrow>
     (case rx_first [(f, tz, oper, v). ((f, tz), s1) \<leftarrow> named_call TIME_FUNCS expr, s2 \<leftarrow> rx_lit (js '' '') s1,
             oper \<leftarrow> [js ''=='', js ''>='', js ''<''], s3 \<leftarrow> rx_lit (oper @ js '' '') s2,
             (v, s4) \<leftarrow> rx_some num_char s3, s4 = []] of
        Some (f, tz, oper, v) \<Rightarrow>
          Some (TimeCondition f tz
                  (if oper = js ''=='' then MATCH_EQ else if oper = js ''>='' then MATCH_GTE else MATCH_LT) v [] [])
      | None \<Rightarrow> None)))"

text \<open>\<open>"(?:[^"\\]|\\.)*"\<close>: a string literal with escapes, and what follows it.\<close>

fun literal_body :: "jstring \<Rightarrow> (jstring \<times> jstring) list" where
  "literal_body [] = []"
| "literal_body (c # r) =
     (if c = 34 then [([c], r)]
      else if c = 92 then
        (case r of [] \<Rightarrow> []
         | e # r' \<Rightarrow> if is_line_end e then [] else map (apfst (\<lambda>b. c # e # b)) (literal_body r'))
      else map (apfst (Cons c)) (literal_body r))"

definition string_literal :: "jstring \<Rightarrow> (jstring \<times> jstring) list" where
  "string_literal s = [(34 # b, s2). s1 \<leftarrow> rx_lit [34] s, (b, s2) \<leftarrow> literal_body s1]"

text \<open>The value of a literal; a text that is not JSON throws.\<close>

definition literal_value :: "jstring \<Rightarrow> jstring option" where
  "literal_value t = map_option json_to_str (JSON_parse t)"

text \<open>A function that may throw: \<open>None\<close> is the exception.\<close>

type_synonym 'a throwing = "'a option"

text \<open>The last two patterns: a comparison of a parameter, and equality.\<close>

definition parse_equal :: "jstring \<Rightarrow> RequestCondition option" where
  "parse_equal expr =
     (case rx_first [(f, a, v). ((f, a), s1) \<leftarrow> named_call [SOURCE_PARAM, SOURCE_HEADER] expr, s2 \<leftarrow> rx_lit (js '' == '') s1,
             (v, s3) \<leftarrow> rx_some (\<lambda>c. \<not> is_line_end c) s2, s3 = []] of
        Some (f, a, v) \<Rightarrow> map_option (\<lambda>w. ParamHeaderCondition f a MATCH_EQ (json_to_str w)) (parseExprLiteral v)
      | None \<Rightarrow> None)"

definition parse_compare :: "jstring \<Rightarrow> RequestCondition option" where
  "parse_compare expr =
     (case rx_first [(a, b, oper, v). ((_, a), s1) \<leftarrow> named_call [js ''param''] expr, s2 \<leftarrow> rx_lit (js '' != nil && '') s1,
             ((_, b), s3) \<leftarrow> named_call [js ''param''] s2, s4 \<leftarrow> rx_lit (js '' '') s3,
             oper \<leftarrow> [js ''>'', js ''>='', js ''<'', js ''<=''], s5 \<leftarrow> rx_lit (oper @ js '' '') s4,
             (v, s6) \<leftarrow> rx_some num_char s5, s6 = []] of
        Some (a, b, oper, v) \<Rightarrow>
          if a = b then
            Some (ParamHeaderCondition SOURCE_PARAM a
              (if oper = js ''>'' then MATCH_GT else if oper = js ''>='' then MATCH_GTE
               else if oper = js ''<'' then MATCH_LT else MATCH_LTE) v)
          else parse_equal expr
      | None \<Rightarrow> parse_equal expr)"

definition tryParseRequestCondition :: "jstring \<Rightarrow> RequestCondition option throwing" where
  "tryParseRequestCondition expr =
     (case tryParseTimeCondition expr of Some tc \<Rightarrow> Some (Some tc)
      | None \<Rightarrow>
     (case rx_first [a. ((_, a), s) \<leftarrow> named_call [js ''header''] expr, s = js '' != \"\"''] of
        Some a \<Rightarrow> Some (Some (ParamHeaderCondition SOURCE_HEADER a MATCH_EXISTS []))
      | None \<Rightarrow>
     (case rx_first [a. ((_, a), s) \<leftarrow> named_call [js ''param''] expr, s = js '' != nil''] of
        Some a \<Rightarrow> Some (Some (ParamHeaderCondition SOURCE_PARAM a MATCH_EXISTS []))
      | None \<Rightarrow>
     (case rx_first [(a, l). s1 \<leftarrow> rx_lit (js ''has('') expr, ((_, a), s2) \<leftarrow> named_call [js ''header''] s1,
             s3 \<leftarrow> rx_lit (js '', '') s2, (l, s4) \<leftarrow> string_literal s3, s4 = js '')''] of
        Some (a, l) \<Rightarrow> map_option (\<lambda>v. Some (ParamHeaderCondition SOURCE_HEADER a MATCH_CONTAINS v)) (literal_value l)
      | None \<Rightarrow>
     (case rx_first [(a, b, l). ((_, a), s1) \<leftarrow> named_call [js ''param''] expr, s2 \<leftarrow> rx_lit (js '' != nil && has('') s1,
             ((_, b), s3) \<leftarrow> named_call [js ''param''] s2, s4 \<leftarrow> rx_lit (js '', '') s3,
             (l, s5) \<leftarrow> string_literal s4, s5 = js '')''] of
        Some (a, b, l) \<Rightarrow>
          if a = b then map_option (\<lambda>v. Some (ParamHeaderCondition SOURCE_PARAM a MATCH_CONTAINS v)) (literal_value l)
          else Some (parse_compare expr)
      | None \<Rightarrow> Some (parse_compare expr))))))"

text \<open>\<open>/^\((.+) \? ([\d.eE+-]+) : 1\)$/s\<close>\<close>

definition factor_regex :: "jstring \<Rightarrow> (jstring \<times> jstring) list" where
  "factor_regex s =
     [(x, n). s1 \<leftarrow> rx_lit (js ''('') s, (x, s2) \<leftarrow> rx_some (\<lambda>_. True) s1, s3 \<leftarrow> rx_lit (js '' ? '') s2,
        (n, s4) \<leftarrow> rx_some num_char s3, s4 = js '' : 1)'']"

text \<open>The loop over the conditions of a factor: it stops at the first that cannot be read.\<close>

fun parse_conditions :: "jstring list \<Rightarrow> RequestCondition list option throwing" where
  "parse_conditions [] = Some (Some [])"
| "parse_conditions (ap # aps) =
     (case tryParseRequestCondition (trim ap) of
        None \<Rightarrow> None
      | Some None \<Rightarrow> Some None
      | Some (Some c) \<Rightarrow> map_option (map_option (Cons c)) (parse_conditions aps))"

definition tryParseRuleGroupFactor :: "jstring \<Rightarrow> RequestRuleGroup option throwing" where
  "tryParseRuleGroupFactor part =
     (case rx_first (factor_regex part) of
        None \<Rightarrow> Some None
      | Some (conditionStr, m) \<Rightarrow>
          map_option (\<lambda>r. case r of None \<Rightarrow> None
                       | Some cs \<Rightarrow> if cs = [] then None else Some \<lparr>group_conditions = cs, multiplier = m\<rparr>)
            (parse_conditions (splitTopLevelAnd conditionStr)))"

fun parse_factors :: "jstring list \<Rightarrow> RequestRuleGroup list option throwing" where
  "parse_factors [] = Some (Some [])"
| "parse_factors (part # parts) =
     (case tryParseRuleGroupFactor part of
        None \<Rightarrow> None
      | Some None \<Rightarrow> Some None
      | Some (Some g) \<Rightarrow> map_option (map_option (Cons g)) (parse_factors parts))"

definition tryParseRequestRuleExpr :: "jstring \<Rightarrow> RequestRuleGroup list option throwing" where
  "tryParseRequestRuleExpr expr =
     (let trimmed = trim expr in
      if trimmed = [] then Some (Some []) else parse_factors (splitTopLevelMultiply trimmed))"

section \<open>A billing expression and its request rules\<close>

fun outer_loop :: "int \<Rightarrow> jstring \<Rightarrow> bool" where
  "outer_loop d [] = (d = 0)"
| "outer_loop d (c # cs) =
     (let d' = paren_depth d c in if d' = 0 \<and> cs \<noteq> [] then False else outer_loop d' cs)"

definition hasFullOuterParens :: "jstring \<Rightarrow> bool" where
  "hasFullOuterParens expr =
     (if \<not> starts_with (js ''('') expr \<or> \<not> ends_with (js '')'') expr then False else outer_loop 0 expr)"

text \<open>The loop takes one pair of parentheses off in every round, so it ends.\<close>

function unwrap_loop :: "jstring \<Rightarrow> jstring" where
  "unwrap_loop current = (if hasFullOuterParens current then unwrap_loop (trim (butlast (tl current))) else current)"
  by pat_completeness auto
termination
proof (relation "measure length")
  fix current assume "hasFullOuterParens current"
  then have "current \<noteq> []" by (auto simp: hasFullOuterParens_def starts_with_def js_def split: if_splits)
  then have "length (butlast (tl current)) < length current" by (cases current) auto
  then show "(trim (butlast (tl current)), current) \<in> measure length"
    using length_trim [of "butlast (tl current)"] by simp
qed simp

declare unwrap_loop.simps [simp del]

definition unwrapOuterParens :: "jstring \<Rightarrow> jstring" where
  "unwrapOuterParens expr = unwrap_loop (trim expr)"

text \<open>The parts that are rules and the other parts, in order.\<close>

fun sort_parts :: "jstring list \<Rightarrow> (jstring list \<times> jstring list) throwing" where
  "sort_parts [] = Some ([], [])"
| "sort_parts (part # parts) =
     (case tryParseRequestRuleExpr part of
        None \<Rightarrow> None
      | Some parsed \<Rightarrow>
          map_option (\<lambda>(rules, base).
             if parsed \<noteq> None \<and> the parsed \<noteq> [] then (part # rules, base) else (rules, part # base))
            (sort_parts parts))"

definition splitBillingExprAndRequestRules :: "jstring \<Rightarrow> (jstring \<times> jstring) throwing" where
  "splitBillingExprAndRequestRules expr =
     (let trimmed = trim expr in
      if trimmed = [] then Some ([], [])
      else
        (let parts = splitTopLevelMultiply trimmed in
         if length parts \<le> 1 then Some (trimmed, [])
         else map_option (\<lambda>(ruleParts, baseParts).
                if ruleParts = [] \<or> length baseParts \<noteq> 1 then (trimmed, [])
                else (unwrapOuterParens (hd baseParts), join_with (js '' * '') ruleParts))
              (sort_parts parts)))"

definition combineBillingExpr :: "jstring \<Rightarrow> jstring \<Rightarrow> jstring" where
  "combineBillingExpr baseExpr requestRuleExpr =
     (let base = trim baseExpr; rules = trim requestRuleExpr in
      if base = [] then [] else if rules = [] then base
      else js ''('' @ base @ js '') * '' @ rules)"

section \<open>Writing request rules\<close>

definition createEmptyCondition :: RequestCondition where
  "createEmptyCondition = ParamHeaderCondition SOURCE_PARAM [] MATCH_EQ []"

definition createEmptyTimeCondition :: RequestCondition where
  "createEmptyTimeCondition = TimeCondition (js ''hour'') (js ''Asia/Shanghai'') MATCH_GTE [] [] []"

definition createEmptyRuleGroup :: RequestRuleGroup where
  "createEmptyRuleGroup = \<lparr>group_conditions = [createEmptyCondition], multiplier = []\<rparr>"

definition createEmptyTimeRuleGroup :: RequestRuleGroup where
  "createEmptyTimeRuleGroup = \<lparr>group_conditions = [createEmptyTimeCondition], multiplier = []\<rparr>"

record MatchOption =
  option_value :: jstring
  labelKey :: jstring

definition getRequestRuleMatchOptions :: "jstring \<Rightarrow> MatchOption list" where
  "getRequestRuleMatchOptions src =
     (let opt = (\<lambda>v l. \<lparr>option_value = v, labelKey = l\<rparr>) in
      if src = SOURCE_TIME then
        [opt MATCH_EQ (js ''Equals''), opt MATCH_GTE (js ''Greater than or equal''),
         opt MATCH_LT (js ''Less than''), opt MATCH_RANGE (js ''Overnight range'')]
      else
        (let base = [opt MATCH_EQ (js ''Equals''), opt MATCH_CONTAINS (js ''Contains''), opt MATCH_EXISTS (js ''Exists'')] in
         if src = SOURCE_HEADER then base
         else base @ [opt MATCH_GT (js ''Greater than''), opt MATCH_GTE (js ''Greater than or equal''),
                      opt MATCH_LT (js ''Less than''), opt MATCH_LTE (js ''Less than or equal'')]))"

definition isTimeFunc :: "jstring option \<Rightarrow> bool" where
  "isTimeFunc v = (case v of None \<Rightarrow> False | Some s \<Rightarrow> s \<in> set TIME_FUNCS)"

text \<open>A condition of which any property may be missing.\<close>

record partial_condition =
  pc_source :: "jstring option"
  pc_path :: "jstring option"
  pc_timeFunc :: "jstring option"
  pc_timezone :: "jstring option"
  pc_mode :: "jstring option"
  pc_value :: "jstring option"
  pc_rangeStart :: "jstring option"
  pc_rangeEnd :: "jstring option"

definition no_condition :: partial_condition where
  "no_condition = \<lparr>pc_source = None, pc_path = None, pc_timeFunc = None, pc_timezone = None, pc_mode = None,
     pc_value = None, pc_rangeStart = None, pc_rangeEnd = None\<rparr>"

definition partial_of :: "RequestCondition \<Rightarrow> partial_condition" where
  "partial_of c =
     (case c of
        TimeCondition f tz m v a b \<Rightarrow>
          no_condition\<lparr>pc_source := Some SOURCE_TIME, pc_timeFunc := Some f, pc_timezone := Some tz, pc_mode := Some m,
            pc_value := Some v, pc_rangeStart := Some a, pc_rangeEnd := Some b\<rparr>
      | ParamHeaderCondition src p m v \<Rightarrow>
          no_condition\<lparr>pc_source := Some src, pc_path := Some p, pc_mode := Some m, pc_value := Some v\<rparr>)"

definition or_empty :: "jstring option \<Rightarrow> jstring" where
  "or_empty v = (case v of None \<Rightarrow> [] | Some s \<Rightarrow> s)"

definition normalizeCondition :: "partial_condition option \<Rightarrow> RequestCondition" where
  "normalizeCondition cond =
     (let c = (case cond of None \<Rightarrow> no_condition | Some c \<Rightarrow> c);
          src = (if pc_source c = Some SOURCE_TIME then SOURCE_TIME
                 else if pc_source c = Some SOURCE_HEADER then SOURCE_HEADER else SOURCE_PARAM);
          allowed = (\<lambda>default. case pc_mode c of
                       Some m \<Rightarrow> if m \<in> option_value ` set (getRequestRuleMatchOptions src) then m else default
                     | None \<Rightarrow> default) in
      if src = SOURCE_TIME then
        TimeCondition (if isTimeFunc (pc_timeFunc c) then the (pc_timeFunc c) else js ''hour'')
          (if or_empty (pc_timezone c) = [] then js ''Asia/Shanghai'' else or_empty (pc_timezone c))
          (allowed MATCH_GTE) (or_empty (pc_value c)) (or_empty (pc_rangeStart c)) (or_empty (pc_rangeEnd c))
      else ParamHeaderCondition src (or_empty (pc_path c)) (allowed MATCH_EQ) (or_empty (pc_value c)))"

definition buildExprLiteral :: "jstring \<Rightarrow> jstring \<Rightarrow> jstring" where
  "buildExprLiteral mode val =
     (let t = trim val in
      if mode = MATCH_CONTAINS then quote t
      else if t = js ''true'' \<or> t = js ''false'' then t
      else if NUMERIC_LITERAL_REGEX t then t
      else quote t)"

definition buildTimeConditionExpr :: "RequestCondition \<Rightarrow> jstring" where
  "buildTimeConditionExpr cond =
     (let n = normalizeCondition (Some (partial_of cond)); mode = cond_mode n;
          fn = timeFunc n @ js ''('' @ quote (timezone n) @ js '')'' in
      if mode = MATCH_RANGE then
        (let s = trim (rangeStart n); e = trim (rangeEnd n) in
         if \<not> NUMERIC_LITERAL_REGEX s \<or> \<not> NUMERIC_LITERAL_REGEX e then []
         else fn @ js '' >= '' @ s @ js '' || '' @ fn @ js '' < '' @ e)
      else
        (let v = trim (cond_value n) in
         if \<not> NUMERIC_LITERAL_REGEX v then []
         else fn @ js '' '' @ (if mode = MATCH_GTE then js ''>='' else if mode = MATCH_LT then js ''<'' else js ''=='') @
              js '' '' @ v))"

definition buildRequestConditionExpr :: "RequestCondition \<Rightarrow> jstring" where
  "buildRequestConditionExpr cond =
     (if is_TimeCondition cond then buildTimeConditionExpr cond
      else
        (let n = normalizeCondition (Some (partial_of cond)); path = trim (cond_path n); mode = cond_mode n in
         if path = [] then []
         else
           (let isHeader = (cond_source n = SOURCE_HEADER);
                sourceExpr = (if isHeader then js ''header('' @ quote path @ js '')'' else js ''param('' @ quote path @ js '')'');
                lit = buildExprLiteral mode (cond_value n) in
            if mode = MATCH_EXISTS then (if isHeader then sourceExpr @ js '' != \"\"'' else sourceExpr @ js '' != nil'')
            else if mode = MATCH_CONTAINS then
              (if isHeader then js ''has('' @ sourceExpr @ js '', '' @ lit @ js '')''
               else sourceExpr @ js '' != nil && has('' @ sourceExpr @ js '', '' @ lit @ js '')'')
            else if mode \<in> {MATCH_GT, MATCH_GTE, MATCH_LT, MATCH_LTE} then
              (let numText = trim (cond_value n) in
               if \<not> NUMERIC_LITERAL_REGEX numText then []
               else sourceExpr @ js '' != nil && '' @ sourceExpr @ js '' '' @
                 (if mode = MATCH_GT then js ''>'' else if mode = MATCH_GTE then js ''>=''
                  else if mode = MATCH_LT then js ''<'' else js ''<='') @ js '' '' @ numText)
            else sourceExpr @ js '' == '' @ lit)))"

definition buildRuleGroupFactor :: "RequestRuleGroup \<Rightarrow> jstring" where
  "buildRuleGroupFactor g =
     (let m = trim (multiplier g) in
      if \<not> NUMERIC_LITERAL_REGEX m then []
      else
        (let condExprs = filter_truthy (map buildRequestConditionExpr (group_conditions g)) in
         if condExprs = [] then []
         else
           (let combined =
                  (if length condExprs = 1 then hd condExprs
                   else join_with (js '' && '')
                     (map (\<lambda>e. if str_includes (js '' || '') e then js ''('' @ e @ js '')'' else e) condExprs)) in
            js ''('' @ combined @ js '' ? '' @ m @ js '' : 1)'')))"

definition buildRequestRuleExpr :: "RequestRuleGroup list \<Rightarrow> jstring" where
  "buildRequestRuleExpr groups = join_with (js '' * '') (filter_truthy (map buildRuleGroupFactor groups))"

section \<open>The splitters undo the joins\<close>

definition depth_after :: "int \<Rightarrow> jstring \<Rightarrow> int" where
  "depth_after d s = foldl paren_depth d s"

lemma depth_after_simps [simp]:
  "depth_after d [] = d" "depth_after d (c # s) = depth_after (paren_depth d c) s"
  "depth_after d (s @ t) = depth_after (depth_after d s) t"
  by (simp_all add: depth_after_def)

text \<open>No character of the text is outside \<open>k\<close> pairs of parentheses.\<close>

fun above :: "int \<Rightarrow> int \<Rightarrow> jstring \<Rightarrow> bool" where
  "above k d [] = True"
| "above k d (c # s) = (k \<le> paren_depth d c \<and> above k (paren_depth d c) s)"

definition balanced :: "jstring \<Rightarrow> bool" where
  "balanced s \<longleftrightarrow> above 0 0 s \<and> depth_after 0 s = 0"

text \<open>The separator does not start at a place outside parentheses.\<close>

fun top_free :: "jstring \<Rightarrow> int \<Rightarrow> jstring \<Rightarrow> bool" where
  "top_free sep d [] = True"
| "top_free sep d (c # s) =
     (\<not> (paren_depth d c = 0 \<and> starts_with sep (c # s)) \<and> top_free sep (paren_depth d c) s)"

lemma paren_depth_shift: "paren_depth (d + k) c = paren_depth d c + k"
  by (simp add: paren_depth_def)

lemma depth_shift: "depth_after (d + k) s = depth_after d s + k"
  by (induction s arbitrary: d) (simp_all add: paren_depth_shift)

lemma above_shift: "above (j + k) (d + k) s \<longleftrightarrow> above j d s"
  by (induction s arbitrary: d) (simp_all add: paren_depth_shift)

lemma above_append [simp]: "above k d (s @ t) \<longleftrightarrow> above k d s \<and> above k (depth_after d s) t"
  by (induction s arbitrary: d) auto

lemma above_top_free: "above k d s \<Longrightarrow> 0 < k \<Longrightarrow> top_free sep d s"
  by (induction s arbitrary: d) auto

lemma above_mono: "above k d s \<Longrightarrow> j \<le> k \<Longrightarrow> above j d s"
  by (induction s arbitrary: d) auto

lemma balanced_inside:
  assumes "balanced s" shows "above k k s" "depth_after k s = k"
  using assms above_shift [of 0 k 0 s] depth_shift [of 0 k s] by (simp_all add: balanced_def)

lemma balanced_append: "balanced s \<Longrightarrow> balanced t \<Longrightarrow> balanced (s @ t)"
  by (simp add: balanced_def)

lemma balanced_parens: "balanced s \<Longrightarrow> balanced (js ''('' @ s @ js '')'')"
  using balanced_inside [of s 1] above_mono [of 1 1 s 0] by (simp add: balanced_def js_def paren_depth_def)

lemma flat_balanced: "40 \<notin> set s \<Longrightarrow> 41 \<notin> set s \<Longrightarrow> depth_after d s = d \<and> (k \<le> d \<longrightarrow> above k d s)"
  by (induction s) (auto simp: paren_depth_def)

lemma starts_with_straddle:
  assumes "starts_with sep (u @ t)" "u \<noteq> []" "last u \<notin> set sep"
  shows "starts_with sep u"
proof (cases "length sep \<le> length u")
  case True
  then show ?thesis using assms(1) by (simp add: starts_with_def)
next
  case False
  then have "sep = u @ take (length sep - length u) t" using assms(1) by (auto simp: starts_with_def)
  then have "last u \<in> set sep" using assms(2) by (metis UnCI last_in_set set_append)
  then show ?thesis using assms(3) by simp
qed

lemma split_top_part:
  "top_free sep d s \<Longrightarrow> s = [] \<or> last s \<notin> set sep \<Longrightarrow>
   split_top sep d cur (s @ t) = split_top sep (depth_after d s) (cur @ s) t"
proof (induction s arbitrary: d cur)
  case (Cons c s)
  have "\<not> (paren_depth d c = 0 \<and> starts_with sep (c # s @ t))"
    using Cons.prems starts_with_straddle [of sep "c # s" t] by auto
  then have "split_top sep d cur ((c # s) @ t) = split_top sep (paren_depth d c) (cur @ [c]) (s @ t)"
    by (auto simp: Let_def)
  also have "\<dots> = split_top sep (depth_after (paren_depth d c) s) ((cur @ [c]) @ s) t"
    using Cons.prems by (intro Cons.IH) (auto split: if_splits)
  finally show ?case by simp
qed simp

lemma split_top_sep:
  assumes "sep \<noteq> []" "hd sep \<noteq> 40" "hd sep \<noteq> 41"
  shows "split_top sep 0 cur (sep @ t) = trim cur # split_top sep 0 [] t"
proof -
  obtain x xs where sep: "sep = x # xs" using assms(1) by (cases sep) auto
  then have "paren_depth 0 x = 0" using assms by (simp add: paren_depth_def)
  moreover have "starts_with sep (x # xs @ t)" by (simp add: sep starts_with_def)
  ultimately show ?thesis by (simp add: sep Let_def)
qed

text \<open>A part that a splitter finds again between separators.\<close>

definition good_part :: "jstring \<Rightarrow> jstring \<Rightarrow> bool" where
  "good_part sep s \<longleftrightarrow> s \<noteq> [] \<and> trimmed s \<and> last s \<notin> set sep \<and> top_free sep 0 s \<and> depth_after 0 s = 0"

lemma split_join_top:
  assumes "sep \<noteq> []" "hd sep \<noteq> 40" "hd sep \<noteq> 41"
  shows "list_all (good_part sep) parts \<Longrightarrow> parts \<noteq> [] \<Longrightarrow> split_top sep 0 [] (join_with sep parts) = parts"
proof (induction parts rule: induct_list012)
  case (2 x)
  then show ?case using split_top_part [of sep 0 x "[]" "[]"] by (simp add: good_part_def trim_id)
next
  case (3 x y ys)
  then have x: "good_part sep x" by simp
  have "split_top sep 0 [] (join_with sep (x # y # ys)) = split_top sep 0 x (sep @ join_with sep (y # ys))"
    using split_top_part [of sep 0 x "[]"] x by (simp add: good_part_def)
  also have "\<dots> = x # split_top sep 0 [] (join_with sep (y # ys))"
    using split_top_sep [OF assms] x by (simp add: good_part_def trim_id)
  finally show ?case using 3 by simp
qed simp

lemma multiply_join:
  "list_all (good_part (js '' * '')) parts \<Longrightarrow> parts \<noteq> [] \<Longrightarrow> splitTopLevelMultiply (join_with (js '' * '') parts) = parts"
  using split_join_top [of "js '' * ''" parts]
  by (simp add: splitTopLevelMultiply_def js_def filter_truthy_def filter_id_conv list_all_iff good_part_def)

lemma and_join:
  "list_all (good_part (js '' && '')) parts \<Longrightarrow> parts \<noteq> [] \<Longrightarrow> splitTopLevelAnd (join_with (js '' && '') parts) = parts"
  using split_join_top [of "js '' && ''" parts]
  by (simp add: splitTopLevelAnd_def js_def filter_truthy_def filter_id_conv list_all_iff good_part_def)

section \<open>Names, numbers and literals are read as written\<close>

text \<open>A name that is written without an escape.\<close>

definition plain_name :: "jstring \<Rightarrow> bool" where
  "plain_name p \<longleftrightarrow> p \<noteq> [] \<and> 34 \<notin> set p \<and> quote p = 34 # p @ [34]"

lemma quoted_name_plain: "plain_name p \<Longrightarrow> quoted_name (quote p @ r) = [(p, r)]"
proof -
  assume p: "plain_name p"
  then have "list_all (\<lambda>c. c \<noteq> 34) p" "p \<noteq> []" by (auto simp: plain_name_def list_all_iff)
  then show ?thesis using rx_some_until [of "\<lambda>c. c \<noteq> 34" p 34 r] p
    by (simp add: quoted_name_def plain_name_def)
qed

lemma named_call_one:
  "plain_name p \<Longrightarrow> named_call [f] (f @ js ''('' @ quote p @ js '')'' @ r) = [((f, p), r)]"
  using rx_lit_append [of "f @ js ''(''"] by (simp add: named_call_def quoted_name_plain)

lemma named_call_differs: "f \<noteq> [] \<Longrightarrow> s = [] \<or> hd s \<noteq> hd f \<Longrightarrow> named_call [f] s = []"
  by (cases f; cases s) (auto simp: named_call_def)

lemma named_call_time_differs: "s = [] \<or> hd s \<notin> {104, 109, 119, 100} \<Longrightarrow> named_call TIME_FUNCS s = []"
  by (cases s) (auto simp: named_call_def TIME_FUNCS_def js_def)

lemma named_call_time:
  assumes "f \<in> set TIME_FUNCS" "plain_name p"
  shows "named_call TIME_FUNCS (f @ js ''('' @ quote p @ js '')'' @ r) = [((f, p), r)]"
proof -
  have q: "quoted_name (quote p @ 41 # r) = [(p, 41 # r)]" by (rule quoted_name_plain [OF assms(2)])
  from assms(1) consider "f = js ''hour''" | "f = js ''minute''" | "f = js ''weekday''" | "f = js ''month''" | "f = js ''day''"
    by (auto simp: TIME_FUNCS_def)
  then show ?thesis by cases (simp_all add: named_call_def TIME_FUNCS_def js_def q)
qed

lemma named_call_source:
  assumes "f = SOURCE_PARAM \<or> f = SOURCE_HEADER" "plain_name p"
  shows "named_call [SOURCE_PARAM, SOURCE_HEADER] (f @ js ''('' @ quote p @ js '')'' @ r) = [((f, p), r)]"
proof -
  have q: "quoted_name (quote p @ 41 # r) = [(p, 41 # r)]" by (rule quoted_name_plain [OF assms(2)])
  show ?thesis using assms(1)
    by (elim disjE) (simp_all add: named_call_def SOURCE_PARAM_def SOURCE_HEADER_def js_def q)
qed

lemma numeric_chars: "NUMERIC_LITERAL_REGEX t \<Longrightarrow> t \<noteq> [] \<and> list_all num_char t"
proof -
  assume n: "NUMERIC_LITERAL_REGEX t"
  define u where "u = (if take 1 t = js ''-'' then drop 1 t else t)"
  define r where "r = dropWhile is_digit u"
  define q where "q = (if take 1 r = js ''.'' then dropWhile is_digit (drop 1 r) else r)"
  have q: "list_all num_char q"
    using n unfolding NUMERIC_LITERAL_REGEX_def Let_def u_def [symmetric] r_def [symmetric] q_def [symmetric]
    by (cases q; cases "tl q") (auto simp: num_char_def js_def list_all_iff split: if_splits)
  have dig: "list_all num_char (takeWhile is_digit s)" for s
    by (auto simp: list_all_iff num_char_def dest: set_takeWhileD)
  have "list_all num_char r"
  proof (cases "take 1 r = js ''.''")
    case True
    then have "r = 46 # takeWhile is_digit (drop 1 r) @ q" by (cases r) (auto simp: q_def js_def)
    moreover have "list_all num_char (46 # takeWhile is_digit (drop 1 r) @ q)"
      using q dig [of "drop 1 r"] by (simp add: num_char_def)
    ultimately show ?thesis by metis
  qed (use q in \<open>simp add: q_def\<close>)
  then have "list_all num_char u"
    using dig [of u] by (metis list_all_append r_def takeWhile_dropWhile_id)
  moreover have "u = t \<or> t = 45 # u" by (cases t) (auto simp: u_def js_def)
  ultimately have "list_all num_char t" by (auto simp: num_char_def)
  moreover have "t \<noteq> []" using n by (auto simp: NUMERIC_LITERAL_REGEX_def js_def Let_def)
  ultimately show ?thesis by simp
qed

lemma num_char_not_ws: "num_char c \<Longrightarrow> \<not> is_ws c"
  by (auto simp: num_char_def digit_not_ws)

lemma numeric_trim [simp]: "NUMERIC_LITERAL_REGEX t \<Longrightarrow> trim t = t"
  using numeric_chars [of t] by (auto simp: list_all_iff num_char_not_ws intro!: trim_no_ws)

text \<open>The literal that \<open>JSON.stringify\<close> writes is the one the pattern for literals finds.\<close>

lemma literal_body_escape:
  "literal_body ((if is_lead c \<or> is_trail c then u_escape c else escape_char c) @ r) =
   map (apfst (append (if is_lead c \<or> is_trail c then u_escape c else escape_char c))) (literal_body r)"
proof -
  have "\<not> is_line_end (hex_digit n)" if "n < 16" for n using that by (auto simp: hex_digit_def is_line_end_def)
  moreover have "hex_digit n \<noteq> 34 \<and> hex_digit n \<noteq> 92" if "n < 16" for n using that by (auto simp: hex_digit_def)
  ultimately have "literal_body (u_escape c @ r) = map (apfst (append (u_escape c))) (literal_body r)"
    by (auto simp: u_escape_def is_line_end_def)
  then show ?thesis by (auto simp: escape_char_def is_line_end_def)
qed

lemma literal_body_quote: "literal_body (quote_body s @ 34 # r) = [(quote_body s @ [34], r)]"
proof (induction s rule: quote_body.induct)
  case (2 c)
  then show ?case using literal_body_escape [of c "34 # r"] by simp
next
  case (3 c d r')
  then show ?case
  proof (cases "is_lead c \<and> is_trail d")
    case True
    then have "c \<noteq> 34" "c \<noteq> 92" "d \<noteq> 34" "d \<noteq> 92" by (auto simp: is_lead_def is_trail_def)
    then show ?thesis using 3 True by simp
  next
    case False
    then have "quote_body (c # d # r') = (if is_lead c \<or> is_trail c then u_escape c else escape_char c) @ quote_body (d # r')"
      by auto
    then show ?thesis using 3(2) [OF False] literal_body_escape [of c "quote_body (d # r') @ 34 # r"]
      by (simp del: quote_body.simps)
  qed
qed simp

lemma string_literal_quote: "string_literal (quote s @ r) = [(quote s, r)]"
  by (simp add: string_literal_def quote_def literal_body_quote)

lemma parse_quote [simp]: "units s \<Longrightarrow> JSON_parse (quote s) = Some (JStr s)"
  using parse_stringify [of "JStr s"] by (simp add: JSON_stringify_def)

lemma literal_value_quote: "units s \<Longrightarrow> literal_value (quote s) = Some s"
  by (simp add: literal_value_def)

section \<open>Conditions round-trip\<close>

text \<open>The call that a condition starts with.\<close>

definition call_text :: "jstring \<Rightarrow> jstring \<Rightarrow> jstring" where
  "call_text f p = f @ js ''('' @ quote p @ js '')''"

lemma call_text_time: "f \<in> set TIME_FUNCS \<Longrightarrow> plain_name p \<Longrightarrow> named_call TIME_FUNCS (call_text f p @ r) = [((f, p), r)]"
  using named_call_time [of f p r] by (simp add: call_text_def)

lemma call_text_one: "plain_name p \<Longrightarrow> named_call [f] (call_text f p @ r) = [((f, p), r)]"
  using named_call_one [of p f r] by (simp add: call_text_def)

lemma call_text_source:
  "f = SOURCE_PARAM \<or> f = SOURCE_HEADER \<Longrightarrow> plain_name p \<Longrightarrow>
   named_call [SOURCE_PARAM, SOURCE_HEADER] (call_text f p @ r) = [((f, p), r)]"
  using named_call_source [of f p r] by (simp add: call_text_def)

lemma call_text_hd: "f \<noteq> [] \<Longrightarrow> call_text f p @ r \<noteq> [] \<and> hd (call_text f p @ r) = hd f"
  by (simp add: call_text_def)

definition numeral_text :: "jstring \<Rightarrow> bool" where
  "numeral_text a \<longleftrightarrow> a \<noteq> [] \<and> list_all num_char a"

lemma range_regex_written:
  assumes "f \<in> set TIME_FUNCS" "plain_name p" "numeral_text a" "numeral_text b" "stops num_char r"
  shows "\<exists>ms. range_regex (call_text f p @ js '' >= '' @ a @ js '' || '' @ call_text f p @ js '' < '' @ b @ r) =
    ((f, p, a, b), r) # ms"
proof -
  have again: "rx_lit (f @ js ''(\"'' @ p @ js ''\") < '') (call_text f p @ js '' < '' @ b @ r) = [b @ r]"
    using assms(2) rx_lit_append [of "f @ js ''(\"'' @ p @ js ''\") < ''" "b @ r"]
    by (simp add: call_text_def plain_name_def js_def)
  obtain ms where b: "rx_some num_char (b @ r) = (b, r) # ms"
    using rx_some_longest [of num_char b r] assms(4,5) by (auto simp: numeral_text_def)
  obtain ns where a: "rx_some num_char (a @ js '' || '' @ call_text f p @ js '' < '' @ b @ r) =
      (a, js '' || '' @ call_text f p @ js '' < '' @ b @ r) # ns"
    using rx_some_longest [of num_char a] assms(3) by (force simp: numeral_text_def num_char_def is_digit_def js_def)
  show ?thesis using assms(1,2) by (simp add: range_regex_def call_text_time a b again)
qed

lemma range_regex_other:
  assumes "f \<in> set TIME_FUNCS" "plain_name p" "numeral_text v" "oper \<in> {js ''=='', js ''>='', js ''<''}"
  shows "range_regex (call_text f p @ js '' '' @ oper @ js '' '' @ v) = []"
proof (cases "oper = js ''>=''")
  case True
  have "rx_lit (js '' >= '') (js '' '' @ js ''>='' @ js '' '' @ v) = [v]"
    using rx_lit_append [of "js '' >= ''" v] by (simp add: js_def)
  moreover have "concat (map (\<lambda>(a, s3). concat (map (g a) (rx_lit (js '' || '') s3))) (rx_some num_char (v @ []))) = []" for g
    using assms(3) by (subst rx_some_then) (auto simp: numeral_text_def js_def num_char_def is_digit_def)
  ultimately show ?thesis using assms(1,2) True by (simp add: range_regex_def call_text_time)
next
  case False
  then have "rx_lit (js '' >= '') (js '' '' @ oper @ js '' '' @ v) = []" using assms(4) by (auto simp: js_def)
  then show ?thesis using assms(1,2) by (simp add: range_regex_def call_text_time)
qed

lemma parse_time_compare:
  assumes "f \<in> set TIME_FUNCS" "plain_name p" "numeral_text v" "oper \<in> {js ''=='', js ''>='', js ''<''}"
  shows "tryParseTimeCondition (call_text f p @ js '' '' @ oper @ js '' '' @ v) =
    Some (TimeCondition f p (if oper = js ''=='' then MATCH_EQ else if oper = js ''>='' then MATCH_GTE else MATCH_LT) v [] [])"
proof -
  have 1: "rx_lit (js ''('') (call_text f p @ r) = []" for r
    using assms(1) by (auto simp: TIME_FUNCS_def call_text_def js_def)
  show ?thesis using assms
    by (simp add: tryParseTimeCondition_def range_regex_other 1 call_text_time) (auto simp: js_def rx_some_end numeral_text_def)
qed

lemma parse_time_range:
  assumes "f \<in> set TIME_FUNCS" "plain_name p" "numeral_text a" "numeral_text b"
  defines "e \<equiv> call_text f p @ js '' >= '' @ a @ js '' || '' @ call_text f p @ js '' < '' @ b"
  shows "tryParseTimeCondition e = Some (TimeCondition f p MATCH_RANGE [] a b)"
    and "tryParseTimeCondition (js ''('' @ e @ js '')'') = Some (TimeCondition f p MATCH_RANGE [] a b)"
proof -
  obtain ms where "range_regex (e @ []) = ((f, p, a, b), []) # ms"
    using range_regex_written [OF assms(1-4), of "[]"] by (auto simp: e_def)
  then show "tryParseTimeCondition e = Some (TimeCondition f p MATCH_RANGE [] a b)"
    by (simp add: tryParseTimeCondition_def)
  obtain ns where "range_regex (e @ js '')'') = ((f, p, a, b), js '')'') # ns"
    using range_regex_written [OF assms(1-4), of "js '')''"] by (auto simp: e_def js_def num_char_def is_digit_def)
  moreover have "range_regex (js ''('' @ e @ js '')'') = []"
    by (simp add: range_regex_def named_call_time_differs js_def)
  ultimately show "tryParseTimeCondition (js ''('' @ e @ js '')'') = Some (TimeCondition f p MATCH_RANGE [] a b)"
    by (simp add: tryParseTimeCondition_def)
qed

text \<open>Conditions on the request: the patterns before the right one do not match.\<close>

lemma not_time: "s = [] \<or> hd s \<notin> {104, 109, 119, 100, 40} \<Longrightarrow> tryParseTimeCondition s = None"
  by (cases s) (auto simp: tryParseTimeCondition_def range_regex_def named_call_time_differs js_def)

lemma header_not_time: "tryParseTimeCondition (call_text (js ''header'') p @ r) = None"
proof -
  have "named_call TIME_FUNCS (call_text (js ''header'') p @ r) = []"
    by (simp add: named_call_def TIME_FUNCS_def js_def call_text_def)
  then show ?thesis by (simp add: tryParseTimeCondition_def range_regex_def call_text_def js_def)
qed

lemma has_not_time: "tryParseTimeCondition (js ''has('' @ r) = None"
proof -
  have "named_call TIME_FUNCS (js ''has('' @ r) = []" by (simp add: named_call_def TIME_FUNCS_def js_def)
  then show ?thesis by (simp add: tryParseTimeCondition_def range_regex_def js_def)
qed

lemma source_not_time:
  "f = js ''param'' \<or> f = js ''header'' \<Longrightarrow> tryParseTimeCondition (call_text f p @ r) = None"
  using header_not_time [of p r] not_time [of "call_text f p @ r"] by (auto simp: call_text_def js_def)

lemma other_source:
  "named_call [js ''param''] (call_text (js ''header'') p @ r) = []"
  "named_call [js ''header''] (call_text (js ''param'') p @ r) = []"
  by (simp_all add: named_call_def call_text_def js_def)

lemma not_has:
  "f = js ''param'' \<or> f = js ''header'' \<Longrightarrow> rx_lit (js ''has('') (call_text f p @ r) = []"
  by (auto simp: call_text_def js_def)

lemma parse_exists:
  assumes "plain_name p"
  shows "tryParseRequestCondition (call_text (js ''header'') p @ js '' != \"\"'') =
      Some (Some (ParamHeaderCondition SOURCE_HEADER p MATCH_EXISTS []))"
    and "tryParseRequestCondition (call_text (js ''param'') p @ js '' != nil'') =
      Some (Some (ParamHeaderCondition SOURCE_PARAM p MATCH_EXISTS []))"
  using assms by (simp_all add: tryParseRequestCondition_def source_not_time call_text_one other_source)

lemma parse_contains:
  assumes "plain_name p" "units v"
  shows "tryParseRequestCondition (js ''has('' @ call_text (js ''header'') p @ js '', '' @ quote v @ js '')'') =
      Some (Some (ParamHeaderCondition SOURCE_HEADER p MATCH_CONTAINS v))"
proof -
  have "named_call [f] (js ''has('' @ r) = []" if "f = js ''param'' \<or> f = js ''header''" for f r
    using that by (auto simp: named_call_def js_def)
  then show ?thesis using assms
    by (simp add: tryParseRequestCondition_def has_not_time call_text_one string_literal_quote literal_value_quote)
qed

lemma parse_equal_written:
  assumes "plain_name p" "f = SOURCE_PARAM \<or> f = SOURCE_HEADER" "l \<noteq> []" "list_all (\<lambda>c. \<not> is_line_end c) l"
    "parseExprLiteral l = Some w"
  shows "tryParseRequestCondition (call_text f p @ js '' == '' @ l) =
    Some (Some (ParamHeaderCondition f p MATCH_EQ (json_to_str w)))"
proof -
  have eq: "parse_equal (call_text f p @ js '' == '' @ l) = Some (ParamHeaderCondition f p MATCH_EQ (json_to_str w))"
    using assms by (simp add: parse_equal_def call_text_source rx_some_end)
  have ne: "js '' == '' @ l \<noteq> js '' != \"\"''" "js '' == '' @ l \<noteq> js '' != nil''"
    "rx_lit (js '' != nil && has('') (js '' == '' @ l) = []" "rx_lit (js '' != nil && '') (js '' == '' @ l) = []"
    by (simp_all add: js_def)
  have f: "f = js ''param'' \<or> f = js ''header''" using assms(2) by (simp add: SOURCE_PARAM_def SOURCE_HEADER_def)
  have cmp: "parse_compare (call_text f p @ js '' == '' @ l) = parse_equal (call_text f p @ js '' == '' @ l)"
    using f assms(1) by (elim disjE) (simp_all add: parse_compare_def call_text_one other_source ne)
  show ?thesis using f assms(1) cmp eq
    by (elim disjE) (simp_all add: tryParseRequestCondition_def source_not_time call_text_one other_source not_has ne)
qed

lemma parse_literal_written:
  assumes "trimmed v" "units v"
  shows "\<exists>w. parseExprLiteral (buildExprLiteral MATCH_EQ v) = Some w \<and> json_to_str w = v"
proof -
  have t: "trim v = v" using assms(1) by (simp add: trim_eq_iff)
  have q: "trim (quote v) = quote v" using ser_trimmed [of "JStr v"] assms(2) by (simp add: JSON_stringify_def)
  have "quote v \<noteq> js ''true''" "quote v \<noteq> js ''false''" "\<not> NUMERIC_LITERAL_REGEX (quote v)"
    using numeric_chars [of "quote v"] by (auto simp: quote_def js_def num_char_def is_digit_def)
  then show ?thesis using assms(2) t q
    by (auto simp: buildExprLiteral_def parseExprLiteral_def MATCH_EQ_def MATCH_CONTAINS_def Let_def)
qed

text \<open>
  The text of a condition that can stand in a list of conditions: its parentheses are balanced, no
  \<open>&&\<close> is outside them, and only an overnight range has the \<open>||\<close> that the writer puts in parentheses.
\<close>

definition condition_text_ok :: "RequestCondition \<Rightarrow> bool" where
  "condition_text_ok c \<longleftrightarrow>
     (let e = buildRequestConditionExpr c in
      balanced e \<and> top_free (js '' && '') 0 e \<and>
      (str_includes (js '' || '') e \<longrightarrow> is_TimeCondition c \<and> cond_mode c = MATCH_RANGE))"

text \<open>The conditions the parser reads back: all except comparisons and searches of a parameter.\<close>

fun condition_ok :: "RequestCondition \<Rightarrow> bool" where
  "condition_ok (TimeCondition f tz m v a b) =
     (f \<in> set TIME_FUNCS \<and> plain_name tz \<and> condition_text_ok (TimeCondition f tz m v a b) \<and>
      (if m = MATCH_RANGE then v = [] \<and> NUMERIC_LITERAL_REGEX a \<and> NUMERIC_LITERAL_REGEX b
       else m \<in> {MATCH_EQ, MATCH_GTE, MATCH_LT} \<and> NUMERIC_LITERAL_REGEX v \<and> a = [] \<and> b = []))"
| "condition_ok (ParamHeaderCondition src p m v) =
     ((src = SOURCE_PARAM \<or> src = SOURCE_HEADER) \<and> plain_name p \<and> trimmed p \<and>
      condition_text_ok (ParamHeaderCondition src p m v) \<and>
      (m = MATCH_EXISTS \<and> v = [] \<or>
       m = MATCH_CONTAINS \<and> src = SOURCE_HEADER \<and> trimmed v \<and> units v \<or>
       m = MATCH_EQ \<and> trimmed v \<and> units v \<and> list_all (\<lambda>c. \<not> is_line_end c) (buildExprLiteral MATCH_EQ v)))"

lemmas source_defs = SOURCE_PARAM_def SOURCE_HEADER_def SOURCE_TIME_def

lemma build_time:
  assumes "f \<in> set TIME_FUNCS" "tz \<noteq> []"
  shows "NUMERIC_LITERAL_REGEX a \<Longrightarrow> NUMERIC_LITERAL_REGEX b \<Longrightarrow>
      buildRequestConditionExpr (TimeCondition f tz MATCH_RANGE v a b) =
        call_text f tz @ js '' >= '' @ a @ js '' || '' @ call_text f tz @ js '' < '' @ b"
    and "NUMERIC_LITERAL_REGEX v \<Longrightarrow> m \<in> {MATCH_EQ, MATCH_GTE, MATCH_LT} \<Longrightarrow>
      buildRequestConditionExpr (TimeCondition f tz m v a b) =
        call_text f tz @ js '' '' @ (if m = MATCH_GTE then js ''>='' else if m = MATCH_LT then js ''<'' else js ''=='') @
        js '' '' @ v"
  using assms
  by (auto simp: buildRequestConditionExpr_def buildTimeConditionExpr_def normalizeCondition_def partial_of_def
      no_condition_def getRequestRuleMatchOptions_def isTimeFunc_def or_empty_def call_text_def source_defs match_defs Let_def)

lemma match_distinct [simp]:
  "MATCH_CONTAINS \<noteq> MATCH_EXISTS" "MATCH_EQ \<noteq> MATCH_EXISTS" "MATCH_EQ \<noteq> MATCH_CONTAINS"
  "MATCH_EQ \<noteq> MATCH_GT" "MATCH_EQ \<noteq> MATCH_GTE" "MATCH_EQ \<noteq> MATCH_LT" "MATCH_EQ \<noteq> MATCH_LTE"
  by (simp_all add: match_defs)

lemma normalize_source:
  "src = SOURCE_PARAM \<or> src = SOURCE_HEADER \<Longrightarrow> m \<in> {MATCH_EQ, MATCH_CONTAINS, MATCH_EXISTS} \<Longrightarrow>
   normalizeCondition (Some (partial_of (ParamHeaderCondition src p m v))) = ParamHeaderCondition src p m v"
  by (elim disjE insertE)
    (simp_all add: normalizeCondition_def partial_of_def no_condition_def getRequestRuleMatchOptions_def or_empty_def source_defs Let_def)

lemma build_source:
  assumes "src = SOURCE_PARAM \<or> src = SOURCE_HEADER" "p \<noteq> []" "trimmed p"
  shows "buildRequestConditionExpr (ParamHeaderCondition src p MATCH_EXISTS v) =
      call_text src p @ (if src = SOURCE_HEADER then js '' != \"\"'' else js '' != nil'')"
    and "src = SOURCE_HEADER \<Longrightarrow> buildRequestConditionExpr (ParamHeaderCondition src p MATCH_CONTAINS v) =
      js ''has('' @ call_text src p @ js '', '' @ quote (trim v) @ js '')''"
    and "buildRequestConditionExpr (ParamHeaderCondition src p MATCH_EQ v) =
      call_text src p @ js '' == '' @ buildExprLiteral MATCH_EQ v"
proof -
  note b = buildRequestConditionExpr_def Let_def trim_id [OF assms(3)] normalize_source [OF assms(1)] call_text_def
    RequestCondition.sel RequestCondition.disc simp_thms if_True if_False insert_iff empty_iff match_distinct assms(2)
  have s: "(if src = SOURCE_HEADER then js ''header('' @ q else js ''param('' @ q) = src @ js ''('' @ q" for q
    using assms(1) by (auto simp: SOURCE_HEADER_def SOURCE_PARAM_def js_def)
  show "buildRequestConditionExpr (ParamHeaderCondition src p MATCH_EXISTS v) =
      call_text src p @ (if src = SOURCE_HEADER then js '' != \"\"'' else js '' != nil'')"
    by (simp only: b s) simp
  show "buildRequestConditionExpr (ParamHeaderCondition src p MATCH_CONTAINS v) =
      js ''has('' @ call_text src p @ js '', '' @ quote (trim v) @ js '')''" if "src = SOURCE_HEADER"
    by (simp only: b s) (simp add: that buildExprLiteral_def)
  show "buildRequestConditionExpr (ParamHeaderCondition src p MATCH_EQ v) =
      call_text src p @ js '' == '' @ buildExprLiteral MATCH_EQ v"
    by (simp only: b s append_assoc)
qed

text \<open>A condition in a list: the writer's parentheses around an overnight range.\<close>

definition listed :: "jstring \<Rightarrow> jstring" where
  "listed e = (if str_includes (js '' || '') e then js ''('' @ e @ js '')'' else e)"

lemma time_read:
  assumes "condition_ok (TimeCondition f tz m v a b)"
  defines "c \<equiv> TimeCondition f tz m v a b"
  shows "tryParseTimeCondition (buildRequestConditionExpr c) = Some c"
    and "str_includes (js '' || '') (buildRequestConditionExpr c) \<Longrightarrow>
      tryParseTimeCondition (js ''('' @ buildRequestConditionExpr c @ js '')'') = Some c"
proof -
  have tz: "tz \<noteq> []" "plain_name tz" "f \<in> set TIME_FUNCS" using assms(1) by (auto simp: plain_name_def)
  note num = numeric_chars [folded numeral_text_def]
  show "tryParseTimeCondition (buildRequestConditionExpr c) = Some c"
  proof (cases "m = MATCH_RANGE")
    case True
    then show ?thesis using assms tz build_time(1) [OF tz(3,1), of a b v] parse_time_range(1) [OF tz(3,2) num num, of a b]
      by (simp add: c_def)
  next
    case False
    then show ?thesis using assms tz build_time(2) [OF tz(3,1), of v m a b] parse_time_compare [OF tz(3,2) num, of v]
      by (auto simp: c_def match_defs)
  qed
  show "tryParseTimeCondition (js ''('' @ buildRequestConditionExpr c @ js '')'') = Some c"
    if "str_includes (js '' || '') (buildRequestConditionExpr c)"
  proof -
    have "m = MATCH_RANGE" using that assms by (auto simp: c_def condition_text_ok_def Let_def)
    then show ?thesis using assms tz build_time(1) [OF tz(3,1), of a b v] parse_time_range(2) [OF tz(3,2) num num, of a b]
      by (simp add: c_def)
  qed
qed

lemma source_read:
  assumes "condition_ok (ParamHeaderCondition src p m v)"
  shows "tryParseRequestCondition (buildRequestConditionExpr (ParamHeaderCondition src p m v)) =
    Some (Some (ParamHeaderCondition src p m v))"
proof -
  have p: "src = SOURCE_PARAM \<or> src = SOURCE_HEADER" "p \<noteq> []" "trimmed p" "plain_name p"
    using assms by (auto simp: plain_name_def)
  consider "m = MATCH_EXISTS" "v = []" | "m = MATCH_CONTAINS" "src = SOURCE_HEADER" "trimmed v" "units v"
    | "m = MATCH_EQ" "trimmed v" "units v" "list_all (\<lambda>c. \<not> is_line_end c) (buildExprLiteral MATCH_EQ v)"
    using assms by auto
  then show ?thesis
  proof cases
    case 1
    then show ?thesis using p parse_exists [OF p(4)] build_source(1) [OF p(1-3)] by (auto simp: source_defs)
  next
    case 2
    then show ?thesis using p parse_contains [OF p(4), of v] build_source(2) [OF p(1-3), of v]
      by (simp add: trim_id source_defs)
  next
    case 3
    obtain w where w: "parseExprLiteral (buildExprLiteral MATCH_EQ v) = Some w" "json_to_str w = v"
      using parse_literal_written [OF 3(2,3)] by blast
    have "buildExprLiteral MATCH_EQ v \<noteq> []"
      by (auto simp: buildExprLiteral_def Let_def quote_def MATCH_EQ_def MATCH_CONTAINS_def js_def dest: numeric_chars)
    then show ?thesis using w p 3 parse_equal_written [OF p(4,1) _ 3(4) w(1)] build_source(3) [OF p(1-3), of v] by simp
  qed
qed

lemma condition_read:
  assumes "condition_ok c"
  shows "tryParseRequestCondition (buildRequestConditionExpr c) = Some (Some c)"
    and "tryParseRequestCondition (listed (buildRequestConditionExpr c)) = Some (Some c)"
proof -
  have "tryParseRequestCondition (buildRequestConditionExpr c) = Some (Some c) \<and>
    tryParseRequestCondition (listed (buildRequestConditionExpr c)) = Some (Some c)"
  proof (cases c)
    case (TimeCondition f tz m v a b)
    note t = time_read [OF assms [unfolded TimeCondition], folded TimeCondition]
    have "tryParseRequestCondition e = Some (Some c)" if "tryParseTimeCondition e = Some c" for e
      using that by (simp add: tryParseRequestCondition_def)
    then show ?thesis using t by (simp add: listed_def)
  next
    case (ParamHeaderCondition src p m v)
    note s = source_read [OF assms [unfolded ParamHeaderCondition], folded ParamHeaderCondition]
    have "\<not> str_includes (js '' || '') (buildRequestConditionExpr c)"
      using assms by (simp add: ParamHeaderCondition condition_text_ok_def Let_def)
    then show ?thesis using s by (simp add: listed_def)
  qed
  then show "tryParseRequestCondition (buildRequestConditionExpr c) = Some (Some c)"
    and "tryParseRequestCondition (listed (buildRequestConditionExpr c)) = Some (Some c)" by simp_all
qed

section \<open>Rules round-trip\<close>

lemma top_free_wrapped:
  assumes "balanced s" "sep \<noteq> []" "hd sep \<noteq> 40" "hd sep \<noteq> 41"
  shows "top_free sep 0 (js ''('' @ s @ js '')'')" "depth_after 0 (js ''('' @ s @ js '')'') = 0"
proof -
  have "\<not> starts_with sep (c # t)" if "c \<in> {40, 41}" for c t
    using assms(2-4) that by (cases sep) (auto simp: starts_with_code)
  moreover have "top_free sep 1 (s @ [41])"
  proof -
    have t: "top_free sep d (u @ [41])" if "above 1 d u" for d u
      using that calculation by (induction u arbitrary: d) auto
    show ?thesis using t balanced_inside(1) [OF assms(1)] by simp
  qed
  ultimately show "top_free sep 0 (js ''('' @ s @ js '')'')" by (simp add: js_def paren_depth_def)
  show "depth_after 0 (js ''('' @ s @ js '')'') = 0"
    using balanced_inside(2) [OF assms(1), of 1] by (simp add: js_def paren_depth_def)
qed

lemma good_part_wrapped:
  assumes "balanced s" "sep \<noteq> []" "hd sep \<noteq> 40" "41 \<notin> set sep"
  shows "good_part sep (js ''('' @ s @ js '')'')"
proof -
  have "hd sep \<noteq> 41" using assms(2,4) by (cases sep) auto
  then show ?thesis using top_free_wrapped [OF assms(1-3)] assms(4)
    by (simp add: good_part_def trimmed_def js_def)
qed

definition good_ends :: "jstring \<Rightarrow> bool" where
  "good_ends e \<longleftrightarrow> e \<noteq> [] \<and> \<not> is_ws (hd e) \<and> \<not> is_ws (last e) \<and> last e \<noteq> 38"

lemma call_text_starts:
  "f \<in> set TIME_FUNCS \<or> f = SOURCE_PARAM \<or> f = SOURCE_HEADER \<Longrightarrow> \<not> is_ws (hd (call_text f p @ r)) \<and> call_text f p @ r \<noteq> []"
  by (auto simp: TIME_FUNCS_def source_defs call_text_def js_def)

lemma last_numeric: "NUMERIC_LITERAL_REGEX v \<Longrightarrow> \<not> is_ws (last v) \<and> last v \<noteq> 38 \<and> v \<noteq> []"
proof -
  assume "NUMERIC_LITERAL_REGEX v"
  then have v: "v \<noteq> []" "num_char (last v)" using numeric_chars [of v] by (auto simp: list_all_iff)
  then show ?thesis using num_char_not_ws [of "last v"] by (auto simp: num_char_def is_digit_def)
qed

lemma good_ends_call:
  assumes "f \<in> set TIME_FUNCS \<or> f = SOURCE_PARAM \<or> f = SOURCE_HEADER" "r \<noteq> []" "\<not> is_ws (last r)" "last r \<noteq> 38"
  shows "good_ends (call_text f p @ r)"
  unfolding good_ends_def using call_text_starts [OF assms(1), of p r] assms(2-4) by simp

lemma condition_ends:
  assumes "condition_ok c" shows "good_ends (buildRequestConditionExpr c)"
proof (cases c)
  case (TimeCondition f tz m v a b)
  then have f: "f \<in> set TIME_FUNCS" "tz \<noteq> []" using assms by (auto simp: plain_name_def)
  show ?thesis
  proof (cases "m = MATCH_RANGE")
    case True
    then have n: "NUMERIC_LITERAL_REGEX a" "NUMERIC_LITERAL_REGEX b" using assms TimeCondition by auto
    show ?thesis unfolding TimeCondition True build_time(1) [OF f n]
      using f last_numeric [OF n(2)] by (intro good_ends_call) auto
  next
    case False
    then have n: "NUMERIC_LITERAL_REGEX v" "m \<in> {MATCH_EQ, MATCH_GTE, MATCH_LT}" using assms TimeCondition by auto
    show ?thesis unfolding TimeCondition build_time(2) [OF f n]
      using f last_numeric [OF n(1)] by (intro good_ends_call) auto
  qed
next
  case (ParamHeaderCondition src p m v)
  then have p: "src = SOURCE_PARAM \<or> src = SOURCE_HEADER" "p \<noteq> []" "trimmed p" using assms by (auto simp: plain_name_def)
  have l: "\<not> is_ws (last (buildExprLiteral MATCH_EQ v)) \<and> last (buildExprLiteral MATCH_EQ v) \<noteq> 38 \<and> buildExprLiteral MATCH_EQ v \<noteq> []"
    using last_numeric [of "trim v"] by (auto simp: buildExprLiteral_def Let_def quote_def js_def)
  consider "m = MATCH_EXISTS" | "m = MATCH_CONTAINS" "src = SOURCE_HEADER" | "m = MATCH_EQ"
    using assms ParamHeaderCondition by auto
  then show ?thesis
  proof cases
    case 1
    show ?thesis unfolding ParamHeaderCondition 1 build_source(1) [OF p]
      using p(1) by (intro good_ends_call) (simp_all add: js_def)
  next
    case 2
    show ?thesis unfolding ParamHeaderCondition 2(1) build_source(2) [OF p 2(2)]
      by (simp add: good_ends_def js_def)
  next
    case 3
    show ?thesis unfolding ParamHeaderCondition 3 build_source(3) [OF p]
      using p(1) l by (intro good_ends_call) auto
  qed
qed

lemma condition_ok_text: "condition_ok c \<Longrightarrow> condition_text_ok c"
  by (cases c) (simp_all only: condition_ok.simps)

lemma condition_part:
  assumes "condition_ok c"
  shows "good_part (js '' && '') (buildRequestConditionExpr c)" "good_part (js '' && '') (listed (buildRequestConditionExpr c))"
    "balanced (buildRequestConditionExpr c)" "balanced (listed (buildRequestConditionExpr c))"
proof -
  let ?e = "buildRequestConditionExpr c"
  have t: "balanced ?e" "top_free (js '' && '') 0 ?e"
    using condition_ok_text [OF assms] by (simp_all only: condition_text_ok_def Let_def)
  then show g: "good_part (js '' && '') ?e"
    using condition_ends [OF assms] by (auto simp: good_part_def good_ends_def trimmed_def balanced_def js_def)
  show "balanced ?e" by (rule t)
  show "good_part (js '' && '') (listed ?e)"
    using g good_part_wrapped [OF t(1), of "js '' && ''"] by (simp add: listed_def js_def)
  show "balanced (listed ?e)" using t balanced_parens by (simp add: listed_def)
qed

text \<open>
  The writer puts \<open>&&\<close> between the test that a parameter is there and its comparison, and the reader
  splits the conditions of a factor at \<open>&&\<close> before it looks for that pattern: a comparison of a
  parameter, or a search in it, is written as two parts, of which the second cannot be read.
\<close>

definition compare_sign :: "jstring \<Rightarrow> jstring" where
  "compare_sign m = (if m = MATCH_GT then js ''>'' else if m = MATCH_GTE then js ''>='' else if m = MATCH_LT then js ''<'' else js ''<='')"

definition lost_parts :: "jstring \<Rightarrow> jstring \<Rightarrow> jstring \<Rightarrow> jstring list" where
  "lost_parts p m v =
     [call_text SOURCE_PARAM p @ js '' != nil'',
      if m = MATCH_CONTAINS then js ''has('' @ call_text SOURCE_PARAM p @ js '', '' @ quote v @ js '')''
      else call_text SOURCE_PARAM p @ js '' '' @ compare_sign m @ js '' '' @ v]"

fun condition_lost :: "RequestCondition \<Rightarrow> bool" where
  "condition_lost (TimeCondition f tz m v a b) = False"
| "condition_lost (ParamHeaderCondition src p m v) =
     (src = SOURCE_PARAM \<and> plain_name p \<and> trimmed p \<and>
      (m = MATCH_CONTAINS \<and> trimmed v \<or> m \<in> {MATCH_GT, MATCH_GTE, MATCH_LT, MATCH_LTE} \<and> NUMERIC_LITERAL_REGEX v) \<and>
      list_all (\<lambda>e. balanced e \<and> top_free (js '' && '') 0 e) (lost_parts p m v) \<and>
      \<not> str_includes (js '' || '') (buildRequestConditionExpr (ParamHeaderCondition src p m v)))"

lemma lost_not_ok: "condition_lost c \<Longrightarrow> \<not> condition_ok c"
  by (cases c) (auto simp: source_defs match_defs)

lemma build_lost:
  assumes "condition_lost (ParamHeaderCondition src p m v)"
  shows "buildRequestConditionExpr (ParamHeaderCondition src p m v) = join_with (js '' && '') (lost_parts p m v)"
proof -
  have p: "p \<noteq> []" "trim p = p" "src = js ''param''" using assms by (auto simp: plain_name_def trim_id source_defs)
  have m: "m \<in> {MATCH_GT, MATCH_GTE, MATCH_LT, MATCH_LTE, MATCH_CONTAINS}" "trim v = v"
    using assms by (auto simp: trim_id)
  have n: "normalizeCondition (Some (partial_of (ParamHeaderCondition src p m v))) = ParamHeaderCondition src p m v"
    using m(1) p(3) by (elim insertE)
      (simp_all add: normalizeCondition_def partial_of_def no_condition_def getRequestRuleMatchOptions_def or_empty_def source_defs Let_def)
  have d: "is_TimeCondition (ParamHeaderCondition src p m v) = False" "(src = SOURCE_HEADER) = False"
    using p(3) by (simp_all add: source_defs js_def)
  note b = buildRequestConditionExpr_def Let_def n d p(2) m(2) RequestCondition.sel if_True if_False p(1) simp_thms
  have call: "js ''param('' @ quote p @ js '')'' = call_text SOURCE_PARAM p" by (simp add: call_text_def source_defs js_def)
  consider "m = MATCH_CONTAINS" | "m \<in> {MATCH_GT, MATCH_GTE, MATCH_LT, MATCH_LTE}" "NUMERIC_LITERAL_REGEX v"
    using assms by auto
  then show ?thesis
  proof cases
    case 1
    have c: "(m = MATCH_EXISTS) = False" "(m = MATCH_CONTAINS) = True" using 1 by simp_all
    show ?thesis by (simp only: b c call lost_parts_def buildExprLiteral_def) (simp add: js_def)
  next
    case 2
    have c: "(m = MATCH_EXISTS) = False" "(m = MATCH_CONTAINS) = False" using 2(1) by (elim insertE; simp add: match_defs)+
    have e: "(m \<in> {MATCH_GT, MATCH_GTE, MATCH_LT, MATCH_LTE}) = True" using 2(1) by simp
    have l: "(if m = MATCH_GT then js ''>'' else if m = MATCH_GTE then js ''>='' else if m = MATCH_LT then js ''<'' else js ''<='') = compare_sign m"
      by (simp only: compare_sign_def)
    show ?thesis by (simp only: b c e l call 2(2) lost_parts_def) (simp add: js_def)
  qed
qed

lemma lost_parts_good:
  assumes "condition_lost (ParamHeaderCondition src p m v)"
  shows "list_all (good_part (js '' && '')) (lost_parts p m v)" "list_all balanced (lost_parts p m v)"
proof -
  have m: "m = MATCH_CONTAINS \<or> NUMERIC_LITERAL_REGEX v" using assms by auto
  have t: "\<forall>e \<in> set (lost_parts p m v). balanced e \<and> top_free (js '' && '') 0 e"
    using assms unfolding condition_lost.simps list_all_iff by (elim conjE)
  have "good_ends (call_text SOURCE_PARAM p @ js '' != nil'')"
    by (rule good_ends_call) (simp_all add: js_def)
  moreover have "good_ends (js ''has('' @ call_text SOURCE_PARAM p @ js '', '' @ quote v @ js '')'')"
    by (simp add: good_ends_def js_def)
  moreover have "good_ends (call_text SOURCE_PARAM p @ js '' '' @ compare_sign m @ js '' '' @ v)" if "NUMERIC_LITERAL_REGEX v"
    using last_numeric [OF that] by (intro good_ends_call) (simp_all add: js_def)
  ultimately have "\<forall>e \<in> set (lost_parts p m v). good_ends e" using m by (auto simp: lost_parts_def)
  then show "list_all (good_part (js '' && '')) (lost_parts p m v)"
    using t by (auto simp: list_all_iff good_part_def good_ends_def trimmed_def balanced_def js_def)
  show "list_all balanced (lost_parts p m v)" using t by (simp add: list_all_iff)
qed

lemma lost_read:
  assumes "plain_name p" "m = MATCH_CONTAINS \<or> NUMERIC_LITERAL_REGEX v"
  shows "parse_conditions (lost_parts p m v @ es) = Some None"
proof -
  let ?e = "call_text SOURCE_PARAM p @ js '' '' @ compare_sign m @ js '' '' @ v"
  have "tryParseRequestCondition (js ''has('' @ call_text SOURCE_PARAM p @ r) = Some None" for r
  proof -
    have "named_call [js ''param''] (js ''has('' @ s) = []" "named_call [js ''header''] (js ''has('' @ s) = []"
      "named_call [js ''param'', js ''header''] (js ''has('' @ s) = []" for s
      by (simp_all add: named_call_def js_def)
    then show ?thesis
      by (simp add: tryParseRequestCondition_def has_not_time other_source source_defs parse_compare_def parse_equal_def)
  qed
  moreover have "tryParseRequestCondition ?e = Some None"
  proof -
    have "compare_sign m \<noteq> [] \<and> hd (compare_sign m) \<in> {60, 62}" by (simp add: compare_sign_def js_def)
    then obtain c cs where "compare_sign m = c # cs" "c = 60 \<or> c = 62" by (cases "compare_sign m") auto
    then have ne: "js '' '' @ compare_sign m @ r \<noteq> js '' != \"\"''" "js '' '' @ compare_sign m @ r \<noteq> js '' != nil''"
      "rx_lit (js '' != nil && has('') (js '' '' @ compare_sign m @ r) = []" "rx_lit (js '' != nil && '') (js '' '' @ compare_sign m @ r) = []"
      "rx_lit (js '' == '') (js '' '' @ compare_sign m @ r) = []" for r
      by (auto simp: js_def)
    have "parse_equal ?e = None"
      using call_text_source [of SOURCE_PARAM p] assms(1) ne by (simp add: parse_equal_def)
    then show ?thesis using assms(1) ne
      by (simp add: tryParseRequestCondition_def parse_compare_def source_not_time call_text_one other_source not_has source_defs)
  qed
  moreover have "tryParseRequestCondition (call_text SOURCE_PARAM p @ js '' != nil'') =
      Some (Some (ParamHeaderCondition SOURCE_PARAM p MATCH_EXISTS []))"
    using parse_exists(2) [OF assms(1)] by (simp add: SOURCE_PARAM_def)
  moreover have "trim (call_text SOURCE_PARAM p @ js '' != nil'') = call_text SOURCE_PARAM p @ js '' != nil''"
    "trim (js ''has('' @ call_text SOURCE_PARAM p @ js '', '' @ quote v @ js '')'') = js ''has('' @ call_text SOURCE_PARAM p @ js '', '' @ quote v @ js '')''"
    "NUMERIC_LITERAL_REGEX v \<Longrightarrow> trim ?e = ?e"
    using last_numeric [of v] by (auto intro!: trim_id simp: trimmed_def call_text_def source_defs js_def)
  ultimately show ?thesis using assms(2) by (auto simp: lost_parts_def)
qed

lemma balanced_join: "balanced sep \<Longrightarrow> list_all balanced es \<Longrightarrow> balanced (join_with sep es)"
  by (induction es rule: induct_list012) (auto intro!: balanced_append simp: balanced_def)

lemma factor_unique:
  assumes "list_all num_char m" "list_all num_char n" "x @ js '' ? '' @ m = y @ js '' ? '' @ n"
  shows "x = y \<and> m = n"
proof -
  have t: "takeWhile num_char (rev (x @ js '' ? '' @ m)) = rev m" if "list_all num_char m" for x m
    using that by (simp add: takeWhile_all js_def num_char_def is_digit_def)
  have "rev m = rev n" using t [OF assms(1), of x] t [OF assms(2), of y] assms(3) by metis
  then show ?thesis using assms(3) by simp
qed

lemma factor_read:
  assumes "x \<noteq> []" "NUMERIC_LITERAL_REGEX m"
  shows "rx_first (factor_regex (js ''('' @ x @ js '' ? '' @ m @ js '' : 1)'')) = Some (x, m)"
proof (rule rx_first_unique)
  have m: "m \<noteq> []" "list_all num_char m" using numeric_chars [OF assms(2)] by auto
  let ?s = "x @ js '' ? '' @ m @ js '' : 1)''"
  show "factor_regex (js ''('' @ ?s) \<noteq> []"
    using rx_some_member [of x "\<lambda>_. True" "js '' ? '' @ m @ js '' : 1)''"] assms(1)
      rx_some_member [OF m, of "js '' : 1)''"]
    by (force simp: factor_regex_def list_all_iff)
  fix y assume "y \<in> set (factor_regex (js ''('' @ ?s))"
  then obtain z s2 s3 n where y: "y = (z, n)" "(z, s2) \<in> set (rx_some (\<lambda>_. True) ?s)" "s3 \<in> set (rx_lit (js '' ? '') s2)"
    "(n, js '' : 1)'') \<in> set (rx_some num_char s3)"
    by (auto simp: factor_regex_def split: if_splits)
  then have "?s = z @ js '' ? '' @ n @ js '' : 1)''" "list_all num_char n"
    using rx_some_split [of z s2 _ ?s] rx_some_split [of n _ num_char s3] by (auto simp: rx_lit_ne)
  then show "y = (x, m)" using y(1) factor_unique [of n m z x] m by simp
qed

definition group_ok :: "RequestRuleGroup \<Rightarrow> bool" where
  "group_ok g \<longleftrightarrow> group_conditions g \<noteq> [] \<and> list_all condition_ok (group_conditions g) \<and> NUMERIC_LITERAL_REGEX (multiplier g)"

text \<open>A group whose conditions can be read, or are written but not read.\<close>

definition group_written :: "RequestRuleGroup \<Rightarrow> bool" where
  "group_written g \<longleftrightarrow> group_conditions g \<noteq> [] \<and> list_all (\<lambda>c. condition_ok c \<or> condition_lost c) (group_conditions g) \<and>
     NUMERIC_LITERAL_REGEX (multiplier g)"

lemma ok_written: "group_ok g \<Longrightarrow> group_written g"
  by (auto simp: group_ok_def group_written_def list_all_iff)

lemma lost_part_text:
  assumes "condition_lost c"
  shows "buildRequestConditionExpr c = join_with (js '' && '') (lost_parts (cond_path c) (cond_mode c) (cond_value c))"
    "list_all (good_part (js '' && '')) (lost_parts (cond_path c) (cond_mode c) (cond_value c))"
    "list_all balanced (lost_parts (cond_path c) (cond_mode c) (cond_value c))"
    "parse_conditions (lost_parts (cond_path c) (cond_mode c) (cond_value c) @ es) = Some None"
    "listed (buildRequestConditionExpr c) = buildRequestConditionExpr c" "buildRequestConditionExpr c \<noteq> []"
proof -
  obtain src p m v where c: "c = ParamHeaderCondition src p m v" using assms by (cases c) auto
  note l = assms [unfolded c]
  have pm: "plain_name p" "m = MATCH_CONTAINS \<or> NUMERIC_LITERAL_REGEX v" "\<not> str_includes (js '' || '') (buildRequestConditionExpr c)"
    using l c by auto
  show "list_all (good_part (js '' && '')) (lost_parts (cond_path c) (cond_mode c) (cond_value c))"
    "list_all balanced (lost_parts (cond_path c) (cond_mode c) (cond_value c))"
    using lost_parts_good [OF l] c by simp_all
  show "parse_conditions (lost_parts (cond_path c) (cond_mode c) (cond_value c) @ es) = Some None"
    using lost_read [OF pm(1,2)] c by simp
  show "listed (buildRequestConditionExpr c) = buildRequestConditionExpr c" using pm(3) by (simp add: listed_def)
  show e: "buildRequestConditionExpr c = join_with (js '' && '') (lost_parts (cond_path c) (cond_mode c) (cond_value c))"
    using build_lost [OF l] c by simp
  show "buildRequestConditionExpr c \<noteq> []" unfolding e by (simp add: lost_parts_def js_def)
qed

text \<open>The parts into which the reader splits the condition of a factor.\<close>

definition condition_parts :: "bool \<Rightarrow> RequestCondition \<Rightarrow> jstring list" where
  "condition_parts single c =
     (if condition_lost c then lost_parts (cond_path c) (cond_mode c) (cond_value c)
      else if single then [buildRequestConditionExpr c] else [listed (buildRequestConditionExpr c)])"

definition group_parts :: "RequestRuleGroup \<Rightarrow> jstring list" where
  "group_parts g = concat (map (condition_parts (length (group_conditions g) = 1)) (group_conditions g))"

lemma condition_parts_good:
  assumes "condition_ok c \<or> condition_lost c"
  shows "list_all (good_part (js '' && '')) (condition_parts b c)" "list_all balanced (condition_parts b c)" "condition_parts b c \<noteq> []"
    "join_with (js '' && '') (condition_parts b c) = (if b then buildRequestConditionExpr c else listed (buildRequestConditionExpr c))"
    "parse_conditions (condition_parts b c @ es) =
      (if condition_ok c then map_option (map_option (Cons c)) (parse_conditions es) else Some None)"
    "buildRequestConditionExpr c \<noteq> []"
proof -
  have tr: "trim e = e" if "good_part (js '' && '') e" for e using that by (simp add: good_part_def trim_id)
  have "condition_lost c \<or> condition_ok c \<and> \<not> condition_lost c" using assms lost_not_ok by blast
  then have "list_all (good_part (js '' && '')) (condition_parts b c) \<and> list_all balanced (condition_parts b c) \<and> condition_parts b c \<noteq> [] \<and>
    join_with (js '' && '') (condition_parts b c) = (if b then buildRequestConditionExpr c else listed (buildRequestConditionExpr c)) \<and>
    parse_conditions (condition_parts b c @ es) =
      (if condition_ok c then map_option (map_option (Cons c)) (parse_conditions es) else Some None) \<and>
    buildRequestConditionExpr c \<noteq> []"
  proof
    assume l: "condition_lost c"
    note t = lost_part_text [OF l]
    have "condition_parts b c \<noteq> []" using l by (simp add: condition_parts_def lost_parts_def)
    then show ?thesis using l t(2-6) lost_not_ok [OF l] by (simp add: condition_parts_def flip: t(1))
  next
    assume c: "condition_ok c \<and> \<not> condition_lost c"
    then show ?thesis
      using condition_part [of c] condition_read [of c] condition_ends [of c] tr by (auto simp: condition_parts_def good_ends_def)
  qed
  then show "list_all (good_part (js '' && '')) (condition_parts b c)" "list_all balanced (condition_parts b c)" "condition_parts b c \<noteq> []"
    "join_with (js '' && '') (condition_parts b c) = (if b then buildRequestConditionExpr c else listed (buildRequestConditionExpr c))"
    "parse_conditions (condition_parts b c @ es) =
      (if condition_ok c then map_option (map_option (Cons c)) (parse_conditions es) else Some None)"
    "buildRequestConditionExpr c \<noteq> []" by blast+
qed

lemma join_with_append: "xs \<noteq> [] \<Longrightarrow> ys \<noteq> [] \<Longrightarrow> join_with sep (xs @ ys) = join_with sep xs @ sep @ join_with sep ys"
  by (induction xs rule: induct_list012) (auto simp: join_with_Cons)

lemma join_concat: "\<forall>ps \<in> set pss. ps \<noteq> [] \<Longrightarrow> join_with sep (map (join_with sep) pss) = join_with sep (concat pss)"
  by (induction pss rule: induct_list012) (auto simp: join_with_append)

lemma group_parts_good:
  assumes "group_written g"
  shows "list_all (good_part (js '' && '')) (group_parts g)" "list_all balanced (group_parts g)" "group_parts g \<noteq> []"
    "parse_conditions (group_parts g) = Some (if group_ok g then Some (group_conditions g) else None)"
proof -
  have c: "\<forall>c \<in> set (group_conditions g). condition_ok c \<or> condition_lost c" "group_conditions g \<noteq> []"
    using assms by (auto simp: group_written_def list_all_iff)
  show "list_all (good_part (js '' && '')) (group_parts g)"
    using c(1) condition_parts_good(1) unfolding group_parts_def list_all_iff by fastforce
  show "list_all balanced (group_parts g)"
    using c(1) condition_parts_good(2) unfolding group_parts_def list_all_iff by fastforce
  show "group_parts g \<noteq> []" using c condition_parts_good(3) by (cases "group_conditions g") (auto simp: group_parts_def)
  have "parse_conditions (concat (map (condition_parts b) cs)) = Some (if list_all condition_ok cs then Some cs else None)"
    if "\<forall>c \<in> set cs. condition_ok c \<or> condition_lost c" for b cs
    using that by (induction cs) (simp_all add: condition_parts_good(5))
  then show "parse_conditions (group_parts g) = Some (if group_ok g then Some (group_conditions g) else None)"
    using c assms by (simp add: group_parts_def group_ok_def group_written_def)
qed

lemma factor_text:
  assumes "group_written g"
  shows "buildRuleGroupFactor g =
    js ''('' @ join_with (js '' && '') (group_parts g) @ js '' ? '' @ multiplier g @ js '' : 1)''"
proof -
  have c: "\<forall>c \<in> set (group_conditions g). condition_ok c \<or> condition_lost c" "group_conditions g \<noteq> []"
    using assms by (auto simp: group_written_def list_all_iff)
  have "filter_truthy (map buildRequestConditionExpr (group_conditions g)) = map buildRequestConditionExpr (group_conditions g)"
    using c(1) condition_parts_good(6) by (intro filter_truthy_id) force
  moreover have "join_with (js '' && '') (group_parts g) = join_with (js '' && '')
      (map (\<lambda>c. if length (group_conditions g) = 1 then buildRequestConditionExpr c else listed (buildRequestConditionExpr c)) (group_conditions g))"
  proof -
    let ?b = "length (group_conditions g) = 1"
    have "\<forall>ps \<in> set (map (condition_parts ?b) (group_conditions g)). ps \<noteq> []" using c(1) condition_parts_good(3) by auto
    note j = join_concat [OF this, of "js '' && ''", folded group_parts_def, symmetric]
    have "map (join_with (js '' && '')) (map (condition_parts ?b) (group_conditions g)) =
        map (\<lambda>c. if ?b then buildRequestConditionExpr c else listed (buildRequestConditionExpr c)) (group_conditions g)"
      unfolding map_map comp_def using c(1) by (intro map_cong refl condition_parts_good(4)) blast
    then show ?thesis unfolding j by (rule arg_cong)
  qed
  ultimately show ?thesis using assms c(2)
    by (cases "group_conditions g")
      (auto simp: buildRuleGroupFactor_def group_written_def listed_def Let_def comp_def length_Suc_conv)
qed

lemma numeric_no_parens: "NUMERIC_LITERAL_REGEX m \<Longrightarrow> 40 \<notin> set m \<and> 41 \<notin> set m"
  using numeric_chars [of m] by (auto simp: list_all_iff num_char_def is_digit_def)

lemma factor_good:
  assumes "group_written g"
  shows "good_part (js '' * '') (buildRuleGroupFactor g)"
proof -
  let ?x = "join_with (js '' && '') (group_parts g)"
  have "balanced ?x" using group_parts_good(2) [OF assms] by (intro balanced_join) (simp_all add: balanced_def js_def paren_depth_def)
  moreover have "balanced (js '' ? '' @ multiplier g @ js '' : 1'')"
    using flat_balanced [of "js '' ? '' @ multiplier g @ js '' : 1''" 0 0] numeric_no_parens assms
    by (auto simp: balanced_def group_written_def js_def)
  ultimately have "good_part (js '' * '') (js ''('' @ (?x @ js '' ? '' @ multiplier g @ js '' : 1'') @ js '')'')"
    by (intro good_part_wrapped) (simp_all only: balanced_append, simp_all add: js_def)
  then show ?thesis unfolding factor_text [OF assms] by (simp add: js_def)
qed

lemma good_part_join_trimmed:
  "list_all (good_part sep) parts \<Longrightarrow> parts \<noteq> [] \<Longrightarrow> trimmed (join_with sep parts) \<and> join_with sep parts \<noteq> []"
proof (induction parts rule: induct_list012)
  case (3 x y ys)
  then have "trimmed (join_with sep (y # ys))" "join_with sep (y # ys) \<noteq> []" by simp_all
  moreover have "x \<noteq> []" "trimmed x" using 3(3) by (simp_all add: good_part_def)
  ultimately show ?case unfolding join_with.simps(3) trimmed_def by auto
qed (auto simp: good_part_def)

lemma group_read: "group_written g \<Longrightarrow> tryParseRuleGroupFactor (buildRuleGroupFactor g) = Some (if group_ok g then Some g else None)"
proof -
  assume g: "group_written g"
  let ?x = "join_with (js '' && '') (group_parts g)"
  note w = group_parts_good [OF g]
  have "?x \<noteq> []" using good_part_join_trimmed [OF w(1,3)] by simp
  then have "rx_first (factor_regex (buildRuleGroupFactor g)) = Some (?x, multiplier g)"
    using factor_read [of ?x "multiplier g"] g by (simp add: factor_text group_written_def)
  then show ?thesis using w and_join [OF w(1,3)] g by (simp add: tryParseRuleGroupFactor_def group_written_def)
qed

lemma factors_read:
  "list_all group_written gs \<Longrightarrow> parse_factors (map buildRuleGroupFactor gs) = Some (if list_all group_ok gs then Some gs else None)"
  by (induction gs) (simp_all add: group_read)

lemma factor_ne: "group_written g \<Longrightarrow> buildRuleGroupFactor g \<noteq> []"
  using factor_good [of g] by (simp add: good_part_def)

lemma rules_text: "list_all group_written gs \<Longrightarrow> buildRequestRuleExpr gs = join_with (js '' * '') (map buildRuleGroupFactor gs)"
  unfolding buildRequestRuleExpr_def list_all_iff
  by (subst filter_truthy_id) (metis (no_types, lifting) factor_ne imageE list.set_map, simp)

lemma rules_read:
  "list_all group_written gs \<Longrightarrow> tryParseRequestRuleExpr (buildRequestRuleExpr gs) = Some (if list_all group_ok gs then Some gs else None)"
proof (cases "gs = []")
  case False
  assume ok: "list_all group_written gs"
  then have good: "list_all (good_part (js '' * '')) (map buildRuleGroupFactor gs)" "map buildRuleGroupFactor gs \<noteq> []"
    using False factor_good by (auto simp: list_all_iff)
  then have "trimmed (buildRequestRuleExpr gs)" "buildRequestRuleExpr gs \<noteq> []"
    using good_part_join_trimmed ok by (metis rules_text)+
  then show ?thesis using ok factors_read multiply_join [OF good]
    by (simp add: tryParseRequestRuleExpr_def trim_id rules_text)
qed (simp add: tryParseRequestRuleExpr_def buildRequestRuleExpr_def)

section \<open>Combining and splitting\<close>

lemma outer_loop_wrapped: "above 1 d b \<Longrightarrow> depth_after d b = 1 \<Longrightarrow> outer_loop d (b @ [41])"
  by (induction b arbitrary: d) (auto simp: Let_def paren_depth_def)

lemma wrapped_full: "balanced b \<Longrightarrow> hasFullOuterParens (js ''('' @ b @ js '')'')"
  using outer_loop_wrapped [of 1 b] balanced_inside [of b 1]
  by (simp add: hasFullOuterParens_def js_def starts_with_def ends_with_def paren_depth_def Let_def)

lemma unwrap_wrapped:
  assumes "balanced b" shows "unwrapOuterParens (js ''('' @ b @ js '')'') = unwrapOuterParens b"
proof -
  have "trimmed (js ''('' @ b @ js '')'')" by (simp add: trimmed_def js_def)
  moreover have "butlast (tl (js ''('' @ b @ js '')'')) = b" by (simp add: js_def)
  ultimately show ?thesis unfolding unwrapOuterParens_def
    by (subst unwrap_loop.simps) (simp add: wrapped_full [OF assms] trim_id)
qed

lemma unwrap_loop_result: "trimmed s \<Longrightarrow> \<not> hasFullOuterParens (unwrap_loop s) \<and> trimmed (unwrap_loop s)"
proof (induction s rule: unwrap_loop.induct)
  case (1 s)
  then show ?case by (cases "hasFullOuterParens s") (simp_all add: unwrap_loop.simps [of s])
qed

lemma unwrap_id: "trimmed b \<Longrightarrow> \<not> hasFullOuterParens b \<Longrightarrow> unwrapOuterParens b = b"
  by (simp add: unwrapOuterParens_def trim_id unwrap_loop.simps)

text \<open>
  Taking the outer parentheses off ends, for every text, with a text without surrounding white space
  and without a pair of parentheses around the whole of it; doing it again changes nothing; and a pair of
  parentheses around a text whose own parentheses are balanced makes no difference.
\<close>

theorem unwrap_parens_normal:
  "\<not> hasFullOuterParens (unwrapOuterParens e) \<and> trim (unwrapOuterParens e) = unwrapOuterParens e \<and>
   unwrapOuterParens (unwrapOuterParens e) = unwrapOuterParens e \<and>
   (balanced e \<longrightarrow> unwrapOuterParens (js ''('' @ e @ js '')'') = unwrapOuterParens e)"
  using unwrap_loop_result [of "trim e"] unwrap_id unwrap_wrapped
  by (simp add: unwrapOuterParens_def trim_id) 

theorem unwrap_parens_normal_witness:
  "balanced (js ''(p * 2) + c'') \<and>
   unwrapOuterParens (js ''('' @ js ''(p * 2) + c'' @ js '')'') = unwrapOuterParens (js ''(p * 2) + c'')"
proof -
  have "balanced (js ''(p * 2) + c'')" by (simp add: balanced_def js_def paren_depth_def)
  then show ?thesis using unwrap_parens_normal [of "js ''(p * 2) + c''"] by blast
qed

lemma base_not_rule:
  assumes "balanced b" "\<not> ends_with (js '' : 1'') b"
  shows "tryParseRequestRuleExpr (js ''('' @ b @ js '')'') = Some None"
proof -
  let ?s = "js ''('' @ b @ js '')''"
  have good: "good_part (js '' * '') ?s" by (rule good_part_wrapped [OF assms(1)]) (simp_all add: js_def)
  have "factor_regex ?s = []"
  proof (rule no_member_Nil, safe)
    fix x n assume "(x, n) \<in> set (factor_regex ?s)"
    then obtain s2 s3 where "(x, s2) \<in> set (rx_some (\<lambda>_. True) (b @ js '')''))" "s3 \<in> set (rx_lit (js '' ? '') s2)"
      "(n, js '' : 1)'') \<in> set (rx_some num_char s3)"
      by (auto simp: factor_regex_def split: if_splits)
    then have "b @ js '')'' = x @ js '' ? '' @ n @ js '' : 1)''"
      using rx_some_split [of x s2 _ "b @ js '')''"] rx_some_split [of n _ num_char s3] by (auto simp: rx_lit_ne)
    then have "b @ [41] = (x @ js '' ? '' @ n @ js '' : 1'') @ [41]" by (simp add: js_def)
    then have "b = (x @ js '' ? '' @ n) @ js '' : 1''" by simp
    then show False using assms(2) by (simp add: ends_with_def)
  qed
  then have "tryParseRuleGroupFactor ?s = Some None" by (simp add: tryParseRuleGroupFactor_def)
  moreover have "trim ?s = ?s" "?s \<noteq> []" using good by (simp_all add: good_part_def trim_id)
  ultimately show ?thesis using multiply_join [of "[?s]"] good by (simp add: tryParseRequestRuleExpr_def)
qed

lemma sort_rules:
  "list_all group_written gs \<Longrightarrow> sort_parts (map buildRuleGroupFactor gs) =
     Some (map buildRuleGroupFactor (filter group_ok gs), map buildRuleGroupFactor (filter (\<lambda>g. \<not> group_ok g) gs))"
proof (induction gs)
  case (Cons g gs)
  then have "tryParseRequestRuleExpr (buildRuleGroupFactor g) = Some (if group_ok g then Some [g] else None)"
    using rules_read [of "[g]"] rules_text [of "[g]"] by simp
  then show ?case using Cons by simp
qed simp

text \<open>A base expression that the splitter finds again.\<close>

definition base_ok :: "jstring \<Rightarrow> bool" where
  "base_ok b \<longleftrightarrow> b \<noteq> [] \<and> trimmed b \<and> balanced b \<and> \<not> hasFullOuterParens b \<and> \<not> ends_with (js '' : 1'') b"

lemma combined_splits:
  assumes "base_ok b" "list_all group_written gs" "gs \<noteq> []"
  shows "splitBillingExprAndRequestRules (combineBillingExpr b (buildRequestRuleExpr gs)) =
    Some (if list_all group_ok gs then (b, buildRequestRuleExpr gs) else (combineBillingExpr b (buildRequestRuleExpr gs), []))"
proof -
  have b: "b \<noteq> []" "trimmed b" "balanced b" "\<not> hasFullOuterParens b" "\<not> ends_with (js '' : 1'') b"
    using assms(1) by (simp_all add: base_ok_def)
  let ?fs = "map buildRuleGroupFactor gs" and ?w = "js ''('' @ b @ js '')''"
  have parts: "list_all (good_part (js '' * '')) (?w # ?fs)"
    using good_part_wrapped [OF b(3), of "js '' * ''"] factor_good assms(2) by (simp add: js_def list_all_iff)
  then have fs: "list_all (good_part (js '' * '')) ?fs" "?fs \<noteq> []" using assms(3) by simp_all
  have tr: "trim (buildRequestRuleExpr gs) = buildRequestRuleExpr gs" "buildRequestRuleExpr gs \<noteq> []"
    using good_part_join_trimmed [OF fs] by (simp_all add: rules_text [OF assms(2)] trim_id)
  have combined: "combineBillingExpr b (buildRequestRuleExpr gs) = join_with (js '' * '') (?w # ?fs)"
    using b tr assms(3) by (simp add: combineBillingExpr_def trim_id rules_text [OF assms(2)] join_with_Cons js_def)
  have "splitTopLevelMultiply (join_with (js '' * '') (?w # ?fs)) = ?w # ?fs" by (rule multiply_join [OF parts]) simp
  moreover have "trim (join_with (js '' * '') (?w # ?fs)) = join_with (js '' * '') (?w # ?fs)" "join_with (js '' * '') (?w # ?fs) \<noteq> []"
    using good_part_join_trimmed [OF parts] by (simp_all add: trim_id)
  moreover have "sort_parts (?w # ?fs) = Some (map buildRuleGroupFactor (filter group_ok gs),
      ?w # map buildRuleGroupFactor (filter (\<lambda>g. \<not> group_ok g) gs))"
    using sort_rules [OF assms(2)] base_not_rule [OF b(3,5)] by simp
  moreover have "unwrapOuterParens ?w = b" using unwrap_wrapped [OF b(3)] unwrap_id [OF b(2,4)] by simp
  moreover have "filter group_ok gs = gs \<and> filter (\<lambda>g. \<not> group_ok g) gs = []" if "list_all group_ok gs"
    using that by (auto simp: list_all_iff filter_id_conv filter_empty_conv)
  moreover have "filter (\<lambda>g. \<not> group_ok g) gs \<noteq> []" if "\<not> list_all group_ok gs"
    using that by (auto simp: list_all_iff filter_empty_conv)
  ultimately have "splitBillingExprAndRequestRules (join_with (js '' * '') (?w # ?fs)) =
      Some (if list_all group_ok gs then (b, join_with (js '' * '') ?fs) else (join_with (js '' * '') (?w # ?fs), []))"
    using assms(3) unfolding splitBillingExprAndRequestRules_def Let_def by simp
  then show ?thesis unfolding combined by (simp add: rules_text [OF assms(2)])
qed

text \<open>The case in which all rules are read.\<close>

lemma all_written: "list_all group_ok gs \<Longrightarrow> list_all group_written gs"
  using ok_written by (auto simp: list_all_iff)

lemma readable_rules: "list_all group_ok gs \<Longrightarrow> tryParseRequestRuleExpr (buildRequestRuleExpr gs) = Some (Some gs)"
  using rules_read [OF all_written] by simp

lemma readable_splits:
  "base_ok b \<Longrightarrow> list_all group_ok gs \<Longrightarrow> gs \<noteq> [] \<Longrightarrow>
     splitBillingExprAndRequestRules (combineBillingExpr b (buildRequestRuleExpr gs)) = Some (b, buildRequestRuleExpr gs)"
  using combined_splits [OF _ all_written] by simp



definition comparison_group :: RequestRuleGroup where
  "comparison_group =
     \<lparr>group_conditions = [ParamHeaderCondition SOURCE_PARAM (js ''n'') MATCH_GT (js ''5'')], multiplier = js ''2''\<rparr>"


section \<open>Rules that are not read back\<close>

text \<open>A comparison of a parameter: the whole expression is taken for the base.\<close>

lemma comparison_not_read:
  "tryParseRequestRuleExpr (buildRequestRuleExpr [comparison_group]) = Some None"
  "splitBillingExprAndRequestRules (combineBillingExpr (js ''tier(x)'') (buildRequestRuleExpr [comparison_group])) =
   Some (combineBillingExpr (js ''tier(x)'') (buildRequestRuleExpr [comparison_group]), [])"
  by code_simp+

text \<open>The pattern for the path does not undo the escapes of \<open>JSON.stringify\<close>: a backslash is doubled on every round.\<close>

lemma path_escape_grows:
  "tryParseRequestCondition (buildRequestConditionExpr (ParamHeaderCondition SOURCE_PARAM [97, 92, 98] MATCH_EXISTS [])) =
   Some (Some (ParamHeaderCondition SOURCE_PARAM [97, 92, 92, 98] MATCH_EXISTS []))"
  by code_simp

text \<open>A literal with an escape that JSON does not have makes the reader throw instead of returning null.\<close>

lemma bad_escape_throws:
  "tryParseRequestRuleExpr (js ''(has(header(\"x\"), \"'' @ [92] @ js ''q\") ? 2 : 1)'') = None"
  by code_simp

end
