(* ===== verification/Tier_Expr.thy ===== *)
theory Tier_Expr
  imports Billing_Expr
begin

text \<open>
  The visual editor of tiers, \<open>features/pricing/lib/tier-expr.ts\<close>: the tiers, the expression that is
  written for them and the parser that opens an expression in the editor. The costs of a tier are its
  cost fields by name; a field that is not there is \<open>None\<close>, in the same record for a complete and for a
  partial tier. \<open>evalExprLocally\<close>, which runs the expression as JavaScript, is not modelled.
\<close>

definition CACHE_MODE_TIMED :: jstring where "CACHE_MODE_TIMED = js ''timed''"
definition CACHE_MODE_GENERIC :: jstring where "CACHE_MODE_GENERIC = js ''generic''"

datatype tier_bound = NumBound jnum | TextBound jstring

record TierConditionInput =
  ci_var :: jstring
  ci_op :: jstring
  ci_value :: tier_bound

record VisualTier =
  vt_label :: "jstring option"
  vt_conditions :: "TierConditionInput list option"
  vt_cache_mode :: "jstring option"
  vt_cost :: "jstring \<Rightarrow> jnum option"

type_synonym VisualConfig = "VisualTier list"

text \<open>\<open>Number.parseFloat(value.toFixed(5))\<close>: of two nearest decimals \<open>toFixed\<close> takes the larger magnitude.\<close>

definition roundPrice :: "jnum \<Rightarrow> jnum" where
  "roundPrice v =
     (case v of
        Fin x \<Rightarrow>
          if 10 ^ 21 \<le> \<bar>x\<bar> then Fin x
          else (let n = \<lfloor>\<bar>x\<bar> * 10 ^ 5 + 1 / 2\<rfloor> in f64 ((if x < 0 then - of_int n else of_int n) / 10 ^ 5))
      | _ \<Rightarrow> v)"

text \<open>\<open>Number(tier[f]) || 0\<close>\<close>

definition cost_or0 :: "VisualTier \<Rightarrow> jstring \<Rightarrow> jnum" where
  "cost_or0 tier f = (case vt_cost tier f of None \<Rightarrow> Fin 0 | Some x \<Rightarrow> num_or0 x)"

definition getTierCacheMode :: "VisualTier option \<Rightarrow> jstring" where
  "getTierCacheMode tier =
     (case tier of
        None \<Rightarrow> CACHE_MODE_GENERIC
      | Some t \<Rightarrow>
          if vt_cache_mode t = Some CACHE_MODE_TIMED then CACHE_MODE_TIMED
          else if vt_cache_mode t = Some CACHE_MODE_GENERIC then CACHE_MODE_GENERIC
          else (case vt_cost t (js ''cache_create_1h_unit_cost'') of
                  Some x \<Rightarrow> if num_less (Fin 0) x then CACHE_MODE_TIMED else CACHE_MODE_GENERIC
                | None \<Rightarrow> CACHE_MODE_GENERIC))"

text \<open>The spread of the tier comes after its first five properties and before the last seven.\<close>

definition normalizeVisualTier :: "VisualTier \<Rightarrow> VisualTier" where
  "normalizeVisualTier tier =
     \<lparr>vt_label = Some (case vt_label tier of None \<Rightarrow> [] | Some l \<Rightarrow> l),
      vt_conditions = Some (case vt_conditions tier of None \<Rightarrow> [] | Some cs \<Rightarrow> cs),
      vt_cache_mode = Some (case vt_cache_mode tier of None \<Rightarrow> getTierCacheMode (Some tier) | Some m \<Rightarrow> m),
      vt_cost = (\<lambda>f.
        if f \<in> {js ''cache_read_unit_cost'', js ''cache_create_unit_cost'', js ''cache_create_1h_unit_cost'',
                js ''image_unit_cost'', js ''image_output_unit_cost'', js ''audio_input_unit_cost'', js ''audio_output_unit_cost''}
        then Some (roundPrice (cost_or0 tier f))
        else case vt_cost tier f of
          Some x \<Rightarrow> Some x
        | None \<Rightarrow> if f = js ''input_unit_cost'' \<or> f = js ''output_unit_cost'' then Some (roundPrice (cost_or0 tier f)) else None)\<rparr>"

definition createDefaultVisualConfig :: VisualConfig where
  "createDefaultVisualConfig =
     [normalizeVisualTier
        \<lparr>vt_label = Some (js ''base''), vt_conditions = Some [], vt_cache_mode = Some CACHE_MODE_GENERIC,
         vt_cost = [js ''input_unit_cost'' \<mapsto> Fin 0, js ''output_unit_cost'' \<mapsto> Fin 0]\<rparr>]"

definition normalizeVisualConfig :: "VisualConfig option \<Rightarrow> VisualConfig" where
  "normalizeVisualConfig config =
     (case config of
        None \<Rightarrow> createDefaultVisualConfig
      | Some tiers \<Rightarrow> if tiers = [] then createDefaultVisualConfig else map normalizeVisualTier tiers)"

definition bound_text :: "tier_bound \<Rightarrow> jstring" where
  "bound_text v = (case v of NumBound x \<Rightarrow> num_to_str x | TextBound s \<Rightarrow> s)"

definition buildConditionStr :: "TierConditionInput list \<Rightarrow> jstring" where
  "buildConditionStr conditions =
     (if conditions = [] then []
      else join_with (js '' && '')
        (map (\<lambda>c. ci_var c @ js '' '' @ ci_op c @ js '' '' @ bound_text (ci_value c))
          (filter (\<lambda>c. ci_var c \<noteq> [] \<and> ci_op c \<noteq> [] \<and> ci_value c \<noteq> TextBound []) conditions)))"

definition buildTierBodyExpr :: "VisualTier \<Rightarrow> jstring" where
  "buildTierBodyExpr tier =
     join_with (js '' + '')
       ([js ''p * '' @ num_to_str (cost_or0 tier (js ''input_unit_cost'')),
         js ''c * '' @ num_to_str (cost_or0 tier (js ''output_unit_cost''))] @
        List.map_filter
          (\<lambda>(f, v). if cost_or0 tier f = Fin 0 then None else Some (v @ js '' * '' @ num_to_str (cost_or0 tier f)))
          BILLING_CACHE_VAR_MAP)"

text \<open>\<open>label || default\<close>, the expression of a tier, and the conditions of a tier that has them.\<close>

definition tier_text :: "jstring \<Rightarrow> VisualTier \<Rightarrow> jstring" where
  "tier_text fallback tier =
     (let l = (case vt_label tier of Some l \<Rightarrow> if l = [] then fallback else l | None \<Rightarrow> fallback) in
      js ''tier(\"'' @ l @ js ''\", '' @ buildTierBodyExpr tier @ js '')'')"

definition tier_condition :: "VisualTier \<Rightarrow> jstring" where
  "tier_condition tier = buildConditionStr (case vt_conditions tier of None \<Rightarrow> [] | Some cs \<Rightarrow> cs)"

definition generateExprFromVisualConfig :: "VisualConfig option \<Rightarrow> jstring" where
  "generateExprFromVisualConfig config =
     (case config of
        None \<Rightarrow> js ''p * 0 + c * 0''
      | Some [] \<Rightarrow> js ''p * 0 + c * 0''
      | Some [tier] \<Rightarrow>
          (let body = tier_text (js ''default'') tier; cond = tier_condition tier in
           if cond \<noteq> [] then cond @ js '' ? '' @ body @ js '' : p * 0 + c * 0'' else body)
      | Some tiers \<Rightarrow>
          join_with (js '' : '')
            (map (\<lambda>(i, tier).
               let body = tier_text (js ''tier_'' @ nat_to_js (i + 1)) tier; cond = tier_condition tier in
               if i < length tiers - 1 \<and> cond \<noteq> [] then cond @ js '' ? '' @ body else body)
              (List.enumerate 0 tiers)))"

section \<open>Opening an expression in the editor\<close>

text \<open>\<open>v\s*\*\s*([\d.eE+-]+)\<close>\<close>

definition term_regex :: "jstring \<Rightarrow> jstring \<Rightarrow> (jstring \<times> jstring) list" where
  "term_regex v s =
     [(n, s5). s1 \<leftarrow> rx_lit v s, s2 \<leftarrow> rx_ws s1, s3 \<leftarrow> rx_lit (js ''*'') s2, s4 \<leftarrow> rx_ws s3,
        (n, s5) \<leftarrow> rx_some num_char s4]"

text \<open>\<open>\s*\+\s*\<close> and a term\<close>

definition plus_term :: "jstring \<Rightarrow> jstring \<Rightarrow> (jstring \<times> jstring) list" where
  "plus_term v s = [(n, s4). s1 \<leftarrow> rx_ws s, s2 \<leftarrow> rx_lit (js ''+'') s1, s3 \<leftarrow> rx_ws s2, (n, s4) \<leftarrow> term_regex v s3]"

fun optCacheStr :: "jstring list \<Rightarrow> jstring \<Rightarrow> (jstring option list \<times> jstring) list" where
  "optCacheStr [] s = [([], s)]"
| "optCacheStr (v # vs) s = [(n # ns, s2). (n, s1) \<leftarrow> rx_opt (plus_term v) s, (ns, s2) \<leftarrow> optCacheStr vs s1]"

definition bodyPat :: "jstring \<Rightarrow> ((jstring \<times> jstring \<times> jstring option list) \<times> jstring) list" where
  "bodyPat s =
     [((i, x, ns), s3). (i, s1) \<leftarrow> term_regex (js ''p'') s, (x, s2) \<leftarrow> plus_term (js ''c'') s1,
        (ns, s3) \<leftarrow> optCacheStr (map snd BILLING_CACHE_VAR_MAP) s2]"

text \<open>\<open>tier\("([^"]*)",\s*body\)\<close>\<close>

definition tier_call :: "jstring \<Rightarrow> ((jstring \<times> jstring \<times> jstring \<times> jstring option list) \<times> jstring) list" where
  "tier_call s =
     [((l, b), s6). s1 \<leftarrow> rx_lit (js ''tier(\"'') s, (l, s2) \<leftarrow> rx_many (\<lambda>c. c \<noteq> 34) s1,
        s3 \<leftarrow> rx_lit (js ''\",'') s2, s4 \<leftarrow> rx_ws s3, (b, s5) \<leftarrow> bodyPat s4, s6 \<leftarrow> rx_lit (js '')'') s5]"

definition visual_tierRe ::
  "jchar option \<Rightarrow> jstring \<Rightarrow> ((jstring option \<times> jstring \<times> jstring \<times> jstring \<times> jstring option list) \<times> jstring) list" where
  "visual_tierRe prev s = [((g, m), s2). (g, s1) \<leftarrow> rx_opt condGroup s, (m, s2) \<leftarrow> tier_call s1]"

text \<open>A tier from the groups of a match.\<close>

definition matched_tier :: "TierConditionInput list \<Rightarrow> jstring \<times> jstring \<times> jstring \<times> jstring option list \<Rightarrow> VisualTier" where
  "matched_tier conditions m =
     (case m of (l, i, x, ns) \<Rightarrow>
        \<lparr>vt_label = Some l, vt_conditions = Some conditions, vt_cache_mode = None,
         vt_cost = foldl (\<lambda>cost ((f, _), n). case n of None \<Rightarrow> cost | Some t \<Rightarrow> cost(f \<mapsto> str_to_num t))
           [js ''input_unit_cost'' \<mapsto> str_to_num i, js ''output_unit_cost'' \<mapsto> str_to_num x]
           (zip BILLING_CACHE_VAR_MAP ns)\<rparr>)"

definition condition_inputs :: "jstring option \<Rightarrow> TierConditionInput list" where
  "condition_inputs g =
     (case g of None \<Rightarrow> []
      | Some condStr \<Rightarrow>
          if condStr = [] then []
          else map (\<lambda>c. \<lparr>ci_var = tier_var c, ci_op = tier_op c, ci_value = NumBound (tier_value c)\<rparr>)
                 (List.map_filter parse_cond (split_conds [] condStr)))"

definition no_ws :: "jstring \<Rightarrow> jstring" where
  "no_ws s = filter (\<lambda>c. \<not> is_ws c) s"

definition tryParseVisualConfig :: "jstring option \<Rightarrow> VisualConfig option" where
  "tryParseVisualConfig exprStr =
     (case exprStr of
        None \<Rightarrow> None
      | Some e \<Rightarrow>
          if e = [] then None
          else
            (let body = snd (stripExprVersion e) in
             case rx_first [m. (m, s) \<leftarrow> tier_call body, s = []] of
               Some m \<Rightarrow> Some (normalizeVisualConfig (Some [normalizeVisualTier (matched_tier [] m)]))
             | None \<Rightarrow>
                 (let tiers = map (\<lambda>(g, m). normalizeVisualTier (matched_tier (condition_inputs g) m))
                                (rx_all visual_tierRe None body) in
                  if tiers = [] then None
                  else
                    (let cfg = normalizeVisualConfig (Some tiers) in
                     if no_ws (generateExprFromVisualConfig (Some cfg)) \<noteq> no_ws body then None else Some cfg))))"

section \<open>The estimator's variables\<close>

definition ESTIMATOR_VARS :: "(jstring \<times> jstring) list" where
  "ESTIMATOR_VARS =
     [(js ''cr'', js ''cacheReadTokens''), (js ''cc'', js ''cacheCreateTokens''), (js ''cc1h'', js ''cacheCreate1hTokens''),
      (js ''img'', js ''imageTokens''), (js ''img_o'', js ''imageOutputTokens''), (js ''ai'', js ''audioInputTokens''),
      (js ''ao'', js ''audioOutputTokens'')]"

text \<open>\<open>\b(cr|cc|...)\b\<close> somewhere in the text\<close>

definition word_edge :: "jchar option \<Rightarrow> jstring \<Rightarrow> bool" where
  "word_edge prev s = ((case prev of None \<Rightarrow> False | Some c \<Rightarrow> is_word c) \<noteq> (case s of [] \<Rightarrow> False | c # _ \<Rightarrow> is_word c))"

fun uses_var :: "jchar option \<Rightarrow> jstring \<Rightarrow> bool" where
  "uses_var prev s =
     ((word_edge prev s \<and>
       list_ex (\<lambda>v. starts_with v s \<and> word_edge (Some (last v)) (drop (length v) s)) (map fst ESTIMATOR_VARS)) \<or>
      (case s of [] \<Rightarrow> False | c # cs \<Rightarrow> uses_var (Some c) cs))"

definition exprUsesExtraVars :: "jstring \<Rightarrow> bool" where
  "exprUsesExtraVars exprStr = (if exprStr = [] then False else uses_var None exprStr)"

section \<open>Reading what was written\<close>

lemma rx_ws_stops [simp]: "stops is_ws s \<Longrightarrow> rx_ws s = [s]"
  by (simp add: rx_ws_def rx_many_none)

lemma rx_ws_space [simp]: "stops is_ws s \<Longrightarrow> rx_ws (32 # s) = [s, 32 # s]"
  by (cases s) (auto simp: rx_ws_def rx_many_def)

text \<open>A number that is printed and read without loss, with a sign or (for bounds) without.\<close>

definition exact_num :: "jnum \<Rightarrow> bool" where
  "exact_num x \<longleftrightarrow> num_to_str x \<noteq> [] \<and> list_all num_char (num_to_str x) \<and> str_to_num (num_to_str x) = x \<and> num_or0 x = x"

lemma num_text_stops: "list_all num_char t \<Longrightarrow> t \<noteq> [] \<Longrightarrow> stops is_ws (t @ r)"
  by (cases t) (auto simp: num_char_not_ws)

lemma term_read:
  assumes "list_all num_char t" "t \<noteq> []" "stops num_char r"
  shows "\<exists>ms. term_regex v (v @ js '' * '' @ t @ r) = (t, r) # ms"
proof -
  obtain ms where "rx_some num_char (t @ r) = (t, r) # ms" using rx_some_longest [OF assms] by blast
  then show ?thesis using num_text_stops [OF assms(1,2), of r] by (simp add: term_regex_def js_def)
qed

lemma plus_read:
  assumes "list_all num_char t" "t \<noteq> []" "stops num_char r" "v \<noteq> []" "\<not> is_ws (hd v)"
  shows "\<exists>ms. plus_term v (js '' + '' @ v @ js '' * '' @ t @ r) = (t, r) # ms"
proof -
  obtain ms where t: "term_regex v (v @ js '' * '' @ t @ r) = (t, r) # ms" using term_read [OF assms(1-3)] by blast
  have "stops is_ws (v @ js '' * '' @ t @ r)" using assms(4,5) by (cases v) auto
  then show ?thesis using t by (simp add: plus_term_def js_def)
qed

text \<open>A variable that is not at this place: the text goes on with another one, or with the end of the tier.\<close>

definition other_var :: "jstring \<Rightarrow> jstring \<Rightarrow> bool" where
  "other_var v w \<longleftrightarrow> v \<noteq> [] \<and> 32 \<notin> set v \<and> w \<noteq> [] \<and> \<not> is_ws (hd w) \<and>
     (starts_with v w \<longrightarrow> (case drop (length v) w of [] \<Rightarrow> False | c # _ \<Rightarrow> \<not> is_ws c \<and> c \<noteq> 42))"

lemma other_term:
  assumes "other_var v w"
  shows "term_regex v (w @ js '' * '' @ r) = []" "term_regex v (32 # w @ js '' * '' @ r) = []"
proof -
  show "term_regex v (w @ js '' * '' @ r) = []"
  proof (cases "starts_with v (w @ js '' * '' @ r)")
    case True
    have "starts_with v w"
    proof (cases "length v \<le> length w")
      case False
      then obtain n where n: "length v - length w = Suc n" by (cases "length v - length w") auto
      have "take (length v) (w @ js '' * '' @ r) = v" using True by (simp add: starts_with_def)
      then have "v = w @ 32 # take n (42 # 32 # r)" using False n by (simp add: js_def)
      then have "32 \<in> set v" by (metis in_set_conv_decomp)
      then show ?thesis using assms by (simp add: other_var_def)
    qed (use True in \<open>simp add: starts_with_def\<close>)
    then obtain u where u: "w = v @ u" by (auto simp: starts_with_iff)
    then obtain c cs where "u = c # cs" "\<not> is_ws c" "c \<noteq> 42"
      using assms by (auto simp: other_var_def starts_with_def split: list.splits)
    then show ?thesis using u by (simp add: term_regex_def js_def)
  qed (simp add: term_regex_def rx_lit_def)
  show "term_regex v (32 # w @ js '' * '' @ r) = []"
    using assms by (cases v) (auto simp: term_regex_def other_var_def)
qed

lemma plus_other: "other_var v w \<Longrightarrow> plus_term v (js '' + '' @ w @ js '' * '' @ r) = []"
proof -
  assume v: "other_var v w"
  then have "stops is_ws (w @ js '' * '' @ r)" by (cases w) (auto simp: other_var_def)
  then show ?thesis using other_term [OF v, of r] by (simp add: plus_term_def js_def)
qed

lemma plus_end: "plus_term v (41 # r) = []"
  by (simp add: plus_term_def js_def)

text \<open>The terms of the optional variables, those with a cost other than zero.\<close>

fun extra_text :: "(jstring \<times> jnum) list \<Rightarrow> jstring" where
  "extra_text [] = []"
| "extra_text ((v, x) # vs) = (if x = Fin 0 then [] else js '' + '' @ v @ js '' * '' @ num_to_str x) @ extra_text vs"

definition extra_match :: "jnum \<Rightarrow> jstring option" where
  "extra_match x = (if x = Fin 0 then None else Some (num_to_str x))"

fun vars_apart :: "jstring list \<Rightarrow> bool" where
  "vars_apart [] = True"
| "vars_apart (v # vs) = (v \<noteq> [] \<and> \<not> is_ws (hd v) \<and> list_all (other_var v) vs \<and> vars_apart vs)"

lemma extra_next:
  "extra_text vs @ 41 # r = 41 # r \<or>
   (\<exists>w r'. w \<in> fst ` set vs \<and> extra_text vs @ 41 # r = js '' + '' @ w @ js '' * '' @ r')"
proof (induction vs)
  case (Cons vx vs)
  obtain v x where vx: "vx = (v, x)" by (cases vx)
  show ?case
  proof (cases "x = Fin 0")
    case True
    then have "extra_text (vx # vs) = extra_text vs" by (simp add: vx)
    then show ?thesis using Cons by auto
  next
    case False
    then have "extra_text (vx # vs) @ 41 # r = js '' + '' @ v @ js '' * '' @ num_to_str x @ extra_text vs @ 41 # r"
      by (simp add: vx)
    moreover have "v \<in> fst ` set (vx # vs)" by (simp add: vx)
    ultimately show ?thesis by blast
  qed
qed simp

lemma extras_stop: "stops num_char (extra_text vs @ 41 # r)"
  by (induction vs) (auto simp: num_char_def is_digit_def js_def)

lemma extras_read:
  assumes "vars_apart (map fst vs)" "list_all (exact_num \<circ> snd) vs"
  shows "\<exists>ms. optCacheStr (map fst vs) (extra_text vs @ 41 # r) = (map (extra_match \<circ> snd) vs, 41 # r) # ms"
  using assms
proof (induction vs)
  case (Cons vx vs)
  obtain v x where vx: "vx = (v, x)" by (cases vx)
  obtain ms where ms: "optCacheStr (map fst vs) (extra_text vs @ 41 # r) = (map (extra_match \<circ> snd) vs, 41 # r) # ms"
    using Cons by auto
  show ?case
  proof (cases "x = Fin 0")
    case True
    have "other_var v w" if "w \<in> fst ` set vs" for w using that Cons.prems(1) by (auto simp: vx list_all_iff)
    then have "plus_term v (extra_text vs @ 41 # r) = []"
      using extra_next [of vs r] plus_other [of v] plus_end [of v r] by metis
    then show ?thesis using ms True by (simp add: vx rx_opt_def extra_match_def)
  next
    case False
    have x: "list_all num_char (num_to_str x)" "num_to_str x \<noteq> []" "v \<noteq> []" "\<not> is_ws (hd v)"
      using Cons.prems by (simp_all add: vx exact_num_def)
    obtain ns where "plus_term v (js '' + '' @ v @ js '' * '' @ num_to_str x @ extra_text vs @ 41 # r) =
        (num_to_str x, extra_text vs @ 41 # r) # ns"
      using plus_read [OF x(1,2) extras_stop x(3,4)] by blast
    then show ?thesis using ms False by (simp add: vx rx_opt_def extra_match_def)
  qed
qed simp

text \<open>The body of a tier.\<close>

definition tier_extras :: "VisualTier \<Rightarrow> (jstring \<times> jnum) list" where
  "tier_extras tier = map (\<lambda>(f, v). (v, cost_or0 tier f)) BILLING_CACHE_VAR_MAP"

lemma cache_vars: "map snd BILLING_CACHE_VAR_MAP =
    [js ''cr'', js ''cc'', js ''cc1h'', js ''img'', js ''img_o'', js ''ai'', js ''ao'']"
  by (simp add: BILLING_CACHE_VAR_MAP_def BILLING_EXTRA_VARS_def BILLING_VARS_def)

lemma cache_fields: "map fst BILLING_CACHE_VAR_MAP =
    [js ''cache_read_unit_cost'', js ''cache_create_unit_cost'', js ''cache_create_1h_unit_cost'', js ''image_unit_cost'',
     js ''image_output_unit_cost'', js ''audio_input_unit_cost'', js ''audio_output_unit_cost'']"
  by (simp add: BILLING_CACHE_VAR_MAP_def BILLING_EXTRA_VARS_def BILLING_VARS_def)

lemma extras_vars: "map fst (tier_extras tier) = map snd BILLING_CACHE_VAR_MAP"
  by (simp add: tier_extras_def comp_def case_prod_beta)

lemma extras_apart: "vars_apart (map fst (tier_extras tier))"
  unfolding extras_vars cache_vars by code_simp

lemma join_Cons2: "join_with sep (a # bs) = a @ concat (map (append sep) bs)"
  by (induction bs arbitrary: a) simp_all

lemma body_text:
  "buildTierBodyExpr tier =
     js ''p * '' @ num_to_str (cost_or0 tier (js ''input_unit_cost'')) @
     js '' + c * '' @ num_to_str (cost_or0 tier (js ''output_unit_cost'')) @ extra_text (tier_extras tier)"
proof -
  have "concat (map (append (js '' + ''))
          (List.map_filter (\<lambda>(f, v). if cost_or0 tier f = Fin 0 then None else Some (v @ js '' * '' @ num_to_str (cost_or0 tier f))) fvs)) =
        extra_text (map (\<lambda>(f, v). (v, cost_or0 tier f)) fvs)" for fvs
    by (induction fvs) (auto simp: map_filter_simps)
  moreover have "js '' + c * '' = js '' + '' @ js ''c * ''" by (simp add: js_def)
  ultimately show ?thesis by (simp add: buildTierBodyExpr_def join_Cons2 tier_extras_def)
qed

definition costs_exact :: "VisualTier \<Rightarrow> bool" where
  "costs_exact tier \<longleftrightarrow>
     list_all (\<lambda>f. exact_num (cost_or0 tier f)) (js ''input_unit_cost'' # js ''output_unit_cost'' # map fst BILLING_CACHE_VAR_MAP)"

definition tier_match :: "VisualTier \<Rightarrow> jstring \<times> jstring \<times> jstring option list" where
  "tier_match tier =
     (num_to_str (cost_or0 tier (js ''input_unit_cost'')), num_to_str (cost_or0 tier (js ''output_unit_cost'')),
      map (extra_match \<circ> snd) (tier_extras tier))"

lemma extras_exact: "costs_exact tier \<Longrightarrow> list_all (exact_num \<circ> snd) (tier_extras tier)"
  by (auto simp: costs_exact_def tier_extras_def list_all_iff)

lemma body_read:
  assumes "costs_exact tier"
  shows "\<exists>ms. bodyPat (buildTierBodyExpr tier @ 41 # r) = (tier_match tier, 41 # r) # ms"
proof -
  let ?i = "num_to_str (cost_or0 tier (js ''input_unit_cost''))" and ?x = "num_to_str (cost_or0 tier (js ''output_unit_cost''))"
  let ?e = "extra_text (tier_extras tier) @ 41 # r"
  have n: "list_all num_char ?i" "?i \<noteq> []" "list_all num_char ?x" "?x \<noteq> []"
    using assms by (simp_all add: costs_exact_def exact_num_def)
  have "stops num_char (js '' + '' @ js ''c'' @ js '' * '' @ ?x @ ?e)" by (simp add: js_def num_char_def is_digit_def)
  then obtain ms where p: "term_regex (js ''p'') (js ''p'' @ js '' * '' @ ?i @ js '' + '' @ js ''c'' @ js '' * '' @ ?x @ ?e) =
      (?i, js '' + '' @ js ''c'' @ js '' * '' @ ?x @ ?e) # ms"
    using term_read [OF n(1,2)] by blast
  obtain ns where c: "plus_term (js ''c'') (js '' + '' @ js ''c'' @ js '' * '' @ ?x @ ?e) = (?x, ?e) # ns"
    using plus_read [OF n(3,4) extras_stop, of "js ''c''"] by (auto simp: js_def)
  obtain ks where o: "optCacheStr (map snd BILLING_CACHE_VAR_MAP) ?e = (map (extra_match \<circ> snd) (tier_extras tier), 41 # r) # ks"
    using extras_read [OF extras_apart extras_exact [OF assms]] by (auto simp: extras_vars)
  have t: "buildTierBodyExpr tier @ 41 # r = js ''p'' @ js '' * '' @ ?i @ js '' + '' @ js ''c'' @ js '' * '' @ ?x @ ?e"
    by (simp add: body_text js_def)
  show ?thesis unfolding t bodyPat_def by (simp add: p c o tier_match_def)
qed

lemma num_no_paren: "exact_num x \<Longrightarrow> 41 \<notin> set (num_to_str x)"
  by (auto simp: exact_num_def list_all_iff num_char_def is_digit_def)

lemma extra_no_paren: "list_all (exact_num \<circ> snd) vs \<Longrightarrow> list_all (\<lambda>vx. 41 \<notin> set (fst vx)) vs \<Longrightarrow> 41 \<notin> set (extra_text vs)"
  by (induction vs) (auto simp: js_def num_no_paren split: if_splits)

lemma body_no_paren: "costs_exact tier \<Longrightarrow> 41 \<notin> set (buildTierBodyExpr tier)"
proof -
  assume c: "costs_exact tier"
  have "list_all (\<lambda>v. 41 \<notin> set v) (map fst (tier_extras tier))" unfolding extras_vars cache_vars by (simp add: js_def)
  then have "41 \<notin> set (extra_text (tier_extras tier))" using extras_exact [OF c]
    by (intro extra_no_paren) (simp_all add: list_all_iff)
  then show ?thesis using c by (auto simp: body_text costs_exact_def js_def dest: num_no_paren)
qed

text \<open>A pattern that does not cross a closing parenthesis.\<close>

definition before_paren :: "(jstring \<Rightarrow> ('a \<times> jstring) list) \<Rightarrow> bool" where
  "before_paren r \<longleftrightarrow> (\<forall>s a s'. (a, s') \<in> set (r s) \<longrightarrow> (\<exists>u. s = u @ s' \<and> 41 \<notin> set u))"

lemma before_parenD: "before_paren r \<Longrightarrow> (a, s') \<in> set (r s) \<Longrightarrow> \<exists>u. s = u @ s' \<and> 41 \<notin> set u"
  by (simp add: before_paren_def)

lemma lit_before_paren: "s' \<in> set (rx_lit p s) \<Longrightarrow> 41 \<notin> set p \<Longrightarrow> \<exists>u. s = u @ s' \<and> 41 \<notin> set u"
  by (auto simp: rx_lit_ne)

lemma ws_before_paren: "s' \<in> set (rx_ws s) \<Longrightarrow> \<exists>u. s = u @ s' \<and> 41 \<notin> set u"
proof -
  assume "s' \<in> set (rx_ws s)"
  then obtain n where n: "n \<le> length (takeWhile is_ws s)" "s' = drop n s" by (auto simp: rx_ws_def rx_many_def less_Suc_eq_le simp del: upt_Suc)
  then have "take n s = take n (takeWhile is_ws s)" by (metis takeWhile_eq_take take_take min.absorb1)
  then have "\<forall>c \<in> set (take n s). is_ws c" by (metis in_set_takeD set_takeWhileD)
  moreover have "\<not> is_ws 41" by simp
  ultimately show ?thesis using n by (metis append_take_drop_id)
qed

lemma num_before_paren: "before_paren (rx_some num_char)"
  unfolding before_paren_def using rx_some_split [of _ _ num_char]
  by (fastforce simp: list_all_iff num_char_def is_digit_def)

lemma chain_before_paren:
  "\<exists>u. s = u @ s1 \<and> 41 \<notin> set u \<Longrightarrow> \<exists>u. s1 = u @ s2 \<and> 41 \<notin> set u \<Longrightarrow> \<exists>u. s = u @ s2 \<and> (41::nat) \<notin> set u"
  by (metis UnE append_assoc set_append)

lemma term_before_paren: "41 \<notin> set v \<Longrightarrow> before_paren (term_regex v)"
  unfolding before_paren_def
proof (intro allI impI)
  fix s n s' assume v: "41 \<notin> set v" and "(n, s') \<in> set (term_regex v s)"
  then obtain s1 s2 s3 s4 where m: "s1 \<in> set (rx_lit v s)" "s2 \<in> set (rx_ws s1)" "s3 \<in> set (rx_lit (js ''*'') s2)"
    "s4 \<in> set (rx_ws s3)" "(n, s') \<in> set (rx_some num_char s4)"
    by (auto simp: term_regex_def)
  have "41 \<notin> set (js ''*'')" by (simp add: js_def)
  then show "\<exists>u. s = u @ s' \<and> 41 \<notin> set u"
    using lit_before_paren [OF m(1) v] ws_before_paren [OF m(2)] lit_before_paren [OF m(3)] ws_before_paren [OF m(4)]
      before_parenD [OF num_before_paren m(5)] chain_before_paren by metis
qed

lemma plus_before_paren: "41 \<notin> set v \<Longrightarrow> before_paren (plus_term v)"
  unfolding before_paren_def
proof (intro allI impI)
  fix s n s' assume v: "41 \<notin> set v" and "(n, s') \<in> set (plus_term v s)"
  then obtain s1 s2 s3 where m: "s1 \<in> set (rx_ws s)" "s2 \<in> set (rx_lit (js ''+'') s1)"
    "s3 \<in> set (rx_ws s2)" "(n, s') \<in> set (term_regex v s3)"
    by (auto simp: plus_term_def)
  have "41 \<notin> set (js ''+'')" by (simp add: js_def)
  then show "\<exists>u. s = u @ s' \<and> 41 \<notin> set u"
    using ws_before_paren [OF m(1)] lit_before_paren [OF m(2)] ws_before_paren [OF m(3)]
      before_parenD [OF term_before_paren [OF v] m(4)] chain_before_paren by metis
qed

lemma opt_before_paren: "list_all (\<lambda>v. 41 \<notin> set v) vs \<Longrightarrow> before_paren (optCacheStr vs)"
proof (induction vs)
  case Nil
  then show ?case by (simp add: before_paren_def)
next
  case (Cons v vs)
  show ?case unfolding before_paren_def
  proof (intro allI impI)
    fix s ns s' assume "(ns, s') \<in> set (optCacheStr (v # vs) s)"
    then obtain n s1 ms where m: "(n, s1) \<in> set (rx_opt (plus_term v) s)" "(ms, s') \<in> set (optCacheStr vs s1)"
      by auto
    from m(1) have "\<exists>u. s = u @ s1 \<and> 41 \<notin> set u"
      using plus_before_paren [of v] Cons.prems by (auto simp: rx_opt_def before_paren_def)
    then show "\<exists>u. s = u @ s' \<and> 41 \<notin> set u"
      using before_parenD [OF Cons.IH m(2)] Cons.prems chain_before_paren by (metis list.pred_inject(2))
  qed
qed

lemma body_before_paren: "before_paren bodyPat"
  unfolding before_paren_def
proof (intro allI impI)
  fix s b s' assume "(b, s') \<in> set (bodyPat s)"
  then obtain i s1 x s2 ns where m: "(i, s1) \<in> set (term_regex (js ''p'') s)" "(x, s2) \<in> set (plus_term (js ''c'') s1)"
    "(ns, s') \<in> set (optCacheStr (map snd BILLING_CACHE_VAR_MAP) s2)"
    by (auto simp: bodyPat_def)
  have b: "before_paren (term_regex (js ''p''))" "before_paren (plus_term (js ''c''))"
    "before_paren (optCacheStr (map snd BILLING_CACHE_VAR_MAP))"
    by (intro term_before_paren plus_before_paren opt_before_paren, simp add: js_def cache_vars)+
  show "\<exists>u. s = u @ s' \<and> 41 \<notin> set u"
    using before_parenD [OF b(1) m(1)] before_parenD [OF b(2) m(2)] before_parenD [OF b(3) m(3)] chain_before_paren by metis
qed

text \<open>A tier, after its conditions.\<close>

definition written_tier :: "jstring \<Rightarrow> VisualTier \<Rightarrow> jstring" where
  "written_tier l tier = js ''tier(\"'' @ l @ js ''\", '' @ buildTierBodyExpr tier @ js '')''"

lemma first_char_unique: "xs @ c # ys = us @ c # vs \<Longrightarrow> c \<notin> set xs \<Longrightarrow> c \<notin> set us \<Longrightarrow> xs = us \<and> ys = vs"
proof -
  assume e: "xs @ c # ys = us @ c # vs" and n: "c \<notin> set xs" "c \<notin> set us"
  have "takeWhile (\<lambda>d. d \<noteq> c) (xs @ c # ys) = xs" "takeWhile (\<lambda>d. d \<noteq> c) (us @ c # vs) = us"
    using n by (auto simp: takeWhile_append2 takeWhile_append)
  then show ?thesis using e by simp
qed

lemma rx_many_split: "(a, s') \<in> set (rx_many P s) \<Longrightarrow> s = a @ s' \<and> list_all P a"
proof -
  assume "(a, s') \<in> set (rx_many P s)"
  then obtain n where n: "n \<le> length (takeWhile P s)" "a = take n s" "s' = drop n s"
    by (auto simp: rx_many_def less_Suc_eq_le simp del: upt_Suc)
  then have "a = take n (takeWhile P s)" by (metis takeWhile_eq_take take_take min.absorb1)
  then show ?thesis using n by (metis append_take_drop_id in_set_takeD list_all_iff set_takeWhileD)
qed

lemma body_starts: "stops is_ws (buildTierBodyExpr tier @ r)"
  by (simp add: body_text js_def)

lemma tier_call_read:
  assumes "34 \<notin> set l" "costs_exact tier"
  shows "\<exists>ms. tier_call (written_tier l tier @ r) = ((l, tier_match tier), r) # ms"
proof -
  let ?b = "buildTierBodyExpr tier @ 41 # r"
  obtain ms where l: "rx_many (\<lambda>c. c \<noteq> 34) (l @ 34 # 44 # 32 # ?b) = (l, 34 # 44 # 32 # ?b) # ms"
    using rx_many_longest [of "\<lambda>c. c \<noteq> 34" l "34 # 44 # 32 # ?b"] assms(1) by (auto simp: list_all_iff)
  obtain ns where b: "bodyPat ?b = (tier_match tier, 41 # r) # ns" using body_read [OF assms(2)] by blast
  have t: "written_tier l tier @ r = js ''tier(\"'' @ l @ 34 # 44 # 32 # ?b" by (simp add: written_tier_def js_def)
  show ?thesis unfolding t tier_call_def using body_starts [of tier "41 # r"] by (simp add: l b) (simp add: js_def l b)
qed

lemma tier_call_rest:
  assumes "34 \<notin> set l" "costs_exact tier" "(m, s') \<in> set (tier_call (written_tier l tier @ r))"
  shows "s' = r"
proof -
  let ?b = "buildTierBodyExpr tier @ 41 # r"
  have t: "written_tier l tier @ r = js ''tier(\"'' @ l @ 34 # 44 # 32 # ?b" by (simp add: written_tier_def js_def)
  from assms(3) obtain k s2 s3 s4 b s5 where m: "(k, s2) \<in> set (rx_many (\<lambda>c. c \<noteq> 34) (l @ 34 # 44 # 32 # ?b))"
    "s3 \<in> set (rx_lit (js ''\",'') s2)" "s4 \<in> set (rx_ws s3)" "(b, s5) \<in> set (bodyPat s4)" "s' \<in> set (rx_lit (js '')'') s5)"
    unfolding t tier_call_def by auto
  have k: "l @ 34 # 44 # 32 # ?b = k @ 34 # 44 # s3" "34 \<notin> set k"
    using rx_many_split [OF m(1)] m(2) by (auto simp: rx_lit_ne js_def list_all_iff)
  then have s3: "s3 = 32 # ?b" using first_char_unique [OF k(1) assms(1) k(2)] by simp
  obtain u where u: "s3 = u @ s5" "41 \<notin> set u"
    using ws_before_paren [OF m(3)] before_parenD [OF body_before_paren m(4)] chain_before_paren by metis
  have "(32 # buildTierBodyExpr tier) @ 41 # r = u @ 41 # s'" using u(1) s3 m(5) by (simp add: rx_lit_ne js_def)
  then show ?thesis using first_char_unique [of "32 # buildTierBodyExpr tier" 41 r u s'] u(2) body_no_paren [OF assms(2)] by simp
qed

text \<open>The conditions of a tier.\<close>

definition input_ok :: "TierConditionInput \<Rightarrow> bool" where
  "input_ok c \<longleftrightarrow> ci_var c \<in> {js ''p'', js ''c'', js ''len''} \<and> ci_op c \<in> {js ''<'', js ''<='', js ''>'', js ''>=''} \<and>
     (case ci_value c of NumBound x \<Rightarrow> num_to_str x \<noteq> [] \<and> list_all bound_char (num_to_str x) \<and> str_to_num (num_to_str x) = x
      | TextBound _ \<Rightarrow> False)"

definition input_text :: "TierConditionInput \<Rightarrow> jstring" where
  "input_text c = ci_var c @ js '' '' @ ci_op c @ js '' '' @ bound_text (ci_value c)"

lemma bound_char_not_ws: "bound_char c \<Longrightarrow> \<not> is_ws c \<and> c \<noteq> 38 \<and> c \<noteq> 61"
  by (auto simp: bound_char_def digit_not_ws is_digit_def)

lemma cond_read:
  assumes "v \<in> {js ''p'', js ''c'', js ''len''}" "oper \<in> {js ''<'', js ''<='', js ''>'', js ''>=''}"
    "t \<noteq> []" "list_all bound_char t" "stops bound_char r"
  shows "\<exists>ms. cond_regex (v @ js '' '' @ oper @ js '' '' @ t @ r) = ((v, oper, t), r) # ms"
proof -
  obtain ms where n: "rx_some bound_char (t @ r) = (t, r) # ms" using rx_some_longest [OF assms(4,3,5)] by blast
  have t: "stops is_ws (t @ r)" using assms(3,4) bound_char_not_ws by (cases t) auto
  have e: "\<not> bound_char 61" by (simp add: bound_char_def is_digit_def)
  have o: "\<exists>ms. cond_regex (v @ js '' '' @ oper @ js '' '' @ t @ r) = ((v, oper, t), r) # ms"
    if "oper = js ''<'' \<or> oper = js ''<='' \<or> oper = js ''>'' \<or> oper = js ''>=''" "v = js ''p'' \<or> v = js ''c'' \<or> v = js ''len''"
    using that n t e by (elim disjE) (simp_all add: cond_regex_def js_def)
  then show ?thesis using assms(1,2) by blast
qed

lemma input_parts:
  assumes "input_ok c"
  obtains x where "ci_value c = NumBound x" "bound_text (ci_value c) = num_to_str x" "num_to_str x \<noteq> []"
    "list_all bound_char (num_to_str x)" "str_to_num (num_to_str x) = x"
    "ci_var c \<in> {js ''p'', js ''c'', js ''len''}" "ci_op c \<in> {js ''<'', js ''<='', js ''>'', js ''>=''}"
  using assms by (auto simp: input_ok_def bound_text_def split: tier_bound.splits)

definition input_match :: "TierConditionInput \<Rightarrow> jstring \<times> jstring \<times> jstring" where
  "input_match c = (ci_var c, ci_op c, bound_text (ci_value c))"

lemma input_read:
  assumes "input_ok c" "stops bound_char r"
  shows "\<exists>ms. cond_regex (input_text c @ r) = (input_match c, r) # ms"
proof -
  obtain x where x: "bound_text (ci_value c) = num_to_str x" "num_to_str x \<noteq> []"
    "list_all bound_char (num_to_str x)" "ci_var c \<in> {js ''p'', js ''c'', js ''len''}" "ci_op c \<in> {js ''<'', js ''<='', js ''>'', js ''>=''}"
    by (rule input_parts [OF assms(1)])
  show ?thesis using cond_read [OF x(4,5,2,3) assms(2)] by (simp add: input_text_def input_match_def x(1))
qed

lemma input_text_ends:
  assumes "input_ok c"
  shows "input_text c \<noteq> []" "\<not> is_ws (hd (input_text c))" "\<not> is_ws (last (input_text c))" "38 \<notin> set (input_text c)"
proof -
  obtain x where x: "bound_text (ci_value c) = num_to_str x" "num_to_str x \<noteq> []"
    "list_all bound_char (num_to_str x)" "ci_var c \<in> {js ''p'', js ''c'', js ''len''}" "ci_op c \<in> {js ''<'', js ''<='', js ''>'', js ''>=''}"
    by (rule input_parts [OF assms])
  show "input_text c \<noteq> []" by (simp add: input_text_def js_def)
  show "\<not> is_ws (hd (input_text c))" using x(4) by (auto simp: input_text_def js_def)
  have "bound_char (last (num_to_str x))" using x(2,3) by (simp add: list_all_iff)
  then show "\<not> is_ws (last (input_text c))" using x(1,2) bound_char_not_ws by (simp add: input_text_def)
  have "38 \<notin> set (num_to_str x)" using x(3) bound_char_not_ws by (auto simp: list_all_iff)
  then show "38 \<notin> set (input_text c)" using x(1,4,5) by (auto simp: input_text_def js_def)
qed

definition more_inputs :: "TierConditionInput list \<Rightarrow> jstring" where
  "more_inputs cs = concat (map (\<lambda>c. js '' && '' @ input_text c) cs)"

lemma more_stops: "stops bound_char (more_inputs cs @ js '' ? '' @ r)"
  by (cases cs) (simp_all add: more_inputs_def js_def bound_char_def is_digit_def)

lemma conds_tail_read:
  "list_all input_ok cs \<Longrightarrow> length cs \<le> k \<Longrightarrow>
   \<exists>ms. conds_tail k (more_inputs cs @ js '' ? '' @ r) = (js '' ? '' @ r) # ms"
proof (induction cs arbitrary: k)
  case Nil
  then show ?case by (cases k) (simp_all add: more_inputs_def js_def)
next
  case (Cons c cs)
  then obtain j where k: "k = Suc j" by (cases k) auto
  obtain ms where t: "conds_tail j (more_inputs cs @ js '' ? '' @ r) = (js '' ? '' @ r) # ms" using Cons k by auto
  obtain ns where c: "cond_regex (input_text c @ more_inputs cs @ js '' ? '' @ r) = (input_match c, more_inputs cs @ js '' ? '' @ r) # ns"
    using input_read more_stops Cons.prems(1) by (metis list.pred_inject(2))
  have s: "stops is_ws (input_text c @ q)" for q
    using input_text_ends(1,2) [of c] Cons.prems(1) by (cases "input_text c") auto
  have "more_inputs (c # cs) @ js '' ? '' @ r = 32 # 38 # 38 # 32 # input_text c @ more_inputs cs @ js '' ? '' @ r"
    by (simp add: more_inputs_def js_def)
  then show ?case by (simp add: k c t s) (simp add: js_def c [unfolded js_def, simplified] t [unfolded js_def, simplified] s)
qed

lemma join_inputs: "join_with (js '' && '') (map input_text (c # cs)) = input_text c @ more_inputs cs"
  by (simp add: join_Cons2 more_inputs_def comp_def)

lemma condGroup_read:
  assumes "list_all input_ok (c # cs)" "stops is_ws r"
  shows "\<exists>ms. condGroup (input_text c @ more_inputs cs @ js '' ? '' @ r) = (input_text c @ more_inputs cs, r) # ms"
proof -
  obtain ns where c: "cond_regex (input_text c @ more_inputs cs @ js '' ? '' @ r) = (input_match c, more_inputs cs @ js '' ? '' @ r) # ns"
    using input_read more_stops assms(1) by (metis list.pred_inject(2))
  have "length cs \<le> length (more_inputs cs)" by (induction cs) (auto simp: more_inputs_def js_def)
  then obtain ms where t: "conds_tail (length (more_inputs cs @ js '' ? '' @ r)) (more_inputs cs @ js '' ? '' @ r) = (js '' ? '' @ r) # ms"
    using conds_tail_read [of cs "length (more_inputs cs @ js '' ? '' @ r)" r] assms(1) by auto
  have "rx_ws (js '' ? '' @ r) = [63 # 32 # r, 32 # 63 # 32 # r]" by (simp add: js_def)
  moreover have "rx_ws (32 # r) = [r, 32 # r]" using assms(2) by simp
  moreover have "rx_lit (js ''?'') (63 # 32 # r) = [32 # r]" by (simp add: js_def)
  ultimately show ?thesis unfolding condGroup_def by (simp add: c t [simplified])
qed

lemma condGroup_tier: "condGroup (js ''tier(\"'' @ r) = []"
  by (simp add: condGroup_def cond_regex_def js_def)

text \<open>The texts of the conditions and the conditions themselves.\<close>

lemma dropWhile_ws_in:
  "u \<noteq> [] \<Longrightarrow> \<not> is_ws (last u) \<Longrightarrow> \<exists>c r'. dropWhile is_ws (u @ r) = c # r' \<and> c \<in> set u"
  by (induction u) (auto split: if_splits)

lemma split_conds_part:
  "38 \<notin> set u \<Longrightarrow> u = [] \<or> \<not> is_ws (last u) \<Longrightarrow> split_conds cur (u @ r) = split_conds (cur @ u) r"
proof (induction u arbitrary: cur)
  case (Cons c u)
  obtain d r' where d: "dropWhile is_ws ((c # u) @ r) = d # r'" "d \<in> set (c # u)"
    using dropWhile_ws_in [of "c # u" r] Cons.prems by auto
  then have "rx_lit (js ''&&'') (d # r') = []" using Cons.prems(1) by (auto simp: js_def)
  then have "split_conds cur ((c # u) @ r) = split_conds (cur @ [c]) (u @ r)" using d(1) by simp
  also have "\<dots> = split_conds ((cur @ [c]) @ u) r" using Cons.prems by (intro Cons.IH) (auto split: if_splits)
  finally show ?case by simp
qed simp

lemma split_conds_inputs:
  "list_all input_ok (c # cs) \<Longrightarrow> split_conds [] (input_text c @ more_inputs cs) = map input_text (c # cs)"
proof (induction cs arbitrary: c)
  case Nil
  then show ?case using input_text_ends [of c] split_conds_part [of "input_text c" "[]" "[]"] by (simp add: more_inputs_def)
next
  case (Cons d cs)
  have d: "dropWhile is_ws (input_text d @ more_inputs cs) = input_text d @ more_inputs cs"
    using input_text_ends(1,2) [of d] Cons.prems by (cases "input_text d") auto
  have "more_inputs (d # cs) = 32 # 38 # 38 # 32 # input_text d @ more_inputs cs" by (simp add: more_inputs_def js_def)
  then have "split_conds [] (input_text c @ more_inputs (d # cs)) =
      split_conds (input_text c) (32 # 38 # 38 # 32 # input_text d @ more_inputs cs)"
    using input_text_ends [of c] split_conds_part [of "input_text c" "[]"] Cons.prems by simp
  also have "\<dots> = input_text c # split_conds [] (input_text d @ more_inputs cs)" by (simp add: js_def d)
  also have "split_conds [] (input_text d @ more_inputs cs) = map input_text (d # cs)" using Cons by simp
  finally show ?case by simp
qed

definition bound_num :: "tier_bound \<Rightarrow> jnum" where
  "bound_num v = (case v of NumBound x \<Rightarrow> x | TextBound s \<Rightarrow> str_to_num s)"

definition shown_condition :: "TierConditionInput \<Rightarrow> TierCondition" where
  "shown_condition c = \<lparr>tier_var = ci_var c, tier_op = ci_op c, tier_value = bound_num (ci_value c)\<rparr>"

lemma parse_cond_input: "input_ok c \<Longrightarrow> parse_cond (input_text c) = Some (shown_condition c)"
proof -
  assume c: "input_ok c"
  obtain x where x: "ci_value c = NumBound x" "bound_text (ci_value c) = num_to_str x" "str_to_num (num_to_str x) = x"
    by (rule input_parts [OF c])
  obtain ms where "cond_regex (input_text c @ []) = (input_match c, []) # ms" using input_read [OF c, of "[]"] by auto
  moreover have "trim (input_text c) = input_text c" using input_text_ends [OF c] by (intro trim_id) (simp add: trimmed_def)
  ultimately show ?thesis
    using x by (simp add: parse_cond_def input_match_def shown_condition_def bound_num_def)
qed

lemma parse_inputs: "list_all input_ok cs \<Longrightarrow> List.map_filter parse_cond (map input_text cs) = map shown_condition cs"
  by (induction cs) (simp_all add: parse_cond_input map_filter_simps)

text \<open>The text in front of a tier.\<close>

definition cond_prefix :: "TierConditionInput list \<Rightarrow> jstring" where
  "cond_prefix cs = (case cs of [] \<Rightarrow> [] | c # cs' \<Rightarrow> input_text c @ more_inputs cs' @ js '' ? '')"

definition cond_group :: "TierConditionInput list \<Rightarrow> jstring option" where
  "cond_group cs = (case cs of [] \<Rightarrow> None | c # cs' \<Rightarrow> Some (input_text c @ more_inputs cs'))"

lemma group_conditions_read:
  assumes "list_all input_ok cs"
  shows "(case cond_group cs of None \<Rightarrow> [] | Some condStr \<Rightarrow> if condStr = [] then [] else List.map_filter parse_cond (split_conds [] condStr)) =
    map shown_condition cs"
proof (cases cs)
  case (Cons c cs')
  then have "input_text c \<noteq> []" using assms input_text_ends(1) by simp
  then show ?thesis using assms split_conds_inputs [of c cs'] parse_inputs [of "c # cs'"] by (simp add: cond_group_def Cons)
qed (simp add: cond_group_def)

lemma build_condition:
  "list_all input_ok cs \<Longrightarrow> (if buildConditionStr cs = [] then [] else buildConditionStr cs @ js '' ? '') = cond_prefix cs"
proof (cases cs)
  case (Cons c cs')
  assume ok: "list_all input_ok cs"
  have "ci_var d \<noteq> [] \<and> ci_op d \<noteq> [] \<and> ci_value d \<noteq> TextBound []" if "d \<in> set cs" for d
  proof -
    from that ok have "input_ok d" by (simp add: list_all_iff)
    then obtain x where "ci_value d = NumBound x" "ci_var d \<in> {js ''p'', js ''c'', js ''len''}"
      "ci_op d \<in> {js ''<'', js ''<='', js ''>'', js ''>=''}" by (rule input_parts)
    then show ?thesis by (auto simp: js_def)
  qed
  then have "filter (\<lambda>c. ci_var c \<noteq> [] \<and> ci_op c \<noteq> [] \<and> ci_value c \<noteq> TextBound []) cs = cs" by (simp add: filter_id_conv)
  then have "buildConditionStr cs = join_with (js '' && '') (map input_text cs)"
    using Cons by (simp only: buildConditionStr_def input_text_def [abs_def] list.distinct if_False)
  then have "buildConditionStr cs = input_text c @ more_inputs cs'" unfolding Cons join_inputs by simp
  moreover have "input_text c \<noteq> []" using ok Cons input_text_ends(1) by simp
  ultimately show ?thesis by (simp add: cond_prefix_def Cons)
qed (simp add: buildConditionStr_def cond_prefix_def)

section \<open>Scanning an expression for its tiers\<close>

text \<open>
  The two parsers look for tiers with different patterns. What they share: the pattern finds a written
  tier with its conditions, and none in the text between two tiers or after a single one.
\<close>

locale tier_scanner =
  fixes re :: "jchar option \<Rightarrow> jstring \<Rightarrow> ('m \<times> jstring) list"
    and seg :: "'a \<Rightarrow> jstring"
    and found :: "'a \<Rightarrow> 'm"
    and ok :: "'a \<Rightarrow> bool"
  assumes reads: "ok a \<Longrightarrow> \<exists>ms. re prev (seg a @ r) = (found a, r) # ms"
    and seg_ne: "ok a \<Longrightarrow> seg a \<noteq> []"
    and at_end: "re prev [] = []"
    and at_space: "re prev (32 # s) = []"
    and at_colon: "re prev (58 # s) = []"
    and no_tier: "rx_all re prev (js '' : p * 0 + c * 0'') = []"
begin

lemma scan_end: "rx_all re prev [] = []"
  by (simp add: rx_all.simps at_end)

lemma scan_step: "ok a \<Longrightarrow> \<exists>p. rx_all re prev (seg a @ r) = found a # rx_all re p r"
  using reads [of a prev r] seg_ne [of a] by (subst rx_all.simps) auto

lemma scan_separator: "\<exists>p. rx_all re prev (js '' : '' @ s) = rx_all re p s"
  using at_space at_colon by (simp add: js_def rx_all.simps [of re _ "32 # _"] rx_all.simps [of re _ "58 # _"]) blast

lemma scan: "list_all ok as \<Longrightarrow> rx_all re prev (join_with (js '' : '') (map seg as)) = map found as"
proof (induction as arbitrary: prev rule: induct_list012)
  case 1
  then show ?case by (simp add: scan_end)
next
  case (2 a)
  then show ?case using scan_step [of a prev "[]"] by (auto simp: scan_end)
next
  case (3 a b as)
  obtain p where "rx_all re prev (seg a @ js '' : '' @ join_with (js '' : '') (map seg (b # as))) =
      found a # rx_all re p (js '' : '' @ join_with (js '' : '') (map seg (b # as)))"
    using scan_step 3(3) by fastforce
  moreover obtain q where "rx_all re p (js '' : '' @ join_with (js '' : '') (map seg (b # as))) =
      rx_all re q (join_with (js '' : '') (map seg (b # as)))"
    using scan_separator by blast
  ultimately show ?case using 3(2) [of q] 3(3) by simp
qed

lemma scan_single: "ok a \<Longrightarrow> rx_all re prev (seg a @ js '' : p * 0 + c * 0'') = [found a]"
  using scan_step [of a prev "js '' : p * 0 + c * 0''"] by (auto simp: no_tier)

end

type_synonym segment = "TierConditionInput list \<times> jstring \<times> VisualTier"

definition seg_text :: "segment \<Rightarrow> jstring" where
  "seg_text a = (case a of (cs, l, t) \<Rightarrow> cond_prefix cs @ written_tier l t)"

definition seg_ok :: "segment \<Rightarrow> bool" where
  "seg_ok a \<longleftrightarrow> (case a of (cs, l, t) \<Rightarrow> list_all input_ok cs \<and> 34 \<notin> set l \<and> costs_exact t)"

definition visual_found :: "segment \<Rightarrow> jstring option \<times> jstring \<times> jstring \<times> jstring \<times> jstring option list" where
  "visual_found a = (case a of (cs, l, t) \<Rightarrow> (cond_group cs, l, tier_match t))"

definition shown_found :: "segment \<Rightarrow> jstring option \<times> jstring \<times> jstring" where
  "shown_found a = (case a of (cs, l, t) \<Rightarrow> (cond_group cs, l, buildTierBodyExpr t))"

lemma written_starts: "stops is_ws (written_tier l t @ r)" "written_tier l t \<noteq> []"
  by (simp_all add: written_tier_def js_def)

lemma opt_group_read:
  assumes "list_all input_ok cs"
  shows "\<exists>ms. rx_opt condGroup (cond_prefix cs @ written_tier l t @ r) = (cond_group cs, written_tier l t @ r) # ms"
proof (cases cs)
  case Nil
  then show ?thesis using condGroup_tier [of "l @ js ''\", '' @ buildTierBodyExpr t @ js '')'' @ r"]
    by (simp add: cond_prefix_def cond_group_def rx_opt_def written_tier_def)
next
  case (Cons c cs')
  then obtain ms where "condGroup (input_text c @ more_inputs cs' @ js '' ? '' @ written_tier l t @ r) =
      (input_text c @ more_inputs cs', written_tier l t @ r) # ms"
    using condGroup_read [of c cs' "written_tier l t @ r"] assms written_starts(1) by auto
  then show ?thesis by (simp add: Cons cond_prefix_def cond_group_def rx_opt_def)
qed

lemma visual_read:
  assumes "seg_ok a" shows "\<exists>ms. visual_tierRe prev (seg_text a @ r) = (visual_found a, r) # ms"
proof -
  obtain cs l t where a: "a = (cs, l, t)" by (cases a)
  obtain ms where "rx_opt condGroup (cond_prefix cs @ written_tier l t @ r) = (cond_group cs, written_tier l t @ r) # ms"
    using opt_group_read assms by (fastforce simp: a seg_ok_def)
  moreover obtain ns where "tier_call (written_tier l t @ r) = ((l, tier_match t), r) # ns"
    using tier_call_read assms by (fastforce simp: a seg_ok_def)
  ultimately show ?thesis by (simp add: a seg_text_def visual_found_def visual_tierRe_def)
qed

lemma shown_read:
  assumes "seg_ok a" shows "\<exists>ms. tierRe prev (seg_text a @ r) = (shown_found a, r) # ms"
proof -
  obtain cs l t where a: "a = (cs, l, t)" by (cases a)
  let ?b = "buildTierBodyExpr t @ 41 # r"
  have ok: "34 \<notin> set l" "41 \<notin> set (buildTierBodyExpr t)" "buildTierBodyExpr t \<noteq> []"
    using assms body_no_paren by (auto simp: a seg_ok_def body_text js_def)
  obtain ms where g: "rx_opt condGroup (cond_prefix cs @ written_tier l t @ r) = (cond_group cs, written_tier l t @ r) # ms"
    using opt_group_read assms by (fastforce simp: a seg_ok_def)
  obtain ns where l: "rx_many (\<lambda>c. c \<noteq> 34) (l @ 34 # 44 # 32 # ?b) = (l, 34 # 44 # 32 # ?b) # ns"
    using rx_many_longest [of "\<lambda>c. c \<noteq> 34" l "34 # 44 # 32 # ?b"] ok(1) by (auto simp: list_all_iff)
  obtain ks where b: "rx_some (\<lambda>c. c \<noteq> 41) ?b = (buildTierBodyExpr t, 41 # r) # ks"
    using rx_some_longest [of "\<lambda>c. c \<noteq> 41" "buildTierBodyExpr t" "41 # r"] ok(2,3) by (auto simp: list_all_iff)
  have t: "written_tier l t @ r = js ''tier(\"'' @ l @ 34 # 44 # 32 # ?b" by (simp add: written_tier_def js_def)
  have "seg_text a @ r = cond_prefix cs @ written_tier l t @ r" by (simp add: a seg_text_def)
  then show ?thesis unfolding tierRe_def
    using body_starts [of t "41 # r"] by (simp add: g) (simp add: t l b a shown_found_def js_def)
qed

lemma rx_all_skip: "r prev (c # cs) = [] \<Longrightarrow> rx_all r prev (c # cs) = rx_all r (Some c) cs"
  by (simp add: rx_all.simps [of r prev "c # cs"])

lemma rx_all_none: "r prev [] = [] \<Longrightarrow> rx_all r prev [] = []"
  by (simp add: rx_all.simps [of r prev "[]"])

lemmas no_match = visual_tierRe_def tierRe_def rx_opt_def condGroup_def cond_regex_def tier_call_def js_def

interpretation visual: tier_scanner visual_tierRe seg_text visual_found seg_ok
proof
  show "visual_tierRe prev [] = []" "visual_tierRe prev (32 # s) = []" "visual_tierRe prev (58 # s) = []" for prev s
    by (simp_all add: no_match)
  show "rx_all visual_tierRe prev (js '' : p * 0 + c * 0'') = []" for prev
    by (simp add: js_def) (simp add: rx_all_skip rx_all_none no_match)
  show "seg_ok a \<Longrightarrow> seg_text a \<noteq> []" for a by (cases a) (simp add: seg_text_def written_starts)
qed (rule visual_read)

interpretation shown: tier_scanner tierRe seg_text shown_found seg_ok
proof
  show "tierRe prev [] = []" "tierRe prev (32 # s) = []" "tierRe prev (58 # s) = []" for prev s
    by (simp_all add: no_match)
  show "rx_all tierRe prev (js '' : p * 0 + c * 0'') = []" for prev
    by (simp add: js_def) (simp add: rx_all_skip rx_all_none no_match)
  show "seg_ok a \<Longrightarrow> seg_text a \<noteq> []" for a by (cases a) (simp add: seg_text_def written_starts)
qed (rule shown_read)

section \<open>The editor opens what it wrote\<close>

definition EXTRA_FIELDS :: "jstring set" where
  "EXTRA_FIELDS = set (map fst BILLING_CACHE_VAR_MAP)"

text \<open>
  A tier in the editor's normal form: a label without quotation marks, conditions on the known variables
  with a bound that is printed and read without loss, such costs in all nine fields, the optional ones
  rounded to five decimals, and the cache mode that the one-hour cost gives.
\<close>

definition tier_ok :: "VisualTier \<Rightarrow> bool" where
  "tier_ok t \<longleftrightarrow>
     (case vt_label t of Some l \<Rightarrow> l \<noteq> [] \<and> 34 \<notin> set l | None \<Rightarrow> False) \<and>
     (case vt_conditions t of Some cs \<Rightarrow> list_all input_ok cs | None \<Rightarrow> False) \<and>
     dom (vt_cost t) = insert (js ''input_unit_cost'') (insert (js ''output_unit_cost'') EXTRA_FIELDS) \<and>
     list_all (\<lambda>f. exact_num (the (vt_cost t f))) (js ''input_unit_cost'' # js ''output_unit_cost'' # map fst BILLING_CACHE_VAR_MAP) \<and>
     list_all (\<lambda>f. roundPrice (the (vt_cost t f)) = the (vt_cost t f)) (map fst BILLING_CACHE_VAR_MAP) \<and>
     vt_cache_mode t =
       Some (if num_less (Fin 0) (the (vt_cost t (js ''cache_create_1h_unit_cost''))) then CACHE_MODE_TIMED else CACHE_MODE_GENERIC)"

definition config_ok :: "VisualConfig \<Rightarrow> bool" where
  "config_ok cfg \<longleftrightarrow> cfg \<noteq> [] \<and> list_all tier_ok cfg \<and> (length cfg = 1 \<or> vt_conditions (last cfg) = Some [])"

definition tier_segment :: "VisualTier \<Rightarrow> segment" where
  "tier_segment t = (the (vt_conditions t), the (vt_label t), t)"

lemma tier_cost:
  assumes "tier_ok t" "f \<in> insert (js ''input_unit_cost'') (insert (js ''output_unit_cost'') EXTRA_FIELDS)"
  shows "vt_cost t f = Some (cost_or0 t f)" "exact_num (cost_or0 t f)"
proof -
  obtain x where x: "vt_cost t f = Some x" using assms by (auto simp: tier_ok_def dom_def)
  moreover have "exact_num x" using assms x by (auto simp: tier_ok_def list_all_iff EXTRA_FIELDS_def)
  ultimately show "vt_cost t f = Some (cost_or0 t f)" "exact_num (cost_or0 t f)" by (simp_all add: cost_or0_def exact_num_def)
qed

lemma tier_segment_ok: "tier_ok t \<Longrightarrow> seg_ok (tier_segment t)"
proof -
  assume t: "tier_ok t"
  have "costs_exact t" unfolding costs_exact_def list_all_iff using tier_cost(2) [OF t] by (auto simp: EXTRA_FIELDS_def)
  then show ?thesis using t by (auto simp: seg_ok_def tier_segment_def tier_ok_def split: option.splits)
qed

lemma segment_text:
  assumes "tier_ok t"
  shows "(if tier_condition t = [] then [] else tier_condition t @ js '' ? '') @ tier_text fallback t = seg_text (tier_segment t)"
    and "tier_text fallback t = written_tier (the (vt_label t)) t"
proof -
  have "\<exists>l cs. vt_label t = Some l \<and> l \<noteq> [] \<and> vt_conditions t = Some cs \<and> list_all input_ok cs"
    using assms by (auto simp: tier_ok_def split: option.splits)
  then obtain l cs where l: "vt_label t = Some l" "l \<noteq> []" "vt_conditions t = Some cs" "list_all input_ok cs" by blast
  then show "tier_text fallback t = written_tier (the (vt_label t)) t" by (simp add: tier_text_def written_tier_def)
  then show "(if tier_condition t = [] then [] else tier_condition t @ js '' ? '') @ tier_text fallback t = seg_text (tier_segment t)"
    using build_condition [OF l(4)] l by (auto simp: tier_condition_def seg_text_def tier_segment_def split: if_splits)
qed

lemma generate_segments:
  assumes "config_ok cfg" "length cfg \<noteq> 1"
  shows "generateExprFromVisualConfig (Some cfg) = join_with (js '' : '') (map (seg_text \<circ> tier_segment) cfg)"
proof -
  have ok: "list_all tier_ok cfg" "vt_conditions (last cfg) = Some []" "cfg \<noteq> []" using assms by (auto simp: config_ok_def)
  obtain t1 t2 ts where cfg: "cfg = t1 # t2 # ts" using assms(2) ok(3) by (cases cfg; cases "tl cfg") auto
  have "map (\<lambda>(i, tier).
       let body = tier_text (js ''tier_'' @ nat_to_js (i + 1)) tier; cond = tier_condition tier in
       if i < length cfg - 1 \<and> cond \<noteq> [] then cond @ js '' ? '' @ body else body) (List.enumerate 0 cfg) =
    map (seg_text \<circ> tier_segment) cfg"
  proof (rule nth_equalityI)
    fix i assume "i < length (map (\<lambda>(i, tier).
       let body = tier_text (js ''tier_'' @ nat_to_js (i + 1)) tier; cond = tier_condition tier in
       if i < length cfg - 1 \<and> cond \<noteq> [] then cond @ js '' ? '' @ body else body) (List.enumerate 0 cfg))"
    then have i: "i < length cfg" by simp
    then have t: "tier_ok (cfg ! i)" using ok(1) by (simp add: list_all_length)
    have "tier_condition (cfg ! i) = []" if "\<not> i < length cfg - 1"
    proof -
      have "cfg ! i = last cfg" using that i ok(3) by (metis Suc_pred last_conv_nth less_antisym length_greater_0_conv diff_Suc_1)
      then show ?thesis using ok(2) by (simp add: tier_condition_def buildConditionStr_def)
    qed
    then show "map (\<lambda>(i, tier).
       let body = tier_text (js ''tier_'' @ nat_to_js (i + 1)) tier; cond = tier_condition tier in
       if i < length cfg - 1 \<and> cond \<noteq> [] then cond @ js '' ? '' @ body else body) (List.enumerate 0 cfg) ! i =
      map (seg_text \<circ> tier_segment) cfg ! i"
      using i segment_text(1) [OF t, of "js ''tier_'' @ nat_to_js (i + 1)"]
      by (auto simp: nth_enumerate_eq Let_def split: if_splits)
  qed simp
  then show ?thesis by (simp add: generateExprFromVisualConfig_def cfg)
qed

lemma matched_costs:
  "foldl (\<lambda>cost ((f, _), n). case n of None \<Rightarrow> cost | Some s \<Rightarrow> cost(f \<mapsto> str_to_num s)) m
     (zip fvs (map (extra_match \<circ> snd \<circ> (\<lambda>(f, v). (v, g f))) fvs)) f =
   (if f \<in> set (map fst fvs) \<and> g f \<noteq> Fin 0 then Some (str_to_num (num_to_str (g f))) else m f)"
  by (induction fvs arbitrary: m) (auto simp: extra_match_def)

lemma matched_tier_cost:
  assumes "tier_ok t"
  shows "vt_cost (matched_tier cs (l, tier_match t)) f =
    (if f \<in> EXTRA_FIELDS then if cost_or0 t f = Fin 0 then None else vt_cost t f else vt_cost t f)"
proof (cases "f \<in> EXTRA_FIELDS")
  case True
  then have "f \<noteq> js ''input_unit_cost''" "f \<noteq> js ''output_unit_cost''" by (auto simp: EXTRA_FIELDS_def cache_fields)
  then show ?thesis using True tier_cost [OF assms, of f]
    by (simp add: matched_tier_def tier_match_def tier_extras_def matched_costs EXTRA_FIELDS_def exact_num_def)
next
  case False
  have "vt_cost t f = None" if "f \<noteq> js ''input_unit_cost''" "f \<noteq> js ''output_unit_cost''"
    using that False assms by (auto simp: tier_ok_def dom_def)
  then show ?thesis using False tier_cost [OF assms, of f]
    by (auto simp: matched_tier_def tier_match_def tier_extras_def matched_costs EXTRA_FIELDS_def exact_num_def)
qed

lemma extra_fields_list: "EXTRA_FIELDS =
    {js ''cache_read_unit_cost'', js ''cache_create_unit_cost'', js ''cache_create_1h_unit_cost'', js ''image_unit_cost'',
     js ''image_output_unit_cost'', js ''audio_input_unit_cost'', js ''audio_output_unit_cost''}"
  unfolding EXTRA_FIELDS_def cache_fields by simp

lemma matched_normal:
  assumes "tier_ok t"
  shows "normalizeVisualTier (matched_tier (the (vt_conditions t)) (the (vt_label t), tier_match t)) = t"
    and "normalizeVisualTier t = t"
proof -
  have r: "roundPrice (cost_or0 t f) = cost_or0 t f" if "f \<in> EXTRA_FIELDS" for f
    using that assms tier_cost(1) [OF assms, of f] by (auto simp: tier_ok_def list_all_iff EXTRA_FIELDS_def)
  have n: "num_or0 (cost_or0 t f) = cost_or0 t f" if "f \<in> EXTRA_FIELDS" for f
    using that tier_cost(2) [OF assms, of f] by (simp add: exact_num_def)
  have same: "vt_cost (normalizeVisualTier u) = vt_cost t"
    if u: "\<And>f. vt_cost u f = (if f \<in> EXTRA_FIELDS then if cost_or0 t f = Fin 0 then None else vt_cost t f else vt_cost t f) \<or> vt_cost u f = vt_cost t f" for u
  proof
    fix f
    show "vt_cost (normalizeVisualTier u) f = vt_cost t f"
    proof (cases "f \<in> EXTRA_FIELDS")
      case True
      have "cost_or0 u f = cost_or0 t f"
        using u [of f] True tier_cost(1) [OF assms, of f] n [OF True] by (auto simp: cost_or0_def [of u] split: if_splits)
      then show ?thesis using True r [OF True] tier_cost(1) [OF assms, of f]
        by (simp add: normalizeVisualTier_def extra_fields_list [symmetric])
    next
      case False
      then have "vt_cost u f = vt_cost t f" using u [of f] by auto
      moreover have "vt_cost t f \<noteq> None" if "f = js ''input_unit_cost'' \<or> f = js ''output_unit_cost''"
        using that tier_cost(1) [OF assms, of f] by auto
      ultimately show ?thesis using False
        by (auto simp: normalizeVisualTier_def extra_fields_list [symmetric] split: option.splits)
    qed
  qed
  have h: "js ''cache_create_1h_unit_cost'' \<in> EXTRA_FIELDS" by (simp add: extra_fields_list)
  have ok: "\<exists>l. vt_label t = Some l" "\<exists>cs. vt_conditions t = Some cs" using assms by (auto simp: tier_ok_def split: option.splits)
  have mode: "vt_cache_mode t = Some (if num_less (Fin 0) (cost_or0 t (js ''cache_create_1h_unit_cost'')) then CACHE_MODE_TIMED else CACHE_MODE_GENERIC)"
    using assms tier_cost(1) [OF assms, of "js ''cache_create_1h_unit_cost''"] h by (simp add: tier_ok_def)
  let ?m = "matched_tier (the (vt_conditions t)) (the (vt_label t), tier_match t)"
  have m: "vt_label ?m = vt_label t" "vt_conditions ?m = vt_conditions t" "vt_cache_mode ?m = None"
    using ok by (auto simp: matched_tier_def tier_match_def)
  have "getTierCacheMode (Some ?m) = the (vt_cache_mode t)"
    using h mode tier_cost(1) [OF assms, of "js ''cache_create_1h_unit_cost''"]
    by (auto simp: getTierCacheMode_def m matched_tier_cost [OF assms])
  then show "normalizeVisualTier ?m = t"
    using same [of ?m] matched_tier_cost [OF assms] m ok mode
    by (intro VisualTier.equality) (auto simp: normalizeVisualTier_def)
  show "normalizeVisualTier t = t"
    using same [of t] ok mode by (intro VisualTier.equality) (auto simp: normalizeVisualTier_def)
qed

lemma inputs_read: "list_all input_ok cs \<Longrightarrow> condition_inputs (cond_group cs) = cs"
proof -
  assume ok: "list_all input_ok cs"
  have "\<lparr>ci_var = tier_var (shown_condition c), ci_op = tier_op (shown_condition c), ci_value = NumBound (tier_value (shown_condition c))\<rparr> = c"
    if c: "input_ok c" for c
  proof -
    obtain x where "ci_value c = NumBound x" using c by (cases "ci_value c") (auto simp: input_ok_def)
    then show ?thesis by (simp add: shown_condition_def bound_num_def)
  qed
  then have "map (\<lambda>c. \<lparr>ci_var = tier_var c, ci_op = tier_op c, ci_value = NumBound (tier_value c)\<rparr>) (map shown_condition cs) = cs"
    using ok by (induction cs) simp_all
  then show ?thesis using group_conditions_read [OF ok] by (auto simp: condition_inputs_def split: option.splits)
qed

lemma config_tiers:
  assumes "list_all tier_ok cfg"
  shows "map (\<lambda>(g, m). normalizeVisualTier (matched_tier (condition_inputs g) m)) (map (visual_found \<circ> tier_segment) cfg) = cfg"
    and "map normalizeVisualTier cfg = cfg"
proof -
  have "normalizeVisualTier (matched_tier (condition_inputs (cond_group (the (vt_conditions t)))) (the (vt_label t), tier_match t)) = t"
    if "tier_ok t" for t
  proof -
    have "list_all input_ok (the (vt_conditions t))" using that by (auto simp: tier_ok_def split: option.splits)
    then show ?thesis using matched_normal(1) [OF that] by (simp add: inputs_read)
  qed
  then show "map (\<lambda>(g, m). normalizeVisualTier (matched_tier (condition_inputs g) m)) (map (visual_found \<circ> tier_segment) cfg) = cfg"
    using assms by (induction cfg) (simp_all add: visual_found_def tier_segment_def)
  show "map normalizeVisualTier cfg = cfg" using assms matched_normal(2) by (induction cfg) simp_all
qed

text \<open>The whole text, and the character it starts with.\<close>

lemma generate_single:
  assumes "tier_ok t"
  shows "generateExprFromVisualConfig (Some [t]) =
    (if the (vt_conditions t) = [] then written_tier (the (vt_label t)) t
     else seg_text (tier_segment t) @ js '' : p * 0 + c * 0'')"
proof -
  obtain cs where cs: "vt_conditions t = Some cs" "list_all input_ok cs" using assms by (auto simp: tier_ok_def split: option.splits)
  have "(tier_condition t = []) = (cs = [])"
    using build_condition [OF cs(2)] input_text_ends(1) cs
    by (cases cs) (auto simp: tier_condition_def cond_prefix_def buildConditionStr_def split: if_splits)
  then have c: "(tier_condition t = []) = (the (vt_conditions t) = [])" using cs by simp
  show ?thesis
  proof (cases "the (vt_conditions t) = []")
    case True
    then show ?thesis using c segment_text(2) [OF assms] by (simp add: generateExprFromVisualConfig_def Let_def)
  next
    case False
    then have "seg_text (tier_segment t) = tier_condition t @ js '' ? '' @ tier_text (js ''default'') t"
      using c segment_text(1) [OF assms, of "js ''default''"] by simp
    then show ?thesis using c False by (simp add: generateExprFromVisualConfig_def Let_def)
  qed
qed

lemma cond_prefix_starts: "list_all input_ok (c # cs) \<Longrightarrow> \<exists>x xs. cond_prefix (c # cs) = x # xs \<and> x \<in> {112, 99, 108}"
  by (auto simp: cond_prefix_def input_text_def input_ok_def js_def)

lemma segment_starts: "seg_ok a \<Longrightarrow> \<exists>x xs. seg_text a = x # xs \<and> x \<in> {112, 99, 108, 116}"
proof -
  assume "seg_ok a"
  obtain cs l t where a: "a = (cs, l, t)" by (cases a)
  show ?thesis
  proof (cases cs)
    case Nil
    then show ?thesis by (simp add: a seg_text_def cond_prefix_def written_tier_def js_def)
  next
    case (Cons c cs')
    then show ?thesis using cond_prefix_starts [of c cs'] \<open>seg_ok a\<close> by (auto simp: a seg_text_def seg_ok_def)
  qed
qed

lemma no_version: "x \<noteq> 118 \<Longrightarrow> stripExprVersion (x # xs) = (Fin 1, x # xs)"
  by (simp add: stripExprVersion_def js_def)

lemma generate_scan:
  assumes sc: "tier_scanner re seg_text found seg_ok" and cfg: "config_ok cfg"
  shows "rx_all re prev (generateExprFromVisualConfig (Some cfg)) = map (found \<circ> tier_segment) cfg"
proof -
  have ok: "list_all tier_ok cfg" "cfg \<noteq> []" using cfg by (simp_all add: config_ok_def)
  then have segs: "list_all seg_ok (map tier_segment cfg)" using tier_segment_ok by (auto simp: list_all_iff)
  show ?thesis
  proof (cases "length cfg = 1")
    case True
    then obtain t where t: "cfg = [t]" by (cases cfg) auto
    show ?thesis
    proof (cases "the (vt_conditions t) = []")
      case True
      then have "generateExprFromVisualConfig (Some cfg) = join_with (js '' : '') (map seg_text [tier_segment t])"
        using ok t by (simp add: generate_single seg_text_def tier_segment_def cond_prefix_def)
      then show ?thesis using tier_scanner.scan [OF sc, of "[tier_segment t]"] segs t by simp
    next
      case False
      then show ?thesis using tier_scanner.scan_single [OF sc, of "tier_segment t"] segs ok t by (simp add: generate_single)
    qed
  next
    case False
    then show ?thesis using generate_segments [OF cfg False] tier_scanner.scan [OF sc segs] by simp
  qed
qed

lemma generate_starts:
  assumes "config_ok cfg"
  shows "\<exists>x xs. generateExprFromVisualConfig (Some cfg) = x # xs \<and> x \<in> {112, 99, 108, 116}"
proof -
  have ok: "list_all tier_ok cfg" "cfg \<noteq> []" using assms by (simp_all add: config_ok_def)
  then obtain t ts where t: "cfg = t # ts" "tier_ok t" by (cases cfg) auto
  obtain x xs where x: "seg_text (tier_segment t) = x # xs" "x \<in> {112, 99, 108, 116}"
    using segment_starts tier_segment_ok t(2) by blast
  show ?thesis
  proof (cases ts)
    case Nil
    then show ?thesis using x t by (auto simp: generate_single written_tier_def js_def)
  next
    case (Cons u us)
    then show ?thesis using generate_segments [OF assms] x t by simp
  qed
qed

text \<open>The pattern for a single tier without conditions matches no other text.\<close>

lemma single_unmatched:
  assumes "config_ok cfg" "\<not> (\<exists>t. cfg = [t] \<and> the (vt_conditions t) = [])"
  shows "rx_first [m. (m, s) \<leftarrow> tier_call (generateExprFromVisualConfig (Some cfg)), s = []] = None"
proof -
  have ok: "list_all tier_ok cfg" "cfg \<noteq> []" using assms(1) by (simp_all add: config_ok_def)
  then obtain t ts where t: "cfg = t # ts" "tier_ok t" by (cases cfg) auto
  have seg: "seg_ok (tier_segment t)" by (rule tier_segment_ok [OF t(2)])
  have "s \<noteq> []" if "(m, s) \<in> set (tier_call (generateExprFromVisualConfig (Some cfg)))" for m s
  proof (cases "the (vt_conditions t) = []")
    case True
    then obtain u us where u: "ts = u # us" using assms(2) t by (cases ts) auto
    have "generateExprFromVisualConfig (Some cfg) =
        written_tier (the (vt_label t)) t @ js '' : '' @ join_with (js '' : '') (map (seg_text \<circ> tier_segment) (u # us))"
      using generate_segments [OF assms(1)] t u True by (simp add: seg_text_def tier_segment_def cond_prefix_def)
    then show ?thesis using that tier_call_rest [of "the (vt_label t)" t m s] seg
      by (auto simp: seg_ok_def tier_segment_def js_def)
  next
    case False
    then obtain c cs where c: "the (vt_conditions t) = c # cs" by (cases "the (vt_conditions t)") auto
    obtain x xs where x: "seg_text (tier_segment t) = x # xs" "x \<in> {112, 99, 108}"
      using cond_prefix_starts [of c cs] seg c by (auto simp: seg_text_def tier_segment_def seg_ok_def)
    have "\<exists>ys. generateExprFromVisualConfig (Some cfg) = x # ys"
      using generate_segments [OF assms(1)] False t ok x by (cases ts) (auto simp: generate_single)
    then show ?thesis using that x(2) by (auto simp: tier_call_def js_def)
  qed
  then have "[m. (m, s) \<leftarrow> tier_call (generateExprFromVisualConfig (Some cfg)), s = []] = []"
    by (auto simp: concat_eq_Nil_conv)
  then show ?thesis by (simp only: rx_first_simps)
qed

lemma config_read:
  assumes "config_ok cfg"
  shows "tryParseVisualConfig (Some (generateExprFromVisualConfig (Some cfg))) = Some cfg"
proof -
  let ?e = "generateExprFromVisualConfig (Some cfg)"
  have ok: "list_all tier_ok cfg" "cfg \<noteq> []" using assms by (simp_all add: config_ok_def)
  obtain x xs where x: "?e = x # xs" "x \<in> {112, 99, 108, 116}" using generate_starts [OF assms] by blast
  then have body: "?e \<noteq> []" "snd (stripExprVersion ?e) = ?e" using no_version [of x xs] by auto
  show ?thesis
  proof (cases "\<exists>t. cfg = [t] \<and> the (vt_conditions t) = []")
    case True
    then obtain t where t: "cfg = [t]" "the (vt_conditions t) = []" "tier_ok t" using ok by auto
    obtain ms where "tier_call (written_tier (the (vt_label t)) t @ []) = ((the (vt_label t), tier_match t), []) # ms"
      using tier_call_read tier_segment_ok [OF t(3)] by (fastforce simp: seg_ok_def tier_segment_def)
    then have "rx_first [m. (m, s) \<leftarrow> tier_call ?e, s = []] = Some (the (vt_label t), tier_match t)"
      using t by (simp add: generate_single)
    then show ?thesis using body matched_normal [OF t(3)] t(1,2) by (simp add: tryParseVisualConfig_def normalizeVisualConfig_def)
  next
    case False
    have "rx_all visual_tierRe None ?e = map (visual_found \<circ> tier_segment) cfg"
      by (rule generate_scan [OF visual.tier_scanner_axioms assms])
    then show ?thesis using body single_unmatched [OF assms False] config_tiers [OF ok(1)] ok(2)
      by (simp add: tryParseVisualConfig_def normalizeVisualConfig_def Let_def)
  qed
qed

text \<open>
  C5. The visual editor opens every expression it writes: for tiers in the editor's normal form, reading
  the generated expression gives back the same tiers, with their labels, conditions, costs and cache
  modes.
\<close>

theorem visual_config_reopens:
  assumes "config_ok cfg"
  shows "tryParseVisualConfig (Some (generateExprFromVisualConfig (Some cfg))) = Some cfg"
  using assms by (rule config_read)

lemma exact_safe: "safe_num x \<Longrightarrow> exact_num x"
proof -
  assume "safe_num x"
  then have ok: "num_ok x" by (rule safe_num_ok)
  then have "str_to_num (num_to_str x) = x" by (auto simp: num_ok_def json_number_def Let_def split: if_splits)
  then show ?thesis using ok by (cases x) (auto simp: exact_num_def num_ok_def num_or0_def num_truthy_def is_finite_def)
qed

lemma exact_nat: "n \<le> 2 ^ 53 \<Longrightarrow> exact_num (Fin (of_nat n))"
proof -
  assume "n \<le> 2 ^ 53"
  then have "(of_nat n :: rat) \<le> 2 ^ 53" by (metis of_nat_le_iff of_nat_numeral of_nat_power)
  then show ?thesis by (intro exact_safe) (simp add: safe_num_def)
qed

lemma roundPrice_nat: "n \<le> 2 ^ 53 \<Longrightarrow> roundPrice (Fin (of_nat n)) = Fin (of_nat n)"
proof -
  assume n: "n \<le> 2 ^ 53"
  have "\<lfloor>(of_nat n :: rat) * 100000 + 1 / 2\<rfloor> = int n * 100000" by (rule floor_unique) simp_all
  moreover have "\<not> 10 ^ 21 \<le> \<bar>of_nat n :: rat\<bar>"
  proof -
    have "(of_nat n :: rat) \<le> 2 ^ 53" using n by (metis of_nat_le_iff of_nat_numeral of_nat_power)
    then show ?thesis by simp
  qed
  moreover have "f64 (of_int (int n)) = Fin (of_int (int n))" using n by (intro f64_int) simp
  ultimately show ?thesis by (simp add: roundPrice_def)
qed

definition sample_tier :: "string \<Rightarrow> TierConditionInput list \<Rightarrow> nat \<Rightarrow> nat \<Rightarrow> VisualTier" where
  "sample_tier l cs i x =
     \<lparr>vt_label = Some (js l), vt_conditions = Some cs, vt_cache_mode = Some CACHE_MODE_GENERIC,
      vt_cost = (\<lambda>f. if f = js ''input_unit_cost'' then Some (Fin (of_nat i)) else if f = js ''output_unit_cost'' then Some (Fin (of_nat x))
         else if f = js ''cache_read_unit_cost'' then Some (Fin (of_nat 1)) else if f \<in> EXTRA_FIELDS then Some (Fin (of_nat 0)) else None)\<rparr>"

definition sample_bound :: TierConditionInput where
  "sample_bound = \<lparr>ci_var = js ''len'', ci_op = js ''<'', ci_value = NumBound (Fin (of_nat 200000))\<rparr>"

definition sample_config :: VisualConfig where
  "sample_config = [sample_tier ''standard'' [sample_bound] 3 15, sample_tier ''long'' [] 6 22]"

lemma bound_nat:
  "n \<le> 2 ^ 53 \<Longrightarrow> num_to_str (Fin (of_nat n)) \<noteq> [] \<and> list_all bound_char (num_to_str (Fin (of_nat n))) \<and>
   str_to_num (num_to_str (Fin (of_nat n))) = Fin (of_nat n)"
  using exact_nat [of n] nat_to_js_digits [of n]
  by (simp add: exact_num_def num_to_str_nat list_all_iff bound_char_def)

lemma sample_tier_ok:
  assumes "l \<noteq> []" "34 \<notin> set (js l)" "list_all input_ok cs" "i \<le> 2 ^ 53" "x \<le> 2 ^ 53"
  shows "tier_ok (sample_tier l cs i x)"
proof -
  have e: "exact_num (Fin (of_nat i))" "exact_num (Fin (of_nat x))" "exact_num (Fin (of_nat 1))" "exact_num (Fin (of_nat 0))"
    using assms(4,5) exact_nat [of 1] exact_nat [of 0] by (simp_all add: exact_nat)
  have r: "roundPrice (Fin (of_nat 1)) = Fin (of_nat 1)" "roundPrice (Fin (of_nat 0)) = Fin (of_nat 0)"
    using roundPrice_nat [of 1] roundPrice_nat [of 0] by simp_all
  have "dom (vt_cost (sample_tier l cs i x)) = insert (js ''input_unit_cost'') (insert (js ''output_unit_cost'') EXTRA_FIELDS)"
    by (auto simp: sample_tier_def dom_def extra_fields_list split: if_splits)
  then show ?thesis
    using assms(1-3) e r by (simp add: tier_ok_def sample_tier_def cache_fields extra_fields_list)
qed

lemma sample_config_ok: "config_ok sample_config"
proof -
  have "input_ok sample_bound"
    using bound_nat [of 200000] by (simp add: input_ok_def sample_bound_def)
  then have "tier_ok (sample_tier ''standard'' [sample_bound] 3 15)" "tier_ok (sample_tier ''long'' [] 6 22)"
    by (simp_all add: sample_tier_ok js_def)
  then show ?thesis by (simp add: config_ok_def sample_config_def sample_tier_def)
qed

theorem visual_config_reopens_witness:
  "config_ok sample_config \<and> tryParseVisualConfig (Some (generateExprFromVisualConfig (Some sample_config))) = Some sample_config"
  using sample_config_ok visual_config_reopens by blast

section \<open>The price page shows what the editor wrote\<close>

lemma var_regex:
  "BILLING_VAR_REGEX prev s =
     (if (case prev of None \<Rightarrow> False | Some c \<Rightarrow> is_word c) = (case s of [] \<Rightarrow> False | c # _ \<Rightarrow> is_word c) then []
      else concat (map (\<lambda>v. map (\<lambda>(n, s'). ((v, n), s')) (term_regex v s)) (map key BILLING_PRICING_VARS)))"
  by (simp add: BILLING_VAR_REGEX_def term_regex_def map_concat comp_def case_prod_beta)

lemma price_keys: "map key BILLING_PRICING_VARS =
    [js ''p'', js ''c'', js ''cr'', js ''cc'', js ''cc1h'', js ''img'', js ''img_o'', js ''ai'', js ''ao'']"
  by (simp add: BILLING_PRICING_VARS_def BILLING_VARS_def)

lemma price_keys_apart: "vars_apart (map key BILLING_PRICING_VARS)"
  unfolding price_keys by code_simp

lemma first_of_alternatives:
  assumes "vars_apart vs" "v \<in> set vs" "term_regex v s = m # ms" "s = v @ js '' * '' @ r"
  shows "\<exists>ks. concat (map (\<lambda>v. map (\<lambda>(n, s'). ((v, n), s')) (term_regex v s)) vs) = ((v, fst m), snd m) # ks"
  using assms
proof (induction vs)
  case (Cons w vs)
  show ?case
  proof (cases "w = v")
    case True
    then show ?thesis using Cons.prems by (cases m) simp
  next
    case False
    then have "term_regex w s = []" using Cons.prems other_term(1) [of w v r] by (auto simp: list_all_iff)
    then show ?thesis using Cons False by auto
  qed
qed simp

lemma var_read:
  assumes "v \<in> set (map key BILLING_PRICING_VARS)" "list_all num_char t" "t \<noteq> []" "stops num_char r"
    "case prev of None \<Rightarrow> True | Some c \<Rightarrow> \<not> is_word c"
  shows "\<exists>ms. BILLING_VAR_REGEX prev (v @ js '' * '' @ t @ r) = ((v, t), r) # ms"
proof -
  obtain ms where m: "term_regex v (v @ js '' * '' @ t @ r) = (t, r) # ms" using term_read [OF assms(2-4)] by blast
  have "case v @ js '' * '' @ t @ r of [] \<Rightarrow> False | c # _ \<Rightarrow> is_word c"
    using assms(1) unfolding price_keys by (auto simp: js_def is_word_def)
  then show ?thesis using assms(5) first_of_alternatives [OF price_keys_apart assms(1) m refl]
    by (auto simp: var_regex split: option.splits)
qed

lemma var_skip: "c = 32 \<or> c = 43 \<Longrightarrow> BILLING_VAR_REGEX prev (c # s) = []"
  unfolding var_regex price_keys by (auto simp: term_regex_def js_def)

lemma var_end: "BILLING_VAR_REGEX prev [] = []"
  unfolding var_regex price_keys by (simp add: term_regex_def js_def)

lemma scan_term:
  assumes "v \<in> set (map key BILLING_PRICING_VARS)" "list_all num_char t" "t \<noteq> []" "stops num_char r"
    "case prev of None \<Rightarrow> True | Some c \<Rightarrow> \<not> is_word c"
  shows "\<exists>p. rx_all BILLING_VAR_REGEX prev (v @ js '' * '' @ t @ r) = (v, t) # rx_all BILLING_VAR_REGEX p r"
  using var_read [OF assms] assms(3) by (subst rx_all.simps) auto

lemma scan_plus:
  "rx_all BILLING_VAR_REGEX prev (js '' + '' @ s) = rx_all BILLING_VAR_REGEX (Some 32) s"
  by (simp add: js_def rx_all_skip var_skip)

lemma scan_extras:
  assumes "list_all (\<lambda>vx. fst vx \<in> set (map key BILLING_PRICING_VARS) \<and> exact_num (snd vx)) vs"
  shows "rx_all BILLING_VAR_REGEX prev (extra_text vs) =
    map (\<lambda>(v, x). (v, num_to_str x)) (filter (\<lambda>(v, x). x \<noteq> Fin 0) vs)"
  using assms
proof (induction vs arbitrary: prev)
  case Nil
  then show ?case by (simp add: rx_all_none var_end)
next
  case (Cons vx vs)
  obtain v x where vx: "vx = (v, x)" by (cases vx)
  have st: "stops num_char (extra_text vs)"
    by (induction vs) (auto simp: js_def num_char_def is_digit_def)
  show ?case
  proof (cases "x = Fin 0")
    case False
    have v: "v \<in> set (map key BILLING_PRICING_VARS)" "list_all num_char (num_to_str x)" "num_to_str x \<noteq> []"
      using Cons.prems by (simp_all add: vx exact_num_def)
    obtain p where "rx_all BILLING_VAR_REGEX (Some 32) (v @ js '' * '' @ num_to_str x @ extra_text vs) =
        (v, num_to_str x) # rx_all BILLING_VAR_REGEX p (extra_text vs)"
      using scan_term [OF v st, of "Some 32"] by (auto simp: is_word_def is_digit_def)
    then show ?thesis using Cons False by (simp add: vx scan_plus)
  qed (use Cons in \<open>simp add: vx\<close>)
qed

definition body_terms :: "VisualTier \<Rightarrow> (jstring \<times> jstring) list" where
  "body_terms t =
     (js ''p'', num_to_str (cost_or0 t (js ''input_unit_cost''))) # (js ''c'', num_to_str (cost_or0 t (js ''output_unit_cost''))) #
     map (\<lambda>(v, x). (v, num_to_str x)) (filter (\<lambda>(v, x). x \<noteq> Fin 0) (tier_extras t))"

lemma body_scan:
  assumes "costs_exact t"
  shows "rx_all BILLING_VAR_REGEX None (buildTierBodyExpr t) = body_terms t"
proof -
  let ?i = "num_to_str (cost_or0 t (js ''input_unit_cost''))" and ?x = "num_to_str (cost_or0 t (js ''output_unit_cost''))"
  let ?e = "extra_text (tier_extras t)"
  have n: "list_all num_char ?i" "?i \<noteq> []" "list_all num_char ?x" "?x \<noteq> []"
    using assms by (simp_all add: costs_exact_def exact_num_def)
  have k: "js ''p'' \<in> set (map key BILLING_PRICING_VARS)" "js ''c'' \<in> set (map key BILLING_PRICING_VARS)" unfolding price_keys by simp_all
  have st: "stops num_char (extra_text vs)" for vs by (induction vs) (auto simp: js_def num_char_def is_digit_def)
  have "set (map fst (tier_extras t)) \<subseteq> set (map key BILLING_PRICING_VARS)" unfolding extras_vars cache_vars price_keys by auto
  then have "fst vx \<in> set (map key BILLING_PRICING_VARS)" if "vx \<in> set (tier_extras t)" for vx
    using that by (metis image_eqI list.set_map subsetD)
  moreover have "exact_num (snd vx)" if "vx \<in> set (tier_extras t)" for vx
    using that extras_exact [OF assms] by (simp add: list_all_iff)
  ultimately have ex: "list_all (\<lambda>vx. fst vx \<in> set (map key BILLING_PRICING_VARS) \<and> exact_num (snd vx)) (tier_extras t)"
    unfolding list_all_iff by blast
  have "stops num_char (js '' + '' @ js ''c'' @ js '' * '' @ ?x @ ?e)" by (simp add: js_def num_char_def is_digit_def)
  then obtain p where "rx_all BILLING_VAR_REGEX None (js ''p'' @ js '' * '' @ ?i @ js '' + '' @ js ''c'' @ js '' * '' @ ?x @ ?e) =
      (js ''p'', ?i) # rx_all BILLING_VAR_REGEX p (js '' + '' @ js ''c'' @ js '' * '' @ ?x @ ?e)"
    using scan_term [OF k(1) n(1,2), of _ None] by auto
  moreover obtain q where "rx_all BILLING_VAR_REGEX (Some 32) (js ''c'' @ js '' * '' @ ?x @ ?e) = (js ''c'', ?x) # rx_all BILLING_VAR_REGEX q ?e"
    using scan_term [OF k(2) n(3,4) st, of "Some 32"] by (auto simp: is_word_def is_digit_def)
  moreover have "buildTierBodyExpr t = js ''p'' @ js '' * '' @ ?i @ js '' + '' @ js ''c'' @ js '' * '' @ ?x @ ?e"
    by (simp add: body_text js_def)
  ultimately show ?thesis using scan_extras [OF ex] by (simp add: scan_plus body_terms_def)
qed

lemma first_coefficients:
  "obj_get v (foldl (\<lambda>m (v, n). if obj_get v m = None then obj_put v (str_to_num n) m else m) m ps) =
   (case obj_get v m of Some x \<Rightarrow> Some x | None \<Rightarrow> map_option str_to_num (map_of ps v))"
proof (induction ps arbitrary: m)
  case (Cons p ps)
  obtain a b where p: "p = (a, b)" by (cases p)
  show ?case by (cases "obj_get a m") (auto simp: p Cons.IH split: option.splits)
qed (simp split: option.splits)

text \<open>The price of a variable.\<close>

definition price_of :: "VisualTier \<Rightarrow> BillingVar \<Rightarrow> jnum" where
  "price_of t v = cost_or0 t (the (tierField v))"

lemma extras_lookup:
  "(f, v) \<in> set fvs \<Longrightarrow> distinct (map snd fvs) \<Longrightarrow>
   map_of (map (\<lambda>(v, x). (v, num_to_str x)) (filter (\<lambda>(v, x). x \<noteq> Fin 0) (map (\<lambda>(f, v). (v, g f)) fvs))) v =
   (if g f = Fin 0 then None else Some (num_to_str (g f)))"
proof (induction fvs)
  case (Cons fv fvs)
  have none: "map_of (map (\<lambda>(v, x). (v, num_to_str x)) (filter (\<lambda>(v, x). x \<noteq> Fin 0) (map (\<lambda>(f, v). (v, g f)) fvs))) v = None"
    if "v \<notin> set (map snd fvs)"
    using that by (induction fvs) auto
  show ?case
  proof (cases "fv = (f, v)")
    case True
    then show ?thesis using none Cons.prems by simp
  next
    case False
    then have "(f, v) \<in> set fvs" "snd fv \<noteq> v" using Cons.prems by (auto simp: rev_image_eqI)
    then show ?thesis using Cons by (cases fv) simp
  qed
qed simp

lemma price_var_cases:
  "list_all (\<lambda>v. key v = js ''p'' \<and> the (tierField v) = js ''input_unit_cost'' \<or> key v = js ''c'' \<and> the (tierField v) = js ''output_unit_cost'' \<or>
      key v \<noteq> js ''p'' \<and> key v \<noteq> js ''c'' \<and> (the (tierField v), key v) \<in> set BILLING_CACHE_VAR_MAP) BILLING_PRICING_VARS"
  by code_simp

lemma term_lookup:
  assumes "costs_exact t" "v \<in> set BILLING_PRICING_VARS"
  shows "(case map_option str_to_num (map_of (body_terms t) (key v)) of None \<Rightarrow> Fin 0 | Some x \<Rightarrow> num_or0 x) = price_of t v"
proof -
  have exact: "exact_num (cost_or0 t f)" if "f \<in> {js ''input_unit_cost'', js ''output_unit_cost''} \<or> f \<in> set (map fst BILLING_CACHE_VAR_MAP)" for f
    using that assms(1) by (auto simp: costs_exact_def list_all_iff)
  have "key v = js ''p'' \<and> the (tierField v) = js ''input_unit_cost'' \<or> key v = js ''c'' \<and> the (tierField v) = js ''output_unit_cost'' \<or>
      key v \<noteq> js ''p'' \<and> key v \<noteq> js ''c'' \<and> (the (tierField v), key v) \<in> set BILLING_CACHE_VAR_MAP"
    using price_var_cases assms(2) unfolding list_all_iff by blast
  then show ?thesis
  proof (elim disjE conjE)
    assume k: "key v \<noteq> js ''p''" "key v \<noteq> js ''c''" and m: "(the (tierField v), key v) \<in> set BILLING_CACHE_VAR_MAP"
    have "distinct (map snd BILLING_CACHE_VAR_MAP)" unfolding cache_vars by simp
    then have "map_of (body_terms t) (key v) = (if price_of t v = Fin 0 then None else Some (num_to_str (price_of t v)))"
      using k extras_lookup [OF m] by (simp add: body_terms_def tier_extras_def price_of_def)
    moreover have "the (tierField v) \<in> set (map fst BILLING_CACHE_VAR_MAP)" using m by (metis fst_conv image_eqI list.set_map)
    then have "exact_num (price_of t v)" unfolding price_of_def by (intro exact disjI2)
    ultimately show ?thesis by (simp add: exact_num_def)
  qed (use exact in \<open>simp_all add: body_terms_def price_of_def exact_num_def\<close>)
qed

lemma price_fields:
  "BILLING_VAR_KEY_TO_FIELD = map (\<lambda>v. (key v, the (field v))) BILLING_PRICING_VARS"
  "obj_of (map (\<lambda>v. (the (field v), g v)) BILLING_PRICING_VARS) = map (\<lambda>v. (the (field v), g v)) BILLING_PRICING_VARS"
proof -
  have "distinct (map key BILLING_PRICING_VARS)" "list_all (\<lambda>k. \<not> is_array_index k) (map key BILLING_PRICING_VARS)"
    "distinct (map (the \<circ> field) BILLING_PRICING_VARS)" "list_all (\<lambda>k. \<not> is_array_index k) (map (the \<circ> field) BILLING_PRICING_VARS)"
    by code_simp+
  then have "canon_keys (map key BILLING_PRICING_VARS)" "canon_keys (map (the \<circ> field) BILLING_PRICING_VARS)"
    by (simp_all add: canon_keys_words list_all_iff)
  then show "BILLING_VAR_KEY_TO_FIELD = map (\<lambda>v. (key v, the (field v))) BILLING_PRICING_VARS"
    "obj_of (map (\<lambda>v. (the (field v), g v)) BILLING_PRICING_VARS) = map (\<lambda>v. (the (field v), g v)) BILLING_PRICING_VARS"
    by (simp_all add: BILLING_VAR_KEY_TO_FIELD_def obj_of_canon comp_def)
qed

lemma shown_prices:
  assumes "costs_exact t"
  shows "parseTierBody (buildTierBodyExpr t) = map (\<lambda>v. (the (field v), price_of t v)) BILLING_PRICING_VARS"
proof -
  have "parseTierBody (buildTierBodyExpr t) =
      obj_of (map (\<lambda>v. (the (field v), case map_option str_to_num (map_of (body_terms t) (key v)) of None \<Rightarrow> Fin 0 | Some x \<Rightarrow> num_or0 x)) BILLING_PRICING_VARS)"
    by (simp add: parseTierBody_def body_scan [OF assms] first_coefficients price_fields(1) comp_def)
  also have "\<dots> = obj_of (map (\<lambda>v. (the (field v), price_of t v)) BILLING_PRICING_VARS)"
    using term_lookup [OF assms] by (simp cong: map_cong)
  finally show ?thesis by (simp add: price_fields(2))
qed

definition shown_tier :: "VisualTier \<Rightarrow> ParsedTier" where
  "shown_tier t =
     \<lparr>tier_label = the (vt_label t), tier_conditions = map shown_condition (the (vt_conditions t)),
      tier_prices = map (\<lambda>v. (the (field v), price_of t v)) BILLING_PRICING_VARS\<rparr>"

text \<open>Of two tiers the second is shown with the opposite of the first one's only condition.\<close>

definition complete_pair :: "ParsedTier list \<Rightarrow> ParsedTier list" where
  "complete_pair ts =
     (case ts of
        [a, b] \<Rightarrow>
          (if length (tier_conditions a) = 1 \<and> tier_conditions b = []
           then [a, b\<lparr>tier_conditions := [complementTierCondition (hd (tier_conditions a))]\<rparr>] else ts)
      | _ \<Rightarrow> ts)"

lemma shown_tier_read:
  assumes "tier_ok t"
  shows "(case (shown_found \<circ> tier_segment) t of (g, l, b) \<Rightarrow>
      \<lparr>tier_label = l,
       tier_conditions = (case g of None \<Rightarrow> [] | Some condStr \<Rightarrow> if condStr = [] then [] else List.map_filter parse_cond (split_conds [] condStr)),
       tier_prices = parseTierBody b\<rparr>) = shown_tier t"
proof -
  have "list_all input_ok (the (vt_conditions t))" "costs_exact t"
    using tier_segment_ok [OF assms] by (simp_all add: seg_ok_def tier_segment_def)
  then show ?thesis using group_conditions_read shown_prices
    by (simp add: shown_found_def tier_segment_def shown_tier_def)
qed

text \<open>
  C28. The price page shows what the tier editor wrote: for tiers in the editor's normal form, the parser
  of the price page finds in the generated expression one tier for each, with its label, its conditions
  and its nine prices, and completes a pair of tiers with the opposite condition.
\<close>

theorem price_page_shows_tiers:
  assumes "config_ok cfg"
  shows "parseTiersFromExpr (generateExprFromVisualConfig (Some cfg)) = complete_pair (map shown_tier cfg)"
proof -
  let ?e = "generateExprFromVisualConfig (Some cfg)"
  obtain x xs where x: "?e = x # xs" "x \<in> {112, 99, 108, 116}" using generate_starts [OF assms] by blast
  then have body: "?e \<noteq> []" "snd (stripExprVersion ?e) = ?e" using no_version [of x xs] by auto
  have "rx_all tierRe None ?e = map (shown_found \<circ> tier_segment) cfg"
    by (rule generate_scan [OF shown.tier_scanner_axioms assms])
  moreover have "list_all tier_ok cfg" using assms by (simp add: config_ok_def)
  then have "map (\<lambda>(g, l, b).
      \<lparr>tier_label = l,
       tier_conditions = (case g of None \<Rightarrow> [] | Some condStr \<Rightarrow> if condStr = [] then [] else List.map_filter parse_cond (split_conds [] condStr)),
       tier_prices = parseTierBody b\<rparr>) (map (shown_found \<circ> tier_segment) cfg) = map shown_tier cfg"
    by (induction cfg) (simp_all only: list.map list.pred_inject shown_tier_read simp_thms)
  ultimately show ?thesis using body unfolding parseTiersFromExpr_def complete_pair_def Let_def by (simp only: if_False)
qed

theorem price_page_shows_tiers_witness:
  "config_ok sample_config \<and>
   parseTiersFromExpr (generateExprFromVisualConfig (Some sample_config)) = complete_pair (map shown_tier sample_config)"
  using sample_config_ok price_page_shows_tiers by blast

section \<open>The rounding of costs\<close>

text \<open>
  C39. The optional costs that the editor keeps have five decimals: rounding a finite cost below $10^{21}$
  gives a finite double, which is a multiple of $10^{-5}$ up to the precision of doubles and differs from
  the cost by at most half a unit of the fifth decimal and that precision; a whole cost up to $2^{53}$ is
  kept as it is.
\<close>

theorem round_price_bounds:
  assumes "\<bar>x\<bar> < 10 ^ 21"
  shows "\<exists>y. roundPrice (Fin x) = Fin y \<and> \<bar>y - x\<bar> \<le> 1 / (2 * 10 ^ 5) + (\<bar>x\<bar> + 1) / 2 ^ 53 \<and>
    (\<exists>n :: int. \<bar>y - of_int n / 10 ^ 5\<bar> \<le> (\<bar>x\<bar> + 1) / 2 ^ 53) \<and>
    (x = of_nat m \<and> m \<le> 2 ^ 53 \<longrightarrow> y = x)"
proof -
  define k where "k = \<lfloor>\<bar>x\<bar> * 10 ^ 5 + 1 / 2\<rfloor>"
  have k: "of_int k \<le> \<bar>x\<bar> * 10 ^ 5 + 1 / 2" "\<bar>x\<bar> * 10 ^ 5 + 1 / 2 < of_int k + 1"
    unfolding k_def by (rule of_int_floor_le) (rule floor_less_iff [THEN iffD1, of _ "_ + 1", simplified], simp)
  define n where "n = (if x < 0 then - k else k)"
  define q :: rat where "q = of_int n / 10 ^ 5"
  have r: "roundPrice (Fin x) = f64 q" using assms by (simp add: roundPrice_def n_def k_def q_def Let_def)
  have d: "\<bar>q - x\<bar> \<le> 1 / (2 * 10 ^ 5)"
    using k by (cases "x < 0") (auto simp: n_def q_def abs_if field_simps)
  then have q: "\<bar>q\<bar> \<le> \<bar>x\<bar> + 1 / (2 * 10 ^ 5)" by linarith
  have "(1 :: rat) / (2 * 10 ^ 5) \<le> 1" by simp
  then have "\<bar>q\<bar> \<le> 10 ^ 21 + 1" using q assms by linarith
  also have "(10 :: rat) ^ 21 + 1 \<le> 2 ^ 1000" by simp
  finally have "\<bar>q\<bar> \<le> 2 ^ 1000" .
  from f64_error [OF this] obtain y where y: "f64 q = Fin y" "\<bar>y - q\<bar> \<le> \<bar>q\<bar> / 2 ^ 53 + 1 / 2 ^ 1075" by blast
  have "\<bar>q\<bar> / 2 ^ 53 \<le> (\<bar>x\<bar> + 1 / (2 * 10 ^ 5)) / 2 ^ 53" using q by (intro divide_right_mono) simp_all
  moreover have "(\<bar>x\<bar> + 1 / (2 * 10 ^ 5)) / 2 ^ 53 + 1 / 2 ^ 1075 \<le> (\<bar>x\<bar> + 1) / (2 :: rat) ^ 53"
  proof -
    have "(1 :: rat) / (2 * 10 ^ 5) / 2 ^ 53 + 1 / 2 ^ 1075 \<le> 1 / 2 ^ 53" by simp
    then show ?thesis by (simp add: add_divide_distrib)
  qed
  ultimately have e: "\<bar>y - q\<bar> \<le> (\<bar>x\<bar> + 1) / 2 ^ 53" using y(2) by linarith
  then have "\<bar>y - x\<bar> \<le> 1 / (2 * 10 ^ 5) + (\<bar>x\<bar> + 1) / 2 ^ 53" using d by linarith
  moreover have "y = x" if "x = of_nat m" "m \<le> 2 ^ 53" using roundPrice_nat [OF that(2)] r y(1) that(1) by simp
  ultimately show ?thesis using r y(1) e q_def by auto
qed

theorem round_price_bounds_witness:
  "\<exists>y. roundPrice (Fin (1 / 3)) = Fin y \<and> \<bar>y - 1 / 3\<bar> \<le> 1 / (2 * 10 ^ 5) + (\<bar>1 / 3\<bar> + 1) / 2 ^ 53"
proof -
  have "\<bar>1 / 3 :: rat\<bar> < 10 ^ 21" by simp
  from round_price_bounds [OF this, of 0] show ?thesis by blast
qed

end
