(* ===== verification/Pricing_Editor.thy ===== *)
theory Pricing_Editor
  imports Tier_Expr
begin

text \<open>
  The editor of tiered prices, \<open>features/system-settings/models/tiered-pricing-editor.tsx\<close>: the number
  inputs, the handlers of the tier cards and of the rule groups, the presets, and the editor with its
  two modes. The two expressions belong to the form around the editor; they are fields of the editor's
  state here, and the callbacks that change them are updates. After every event React commits the new
  state and runs the effects whose dependencies have changed, which may set state again: \<open>commit\<close> is one
  such round and \<open>settle\<close> the loop. \<open>None\<close> is an exception of the parser of request rules.
\<close>

section \<open>Number inputs\<close>

definition unitCostToPrice :: "jnum \<Rightarrow> jnum" where
  "unitCostToPrice uc = num_or0 uc"

definition priceToUnitCost :: "jnum \<Rightarrow> jnum" where
  "priceToUnitCost price = num_or0 price"

definition formatNumberDraft :: "tier_bound \<Rightarrow> jstring" where
  "formatNumberDraft v =
     (case v of
        TextBound s \<Rightarrow> s
      | NumBound x \<Rightarrow> if is_finite x then num_to_str x else js ''0'')"

definition parseNumberDraft :: "jstring \<Rightarrow> jnum" where
  "parseNumberDraft v =
     (if trim v = [] then Fin 0
      else let next_v = str_to_num v in if is_finite next_v then next_v else Fin 0)"

definition isZeroDraft :: "jstring \<Rightarrow> bool" where
  "isZeroDraft v \<longleftrightarrow> trim v \<noteq> [] \<and> parseNumberDraft v = Fin 0"

text \<open>The state of a number input; its handlers also give the number they report.\<close>

record DraftNumberInput =
  draft :: jstring
  focused :: bool

definition new_input :: "tier_bound \<Rightarrow> DraftNumberInput" where
  "new_input v = \<lparr>draft = formatNumberDraft v, focused = False\<rparr>"

definition input_effect :: "tier_bound \<Rightarrow> DraftNumberInput \<Rightarrow> DraftNumberInput" where
  "input_effect v i = (if focused i then i else i\<lparr>draft := formatNumberDraft v\<rparr>)"

definition input_handleChange :: "jstring \<Rightarrow> DraftNumberInput \<Rightarrow> DraftNumberInput \<times> jnum" where
  "input_handleChange nextDraft i = (i\<lparr>draft := nextDraft\<rparr>, parseNumberDraft nextDraft)"

definition input_handleFocus :: "DraftNumberInput \<Rightarrow> DraftNumberInput" where
  "input_handleFocus i = i\<lparr>focused := True\<rparr>"

definition input_handleBlur :: "jstring \<Rightarrow> DraftNumberInput \<Rightarrow> DraftNumberInput \<times> jnum" where
  "input_handleBlur v i =
     (let normalized = parseNumberDraft v in (i\<lparr>focused := False, draft := num_to_str normalized\<rparr>, normalized))"

section \<open>Tier cards\<close>

text \<open>\<open>tier.conditions\<close> of a normalised tier\<close>

definition conditions_of :: "VisualTier \<Rightarrow> TierConditionInput list" where
  "conditions_of t = (case vt_conditions t of None \<Rightarrow> [] | Some cs \<Rightarrow> cs)"

definition remove_at :: "nat \<Rightarrow> 'a list \<Rightarrow> 'a list" where
  "remove_at i xs = take i xs @ drop (Suc i) xs"

text \<open>\<open>xs[i] = x\<close> on a copy, at an index the list has\<close>

definition card_handleConditionChange :: "nat \<Rightarrow> TierConditionInput \<Rightarrow> VisualTier \<Rightarrow> VisualTier" where
  "card_handleConditionChange k c t = t\<lparr>vt_conditions := Some ((conditions_of t)[k := c])\<rparr>"

definition card_handleConditionRemove :: "nat \<Rightarrow> VisualTier \<Rightarrow> VisualTier" where
  "card_handleConditionRemove k t = t\<lparr>vt_conditions := Some (remove_at k (conditions_of t))\<rparr>"

definition card_handlePriceChange :: "jstring \<Rightarrow> jnum \<Rightarrow> VisualTier \<Rightarrow> VisualTier" where
  "card_handlePriceChange f v t = t\<lparr>vt_cost := (vt_cost t)(f \<mapsto> v)\<rparr>"

definition card_handleCacheModeChange :: "jstring \<Rightarrow> VisualTier \<Rightarrow> VisualTier" where
  "card_handleCacheModeChange mode t =
     t\<lparr>vt_cache_mode := Some mode,
       vt_cost := (vt_cost t)(js ''cache_create_1h_unit_cost'' \<mapsto>
         (if mode = CACHE_MODE_TIMED
          then case vt_cost t (js ''cache_create_1h_unit_cost'') of None \<Rightarrow> Fin 0 | Some x \<Rightarrow> x
          else Fin 0))\<rparr>"

datatype tier_edit =
    EditLabel jstring
  | EditCondition nat TierConditionInput
  | RemoveCondition nat
  | EditPrice jstring jnum
  | EditCacheMode jstring

definition card_edit :: "tier_edit \<Rightarrow> VisualTier \<Rightarrow> VisualTier" where
  "card_edit e t =
     (case e of
        EditLabel l \<Rightarrow> t\<lparr>vt_label := Some l\<rparr>
      | EditCondition k c \<Rightarrow> card_handleConditionChange k c t
      | RemoveCondition k \<Rightarrow> card_handleConditionRemove k t
      | EditPrice f v \<Rightarrow> card_handlePriceChange f (priceToUnitCost v) t
      | EditCacheMode m \<Rightarrow> card_handleCacheModeChange m t)"

section \<open>The list of tiers\<close>

definition handleTierChange :: "nat \<Rightarrow> VisualTier \<Rightarrow> VisualConfig \<Rightarrow> VisualConfig" where
  "handleTierChange i next_tier tiers = tiers[i := normalizeVisualTier next_tier]"

definition default_condition :: "jstring \<Rightarrow> TierConditionInput" where
  "default_condition v = \<lparr>ci_var = v, ci_op = js ''<'', ci_value = NumBound (Fin 200000)\<rparr>"

definition handleAddTier :: "VisualConfig \<Rightarrow> VisualConfig" where
  "handleAddTier tiers =
     (let tiers' =
        (if tiers \<noteq> [] \<and> conditions_of (last tiers) = []
         then butlast tiers @ [normalizeVisualTier ((last tiers)\<lparr>vt_conditions := Some [default_condition (js ''len'')]\<rparr>)]
         else tiers) in
      tiers' @
        [normalizeVisualTier
           \<lparr>vt_label = Some (js ''tier_'' @ nat_to_js (length tiers' + 1)), vt_conditions = Some [], vt_cache_mode = None,
            vt_cost = [js ''input_unit_cost'' \<mapsto> Fin 0, js ''output_unit_cost'' \<mapsto> Fin 0]\<rparr>])"

definition handleRemoveTier :: "nat \<Rightarrow> VisualConfig \<Rightarrow> VisualConfig" where
  "handleRemoveTier i tiers = (let rest = remove_at i tiers in if rest \<noteq> [] then rest else tiers)"

definition handleAddCondition :: "nat \<Rightarrow> VisualConfig \<Rightarrow> VisualConfig" where
  "handleAddCondition i tiers =
     (let tier = tiers ! i; conds = conditions_of tier in
      if length conds \<ge> 2 then tiers
      else let nextVar = (if js ''len'' \<in> ci_var ` set conds then js ''c'' else js ''len'') in
        tiers[i := tier\<lparr>vt_conditions := Some (conds @ [default_condition nextVar])\<rparr>])"

datatype visual_event = EditTier nat tier_edit | AddTier | RemoveTier nat | AddCondition nat

text \<open>The handlers get the normalised configuration; the index is that of a card on the page.\<close>

definition VisualEditor :: "visual_event \<Rightarrow> VisualConfig option \<Rightarrow> VisualConfig option" where
  "VisualEditor e visualConfig =
     (let config = normalizeVisualConfig visualConfig in
      case e of
        EditTier i te \<Rightarrow> if i < length config then Some (handleTierChange i (card_edit te (config ! i)) config) else visualConfig
      | AddTier \<Rightarrow> Some (handleAddTier config)
      | RemoveTier i \<Rightarrow> if i < length config \<and> 1 < length config then Some (handleRemoveTier i config) else visualConfig
      | AddCondition i \<Rightarrow>
          if i < length config \<and> length (conditions_of (config ! i)) < 2 then Some (handleAddCondition i config) else visualConfig)"

section \<open>Rule groups\<close>

definition handleSourceChange :: "jstring \<Rightarrow> RequestCondition \<Rightarrow> RequestCondition" where
  "handleSourceChange src c =
     (if src = SOURCE_TIME then createEmptyTimeCondition
      else if src = SOURCE_HEADER \<or> src = SOURCE_PARAM
      then ParamHeaderCondition src (cond_path createEmptyCondition) (cond_mode createEmptyCondition) (cond_value createEmptyCondition)
      else c)"

definition rule_handleModeChange :: "jstring \<Rightarrow> RequestCondition \<Rightarrow> RequestCondition" where
  "rule_handleModeChange m c =
     (case c of
        TimeCondition f tz _ v a b \<Rightarrow> TimeCondition f tz m v a b
      | ParamHeaderCondition src p _ v \<Rightarrow> ParamHeaderCondition src p m v)"

datatype condition_edit =
    EditSource jstring
  | EditMode jstring
  | EditTimeFunc jstring
  | EditTimezone jstring
  | EditRangeStart jnum
  | EditRangeEnd jnum
  | EditTimeValue jnum
  | EditPath jstring
  | EditValue jstring

text \<open>The controls of a row; those of the other kind of condition, or of another mode, are not on the page.\<close>

definition RuleConditionRow :: "condition_edit \<Rightarrow> RequestCondition \<Rightarrow> RequestCondition" where
  "RuleConditionRow e c =
     (case (e, c) of
        (EditSource src, _) \<Rightarrow> handleSourceChange src c
      | (EditMode m, _) \<Rightarrow> rule_handleModeChange m c
      | (EditTimeFunc g, TimeCondition f tz m v a b) \<Rightarrow> TimeCondition g tz m v a b
      | (EditTimezone z, TimeCondition f tz m v a b) \<Rightarrow> TimeCondition f z m v a b
      | (EditRangeStart x, TimeCondition f tz m v a b) \<Rightarrow> if m = MATCH_RANGE then TimeCondition f tz m v (num_to_str x) b else c
      | (EditRangeEnd x, TimeCondition f tz m v a b) \<Rightarrow> if m = MATCH_RANGE then TimeCondition f tz m v a (num_to_str x) else c
      | (EditTimeValue x, TimeCondition f tz m v a b) \<Rightarrow> if m = MATCH_RANGE then c else TimeCondition f tz m (num_to_str x) a b
      | (EditPath q, ParamHeaderCondition src p m v) \<Rightarrow> ParamHeaderCondition src q m v
      | (EditValue w, ParamHeaderCondition src p m v) \<Rightarrow> if m = MATCH_EXISTS then c else ParamHeaderCondition src p m w
      | _ \<Rightarrow> c)"

datatype group_edit =
    EditRuleCondition nat condition_edit
  | AddRuleCondition bool
  | RemoveRuleCondition nat
  | EditMultiplier jnum

definition group_handleConditionChange :: "nat \<Rightarrow> RequestCondition \<Rightarrow> RequestRuleGroup \<Rightarrow> RequestRuleGroup" where
  "group_handleConditionChange k c g = g\<lparr>group_conditions := (group_conditions g)[k := c]\<rparr>"

definition group_handleAddCondition :: "bool \<Rightarrow> RequestRuleGroup \<Rightarrow> RequestRuleGroup" where
  "group_handleAddCondition timeMode g =
     g\<lparr>group_conditions := group_conditions g @ [if timeMode then createEmptyTimeCondition else createEmptyCondition]\<rparr>"

definition RuleGroupCard :: "group_edit \<Rightarrow> RequestRuleGroup \<Rightarrow> RequestRuleGroup" where
  "RuleGroupCard e g =
     (case e of
        EditRuleCondition k ce \<Rightarrow>
          if k < length (group_conditions g) then group_handleConditionChange k (RuleConditionRow ce (group_conditions g ! k)) g else g
      | AddRuleCondition timeMode \<Rightarrow> group_handleAddCondition timeMode g
      | RemoveRuleCondition k \<Rightarrow> g\<lparr>group_conditions := remove_at k (group_conditions g)\<rparr>
      | EditMultiplier x \<Rightarrow> g\<lparr>multiplier := num_to_str x\<rparr>)"

datatype groups_edit = EditGroup nat group_edit | AddGroup | RemoveGroup nat

definition groups_edited :: "groups_edit \<Rightarrow> RequestRuleGroup list \<Rightarrow> RequestRuleGroup list" where
  "groups_edited e gs =
     (case e of
        EditGroup i ge \<Rightarrow> if i < length gs then gs[i := RuleGroupCard ge (gs ! i)] else gs
      | AddGroup \<Rightarrow> gs @ [createEmptyRuleGroup]
      | RemoveGroup i \<Rightarrow> remove_at i gs)"

section \<open>Presets\<close>

record Preset =
  preset_key :: jstring
  preset_label :: jstring
  preset_expr :: jstring
  requestRules :: "RequestRuleGroup list option"

record PresetGroup =
  group_name :: jstring
  presets :: "Preset list"

definition PRESET_GROUPS :: "PresetGroup list" where
  "PRESET_GROUPS =
    [\<lparr>group_name = js ''Fixed price'',
      presets =
       [\<lparr>preset_key = js ''flat'', preset_label = js ''Flat'',
         preset_expr = js ''tier(\"base\", p * 2 + c * 4)'',
         requestRules = None\<rparr>,
        \<lparr>preset_key = js ''claude-opus'', preset_label = js ''Claude Opus 4.6'',
         preset_expr = js ''tier(\"base\", p * 5 + c * 25 + cr * 0.5 + cc * 6.25 + cc1h * 10)'',
         requestRules = None\<rparr>,
        \<lparr>preset_key = js ''gpt-5.4'', preset_label = js ''GPT-5.4'',
         preset_expr = js ''len <= 272000 ? tier(\"standard\", p * 2.5 + c * 15 + cr * 0.25) : tier(\"long_context\", p * 5 + c * 22.5 + cr * 0.5)'',
         requestRules = None\<rparr>]\<rparr>,
     \<lparr>group_name = js ''Tiered'',
      presets =
       [\<lparr>preset_key = js ''claude-sonnet'', preset_label = js ''Claude Sonnet 4.5'',
         preset_expr = js ''len <= 200000 ? tier(\"standard\", p * 3 + c * 15 + cr * 0.3 + cc * 3.75 + cc1h * 6) : tier(\"long_context\", p * 6 + c * 22.5 + cr * 0.6 + cc * 7.5 + cc1h * 12)'',
         requestRules = None\<rparr>,
        \<lparr>preset_key = js ''qwen3-max'', preset_label = js ''Qwen3 Max'',
         preset_expr = js ''len <= 32000 ? tier(\"short\", p * 1.2 + c * 6 + cr * 0.24 + cc * 1.5) : len <= 128000 ? tier(\"mid\", p * 2.4 + c * 12 + cr * 0.48 + cc * 3) : tier(\"long\", p * 3 + c * 15 + cr * 0.6 + cc * 3.75)'',
         requestRules = None\<rparr>,
        \<lparr>preset_key = js ''glm-4.5-air'', preset_label = js ''GLM-4.5 Air'',
         preset_expr = js ''len < 32000 && c < 200 ? tier(\"short_output\", p * 0.8 + c * 2 + cr * 0.16) : len < 32000 && c >= 200 ? tier(\"long_output\", p * 0.8 + c * 6 + cr * 0.16) : tier(\"mid_context\", p * 1.2 + c * 8 + cr * 0.24)'',
         requestRules = None\<rparr>,
        \<lparr>preset_key = js ''doubao-seed-1.8'', preset_label = js ''Doubao Seed 1.8'',
         preset_expr = js ''len <= 32000 && c <= 200 ? tier(\"discount\", p * 0.8 + c * 2 + cr * 0.16 + cc * 0.17) : len <= 32000 ? tier(\"short\", p * 0.8 + c * 8 + cr * 0.16 + cc * 0.17) : len <= 128000 ? tier(\"mid\", p * 1.2 + c * 16 + cr * 0.16 + cc * 0.17) : tier(\"long\", p * 2.4 + c * 24 + cr * 0.16 + cc * 0.17)'',
         requestRules = None\<rparr>]\<rparr>,
     \<lparr>group_name = js ''Multimodal'',
      presets =
       [\<lparr>preset_key = js ''gpt-image-1-mini'', preset_label = js ''GPT Image 1 Mini'',
         preset_expr = js ''tier(\"base\", p * 2 + c * 8 + img * 2.5)'',
         requestRules = None\<rparr>,
        \<lparr>preset_key = js ''gemini-2.5-flash'', preset_label = js ''Gemini 2.5 Flash'',
         preset_expr = js ''tier(\"base\", p * 0.3 + c * 2.5 + cr * 0.03 + ai * 1.0)'',
         requestRules = None\<rparr>,
        \<lparr>preset_key = js ''gemini-3-pro-image'', preset_label = js ''Gemini 3 Pro Image'',
         preset_expr = js ''tier(\"base\", p * 2 + c * 12 + img_o * 120)'',
         requestRules = None\<rparr>,
        \<lparr>preset_key = js ''qwen3-omni-flash'', preset_label = js ''Qwen3 Omni Flash'',
         preset_expr = js ''tier(\"base\", p * 0.43 + c * 3.06 + img * 0.78 + ai * 3.81 + ao * 15.11)'',
         requestRules = None\<rparr>]\<rparr>,
     \<lparr>group_name = js ''Request rule'',
      presets =
       [\<lparr>preset_key = js ''claude-opus-fast'', preset_label = js ''Claude Opus 4.6 Fast'',
         preset_expr = js ''tier(\"base\", p * 5 + c * 25 + cr * 0.5 + cc * 6.25 + cc1h * 10)'',
         requestRules = Some [\<lparr>group_conditions = [ParamHeaderCondition SOURCE_HEADER (js ''anthropic-beta'') MATCH_CONTAINS (js ''fast-mode-2026-02-01'')], multiplier = js ''6''\<rparr>]\<rparr>,
        \<lparr>preset_key = js ''gpt-5.4-tiers'', preset_label = js ''GPT-5.4 Priority/Flex'',
         preset_expr = js ''len <= 272000 ? tier(\"standard\", p * 2.5 + c * 15 + cr * 0.25) : tier(\"long_context\", p * 5 + c * 22.5 + cr * 0.5)'',
         requestRules = Some [\<lparr>group_conditions = [ParamHeaderCondition SOURCE_PARAM (js ''service_tier'') MATCH_EQ (js ''priority'')], multiplier = js ''2''\<rparr>,
           \<lparr>group_conditions = [ParamHeaderCondition SOURCE_PARAM (js ''service_tier'') MATCH_EQ (js ''flex'')], multiplier = js ''0.5''\<rparr>]\<rparr>]\<rparr>,
     \<lparr>group_name = js ''Time-based'',
      presets =
       [\<lparr>preset_key = js ''night-discount'', preset_label = js ''Night discount (50%)'',
         preset_expr = js ''tier(\"base\", p * 3 + c * 15)'',
         requestRules = Some [\<lparr>group_conditions = [TimeCondition (js ''hour'') (js ''Asia/Shanghai'') MATCH_RANGE ([]) (js ''21'') (js ''6'')], multiplier = js ''0.5''\<rparr>]\<rparr>,
        \<lparr>preset_key = js ''weekend-discount'', preset_label = js ''Weekend discount (80%)'',
         preset_expr = js ''tier(\"base\", p * 3 + c * 15)'',
         requestRules = Some [\<lparr>group_conditions = [TimeCondition (js ''weekday'') (js ''Asia/Shanghai'') MATCH_EQ (js ''0'') ([]) ([])], multiplier = js ''0.8''\<rparr>,
           \<lparr>group_conditions = [TimeCondition (js ''weekday'') (js ''Asia/Shanghai'') MATCH_EQ (js ''6'') ([]) ([])], multiplier = js ''0.8''\<rparr>]\<rparr>]\<rparr>]"

section \<open>The editor\<close>

datatype EditorMode = Visual | Raw

record TieredPricingEditor =
  editorMode :: EditorMode
  visualConfig :: "VisualConfig option"
  rawExpr :: jstring
  requestRuleGroups :: "RequestRuleGroup list"
  initRef :: bool
  modelName :: jstring
  billingExpr :: jstring
  requestRuleExpr :: jstring

definition or_none :: "'a list option \<Rightarrow> 'a list" where
  "or_none v = (case v of None \<Rightarrow> [] | Some xs \<Rightarrow> xs)"

text \<open>The first render: the initialisers of the state.\<close>

definition initial_editor :: "jstring \<Rightarrow> jstring \<Rightarrow> jstring \<Rightarrow> TieredPricingEditor throwing" where
  "initial_editor name currentExpr currentRequestRuleExpr =
     map_option (\<lambda>gs.
        \<lparr>editorMode = Visual, visualConfig = tryParseVisualConfig (Some currentExpr),
         rawExpr = combineBillingExpr currentExpr currentRequestRuleExpr, requestRuleGroups = or_none gs, initRef = False,
         modelName = name, billingExpr = currentExpr, requestRuleExpr = currentRequestRuleExpr\<rparr>)
       (tryParseRequestRuleExpr currentRequestRuleExpr)"

definition canUseVisualRules :: "TieredPricingEditor \<Rightarrow> bool throwing" where
  "canUseVisualRules s =
     (if requestRuleExpr s = [] then Some True
      else map_option (\<lambda>r. r \<noteq> None) (tryParseRequestRuleExpr (requestRuleExpr s)))"

definition effectiveExpr :: "TieredPricingEditor \<Rightarrow> jstring throwing" where
  "effectiveExpr s =
     (case editorMode s of
        Visual \<Rightarrow> Some (generateExprFromVisualConfig (visualConfig s))
      | Raw \<Rightarrow> map_option fst (splitBillingExprAndRequestRules (rawExpr s)))"

text \<open>The effect that opens the expressions of the form.\<close>

definition init_effect :: "TieredPricingEditor \<Rightarrow> TieredPricingEditor throwing" where
  "init_effect s =
     map_option (\<lambda>gs.
        (let s1 = s\<lparr>initRef := True, rawExpr := combineBillingExpr (billingExpr s) (requestRuleExpr s), requestRuleGroups := or_none gs\<rparr> in
         case tryParseVisualConfig (Some (billingExpr s)) of
           Some cfg \<Rightarrow> s1\<lparr>visualConfig := Some cfg, editorMode := Visual\<rparr>
         | None \<Rightarrow>
             if billingExpr s \<noteq> [] then s1\<lparr>visualConfig := None, editorMode := Raw\<rparr>
             else s1\<lparr>visualConfig := Some createDefaultVisualConfig\<rparr>))
       (tryParseRequestRuleExpr (requestRuleExpr s))"

text \<open>
  One round: render and the four effects in their order, with the values of the render. The first has the
  two expressions as dependencies, the second the name of the model; \<open>before\<close> are their values in the
  last round, \<open>None\<close> on the first. The other two set an expression of the form when it differs: had their
  dependencies not changed, they would have set it before. The flag says that state was set.
\<close>

type_synonym dependencies = "(jstring \<times> jstring \<times> jstring) option"

definition dependencies_of :: "TieredPricingEditor \<Rightarrow> dependencies" where
  "dependencies_of s = Some (modelName s, billingExpr s, requestRuleExpr s)"

definition opens :: "dependencies \<Rightarrow> TieredPricingEditor \<Rightarrow> bool" where
  "opens before s \<longleftrightarrow>
     \<not> initRef s \<and> (case before of None \<Rightarrow> True | Some (n, b, r) \<Rightarrow> b \<noteq> billingExpr s \<or> r \<noteq> requestRuleExpr s)"

definition renamed :: "dependencies \<Rightarrow> TieredPricingEditor \<Rightarrow> bool" where
  "renamed before s \<longleftrightarrow> (case before of None \<Rightarrow> True | Some (n, b, r) \<Rightarrow> n \<noteq> modelName s)"

definition commit :: "dependencies \<Rightarrow> TieredPricingEditor \<Rightarrow> (TieredPricingEditor \<times> bool) throwing" where
  "commit before s =
     Option.bind (effectiveExpr s) (\<lambda>eff.
     Option.bind (canUseVisualRules s) (\<lambda>_.
     Option.bind (if opens before s then init_effect s else Some s) (\<lambda>s1.
     (let pushes = (eff \<noteq> billingExpr s);
          ruleExpr = buildRequestRuleExpr (requestRuleGroups s);
          pushesRule = (editorMode s = Visual \<and> ruleExpr \<noteq> requestRuleExpr s);
          s2 = (if renamed before s then s1\<lparr>initRef := False\<rparr> else s1);
          s3 = (if pushes then s2\<lparr>billingExpr := eff\<rparr> else s2);
          s4 = (if pushesRule then s3\<lparr>requestRuleExpr := ruleExpr\<rparr> else s3) in
      Some (s4, opens before s \<or> pushes \<or> pushesRule)))))"

text \<open>Rounds until no effect sets state: \<open>None\<close> when the rounds do not suffice, \<open>Some None\<close> for an exception.\<close>

fun settle :: "nat \<Rightarrow> dependencies \<Rightarrow> TieredPricingEditor \<Rightarrow> TieredPricingEditor throwing option" where
  "settle 0 before s = None"
| "settle (Suc n) before s =
     (case commit before s of
        None \<Rightarrow> Some None
      | Some (s', again) \<Rightarrow> if again then settle n (dependencies_of s) s' else Some (Some s'))"

section \<open>Its events\<close>

definition handleVisualChange :: "VisualConfig option \<Rightarrow> TieredPricingEditor \<Rightarrow> TieredPricingEditor" where
  "handleVisualChange cfg s = s\<lparr>visualConfig := cfg\<rparr>"

definition handleRawChange :: "jstring \<Rightarrow> TieredPricingEditor \<Rightarrow> TieredPricingEditor throwing" where
  "handleRawChange v s =
     map_option (\<lambda>(_, ruleStr). s\<lparr>rawExpr := v, requestRuleExpr := ruleStr\<rparr>) (splitBillingExprAndRequestRules v)"

definition handleModeChange :: "EditorMode \<Rightarrow> TieredPricingEditor \<Rightarrow> TieredPricingEditor throwing" where
  "handleModeChange m s =
     (case m of
        Visual \<Rightarrow>
          Option.bind (splitBillingExprAndRequestRules (rawExpr s)) (\<lambda>(e, ruleStr).
          map_option (\<lambda>gs.
             s\<lparr>visualConfig := Some (case tryParseVisualConfig (Some e) of Some cfg \<Rightarrow> cfg | None \<Rightarrow> createDefaultVisualConfig),
               requestRuleGroups := or_none gs, requestRuleExpr := ruleStr, editorMode := Visual\<rparr>)
            (tryParseRequestRuleExpr ruleStr))
      | Raw \<Rightarrow>
          (let e = generateExprFromVisualConfig (visualConfig s); ruleExpr = buildRequestRuleExpr (requestRuleGroups s);
               combined = combineBillingExpr e ruleExpr in
           Some (s\<lparr>rawExpr := (if combined = [] then e else combined), editorMode := Raw\<rparr>)))"

definition applyPreset :: "Preset \<Rightarrow> TieredPricingEditor \<Rightarrow> TieredPricingEditor" where
  "applyPreset preset s =
     (let presetGroups = or_none (requestRules preset); ruleExpr = buildRequestRuleExpr presetGroups;
          combined = combineBillingExpr (preset_expr preset) ruleExpr;
          s1 = s\<lparr>rawExpr := (if combined = [] then preset_expr preset else combined),
                 requestRuleGroups := presetGroups, requestRuleExpr := ruleExpr\<rparr> in
      case tryParseVisualConfig (Some (preset_expr preset)) of
        Some cfg \<Rightarrow> s1\<lparr>visualConfig := Some cfg, editorMode := Visual\<rparr>
      | None \<Rightarrow> s1\<lparr>editorMode := Raw, visualConfig := None\<rparr>)"

definition handleRuleGroupsChange :: "RequestRuleGroup list \<Rightarrow> TieredPricingEditor \<Rightarrow> TieredPricingEditor" where
  "handleRuleGroupsChange gs s = s\<lparr>requestRuleGroups := gs\<rparr>"

datatype editor_event =
    VisualEvent visual_event
  | GroupsEvent groups_edit
  | RawEvent jstring
  | ModeEvent EditorMode
  | PresetEvent Preset
  | Rename jstring

text \<open>The controls of the mode that is shown; the rule groups are shown when their text can be read.\<close>

definition editor_react :: "editor_event \<Rightarrow> TieredPricingEditor \<Rightarrow> TieredPricingEditor throwing" where
  "editor_react e s =
     (case e of
        VisualEvent v \<Rightarrow> Some (if editorMode s = Visual then handleVisualChange (VisualEditor v (visualConfig s)) s else s)
      | GroupsEvent g \<Rightarrow>
          map_option (\<lambda>can. if editorMode s = Visual \<and> can then handleRuleGroupsChange (groups_edited g (requestRuleGroups s)) s else s)
            (canUseVisualRules s)
      | RawEvent v \<Rightarrow> if editorMode s = Raw then handleRawChange v s else Some s
      | ModeEvent m \<Rightarrow> handleModeChange m s
      | PresetEvent p \<Rightarrow> Some (applyPreset p s)
      | Rename n \<Rightarrow> Some (s\<lparr>modelName := n\<rparr>))"
section \<open>The effects come to rest\<close>

text \<open>The form holds what the editor shows.\<close>

definition in_sync :: "TieredPricingEditor \<Rightarrow> bool" where
  "in_sync s \<longleftrightarrow> effectiveExpr s = Some (billingExpr s) \<and>
     (editorMode s = Visual \<longrightarrow> buildRequestRuleExpr (requestRuleGroups s) = requestRuleExpr s)"

lemma init_effect_fields:
  "init_effect s = Some s' \<Longrightarrow> initRef s' \<and> billingExpr s' = billingExpr s \<and> requestRuleExpr s' = requestRuleExpr s \<and> modelName s' = modelName s"
  by (auto simp: init_effect_def Let_def split: option.splits if_splits)

lemma commit_cases:
  assumes "commit before s = Some (s', again)"
  obtains eff s1 where "effectiveExpr s = Some eff" "(if opens before s then init_effect s else Some s) = Some s1"
    "billingExpr s' = eff"
    "requestRuleExpr s' = (if editorMode s = Visual then buildRequestRuleExpr (requestRuleGroups s) else requestRuleExpr s)"
    "editorMode s' = editorMode s1" "visualConfig s' = visualConfig s1" "rawExpr s' = rawExpr s1"
    "requestRuleGroups s' = requestRuleGroups s1" "modelName s' = modelName s" "initRef s' = (initRef s1 \<and> \<not> renamed before s)"
    "again = (opens before s \<or> \<not> in_sync s)"
proof -
  obtain eff s1 where e: "effectiveExpr s = Some eff" "(if opens before s then init_effect s else Some s) = Some s1"
    using assms by (auto simp: commit_def bind_eq_Some_conv simp del: if_split)
  have b: "billingExpr s1 = billingExpr s" "requestRuleExpr s1 = requestRuleExpr s" "modelName s1 = modelName s"
    using e(2) init_effect_fields [of s s1] by (auto split: if_splits)
  show thesis
    by (rule that [OF e]) (use assms e b in \<open>auto simp: commit_def in_sync_def Let_def bind_eq_Some_conv split: if_splits\<close>)
qed

lemma same_effective:
  "editorMode s' = editorMode s \<Longrightarrow> visualConfig s' = visualConfig s \<Longrightarrow> rawExpr s' = rawExpr s \<Longrightarrow> effectiveExpr s' = effectiveExpr s"
  by (simp add: effectiveExpr_def split: EditorMode.splits)

lemma commit_quiet:
  assumes "commit before s = Some (s', again)" "\<not> opens before s" shows "in_sync s'"
  using assms(1)
proof (rule commit_cases)
  fix eff s1
  assume *: "effectiveExpr s = Some eff" "(if opens before s then init_effect s else Some s) = Some s1" "billingExpr s' = eff"
    "requestRuleExpr s' = (if editorMode s = Visual then buildRequestRuleExpr (requestRuleGroups s) else requestRuleExpr s)"
    "editorMode s' = editorMode s1" "visualConfig s' = visualConfig s1" "rawExpr s' = rawExpr s1"
    "requestRuleGroups s' = requestRuleGroups s1"
  then have "s1 = s" using assms(2) by simp
  then show ?thesis using * same_effective [of s' s] by (simp add: in_sync_def)
qed

lemma commit_again: "commit before s = Some (s', again) \<Longrightarrow> again = (opens before s \<or> \<not> in_sync s)"
  by (rule commit_cases)

lemma commit_init:
  assumes "commit before s = Some (s', again)" "\<not> renamed before s" "initRef s \<or> opens before s" shows "initRef s'"
  using assms(1)
proof (rule commit_cases)
  fix eff s1
  assume "(if opens before s then init_effect s else Some s) = Some s1" "initRef s' = (initRef s1 \<and> \<not> renamed before s)"
  then show ?thesis using assms(2,3) init_effect_fields [of s s1] by (auto split: if_splits)
qed

lemma next_not_renamed: "commit before s = Some (s', again) \<Longrightarrow> \<not> renamed (dependencies_of s) s'"
  by (erule commit_cases) (simp add: renamed_def dependencies_of_def)

lemma init_no_open: "initRef s \<Longrightarrow> \<not> opens before s"
  by (simp add: opens_def)

lemma settle_more: "settle n before s = Some r \<Longrightarrow> settle (n + k) before s = Some r"
  by (induction n arbitrary: before s) (auto split: option.splits if_splits)

lemma settle_one: "in_sync s \<Longrightarrow> \<not> opens before s \<Longrightarrow> settle 1 before s \<noteq> None"
  using commit_again [of before s] by (auto split: option.splits)

lemma settle_ready: "initRef s \<Longrightarrow> \<not> renamed before s \<Longrightarrow> settle 2 before s \<noteq> None"
proof -
  assume s: "initRef s" "\<not> renamed before s"
  have "settle 1 (dependencies_of s) s' \<noteq> None" if "commit before s = Some (s', again)" for s' again
    using that s init_no_open commit_quiet [OF that] commit_init [OF that] by (intro settle_one) auto
  then show ?thesis by (auto simp: numeral_2_eq_2 split: option.splits)
qed

lemma settle_open: "opens before s \<or> in_sync s \<Longrightarrow> \<not> renamed before s \<Longrightarrow> settle 3 before s \<noteq> None"
proof (cases "opens before s")
  case True
  assume s: "\<not> renamed before s"
  have "settle 2 (dependencies_of s) s' \<noteq> None" if "commit before s = Some (s', again)" for s' again
    using commit_init [OF that s] True next_not_renamed [OF that] by (intro settle_ready) auto
  then show ?thesis by (auto simp: numeral_3_eq_3 numeral_2_eq_2 split: option.splits)
next
  case False
  assume "opens before s \<or> in_sync s"
  then obtain r where "settle 1 before s = Some r" using settle_one False by blast
  then show ?thesis using settle_more [of 1 before s r 2] by (simp add: numeral_3_eq_3)
qed

lemma settle_four: "\<not> renamed before s \<Longrightarrow> settle 4 before s \<noteq> None"
proof (cases "opens before s")
  case True
  assume "\<not> renamed before s"
  then obtain r where "settle 3 before s = Some r" using settle_open True by blast
  then show ?thesis using settle_more [of 3 before s r 1] by simp
next
  case False
  have "settle 3 (dependencies_of s) s' \<noteq> None" if "commit before s = Some (s', again)" for s' again
    using commit_quiet [OF that False] next_not_renamed [OF that] by (intro settle_open) auto
  then show ?thesis by (auto simp: eval_nat_numeral split: option.splits)
qed

lemma settle_in_sync: "settle n before s = Some (Some s') \<Longrightarrow> in_sync s'"
proof (induction n arbitrary: before s)
  case (Suc n)
  show ?case
  proof (cases "commit before s")
    case (Some p)
    obtain s1 again where p: "p = (s1, again)" by (cases p)
    then have c: "commit before s = Some (s1, again)" using Some by simp
    show ?thesis
    proof (cases again)
      case True
      then show ?thesis using Suc c by auto
    next
      case False
      then show ?thesis using Suc.prems c commit_quiet [OF c] commit_again [OF c] by auto
    qed
  qed (use Suc in simp)
qed simp

text \<open>
  C8. The effects of the price editor come to rest: from any state, after at most five rounds no effect
  sets state any more, unless the reader of rules throws; and then the form holds the expression the
  editor shows and, in visual mode, the text of the rule groups.
\<close>

theorem effects_settle:
  "settle 5 before s \<noteq> None \<and> (\<forall>s'. settle 5 before s = Some (Some s') \<longrightarrow> in_sync s')"
proof -
  have "settle 4 (dependencies_of s) s' \<noteq> None" if "commit before s = Some (s', again)" for s' again
    using next_not_renamed [OF that] by (rule settle_four)
  then have "settle 5 before s \<noteq> None" by (auto simp: eval_nat_numeral split: option.splits)
  then show ?thesis using settle_in_sync by blast
qed

definition sample_editor :: TieredPricingEditor where
  "sample_editor =
     \<lparr>editorMode = Raw, visualConfig = None, rawExpr = js ''tier(x)'', requestRuleGroups = [], initRef = True,
      modelName = js ''m'', billingExpr = js ''tier(y)'', requestRuleExpr = []\<rparr>"

theorem effects_settle_witness:
  "\<exists>s'. settle 5 (dependencies_of sample_editor) sample_editor = Some (Some s') \<and> billingExpr s' = js ''tier(x)'' \<and> in_sync s'"
proof -
  have "map_option (map_option billingExpr) (settle 5 (dependencies_of sample_editor) sample_editor) = Some (Some (js ''tier(x)''))"
    by code_simp
  then obtain s' where s': "settle 5 (dependencies_of sample_editor) sample_editor = Some (Some s')" "billingExpr s' = js ''tier(x)''"
    by auto
  then show ?thesis using effects_settle [of "dependencies_of sample_editor" sample_editor] by blast
qed

section \<open>The tiers stay well formed\<close>

definition price_fields :: "jstring list" where
  "price_fields = js ''input_unit_cost'' # js ''output_unit_cost'' # map fst BILLING_CACHE_VAR_MAP"

text \<open>A tier as the cards show it: at most two conditions, one of the two cache modes and a number for every price.\<close>

definition tier_typed :: "VisualTier \<Rightarrow> bool" where
  "tier_typed t \<longleftrightarrow> vt_label t \<noteq> None \<and> vt_conditions t \<noteq> None \<and> length (conditions_of t) \<le> 2 \<and>
     vt_cache_mode t \<in> {Some CACHE_MODE_TIMED, Some CACHE_MODE_GENERIC} \<and> list_all (\<lambda>f. vt_cost t f \<noteq> None) price_fields"

definition config_typed :: "VisualConfig option \<Rightarrow> bool" where
  "config_typed cfg \<longleftrightarrow> (case cfg of None \<Rightarrow> True | Some ts \<Rightarrow> ts \<noteq> [] \<and> list_all tier_typed ts)"

text \<open>The select of the cache mode offers the two modes.\<close>

fun edit_offered :: "visual_event \<Rightarrow> bool" where
  "edit_offered (EditTier i (EditCacheMode m)) = (m = CACHE_MODE_TIMED \<or> m = CACHE_MODE_GENERIC)"
| "edit_offered _ = True"

inductive visual_step :: "VisualConfig option \<Rightarrow> VisualConfig option \<Rightarrow> bool" where
  "edit_offered e \<Longrightarrow> visual_step cfg (VisualEditor e cfg)"

inductive_cases visual_step_cases: "visual_step cfg cfg'"

lemma normal_typed:
  assumes "length (conditions_of t) \<le> 2" "vt_cache_mode t \<in> {None, Some CACHE_MODE_TIMED, Some CACHE_MODE_GENERIC}"
  shows "tier_typed (normalizeVisualTier t)"
proof -
  have "getTierCacheMode (Some t) \<in> {CACHE_MODE_TIMED, CACHE_MODE_GENERIC}"
    by (auto simp: getTierCacheMode_def split: option.splits)
  moreover have "list_all (\<lambda>f. vt_cost (normalizeVisualTier t) f \<noteq> None) price_fields"
    unfolding price_fields_def cache_fields by (simp add: normalizeVisualTier_def split: option.splits)
  ultimately show ?thesis
    using assms by (auto simp: tier_typed_def normalizeVisualTier_def conditions_of_def split: option.splits)
qed

lemma typed_edit:
  assumes "tier_typed t" "edit_offered (EditTier i e)" shows "tier_typed (normalizeVisualTier (card_edit e t))"
proof (rule normal_typed)
  show "length (conditions_of (card_edit e t)) \<le> 2"
    using assms by (cases e) (auto simp: tier_typed_def card_edit_def conditions_of_def card_handleConditionChange_def
      card_handleConditionRemove_def card_handlePriceChange_def card_handleCacheModeChange_def remove_at_def)
  show "vt_cache_mode (card_edit e t) \<in> {None, Some CACHE_MODE_TIMED, Some CACHE_MODE_GENERIC}"
    using assms by (cases e) (auto simp: tier_typed_def card_edit_def card_handleConditionChange_def
      card_handleConditionRemove_def card_handlePriceChange_def card_handleCacheModeChange_def)
qed

lemma typed_normal: "tier_typed t \<Longrightarrow> tier_typed (normalizeVisualTier t)"
  by (rule normal_typed) (auto simp: tier_typed_def)

lemma default_typed: "list_all tier_typed createDefaultVisualConfig \<and> createDefaultVisualConfig \<noteq> []"
  by (simp add: createDefaultVisualConfig_def normal_typed conditions_of_def)

lemma shown_typed: "config_typed cfg \<Longrightarrow> normalizeVisualConfig cfg \<noteq> [] \<and> list_all tier_typed (normalizeVisualConfig cfg)"
  using default_typed typed_normal
  by (auto simp: config_typed_def normalizeVisualConfig_def list_all_iff split: option.splits)

lemma typed_update: "list_all tier_typed ts \<Longrightarrow> tier_typed t \<Longrightarrow> list_all tier_typed (ts[i := t])"
  unfolding list_all_iff using set_update_subset_insert [of ts i t] by blast

lemma add_tier_typed: "list_all tier_typed ts \<Longrightarrow> list_all tier_typed (handleAddTier ts)"
proof -
  assume ts: "list_all tier_typed ts"
  have l: "tier_typed (normalizeVisualTier ((last ts)\<lparr>vt_conditions := Some [c]\<rparr>))" if "ts \<noteq> []" for c
    using ts that by (intro normal_typed) (auto simp: list_all_iff tier_typed_def conditions_of_def)
  have "list_all tier_typed (butlast ts)" using ts in_set_butlastD by (fastforce simp: list_all_iff)
  then show ?thesis using ts l by (simp add: handleAddTier_def Let_def normal_typed conditions_of_def)
qed

lemma add_condition_typed: "list_all tier_typed ts \<Longrightarrow> i < length ts \<Longrightarrow> list_all tier_typed (handleAddCondition i ts)"
proof -
  assume ts: "list_all tier_typed ts" "i < length ts"
  then have "tier_typed (ts ! i)" by (simp add: list_all_length)
  then show ?thesis using ts(1)
    by (auto simp: handleAddCondition_def Let_def tier_typed_def conditions_of_def intro!: typed_update)
qed

lemma VisualEditor_typed:
  assumes "config_typed cfg" "edit_offered e" shows "config_typed (VisualEditor e cfg)"
proof -
  have ts: "normalizeVisualConfig cfg \<noteq> []" "list_all tier_typed (normalizeVisualConfig cfg)" using shown_typed assms(1) by auto
  show ?thesis
  proof (cases e)
    case (EditTier i te)
    have "tier_typed (normalizeVisualTier (card_edit te (normalizeVisualConfig cfg ! i)))" if "i < length (normalizeVisualConfig cfg)"
      using typed_edit [of _ i te] ts(2) that assms(2) EditTier by (simp add: list_all_length)
    then show ?thesis using assms(1) ts EditTier
      by (auto simp: VisualEditor_def Let_def config_typed_def handleTierChange_def intro!: typed_update)
  next
    case AddTier
    then show ?thesis using add_tier_typed [OF ts(2)] by (simp add: VisualEditor_def config_typed_def handleAddTier_def Let_def)
  next
    case (RemoveTier i)
    then show ?thesis using assms(1) ts
      by (auto simp: VisualEditor_def Let_def config_typed_def handleRemoveTier_def remove_at_def list_all_iff dest: in_set_takeD in_set_dropD)
  next
    case (AddCondition i)
    then show ?thesis using assms(1) ts add_condition_typed [OF ts(2), of i]
      by (auto simp: VisualEditor_def Let_def config_typed_def handleAddCondition_def)
  qed
qed

interpretation tier_cards: machine_invariant "\<lambda>cfg. cfg = None" visual_step config_typed
  by unfold_locales (auto simp: config_typed_def [of None] elim!: visual_step_cases intro: VisualEditor_typed)

text \<open>
  C40. Every sequence of edits in the visual editor, from an editor without a configuration, gives at least
  one tier, and every tier has at most two conditions, one of the two cache modes, and a number in each of
  the nine price fields.
\<close>

theorem tiers_stay_typed:
  assumes "visual_step\<^sup>*\<^sup>* None (Some ts)"
  shows "ts \<noteq> [] \<and> list_all tier_typed ts"
  using tier_cards.reachable_inv [OF refl assms] by (simp add: config_typed_def)

theorem tiers_stay_typed_witness:
  "\<exists>ts. visual_step\<^sup>*\<^sup>* None (Some ts) \<and> length ts = 2 \<and> list_all tier_typed ts"
proof -
  have "VisualEditor AddTier None = Some (handleAddTier createDefaultVisualConfig)" by (simp add: VisualEditor_def normalizeVisualConfig_def)
  moreover have "length (handleAddTier createDefaultVisualConfig) = 2"
    by (simp add: handleAddTier_def createDefaultVisualConfig_def Let_def)
  ultimately show ?thesis
    using tiers_stay_typed [of "handleAddTier createDefaultVisualConfig"] visual_step.intros [of AddTier None] by auto
qed

section \<open>Switching the mode and back\<close>

text \<open>Every multiplication sign of the text is inside parentheses.\<close>

fun stars_inside :: "int \<Rightarrow> jstring \<Rightarrow> bool" where
  "stars_inside d [] = True"
| "stars_inside d (c # s) = ((c = 42 \<longrightarrow> paren_depth d c \<noteq> 0) \<and> stars_inside (paren_depth d c) s)"

lemma stars_inside_append [simp]: "stars_inside d (s @ t) \<longleftrightarrow> stars_inside d s \<and> stars_inside (depth_after d s) t"
  by (induction s arbitrary: d) auto



















lemma split_alone: "good_part (js '' * '') e \<Longrightarrow> splitBillingExprAndRequestRules e = Some (e, [])"
  using multiply_join [of "[e]"] by (simp add: splitBillingExprAndRequestRules_def good_part_def trim_id)

text \<open>A price expression and rule groups are taken apart again, also when there are no groups.\<close>

lemma written_text_splits:
  assumes "base_ok e" "good_part (js '' * '') e" "list_all group_ok gs"
  shows "combineBillingExpr e (buildRequestRuleExpr gs) \<noteq> []"
    "splitBillingExprAndRequestRules (combineBillingExpr e (buildRequestRuleExpr gs)) = Some (e, buildRequestRuleExpr gs)"
proof -
  have e: "trim e = e" "e \<noteq> []" using assms(2) by (simp_all add: good_part_def trim_id)
  then show "combineBillingExpr e (buildRequestRuleExpr gs) \<noteq> []" by (simp add: combineBillingExpr_def Let_def js_def)
  show "splitBillingExprAndRequestRules (combineBillingExpr e (buildRequestRuleExpr gs)) = Some (e, buildRequestRuleExpr gs)"
  proof (cases "gs = []")
    case True
    then have "combineBillingExpr e (buildRequestRuleExpr gs) = e" "buildRequestRuleExpr gs = []"
      using e trim_id [of "[]"] by (simp_all add: combineBillingExpr_def buildRequestRuleExpr_def filter_truthy_def trimmed_def)
    then show ?thesis using split_alone [OF assms(2)] by simp
  next
    case False
    then show ?thesis using readable_splits [OF assms(1,3)] by simp
  qed
qed







lemma presets_ok:
  "list_all (\<lambda>p. base_ok (preset_expr p) \<and> good_part (js '' * '') (preset_expr p) \<and> list_all group_ok (or_none (requestRules p)))
     (concat (map presets PRESET_GROUPS))"
  by code_simp

lemma preset_fields:
  "requestRuleGroups (applyPreset p s) = or_none (requestRules p)"
  "requestRuleExpr (applyPreset p s) = buildRequestRuleExpr (or_none (requestRules p))"
  "rawExpr (applyPreset p s) =
     (let c = combineBillingExpr (preset_expr p) (buildRequestRuleExpr (or_none (requestRules p))) in if c = [] then preset_expr p else c)"
  by (simp_all add: applyPreset_def Let_def split: option.splits)

text \<open>
  Every preset of the editor is taken apart as it was put together: after it is applied, the text of
  the expression editor splits into the price expression of the preset and the text of its rules, which is
  what the form holds, and the text of the rules is read as the groups that the preset gives.
\<close>

lemma presets_open:
  "list_all (\<lambda>p. let s' = applyPreset p s in
       splitBillingExprAndRequestRules (rawExpr s') = Some (preset_expr p, requestRuleExpr s') \<and>
       tryParseRequestRuleExpr (requestRuleExpr s') = Some (Some (requestRuleGroups s')) \<and>
       requestRuleGroups s' = or_none (requestRules p))
     (concat (map presets PRESET_GROUPS))"
proof -
  have "splitBillingExprAndRequestRules (rawExpr (applyPreset p s)) = Some (preset_expr p, buildRequestRuleExpr gs) \<and>
      tryParseRequestRuleExpr (buildRequestRuleExpr gs) = Some (Some gs)"
    if p: "base_ok (preset_expr p)" "good_part (js '' * '') (preset_expr p)" "list_all group_ok gs" "gs = or_none (requestRules p)" for p gs
    using written_text_splits [OF p(1-3)] readable_rules [OF p(3)] p(4) by (simp add: preset_fields Let_def)
  then show ?thesis using presets_ok unfolding list_all_iff Let_def preset_fields by blast
qed

section \<open>What the effects lose\<close>

text \<open>
  The second effect also runs on the first round, so that the editor opens the expressions again when the
  effects have set them. An expression that the visual editor cannot show is replaced by a price of zero
  when the editor is opened, before anything is edited; and an empty one leaves the editor in expression mode.
\<close>

definition opened :: "jstring \<Rightarrow> (EditorMode \<times> jstring) option" where
  "opened e =
     (case initial_editor (js ''m'') e [] of
        None \<Rightarrow> None
      | Some s \<Rightarrow> (case settle 5 None s of Some (Some s') \<Rightarrow> Some (editorMode s', billingExpr s') | _ \<Rightarrow> None))"

lemma raw_expression_lost: "opened (js ''max(p, c) * 2'') = Some (Raw, js ''p * 0 + c * 0'')"
  by code_simp

lemma empty_opens_raw: "opened [] = Some (Raw, js ''p * 0 + c * 0'')"
  by code_simp

text \<open>
  The first preset with rules that is applied after opening loses its price: the changed rules make the
  editor open the expressions of the form once more, and the price expression there is still the old one.
\<close>

lemma quiet_commit:
  assumes "initRef s" "\<not> renamed before s" "effectiveExpr s = Some eff" "canUseVisualRules s = Some b"
  shows "commit before s =
    Some (s\<lparr>billingExpr := eff,
            requestRuleExpr := if editorMode s = Visual then buildRequestRuleExpr (requestRuleGroups s) else requestRuleExpr s\<rparr>, \<not> in_sync s)"
  using assms by (auto simp: commit_def opens_def in_sync_def Let_def)

lemma quiet_settle:
  assumes "initRef s" "modelName s = n" "editorMode s = Visual" "visualConfig s = Some cfg" "list_all group_ok (requestRuleGroups s)"
    "canUseVisualRules s = Some b"
  shows "settle 2 (Some (n, x, y)) s =
    Some (Some (s\<lparr>billingExpr := generateExprFromVisualConfig (Some cfg), requestRuleExpr := buildRequestRuleExpr (requestRuleGroups s)\<rparr>))"
proof -
  let ?s = "s\<lparr>billingExpr := generateExprFromVisualConfig (Some cfg), requestRuleExpr := buildRequestRuleExpr (requestRuleGroups s)\<rparr>"
  have e: "effectiveExpr s = Some (generateExprFromVisualConfig (Some cfg))" "effectiveExpr ?s = Some (generateExprFromVisualConfig (Some cfg))"
    using assms(3,4) by (simp_all add: effectiveExpr_def)
  have "commit (Some (n, x, y)) s = Some (?s, \<not> in_sync s)"
    using quiet_commit [OF assms(1) _ e(1) assms(6), of "Some (n, x, y)"] assms(2,3) by (simp add: renamed_def)
  moreover obtain b' where "canUseVisualRules ?s = Some b'"
    using readable_rules [OF assms(5)] by (auto simp: canUseVisualRules_def)
  then have "commit (dependencies_of s) ?s = Some (?s, \<not> in_sync ?s)"
    using quiet_commit [of ?s "dependencies_of s", OF _ _ e(2)] assms(1,3) by (simp add: renamed_def dependencies_of_def)
  moreover have "in_sync ?s" using e(2) by (simp add: in_sync_def)
  ultimately show ?thesis by (simp add: numeral_2_eq_2)
qed

lemma preset_price_lost:
  assumes "\<not> initRef s" "billingExpr s = generateExprFromVisualConfig (Some cfg)" "config_ok cfg"
    "p \<in> set (concat (map presets PRESET_GROUPS))" "buildRequestRuleExpr (or_none (requestRules p)) \<noteq> requestRuleExpr s"
  shows "\<exists>s'. settle 5 (dependencies_of s) (applyPreset p s) = Some (Some s') \<and>
    billingExpr s' = billingExpr s \<and> requestRuleGroups s' = or_none (requestRules p)"
proof -
  let ?gs = "or_none (requestRules p)" and ?a = "applyPreset p s" and ?e = "generateExprFromVisualConfig (Some cfg)"
  have p: "base_ok (preset_expr p)" "good_part (js '' * '') (preset_expr p)" "list_all group_ok ?gs"
    using presets_ok assms(4) unfolding list_all_iff by blast+
  note read = readable_rules [OF p(3)]
  have a: "billingExpr ?a = ?e" "initRef ?a = False" "modelName ?a = modelName s" "requestRuleExpr ?a = buildRequestRuleExpr ?gs"
    using assms(1,2) by (simp_all add: applyPreset_def Let_def split: option.splits)
  have "splitBillingExprAndRequestRules (rawExpr ?a) \<noteq> None" using written_text_splits [OF p] by (simp add: preset_fields Let_def)
  then obtain eff where eff: "effectiveExpr ?a = Some eff" by (cases "editorMode ?a") (auto simp: effectiveExpr_def)
  obtain b where can: "canUseVisualRules ?a = Some b" using read by (auto simp: canUseVisualRules_def a)
  have o: "opens (dependencies_of s) ?a" "\<not> renamed (dependencies_of s) ?a"
    using assms(5) a by (simp_all add: opens_def renamed_def dependencies_of_def)
  let ?s1 = "?a\<lparr>initRef := True, rawExpr := combineBillingExpr ?e (buildRequestRuleExpr ?gs), requestRuleGroups := ?gs,
    visualConfig := Some cfg, editorMode := Visual\<rparr>"
  have "init_effect ?a = Some ?s1" using read config_read [OF assms(3)] by (simp add: init_effect_def a or_none_def)
  then have "commit (dependencies_of s) ?a =
      Some (?s1\<lparr>billingExpr := eff\<rparr>, True)" using eff can o by (simp add: commit_def Let_def preset_fields a)
  moreover have "settle 2 (dependencies_of ?a) (?s1\<lparr>billingExpr := eff\<rparr>) =
      Some (Some (?s1\<lparr>billingExpr := ?e, requestRuleExpr := buildRequestRuleExpr ?gs\<rparr>))"
    unfolding dependencies_of_def a
    by (subst quiet_settle [where cfg = cfg and b = True]) (use p read in \<open>simp_all add: a canUseVisualRules_def preset_fields\<close>)
  ultimately show ?thesis
    using settle_more [of 2 "dependencies_of ?a" "?s1\<lparr>billingExpr := eff\<rparr>" _ 2] assms(2) by (simp add: eval_nat_numeral)
qed

end
