(* ===== verification/Spec2Isabelle.thy ===== *)
theory Spec2Isabelle
  imports Go_Billing Go_Subscription_Life Model_Mapping Param_Editor Channel_Form Playground_Chat Pricing_Editor
begin

text \<open>
  A verification of LoveApi, an API gateway for language models: of its front end \<open>src/web/default/src\<close>
  (TypeScript, React) and of the billing of requests in its server (Go). In the front end, what is modelled
  is the part that decides something: what an administrator configures for a channel and for a price, how
  this is stored as text and read again, and how the playground talks to a model. In the server, it is the
  part that moves quota: wallets, tokens and subscriptions, the session that charges a request, the orders
  and the maintenance of subscriptions, and the status codes on which a request is tried again.

  \<^bold>\<open>The parts and how they interact.\<close> A channel is a provider with keys, models and settings. The form of a
  channel (\<open>channel-form.ts\<close>) reads the stored columns, two of which are JSON texts, and writes them. Next
  to it stand the checks of the model list and of the redirects (\<open>model-mapping-validation.ts\<close>,
  \<open>status-code-risk-guard.ts\<close>), the lists of status codes (\<open>http-status-code-rules.ts\<close>), and the dialog that
  edits the rules which rewrite a request (\<open>param-override-editor-dialog.tsx\<close>). The list of channels shows
  them one by one or by tag (\<open>channel-utils.ts\<close>). Prices that depend on the request are expressions: a price
  expression, times the rules on the request (\<open>billing-expr.ts\<close>); the price expression has a visual form
  (\<open>tier-expr.ts\<close>), and \<open>tiered-pricing-editor.tsx\<close> edits both, as tiers or as text. The playground sends
  chat requests and keeps the messages (\<open>features/playground\<close>).

  The server relays a request with a token of a user. Before it does, a billing session
  (\<open>service/billing_session.go\<close>) takes quota in advance from the token and from a source of funding, the
  wallet of the user or a subscription (\<open>service/funding_source.go\<close>); afterwards the session is settled with
  what the request has cost, or refunded. Wallets and tokens are rows of the database that are changed at
  once or collected and written later (\<open>model/user.go\<close>, \<open>model/token.go\<close>, \<open>model/utils.go\<close>). Subscriptions
  (\<open>model/subscription.go\<close>) are bought by orders, change the group of their user, have a quota that is reset
  periodically, and are ended by a task (\<open>service/subscription_reset_task.go\<close>). When a request fails, the
  status codes that the administrator has entered in the front end decide whether it is tried again and
  whether the channel is disabled (\<open>setting/operation_setting/status_code_ranges.go\<close>, \<open>controller/relay.go\<close>,
  \<open>service/channel.go\<close>).

  \<^bold>\<open>The theories.\<close>
  \<^item> \<open>JS_Prelude\<close>, \<open>JS_Number\<close>, \<open>JS_Json\<close>, \<open>JS_Regex\<close>: what the code uses of the language and its library.
    A string is the list of its UTF-16 code units, a number is a rational with NaN and the infinities and
    arithmetic that rounds to a double, an object is the list of its properties in the order of
    \<open>Object.keys\<close>, a regular expression is the list of its matches in the order of backtracking. The
    round trip of \<open>JSON.parse\<close> and \<open>JSON.stringify\<close> is proved here, and the locale \<open>machine_invariant\<close>
    that the invariants of all machines rest on. \<open>f64_error\<close> bounds the error of the rounding to a double.
  \<^item> \<open>Status_Codes\<close>: \<open>parseHttpStatusCodeRules\<close> with its token parser and \<open>mergeRanges\<close>. An accepted list
    selects exactly the codes of its tokens, in a normal form that is canonical; the locale
    \<open>range_normaliser\<close> is the contract of the merging.
  \<^item> \<open>Model_Mapping\<close>: the functions of the two validation modules. Each check is exact, and what it suggests
    removes what it complained about.
  \<^item> \<open>Param_Override\<close>: the rules of the override dialog, their normalisation, validation and JSON. Saved rules
    open as rules that are saved as the same text, if their values are read back as they were written.
  \<^item> \<open>Param_Editor\<close>: the dialog as a machine, one definition for each callback, with the invariant of its
    reachable states, and what saving, duplicating and switching of modes do.
  \<^item> \<open>Channel_Utils\<close>: the helpers of the channel list; the rows by tag are shown to implement a grouping of
    the channels.
  \<^item> \<open>Channel_Form\<close>: the form and its payloads. Saved settings hold those of the channel's type with the values
    of the form, keep what the form does not manage and are shown again by the form. The settings of the
    check for new models stay as they were for types whose models cannot be fetched.
  \<^item> \<open>Playground_Messages\<close>: messages, think tags, streaming and the payload of a request. Streaming in
    chunks gives the message of the whole response, if that has reasoning or no think tag.
  \<^item> \<open>Playground_Chat\<close>: storage, the hooks and the page as a machine whose environment is the event source and
    the HTTP client. Keys stay unique; stopping closes the current source and settles the last message; when
    suggestions and edits wait for the end of a stream, as the
    other controls do, only the last message is pending, and only while a source is open.
  \<^item> \<open>Billing_Expr\<close>: variables, tiers and request rules as text. A combined expression splits into
    what it was made of exactly when no rule compares a body parameter or searches in it.
  \<^item> \<open>Tier_Expr\<close>: tiers of the visual editor, their text, and the two parsers of it, which are instances of the
    locale \<open>tier_scanner\<close>. What the visual editor writes it opens again, and the price page shows it.
  \<^item> \<open>Pricing_Editor\<close>: the handlers of tiers and rules, the presets, and the editor with its two modes and its
    effects, which settle, and which keep what the form holds.
  \<^item> \<open>Go_Prelude\<close>: what the server uses of Go: 64-bit integers, \<open>TrimSpace\<close>, \<open>Atoi\<close> and \<open>Itoa\<close>.
  \<^item> \<open>Go_Status_Ranges\<close>: the server's parser of status codes, a second instance of \<open>range_normaliser\<close>, and the
    decisions on an error. The server matches exactly the codes that the page has shown; those of its list of
    codes that are never retried, which is empty, would be left out.
  \<^item> \<open>Go_Store\<close>: the tables, and the functions that change the quota of a user or a token. The locale \<open>account\<close>
    is their contract, with an instance for wallets and one for tokens. Writing the collected updates
    changes no balance but by an update whose statement fails.
  \<^item> \<open>Go_Subscription\<close>: the reset of a subscription, taking quota in advance, correcting it and giving it back.
    The used quota of a subscription with a total stays between zero and the total, with the sums of 64-bit
    integers. A charge is exact: one row is charged, others change by a due reset only. A refund that
    reports success is not repeated; one that fails may be.
  \<^item> \<open>Go_Subscription_Life\<close>: plans, orders, the functions of the administrator and the maintenance task. Every
    completed order has delivered one subscription, a subscription lasts as long as its plan says, a user returns to the former group, and the loop that
    ends subscriptions returns; the loop that resets them need not, which is shown too.
  \<^item> \<open>Go_Billing\<close>: the session and its sources. A session charges wallet and token exactly once while
    nothing fails; a refused one leaves wallets and subscriptions alone, and whatever statement fails, it never gives a wallet more than it has taken.

  \<^bold>\<open>Conventions.\<close> Definitions have the names of the source where this is possible. A callback of a component
  is a function on the record of its state variables. An exception is \<open>None\<close>; a refusal with a message is a
  value. What the code takes from outside is a parameter: the translation \<open>t\<close>, \<open>nanoid\<close>, the clock and the
  comparison \<open>localeCompare\<close>. Events from outside are steps of the machines.

  In the server, a function of the database takes the store to a result and a store. Every statement may
  fail: \<open>fault env n\<close> is the error of the n-th one, and theorems hold for every such function unless they
  say that nothing fails. A failed statement has no effect, and a transaction that fails is undone.
  Transactions of different requests do not overlap. Reads of a cache and of the clock are answered by the environment. The methods
  of a session hold its mutex and are single steps; the goroutine of a refund is a step of its own, and what
  other requests do to the wallet are steps too. \<open>None\<close> around a result is a call that does not return.

  \<^bold>\<open>Fuel and bounds.\<close> The JSON parser has a fuel of twice the length of the text plus one; \<open>p_value_fuel\<close> shows
  that more never changes the result. The loop of effects in \<open>Pricing_Editor\<close> has five rounds, and
  \<open>effects_settle\<close> proves that it comes to rest within them. All other recursion is total by itself: the
  loops over matches of a regular expression consume text, and the loop that takes off parentheses shortens
  its argument. In the server, a refund is tried three times, as in the code. The loop of a reset and the two
  loops of the maintenance task are partial functions: that the first returns for plans whose period fits a
  duration, and the second always, is proved, and for the third a store is given on which it does not.

  \<^bold>\<open>Approximations.\<close> The two zeros are one number. Upper and lower case are those of ASCII. \<open>String(x)\<close> is
  the shortest decimal that denotes the number. That it is read back is proved for safe integers; the
  round trips through text have it as the hypothesis \<open>num_ok\<close>, which evaluation decides for a given number.
  The quotas of users and tokens are exact integers; sums for subscriptions and durations wrap around. The time zone of
  the server has a fixed offset, times lie after 1970, and a plan has at most a million years where its end is
  stated. Helpers that stand for an expression or a
  constant of the source are documented where they are defined.

  \<^bold>\<open>Not modelled.\<close> Of the server, the routing, the conversion of requests for the providers, the choice of a channel,
  the price of a request in quota, logs, notifications, usage statistics and the other tables: they hand the
  billing model its inputs or read its results. The clean-up of old records needs their dates, which nothing
  else uses. \<open>src/web/classic\<close> is a second copy of
  the same modules (there \<open>parseTiersFromExpr\<close> also accepts single quotation marks). \<open>evalExprLocally\<close>
  runs its argument as JavaScript. The validation schemas are tables for the library zod. Rendering, routes,
  styles, calls of the API with their messages, and formatting of money and dates through \<open>Intl\<close> and dayjs make
  no decisions that the modelled parts depend on.
\<close>

end
